(* ===== verification/Prelude.thy ===== *)
theory Prelude
  imports Complex_Main "HOL-Library.AList" "HOL-Library.Signed_Division"
begin

text \<open>
  Shared vocabulary of the development.

  \<^item> The error values of the program (\<open>go_error\<close>), with \<open>Panic\<close> for a Go run-time panic or
    \<open>log.L.Panic\<close>, and the reasons a scheduling predicate can give (\<open>failure_reason\<close>). A fallible
    Go function returns \<open>'a res\<close>, \<open>Inl\<close> the error or \<open>Inr\<close> the value; \<open>res_bind\<close> is the
    early return \<^verbatim>\<open>if err != nil { return err }\<close>.
  \<^item> Fixed width integers are \<open>int\<close> with the wrap-around written out: \<open>i32\<close> and \<open>i64\<close> are the
    conversions to int32 and int64. Go's \<open>/\<close> and \<open>%\<close> truncate: they are \<open>sdiv\<close> and \<open>smod\<close>.
  \<^item> A Go map is an association list, whose order is the order in which a \<^verbatim>\<open>range\<close> loop visits it
    (Go leaves that order open, so statements that hold for every list hold for every order);
    lookup is \<open>map_of\<close>, assignment \<open>AList.update\<close>, \<^verbatim>\<open>delete\<close> is \<open>AList.delete\<close>.
\<close>

section \<open>Errors and results\<close>

datatype failure_reason =
    ErrNodeSelectorNotMatch
  | ErrPodAffinityRulesNotMatch
  | ErrPodNotMatchHostName
  | ErrTaintsTolerationsNotMatch
  | ErrNodeLabelPresenceViolated
  | ErrNodeNotReady
  | ErrNodeNetworkUnavailable
  | ErrNodeUnderDiskPressure
  | ErrNodeUnderPIDPressure
  | ErrNodeUnderMemoryPressure
  | ErrNodeUnschedulable
  | ErrNodeUnknownCondition
  | ErrVolumeZoneConflict
  | ErrVolumeNodeConflict
  | ErrVolumeBindConflict
  | InsufficientResource string int int int
  | FailureReason string

type_synonym failed_predicate_map = "(string \<times> failure_reason list) list"

datatype go_error =
    EmptyPodNamespace
  | EmptyPodName
  | ErrEmptyQueue
  | ErrDifferentNames
  | ErrNoMatchingPod string
  | InvalidResourceValue string string
  | SimSpecNotDefined
  | InvalidResourceUsageField
  | UnmarshalError string
  | CannotFindFile string
  | CannotParseFile string
  | CannotLoadPod string
  | NoNodeNamed string
  | ErrNoNodesAvailable
  | FitError nat nat failed_predicate_map
  | EmptyPriorities
  | EmptyUID
  | NoCorrespondingPod string
  | ResultError string
  | AggregateErrors "(go_error \<times> nat) list"
  | LogLevelNotSupported string string
  | LoggingError go_error
  | ReadConfigError go_error
  | EmptyDestination
  | FormatterNotSupported string
  | Panic string

type_synonym 'a res = "go_error + 'a"

definition is_panic :: "go_error \<Rightarrow> bool" where
  "is_panic e = (case e of Panic _ \<Rightarrow> True | _ \<Rightarrow> False)"

lemma is_panic_simps [simp]:
  "is_panic (Panic s)" "\<not> is_panic ErrEmptyQueue" "\<not> is_panic ErrNoNodesAvailable"
  "\<not> is_panic (FitError p n m)" "\<not> is_panic (NoNodeNamed s)" "\<not> is_panic (AggregateErrors es)"
  "\<not> is_panic (ResultError s)" "\<not> is_panic EmptyPriorities"
  by (simp_all add: is_panic_def)

definition res_bind :: "'a res \<Rightarrow> ('a \<Rightarrow> 'b res) \<Rightarrow> 'b res" where
  "res_bind r f = (case r of Inl e \<Rightarrow> Inl e | Inr x \<Rightarrow> f x)"

lemma res_bind_simps [simp]:
  "res_bind (Inl e) f = Inl e"
  "res_bind (Inr x) f = f x"
  by (simp_all add: res_bind_def)

lemma res_bind_Inr_iff: "res_bind r f = Inr y \<longleftrightarrow> (\<exists>x. r = Inr x \<and> f x = Inr y)"
  by (cases r) auto

lemma res_bind_Inl_iff:
  "res_bind r f = Inl e \<longleftrightarrow> r = Inl e \<or> (\<exists>x. r = Inr x \<and> f x = Inl e)"
  by (cases r) auto

text \<open>A loop whose body can fail: the first failure is the result.\<close>

fun fold_res :: "('a \<Rightarrow> 's \<Rightarrow> 's res) \<Rightarrow> 'a list \<Rightarrow> 's \<Rightarrow> 's res" where
  "fold_res f [] s = Inr s"
| "fold_res f (x # xs) s = res_bind (f x s) (\<lambda>s'. fold_res f xs s')"

lemma fold_res_append: "fold_res f (xs @ ys) s = res_bind (fold_res f xs s) (\<lambda>s'. fold_res f ys s')"
proof (induction xs arbitrary: s)
  case (Cons x xs)
  then show ?case by (cases "f x s") simp_all
qed simp

lemma fold_res_ok:
  assumes "P s" "\<And>x s. x \<in> set xs \<Longrightarrow> P s \<Longrightarrow> \<exists>s'. f x s = Inr s' \<and> P s'"
  shows "\<exists>s'. fold_res f xs s = Inr s' \<and> P s'"
  using assms
proof (induction xs arbitrary: s)
  case (Cons x xs)
  then obtain s' where "f x s = Inr s'" "P s'" by (meson list.set_intros(1))
  with Cons show ?case by auto
qed simp

lemma fold_res_invariant:
  assumes "fold_res f xs s = Inr s'" "P s" "\<And>x s s'. x \<in> set xs \<Longrightarrow> P s \<Longrightarrow> f x s = Inr s' \<Longrightarrow> P s'"
  shows "P s'"
  using assms
proof (induction xs arbitrary: s)
  case (Cons x xs)
  from Cons.prems(1) obtain s1 where s1: "f x s = Inr s1" "fold_res f xs s1 = Inr s'"
    by (auto simp: res_bind_Inr_iff)
  have "P s1" by (rule Cons.prems(3) [of x s s1]) (use Cons.prems(2) s1(1) in simp_all)
  moreover have "\<And>y t t'. y \<in> set xs \<Longrightarrow> P t \<Longrightarrow> f y t = Inr t' \<Longrightarrow> P t'"
    by (rule Cons.prems(3)) simp_all
  ultimately show ?case using Cons.IH [OF s1(2)] by blast
qed simp

section \<open>Machine integers\<close>

definition i64 :: "int \<Rightarrow> int" where
  "i64 x = signed_take_bit 63 x"

definition i32 :: "int \<Rightarrow> int" where
  "i32 x = signed_take_bit 31 x"

abbreviation max_int64 :: int where
  "max_int64 \<equiv> 9223372036854775807"

abbreviation min_int64 :: int where
  "min_int64 \<equiv> -9223372036854775808"

abbreviation max_int32 :: int where
  "max_int32 \<equiv> 2147483647"

abbreviation min_int32 :: int where
  "min_int32 \<equiv> -2147483648"

definition in64 :: "int \<Rightarrow> bool" where
  "in64 x \<longleftrightarrow> min_int64 \<le> x \<and> x \<le> max_int64"

definition in32 :: "int \<Rightarrow> bool" where
  "in32 x \<longleftrightarrow> min_int32 \<le> x \<and> x \<le> max_int32"

lemma i64_id: "in64 x \<Longrightarrow> i64 x = x"
  by (simp add: i64_def in64_def signed_take_bit_int_eq_self)

lemma i32_id: "in32 x \<Longrightarrow> i32 x = x"
  by (simp add: i32_def in32_def signed_take_bit_int_eq_self)

lemma in64_i64 [simp]: "in64 (i64 x)"
  using signed_take_bit_int_less_exp [of 63 x]
    signed_take_bit_int_greater_eq_minus_exp [of 63 x]
  by (simp add: i64_def in64_def)

lemma in32_i32 [simp]: "in32 (i32 x)"
  using signed_take_bit_int_less_exp [of 31 x]
    signed_take_bit_int_greater_eq_minus_exp [of 31 x]
  by (simp add: i32_def in32_def)

lemma i64_cong: "\<exists>k. i64 x = x + k * 18446744073709551616"
proof -
  have "i64 x = (x + 9223372036854775808) mod 18446744073709551616 - 9223372036854775808"
    by (simp add: i64_def signed_take_bit_eq_take_bit_shift take_bit_eq_mod)
  also have "\<dots> = x + (- ((x + 9223372036854775808) div 18446744073709551616)) * 18446744073709551616"
    by (simp add: minus_div_mult_eq_mod [symmetric] algebra_simps)
  finally show ?thesis by blast
qed

lemma i64_eqI: "in64 (x + k * 18446744073709551616) \<Longrightarrow> i64 x = x + k * 18446744073709551616"
proof -
  assume "in64 (x + k * 18446744073709551616)"
  then have "i64 (x + k * 18446744073709551616) = x + k * 18446744073709551616"
    by (rule i64_id)
  moreover have "i64 (x + k * 18446744073709551616) = i64 x"
    by (simp add: i64_def signed_take_bit_eq_take_bit_shift take_bit_eq_mod
        mod_mult_self3 add.assoc [symmetric] add.commute add.left_commute)
  ultimately show ?thesis by simp
qed

lemma i64_shift: "i64 (x + k * 18446744073709551616) = i64 x"
  by (simp add: i64_def signed_take_bit_eq_take_bit_shift take_bit_eq_mod
      mod_mult_self3 add.assoc [symmetric] add.commute add.left_commute)

lemma i64_add_left: "i64 (i64 a + b) = i64 (a + b)"
proof -
  obtain k where "i64 a = a + k * 18446744073709551616" using i64_cong by blast
  then have "i64 a + b = (a + b) + k * 18446744073709551616" by simp
  then show ?thesis by (simp only: i64_shift)
qed

lemma i64_diff_left: "i64 (i64 a - b) = i64 (a - b)"
  using i64_add_left [of a "- b"] by simp

lemma i64_add_diff_cancel: "in64 a \<Longrightarrow> i64 (i64 (a + b) - b) = a"
  by (simp add: i64_diff_left i64_id)

lemma i64_diff_add_cancel: "in64 a \<Longrightarrow> i64 (i64 (a - b) + b) = a"
  by (simp add: i64_add_left i64_id)

lemma i64_over: "max_int64 < x \<Longrightarrow> x \<le> max_int64 + 18446744073709551616 \<Longrightarrow> i64 x = x - 18446744073709551616"
  using i64_eqI [of x "-1"] by (simp add: in64_def)

lemma i64_under: "x < min_int64 \<Longrightarrow> min_int64 - 18446744073709551616 \<le> x \<Longrightarrow> i64 x = x + 18446744073709551616"
  using i64_eqI [of x 1] by (simp add: in64_def)

section \<open>Association lists\<close>

lemma alist_delete_keys [simp]: "fst ` set (AList.delete k al) = fst ` set al - {k}"
  using arg_cong [OF delete_keys [of k al], of set] by simp

lemma set_update_subset: "set (AList.update k v al) \<subseteq> insert (k, v) (set al)"
proof (induction al)
  case (Cons p al)
  then show ?case by (cases p) auto
qed simp

lemma ball_set_update:
  "\<forall>x \<in> set al. P x \<Longrightarrow> P (k, v) \<Longrightarrow> \<forall>x \<in> set (AList.update k v al). P x"
  using set_update_subset [of k v al] by auto

section \<open>Truncating division\<close>

lemma sdiv_smod_decomp: "(a::int) = (a sdiv b) * b + a smod b"
  by (metis sdiv_mult_smod_eq)

lemma smod_abs_less: "(b::int) \<noteq> 0 \<Longrightarrow> \<bar>a smod b\<bar> < \<bar>b\<bar>"
  using smod_int_range [of b a] by auto

end
