(* ===== verification/Clock.thy ===== *)
theory Clock
  imports Prelude
begin

text \<open>
  pkg/clock/clock.go: the simulated clock, a wrapper of \<open>metav1.Time\<close> and so of \<open>time.Time\<close>.
  An instant is the \<open>int\<close> of its nanoseconds since the Unix epoch (a \<open>time.Time\<close> spans far more
  than any simulated run, so instants do not wrap); a \<open>time.Duration\<close> is an int64 of nanoseconds,
  and \<open>time.Time.Sub\<close> saturates at its bounds. The wrapper functions NewClock,
  NewClockWithMetaV1 and ToMetaV1 are the identity on instants.
\<close>

type_synonym clock = int
type_synonym duration = int

definition second :: duration where
  "second = 1000000000"

text \<open>\<open>time.Time{}\<close>, the instant for which \<open>IsZero\<close> holds: January 1, year 1, UTC.\<close>

definition time_zero :: clock where
  "time_zero = -62135596800 * 1000000000"

definition time_IsZero :: "clock \<Rightarrow> bool" where
  "time_IsZero t \<longleftrightarrow> t = time_zero"

definition clock_Add :: "clock \<Rightarrow> duration \<Rightarrow> clock" where
  "clock_Add c dur = c + dur"

definition clock_Sub :: "clock \<Rightarrow> clock \<Rightarrow> duration" where
  "clock_Sub c rhs =
     (if c - rhs > max_int64 then max_int64
      else if c - rhs < min_int64 then min_int64
      else c - rhs)"

definition clock_Before :: "clock \<Rightarrow> clock \<Rightarrow> bool" where
  "clock_Before c rhs \<longleftrightarrow> c < rhs"

text \<open>
  \<open>int32(d.Seconds())\<close>: the whole seconds of a duration, truncated. The float64 that
  \<open>Seconds\<close> returns is exact for whole seconds below \<open>2 ^ 53\<close> (every clock of a run is the start
  clock plus a multiple of the tick, which is in whole seconds), and its fraction does not round
  up to the next second below \<open>2 ^ 22\<close> seconds.
\<close>

definition duration_Seconds_int32 :: "duration \<Rightarrow> int" where
  "duration_Seconds_int32 d = i32 (d sdiv 1000000000)"

lemma clock_Sub_exact: "in64 (c - rhs) \<Longrightarrow> clock_Sub c rhs = c - rhs"
  by (auto simp: clock_Sub_def in64_def)

lemma clock_Sub_self [simp]: "clock_Sub c c = 0"
  by (simp add: clock_Sub_def)

lemma clock_Sub_mono: "c \<le> c' \<Longrightarrow> clock_Sub c rhs \<le> clock_Sub c' rhs"
  by (auto simp: clock_Sub_def)

lemma in64_clock_Sub [simp]: "in64 (clock_Sub c rhs)"
  by (auto simp: clock_Sub_def in64_def)

lemma clock_Sub_Add: "in64 d \<Longrightarrow> clock_Sub (clock_Add c d) c = d"
  by (auto simp: clock_Sub_def clock_Add_def in64_def)

lemma clock_Sub_nonneg_iff: "0 \<le> clock_Sub c rhs \<longleftrightarrow> rhs \<le> c"
  by (auto simp: clock_Sub_def)

lemma clock_Before_Add: "0 < d \<Longrightarrow> clock_Before c (clock_Add c d)"
  by (simp add: clock_Before_def clock_Add_def)

end
