(* ===== verification/Quantity.thy ===== *)
theory Quantity
  imports Prelude
begin

text \<open>
  Kubernetes resource quantities (vendor/k8s.io/apimachinery/pkg/api/resource), as far as the
  simulator computes with them: \<open>int64Amount\<close> with its checked int64 arithmetic, the
  arbitrary precision decimal \<open>inf.Dec\<close> it falls back to, and \<open>Quantity\<close> with
  Add, Sub, Cmp, IsZero, Value and MilliValue. The string cache \<open>s\<close> of a Quantity is not part
  of the model. \<open>qval\<close> is the rational number a quantity stands for; the lemmas show that the
  two-representation arithmetic computes exactly with it.
\<close>

section \<open>Checked int64 arithmetic\<close>

definition int64Add :: "int \<Rightarrow> int \<Rightarrow> int \<times> bool" where
  "int64Add a b =
     (let c = i64 (a + b) in
      if 0 < a \<and> 0 < b then (if c < 0 then (0, False) else (c, True))
      else if a < 0 \<and> b < 0 then
        (if 0 < c then (0, False)
         else if a = min_int64 \<and> b = min_int64 then (0, False)
         else (c, True))
      else (c, True))"

definition int64MultiplyScale :: "int \<Rightarrow> int \<Rightarrow> int \<times> bool" where
  "int64MultiplyScale a b =
     (if a = 0 \<or> a = 1 then (i64 (a * b), True)
      else if a = min_int64 \<and> b \<noteq> 1 then (0, False)
      else let c = i64 (a * b) in (c, c sdiv b = a))"

fun multiplyLoop :: "int \<Rightarrow> nat \<Rightarrow> int \<times> bool" where
  "multiplyLoop value 0 = (value, True)"
| "multiplyLoop value (Suc n) =
     (case int64MultiplyScale value 10 of
        (value', True) \<Rightarrow> multiplyLoop value' n
      | (_, False) \<Rightarrow> (0, False))"

definition positiveScaleInt64 :: "int \<Rightarrow> int \<Rightarrow> int \<times> bool" where
  "positiveScaleInt64 base scale =
     (if scale = 0 then (base, True)
      else if scale = 1 then int64MultiplyScale base 10
      else if scale = 2 then int64MultiplyScale base 100
      else if scale = 3 then int64MultiplyScale base 1000
      else if scale = 6 then int64MultiplyScale base 1000000
      else if scale = 9 then int64MultiplyScale base 1000000000
      else multiplyLoop base (nat scale))"

fun divideLoop :: "int \<Rightarrow> int \<Rightarrow> bool \<Rightarrow> nat \<Rightarrow> int \<times> bool" where
  "divideLoop base value fraction 0 =
     (if fraction then (if 0 < base then value + 1 else value - 1, False) else (value, True))"
| "divideLoop base value fraction (Suc n) =
     (let fraction' = (fraction \<or> value smod 10 \<noteq> 0);
          value' = value sdiv 10
      in if value' = 0
         then (if fraction' then (if 0 < base then 1 else -1, False) else (0, True))
         else divideLoop base value' fraction' n)"

definition negativeScaleInt64 :: "int \<Rightarrow> int \<Rightarrow> int \<times> bool" where
  "negativeScaleInt64 base scale =
     (if scale = 0 then (base, True) else divideLoop base base False (nat scale))"

text \<open>\<open>pow10Int64\<close> is only called below scale 18, where its table holds the powers of ten.\<close>

definition pow10Int64 :: "int \<Rightarrow> int" where
  "pow10Int64 b = (if 0 \<le> b \<and> b \<le> 18 then 10 ^ nat b else 0)"

definition divideByScaleInt64 :: "int \<Rightarrow> int \<Rightarrow> int \<times> int \<times> bool" where
  "divideByScaleInt64 base scale =
     (if scale = 0 then (base, 0, True)
      else if 18 \<le> scale then (0, base, False)
      else let divisor = pow10Int64 scale in (base sdiv divisor, base smod divisor, True))"

section \<open>Decimals and amounts\<close>

record inf_dec =
  dec_unscaled :: int
  dec_scale :: int

definition dec_rescale :: "inf_dec \<Rightarrow> int \<Rightarrow> inf_dec" where
  "dec_rescale x newScale =
     (let shift = newScale - dec_scale x in
      if shift < 0 then \<lparr>dec_unscaled = dec_unscaled x sdiv 10 ^ nat (- shift), dec_scale = newScale\<rparr>
      else if 0 < shift then \<lparr>dec_unscaled = dec_unscaled x * 10 ^ nat shift, dec_scale = newScale\<rparr>
      else x)"

definition dec_upscale :: "inf_dec \<Rightarrow> inf_dec \<Rightarrow> inf_dec \<times> inf_dec" where
  "dec_upscale a b =
     (if dec_scale a = dec_scale b then (a, b)
      else if dec_scale a > dec_scale b then (a, dec_rescale b (dec_scale a))
      else (dec_rescale a (dec_scale b), b))"

definition dec_Add :: "inf_dec \<Rightarrow> inf_dec \<Rightarrow> inf_dec" where
  "dec_Add x y =
     (case dec_upscale x y of (xx, yy) \<Rightarrow>
        \<lparr>dec_unscaled = dec_unscaled xx + dec_unscaled yy, dec_scale = dec_scale xx\<rparr>)"

definition dec_Sub :: "inf_dec \<Rightarrow> inf_dec \<Rightarrow> inf_dec" where
  "dec_Sub x y =
     (case dec_upscale x y of (xx, yy) \<Rightarrow>
        \<lparr>dec_unscaled = dec_unscaled xx - dec_unscaled yy, dec_scale = dec_scale xx\<rparr>)"

definition dec_Cmp :: "inf_dec \<Rightarrow> inf_dec \<Rightarrow> int" where
  "dec_Cmp x y =
     (case dec_upscale x y of (xx, yy) \<Rightarrow> sgn (dec_unscaled xx - dec_unscaled yy))"

record int64_amount =
  ia_value :: int
  ia_scale :: int

definition amount_AsDec :: "int64_amount \<Rightarrow> inf_dec" where
  "amount_AsDec a = \<lparr>dec_unscaled = ia_value a, dec_scale = - ia_scale a\<rparr>"

definition amount_AsScaledInt64 :: "int64_amount \<Rightarrow> int \<Rightarrow> int \<times> bool" where
  "amount_AsScaledInt64 a scale =
     (if ia_scale a < scale
      then (fst (negativeScaleInt64 (ia_value a) (scale - ia_scale a)), True)
      else positiveScaleInt64 (ia_value a) (ia_scale a - scale))"

definition amount_Cmp :: "int64_amount \<Rightarrow> int64_amount \<Rightarrow> int" where
  "amount_Cmp a b =
     (if ia_scale a = ia_scale b then sgn (ia_value a - ia_value b)
      else if ia_scale a > ia_scale b then
        (case divideByScaleInt64 (ia_value b) (ia_scale a - ia_scale b) of (result, remainder, exact) \<Rightarrow>
           if \<not> exact then dec_Cmp (amount_AsDec a) (amount_AsDec b)
           else if result = ia_value a
             then (if remainder = 0 then 0 else if 0 < remainder then -1 else 1)
           else sgn (ia_value a - result))
      else
        (case divideByScaleInt64 (ia_value a) (ia_scale b - ia_scale a) of (result, remainder, exact) \<Rightarrow>
           if \<not> exact then dec_Cmp (amount_AsDec a) (amount_AsDec b)
           else if result = ia_value b
             then (if remainder = 0 then 0 else if 0 < remainder then 1 else -1)
           else sgn (result - ia_value b)))"

definition amount_Add :: "int64_amount \<Rightarrow> int64_amount \<Rightarrow> int64_amount \<times> bool" where
  "amount_Add a b =
     (if ia_value b = 0 then (a, True)
      else if ia_value a = 0 then (b, True)
      else if ia_scale a = ia_scale b then
        (case int64Add (ia_value a) (ia_value b) of
           (c, ok) \<Rightarrow> if \<not> ok then (a, False) else (a\<lparr>ia_value := c\<rparr>, True))
      else if ia_scale a > ia_scale b then
        (case positiveScaleInt64 (ia_value a) (ia_scale a - ia_scale b) of
           (c, ok) \<Rightarrow> if \<not> ok then (a, False)
             else (case int64Add c (ia_value b) of
               (c', ok') \<Rightarrow> if \<not> ok' then (a, False)
                 else (a\<lparr>ia_scale := ia_scale b, ia_value := c'\<rparr>, True)))
      else
        (case positiveScaleInt64 (ia_value b) (ia_scale b - ia_scale a) of
           (c, ok) \<Rightarrow> if \<not> ok then (a, False)
             else (case int64Add (ia_value a) c of
               (c', ok') \<Rightarrow> if \<not> ok' then (a, False) else (a\<lparr>ia_value := c'\<rparr>, True))))"

definition amount_Sub :: "int64_amount \<Rightarrow> int64_amount \<Rightarrow> int64_amount \<times> bool" where
  "amount_Sub a b = amount_Add a (b\<lparr>ia_value := i64 (- ia_value b)\<rparr>)"

section \<open>Quantities\<close>

datatype qformat = NoFormat | DecimalExponent | BinarySI | DecimalSI

record quantity =
  q_i :: int64_amount
  q_d :: "inf_dec option"
  q_format :: qformat

definition zero_quantity :: quantity where
  "zero_quantity = \<lparr>q_i = \<lparr>ia_value = 0, ia_scale = 0\<rparr>, q_d = None, q_format = NoFormat\<rparr>"

definition NewQuantity :: "int \<Rightarrow> qformat \<Rightarrow> quantity" where
  "NewQuantity value format = \<lparr>q_i = \<lparr>ia_value = value, ia_scale = 0\<rparr>, q_d = None, q_format = format\<rparr>"

definition NewMilliQuantity :: "int \<Rightarrow> qformat \<Rightarrow> quantity" where
  "NewMilliQuantity value format = \<lparr>q_i = \<lparr>ia_value = value, ia_scale = -3\<rparr>, q_d = None, q_format = format\<rparr>"

definition quantity_IsZero :: "quantity \<Rightarrow> bool" where
  "quantity_IsZero q = (case q_d q of Some d \<Rightarrow> dec_unscaled d = 0 | None \<Rightarrow> ia_value (q_i q) = 0)"

definition quantity_AsDec :: "quantity \<Rightarrow> inf_dec" where
  "quantity_AsDec q = (case q_d q of Some d \<Rightarrow> d | None \<Rightarrow> amount_AsDec (q_i q))"

definition quantity_ToDec :: "quantity \<Rightarrow> quantity" where
  "quantity_ToDec q =
     (if q_d q = None
      then q\<lparr>q_d := Some (amount_AsDec (q_i q)), q_i := \<lparr>ia_value = 0, ia_scale = 0\<rparr>\<rparr>
      else q)"

definition quantity_Add :: "quantity \<Rightarrow> quantity \<Rightarrow> quantity" where
  "quantity_Add q y =
     (let addDec = (\<lambda>q. (quantity_ToDec q)\<lparr>q_d :=
                Some (dec_Add (quantity_AsDec q) (quantity_AsDec y))\<rparr>)
      in if q_d q = None \<and> q_d y = None then
           (let q = (if ia_value (q_i q) = 0 then q\<lparr>q_format := q_format y\<rparr> else q)
            in case amount_Add (q_i q) (q_i y) of
                 (a, ok) \<Rightarrow> if ok then q\<lparr>q_i := a\<rparr> else addDec q)
         else addDec (if quantity_IsZero q then q\<lparr>q_format := q_format y\<rparr> else q))"

definition quantity_Sub :: "quantity \<Rightarrow> quantity \<Rightarrow> quantity" where
  "quantity_Sub q y =
     (let q = (if quantity_IsZero q then q\<lparr>q_format := q_format y\<rparr> else q);
          subDec = (quantity_ToDec q)\<lparr>q_d :=
                Some (dec_Sub (quantity_AsDec q) (quantity_AsDec y))\<rparr>
      in if q_d q = None \<and> q_d y = None then
           (case amount_Sub (q_i q) (q_i y) of
              (a, ok) \<Rightarrow> if ok then q\<lparr>q_i := a\<rparr> else subDec)
         else subDec)"

definition quantity_Cmp :: "quantity \<Rightarrow> quantity \<Rightarrow> int" where
  "quantity_Cmp q y =
     (if q_d q = None \<and> q_d y = None then amount_Cmp (q_i q) (q_i y)
      else dec_Cmp (quantity_AsDec q) (quantity_AsDec y))"

text \<open>
  \<open>int64(math.Pow10(n))\<close>: exact up to \<open>10 ^ 18\<close>; above, the conversion of a float64 out of range
  gives the smallest int64 on amd64.
\<close>

definition int64_Pow10 :: "int \<Rightarrow> int" where
  "int64_Pow10 n = (if n \<le> 18 then 10 ^ nat n else min_int64)"

definition scaledValue :: "int \<Rightarrow> int \<Rightarrow> int \<Rightarrow> int" where
  "scaledValue unscaled scale newScale =
     (let dif = scale - newScale in
      if dif = 0 then i64 unscaled
      else if dif < 0 then i64 (i64 unscaled * int64_Pow10 (- dif))
      else if unscaled < max_int64 \<and> dif < 19 then
        (let divide = int64_Pow10 dif;
             result = i64 unscaled sdiv divide;
             remainder = i64 unscaled smod divide
         in if remainder \<noteq> 0 then i64 (result + 1) else result)
      else
        (let divisor = 10 ^ nat dif;
             result = unscaled div divisor;
             remainder = unscaled mod divisor
         in if remainder \<noteq> 0 then i64 (i64 result + 1) else i64 result))"

definition quantity_ScaledValue :: "quantity \<Rightarrow> int \<Rightarrow> int" where
  "quantity_ScaledValue q scale =
     (case q_d q of
        None \<Rightarrow> fst (amount_AsScaledInt64 (q_i q) scale)
      | Some dec \<Rightarrow> scaledValue (dec_unscaled dec) (dec_scale dec) (- scale))"

definition quantity_Value :: "quantity \<Rightarrow> int" where
  "quantity_Value q = quantity_ScaledValue q 0"

definition quantity_MilliValue :: "quantity \<Rightarrow> int" where
  "quantity_MilliValue q = quantity_ScaledValue q (-3)"

section \<open>The rational a quantity stands for\<close>

definition dec_val :: "inf_dec \<Rightarrow> rat" where
  "dec_val d = of_int (dec_unscaled d) * 10 powi (- dec_scale d)"

definition amount_val :: "int64_amount \<Rightarrow> rat" where
  "amount_val a = of_int (ia_value a) * 10 powi ia_scale a"

definition qval :: "quantity \<Rightarrow> rat" where
  "qval q = (case q_d q of Some d \<Rightarrow> dec_val d | None \<Rightarrow> amount_val (q_i q))"

definition quantity_ok :: "quantity \<Rightarrow> bool" where
  "quantity_ok q \<longleftrightarrow> in64 (ia_value (q_i q))"

section \<open>The arithmetic is exact\<close>


lemma int64Add_exact:
  assumes "in64 a" "in64 b" "int64Add a b = (c, True)"
  shows "c = a + b" and "in64 c"
proof -
  have "c = a + b \<and> in64 c"
proof (cases "in64 (a + b)")
  case True
  with assms show ?thesis
    by (auto simp: int64Add_def Let_def i64_id split: if_splits)
next
  case False
  then consider "max_int64 < a + b" | "a + b < min_int64"
    by (auto simp: in64_def)
  then show ?thesis
  proof cases
    case 1
    then show ?thesis using assms
      by (auto simp: int64Add_def Let_def in64_def i64_over split: if_splits)
  next
    case 2
    then show ?thesis using assms
      by (auto simp: int64Add_def Let_def in64_def i64_under split: if_splits)
  qed
qed
  then show "c = a + b" "in64 c" by auto
qed

lemma int64Add_overflow:
  assumes "in64 a" "in64 b" "\<not> snd (int64Add a b)"
  shows "\<not> in64 (a + b)"
proof
  assume "in64 (a + b)"
  then have "i64 (a + b) = a + b" by (rule i64_id)
  with assms \<open>in64 (a + b)\<close> show False
    by (auto simp: int64Add_def Let_def in64_def split: if_splits)
qed

lemma int64MultiplyScale_exact:
  assumes "in64 a" "1 < b" "b \<le> 1000000000" "int64MultiplyScale a b = (c, True)"
  shows "c = a * b" and "in64 c"
proof -
  have "c = a * b \<and> in64 c"
proof (cases "a = 0 \<or> a = 1")
  case True
  then have "in64 (a * b)" using assms by (auto simp: in64_def)
  with True assms show ?thesis by (auto simp: int64MultiplyScale_def i64_id)
next
  case False
  then have c: "c = i64 (a * b)" and q: "c sdiv b = a"
    using assms by (auto simp: int64MultiplyScale_def Let_def split: if_splits)
  obtain k where k: "c = a * b + k * 18446744073709551616"
    using c i64_cong by blast
  have "c = a * b + c smod b"
    using sdiv_smod_decomp [of c b] q by simp
  moreover have "\<bar>c smod b\<bar> < b"
    using smod_abs_less [of b c] assms by simp
  ultimately have "k * 18446744073709551616 < 1000000000" "- 1000000000 < k * 18446744073709551616"
    using k assms by linarith+
  then have "k = 0" by linarith
  then have "c = a * b" using k by simp
  moreover have "in64 c" using c by simp
  ultimately show ?thesis by blast
qed
  then show "c = a * b" "in64 c" by auto
qed

lemma multiplyLoop_exact:
  "in64 v \<Longrightarrow> multiplyLoop v n = (c, True) \<Longrightarrow> c = v * 10 ^ n \<and> in64 c"
proof (induction v n rule: multiplyLoop.induct)
  case (2 v n)
  then obtain v' where v': "int64MultiplyScale v 10 = (v', True)" and l: "multiplyLoop v' n = (c, True)"
    by (auto split: prod.splits bool.splits)
  have "v' = v * 10" "in64 v'"
    by (rule int64MultiplyScale_exact [OF "2.prems"(1) _ _ v'], simp_all)+
  then show ?case using "2.IH" [OF v' [symmetric]] l by auto
qed simp

lemma positiveScaleInt64_exact:
  assumes "in64 v" "0 \<le> s" "positiveScaleInt64 v s = (c, True)"
  shows "c = v * 10 ^ nat s" and "in64 c"
proof -
  have "\<exists>b. s \<in> {1, 2, 3, 6, 9} \<and> b = 10 ^ nat s \<and> 1 < b \<and> b \<le> 1000000000 \<and> int64MultiplyScale v b = (c, True)
      \<or> s = 0 \<and> c = v \<or> multiplyLoop v (nat s) = (c, True)"
    using assms(3) unfolding positiveScaleInt64_def by (simp split: if_splits)
  then have "c = v * 10 ^ nat s \<and> in64 c"
    using assms(1) int64MultiplyScale_exact [of v "10 ^ nat s" c] multiplyLoop_exact [of v "nat s" c]
    by (elim exE disjE conjE) auto
  then show "c = v * 10 ^ nat s" "in64 c" by auto
qed

lemma powi_10_add: "(10::rat) powi (m + n) = 10 powi m * 10 powi n"
  by (simp add: power_int_add)

lemma powi_10_split: "(0::int) \<le> d \<Longrightarrow> (10::rat) powi (s + d) = 10 ^ nat d * 10 powi s"
  unfolding powi_10_add by (simp add: power_int_def [of _ d])

lemma amount_val_upscale:
  assumes "ia_scale b \<le> ia_scale a"
  shows "amount_val a = of_int (ia_value a * 10 ^ nat (ia_scale a - ia_scale b)) * 10 powi ia_scale b"
  using powi_10_split [of "ia_scale a - ia_scale b" "ia_scale b"] assms
  by (simp add: amount_val_def)

lemma amount_Add_same: 
  assumes "in64 (ia_value a)" "in64 c" "int64Add (ia_value a) c = (d, True)"
  shows "of_int d * x = of_int (ia_value a) * x + of_int c * (x::rat)"
  using int64Add_exact(1) [OF assms] by (simp add: distrib_right)

lemma amount_Add_exact:
  assumes "in64 (ia_value a)" "in64 (ia_value b)" "amount_Add a b = (a', True)"
  shows "amount_val a' = amount_val a + amount_val b" and "in64 (ia_value a')"
proof -
  have "amount_val a' = amount_val a + amount_val b \<and> in64 (ia_value a')"
  proof (cases "ia_value b = 0 \<or> ia_value a = 0")
    case True
    then show ?thesis using assms by (auto simp: amount_Add_def amount_val_def split: if_splits)
  next
    case nz: False
    show ?thesis
    proof (cases "ia_scale a" "ia_scale b" rule: linorder_cases)
      case equal
      obtain c ok where p: "int64Add (ia_value a) (ia_value b) = (c, ok)" by force
      then have "ok" "a' = a\<lparr>ia_value := c\<rparr>"
        using assms(3) nz equal by (simp_all add: amount_Add_def split: if_splits)
      with p equal int64Add_exact [OF assms(1,2), of c] show ?thesis
        by (simp add: amount_val_def distrib_right)
    next
      case greater
      obtain c ok where p: "positiveScaleInt64 (ia_value a) (ia_scale a - ia_scale b) = (c, ok)" by force
      obtain d ok' where q: "int64Add c (ia_value b) = (d, ok')" by force
      have ok: "ok" "ok'" "a' = a\<lparr>ia_scale := ia_scale b, ia_value := d\<rparr>"
        using assms(3) nz greater p q by (simp_all add: amount_Add_def split: if_splits)
      note c = positiveScaleInt64_exact [OF assms(1) _ p [unfolded eqTrueI [OF ok(1)]]]
      have "in64 c" using c greater by simp
      note d = int64Add_exact [OF this assms(2) q [unfolded eqTrueI [OF ok(2)]]]
      have av: "amount_val a' = of_int d * 10 powi ia_scale b" "ia_value a' = d"
        using ok(3) by (simp_all add: amount_val_def)
      show ?thesis
        using c(1) d av greater amount_val_upscale [of b a]
        by (simp add: amount_val_def [of b] distrib_right)
    next
      case less
      obtain c ok where p: "positiveScaleInt64 (ia_value b) (ia_scale b - ia_scale a) = (c, ok)" by force
      obtain d ok' where q: "int64Add (ia_value a) c = (d, ok')" by force
      have ok: "ok" "ok'" "a' = a\<lparr>ia_value := d\<rparr>"
        using assms(3) nz less p q by (simp_all add: amount_Add_def split: if_splits)
      note c = positiveScaleInt64_exact [OF assms(2) _ p [unfolded eqTrueI [OF ok(1)]]]
      have "in64 c" using c less by simp
      note d = int64Add_exact [OF assms(1) this q [unfolded eqTrueI [OF ok(2)]]]
      have av: "amount_val a' = of_int d * 10 powi ia_scale a" "ia_value a' = d"
        using ok(3) by (simp_all add: amount_val_def)
      show ?thesis
        using c(1) d av less amount_val_upscale [of a b]
        by (simp add: amount_val_def [of a] distrib_right)
    qed
  qed
  then show "amount_val a' = amount_val a + amount_val b" "in64 (ia_value a')" by auto
qed

lemma dec_rescale_val:
  assumes "dec_scale x \<le> s"
  shows "dec_val (dec_rescale x s) = dec_val x \<and> dec_scale (dec_rescale x s) = s"
proof (cases "dec_scale x = s")
  case True
  then show ?thesis by (simp add: dec_rescale_def)
next
  case False
  then have "(10::rat) powi (- dec_scale x) = 10 ^ nat (s - dec_scale x) * 10 powi (- s)"
    using powi_10_split [of "s - dec_scale x" "- s"] assms by simp
  then show ?thesis using False assms by (simp add: dec_rescale_def dec_val_def Let_def)
qed

lemma dec_upscale_val:
  assumes "dec_upscale a b = (x, y)"
  shows "dec_val x = dec_val a" "dec_val y = dec_val b" "dec_scale x = dec_scale y"
  using assms dec_rescale_val [of b "dec_scale a"] dec_rescale_val [of a "dec_scale b"]
  unfolding dec_upscale_def by (auto split: if_splits)

lemma dec_Add_exact: "dec_val (dec_Add x y) = dec_val x + dec_val y"
proof -
  obtain xx yy where u: "dec_upscale x y = (xx, yy)" by force
  then have "dec_val (dec_Add x y) = dec_val xx + dec_val yy"
    using dec_upscale_val(3) [OF u] by (simp add: dec_Add_def dec_val_def distrib_right)
  then show ?thesis using dec_upscale_val(1,2) [OF u] by simp
qed

lemma dec_Sub_exact: "dec_val (dec_Sub x y) = dec_val x - dec_val y"
proof -
  obtain xx yy where u: "dec_upscale x y = (xx, yy)" by force
  then have "dec_val (dec_Sub x y) = dec_val xx - dec_val yy"
    using dec_upscale_val(3) [OF u] by (simp add: dec_Sub_def dec_val_def left_diff_distrib)
  then show ?thesis using dec_upscale_val(1,2) [OF u] by simp
qed

lemma sgn_of_int_rat: "sgn (of_int x :: rat) = of_int (sgn x)"
  by (simp add: sgn_if)

lemma dec_Cmp_exact: "of_int (dec_Cmp x y) = sgn (dec_val x - dec_val y)"
proof -
  obtain xx yy where u: "dec_upscale x y = (xx, yy)" by force
  have "dec_val xx - dec_val yy = of_int (dec_unscaled xx - dec_unscaled yy) * 10 powi (- dec_scale yy)"
    using dec_upscale_val(3) [OF u] by (simp add: dec_val_def left_diff_distrib)
  then have "sgn (dec_val xx - dec_val yy) = sgn (of_int (dec_unscaled xx - dec_unscaled yy) :: rat)"
    by (simp only: sgn_mult) (simp add: sgn_if)
  also have "\<dots> = of_int (sgn (dec_unscaled xx - dec_unscaled yy))"
    by (rule sgn_of_int_rat)
  finally show ?thesis
    using dec_upscale_val(1,2) [OF u] by (simp add: dec_Cmp_def u)
qed

lemma amount_AsDec_val: "dec_val (amount_AsDec a) = amount_val a"
  by (simp add: dec_val_def amount_AsDec_def amount_val_def)

lemma quantity_AsDec_val: "dec_val (quantity_AsDec q) = qval q"
  by (simp add: quantity_AsDec_def qval_def amount_AsDec_val split: option.splits)

lemma quantity_Add_exact:
  assumes "quantity_ok q" "quantity_ok y"
  shows "qval (quantity_Add q y) = qval q + qval y" and "quantity_ok (quantity_Add q y)"
proof -
  obtain a ok where a: "amount_Add (q_i q) (q_i y) = (a, ok)" by force
  have "ok \<Longrightarrow> amount_val a = amount_val (q_i q) + amount_val (q_i y) \<and> in64 (ia_value a)"
    using amount_Add_exact [of "q_i q" "q_i y" a] assms a by (simp add: quantity_ok_def)
  then show "qval (quantity_Add q y) = qval q + qval y" "quantity_ok (quantity_Add q y)"
    using assms a
    by (auto simp: quantity_Add_def qval_def [of "_\<lparr>q_d := _\<rparr>"] dec_Add_exact quantity_AsDec_val
        quantity_ok_def quantity_ToDec_def Let_def in64_def)
      (auto simp: qval_def quantity_AsDec_def split: option.splits)
qed

lemma quantity_Sub_exact:
  assumes "quantity_ok q" "quantity_ok y" "ia_value (q_i y) \<noteq> min_int64"
  shows "qval (quantity_Sub q y) = qval q - qval y" and "quantity_ok (quantity_Sub q y)"
proof -
  obtain a ok where a: "amount_Sub (q_i q) (q_i y) = (a, ok)" by force
  have "in64 (- ia_value (q_i y))" using assms by (auto simp: quantity_ok_def in64_def)
  then have "ok \<Longrightarrow> amount_val a = amount_val (q_i q) - amount_val (q_i y) \<and> in64 (ia_value a)"
    using amount_Add_exact [of "q_i q" "(q_i y)\<lparr>ia_value := i64 (- ia_value (q_i y))\<rparr>" a] assms a
    by (simp add: quantity_ok_def amount_Sub_def i64_id) (simp add: amount_val_def)
  then show "qval (quantity_Sub q y) = qval q - qval y" "quantity_ok (quantity_Sub q y)"
    using assms a
    by (auto simp: quantity_Sub_def qval_def [of "_\<lparr>q_d := _\<rparr>"] dec_Sub_exact quantity_AsDec_val
        quantity_ok_def quantity_ToDec_def Let_def in64_def)
      (auto simp: qval_def quantity_AsDec_def split: option.splits)
qed

text \<open>Cmp compares the rationals: -1, 0 or 1 as the difference is negative, zero or positive.\<close>

lemma trunc_compare:
  fixes a b d :: int
  assumes "0 < d"
  shows "sgn (a * d - b) =
    (if b sdiv d = a then (if b smod d = 0 then 0 else if 0 < b smod d then -1 else 1)
     else sgn (a - b sdiv d))"
proof -
  define r m where "r = b sdiv d" and "m = b smod d"
  have b: "b = r * d + m" unfolding r_def m_def by (rule sdiv_smod_decomp)
  have m: "\<bar>m\<bar> < d" using smod_abs_less [of d b] assms by (simp add: m_def)
  have s: "a * d - b = (a - r) * d - m" by (simp add: b algebra_simps)
  consider "a = r" | "a < r" | "a > r" by linarith
  then have "sgn (a * d - b) = (if r = a then (if m = 0 then 0 else if 0 < m then -1 else 1) else sgn (a - r))"
  proof cases
    case 1
    then show ?thesis unfolding s by (simp add: sgn_if)
  next
    case 2
    then have "(a - r) * d \<le> (-1) * d" using assms by (intro mult_right_mono) auto
    then have "(a - r) * d - m < 0" using m by linarith
    then show ?thesis using 2 unfolding s by simp
  next
    case 3
    then have "1 * d \<le> (a - r) * d" using assms by (intro mult_right_mono) auto
    then have "0 < (a - r) * d - m" using m by linarith
    then show ?thesis using 3 unfolding s by simp
  qed
  then show ?thesis by (simp add: r_def m_def)
qed

lemma amount_diff_sgn:
  assumes "ia_scale b \<le> ia_scale a"
  shows "sgn (amount_val a - amount_val b)
    = of_int (sgn (ia_value a * 10 ^ nat (ia_scale a - ia_scale b) - ia_value b))"
proof -
  have "amount_val a - amount_val b
      = of_int (ia_value a * 10 ^ nat (ia_scale a - ia_scale b) - ia_value b) * 10 powi ia_scale b"
    using amount_val_upscale [OF assms] by (simp add: amount_val_def [of b] left_diff_distrib)
  then have "sgn (amount_val a - amount_val b)
      = sgn (of_int (ia_value a * 10 ^ nat (ia_scale a - ia_scale b) - ia_value b) :: rat)"
    by (simp only: sgn_mult) (simp add: sgn_if)
  also have "\<dots> = of_int (sgn (ia_value a * 10 ^ nat (ia_scale a - ia_scale b) - ia_value b))"
    by (rule sgn_of_int_rat)
  finally show ?thesis .
qed

lemma divideByScaleInt64_exact:
  "0 < s \<Longrightarrow> divideByScaleInt64 v s = (r, m, True) \<Longrightarrow> r = v sdiv 10 ^ nat s \<and> m = v smod 10 ^ nat s"
  by (auto simp: divideByScaleInt64_def pow10Int64_def Let_def split: if_splits)

lemma dec_Cmp_amount:
  "of_int (dec_Cmp (amount_AsDec a) (amount_AsDec b)) = sgn (amount_val a - amount_val b)"
  by (simp add: dec_Cmp_exact amount_AsDec_val)

lemma amount_Cmp_exact: "of_int (amount_Cmp a b) = sgn (amount_val a - amount_val b)"
proof (cases "ia_scale a" "ia_scale b" rule: linorder_cases)
  case equal
  then show ?thesis using amount_diff_sgn [of b a] by (simp add: amount_Cmp_def)
next
  case greater
  obtain r m ok where d: "divideByScaleInt64 (ia_value b) (ia_scale a - ia_scale b) = (r, m, ok)"
    by (rule prod_cases3)
  show ?thesis
  proof (cases ok)
    case True
    with d greater divideByScaleInt64_exact [of "ia_scale a - ia_scale b" "ia_value b" r m]
    have rm: "r = ia_value b sdiv 10 ^ nat (ia_scale a - ia_scale b)"
      "m = ia_value b smod 10 ^ nat (ia_scale a - ia_scale b)" by auto
    have "amount_Cmp a b = sgn (ia_value a * 10 ^ nat (ia_scale a - ia_scale b) - ia_value b)"
      unfolding trunc_compare [of "10 ^ nat (ia_scale a - ia_scale b)", simplified] rm [symmetric]
      using greater d True by (simp add: amount_Cmp_def)
    then show ?thesis using amount_diff_sgn [of b a] greater by simp
  next
    case False
    with d greater have "amount_Cmp a b = dec_Cmp (amount_AsDec a) (amount_AsDec b)"
      by (simp add: amount_Cmp_def)
    then show ?thesis by (simp add: dec_Cmp_amount)
  qed
next
  case less
  obtain r m ok where d: "divideByScaleInt64 (ia_value a) (ia_scale b - ia_scale a) = (r, m, ok)"
    by (rule prod_cases3)
  show ?thesis
  proof (cases ok)
    case True
    with d less divideByScaleInt64_exact [of "ia_scale b - ia_scale a" "ia_value a" r m]
    have rm: "r = ia_value a sdiv 10 ^ nat (ia_scale b - ia_scale a)"
      "m = ia_value a smod 10 ^ nat (ia_scale b - ia_scale a)" by auto
    have "- amount_Cmp a b = sgn (ia_value b * 10 ^ nat (ia_scale b - ia_scale a) - ia_value a)"
      unfolding trunc_compare [of "10 ^ nat (ia_scale b - ia_scale a)", simplified] rm [symmetric]
      using less d True by (simp add: amount_Cmp_def) (simp add: sgn_if)
    then have "of_int (- amount_Cmp a b) = sgn (amount_val b - amount_val a)"
      using amount_diff_sgn [of a b] less by simp
    then show ?thesis by (simp add: sgn_if split: if_splits)
  next
    case False
    with d less have "amount_Cmp a b = dec_Cmp (amount_AsDec a) (amount_AsDec b)"
      by (simp add: amount_Cmp_def)
    then show ?thesis by (simp add: dec_Cmp_amount)
  qed
qed

lemma quantity_Cmp_exact: "of_int (quantity_Cmp q y) = sgn (qval q - qval y)"
  by (auto simp: quantity_Cmp_def amount_Cmp_exact dec_Cmp_exact quantity_AsDec_val qval_def
      split: option.splits)
   
lemma quantity_Cmp_less: "quantity_Cmp q y < 0 \<longleftrightarrow> qval q < qval y"
  and quantity_Cmp_greater: "0 < quantity_Cmp q y \<longleftrightarrow> qval y < qval q"
proof -
  have "quantity_Cmp q y < 0 \<longleftrightarrow> (of_int (quantity_Cmp q y) :: rat) < 0" by simp
  also have "\<dots> \<longleftrightarrow> qval q < qval y"
    unfolding quantity_Cmp_exact by (simp add: sgn_if)
  finally show "quantity_Cmp q y < 0 \<longleftrightarrow> qval q < qval y" .
  have "0 < quantity_Cmp q y \<longleftrightarrow> 0 < (of_int (quantity_Cmp q y) :: rat)" by simp
  also have "\<dots> \<longleftrightarrow> qval y < qval q"
    unfolding quantity_Cmp_exact by (simp add: sgn_if)
  finally show "0 < quantity_Cmp q y \<longleftrightarrow> qval y < qval q" .
qed


definition ceil_away :: "int \<Rightarrow> int \<Rightarrow> int" where
  "ceil_away v d = v sdiv d + (if v smod d = 0 then 0 else sgn v)"

lemma sdiv_pos: "0 \<le> (a::int) \<Longrightarrow> 0 < d \<Longrightarrow> a sdiv d = a div d"
  by (simp add: signed_divide_int_def sgn_if)

lemma smod_pos: "0 \<le> (a::int) \<Longrightarrow> 0 < d \<Longrightarrow> a smod d = a mod d"
  by (simp add: smod_mod_positive)

lemma divideLoop_pos:
  assumes "0 \<le> b"
  shows "divideLoop b (b div 10 ^ k) (b mod 10 ^ k \<noteq> 0) n =
     (b div 10 ^ (k + n) + (if b mod 10 ^ (k + n) = 0 then 0 else sgn b), b mod 10 ^ (k + n) = 0)"
proof (induction n arbitrary: k)
  case 0
  show ?case using assms by (auto simp: sgn_if)
next
  case (Suc n)
  have d: "b div 10 ^ k div 10 = b div 10 ^ Suc k"
    using zdiv_zmult2_eq [of 10 b "10 ^ k"] by (simp only: power_Suc2)
  have m: "b mod 10 ^ Suc k = 10 ^ k * (b div 10 ^ k mod 10) + b mod 10 ^ k"
    using zmod_zmult2_eq [of 10 b "10 ^ k"] by (simp only: power_Suc2)
  have f: "(b mod 10 ^ k \<noteq> 0 \<or> b div 10 ^ k mod 10 \<noteq> 0) \<longleftrightarrow> b mod 10 ^ Suc k \<noteq> 0"
    unfolding m using pos_mod_sign [of "10 ^ k" b] pos_mod_sign [of 10 "b div 10 ^ k"]
    by (smt (verit) mult_nonneg_nonneg zero_less_power mult_eq_0_iff)
  have nn: "0 \<le> b div 10 ^ k" using assms by (simp add: pos_imp_zdiv_nonneg_iff)
  show ?case
  proof (cases "b div 10 ^ Suc k = 0")
    case True
    then have lt: "b < 10 ^ Suc k"
      using assms zdiv_eq_0_iff [of b "10 ^ Suc k"] zero_less_power [of "10::int" "Suc k"] by linarith
    moreover have "(10::int) ^ Suc k \<le> 10 ^ (k + Suc n)" by (rule power_increasing) auto
    ultimately have "b < 10 ^ (k + Suc n)" by linarith
    then have "b div 10 ^ (k + Suc n) = 0" "b mod 10 ^ (k + Suc n) = b" "b mod 10 ^ Suc k = b"
      using assms lt by simp_all
    then show ?thesis using True f d nn assms
      by (simp add: Let_def sdiv_pos smod_pos sgn_if)
  next
    case False
    then show ?thesis using f d nn Suc.IH [of "Suc k"]
      by (simp add: Let_def sdiv_pos smod_pos)
  qed
qed

lemma divideLoop_neg:
  "b \<le> 0 \<Longrightarrow> divideLoop (- b) (- v) f n = (\<lambda>(r, e). (- r, e)) (divideLoop b v f n)" if "b \<noteq> 0"
  using that by (induction n arbitrary: v f) (auto simp: Let_def)

lemma negativeScaleInt64_exact:
  assumes "0 \<le> s"
  shows "negativeScaleInt64 v s = (ceil_away v (10 ^ nat s), v smod 10 ^ nat s = 0)"
proof (cases "0 \<le> v")
  case True
  then show ?thesis
    using divideLoop_pos [of v 0 "nat s"] assms
    by (auto simp: negativeScaleInt64_def ceil_away_def sdiv_pos smod_pos)
next
  case False
  have "divideLoop v v False (nat s) = (\<lambda>(r, e). (- r, e)) (divideLoop (- v) (- v) False (nat s))"
    using divideLoop_neg [of v v False "nat s"] False by (simp split: prod.splits)
  also have "divideLoop (- v) (- v) False (nat s) = (ceil_away (- v) (10 ^ nat s), (- v) smod 10 ^ nat s = 0)"
    using divideLoop_pos [of "- v" 0 "nat s"] False
    by (simp add: ceil_away_def sdiv_pos [of "- v", symmetric] smod_pos [of "- v", symmetric] del: minus_smod_eq minus_sdiv_eq)
  finally show ?thesis
    using False by (auto simp: negativeScaleInt64_def ceil_away_def)
qed

lemma quantity_Value_exact:
  assumes "q_d q = None" "ia_scale (q_i q) \<le> 0"
  shows "quantity_Value q = ceil_away (ia_value (q_i q)) (10 ^ nat (- ia_scale (q_i q)))"
proof (cases "ia_scale (q_i q) = 0")
  case True
  then show ?thesis using assms
    by (simp add: quantity_Value_def quantity_ScaledValue_def amount_AsScaledInt64_def
        positiveScaleInt64_def ceil_away_def smod_int_alt_def)
next
  case False
  then show ?thesis using assms negativeScaleInt64_exact [of "- ia_scale (q_i q)" "ia_value (q_i q)"]
    by (simp add: quantity_Value_def quantity_ScaledValue_def amount_AsScaledInt64_def)
qed

end
