(* ===== verification/Api.thy ===== *)
theory Api
  imports Clock Quantity
begin

text \<open>
  The part of the Kubernetes API objects (vendor/k8s.io/api/core/v1) the simulator reads and
  writes: resource lists, containers, pod conditions and statuses, pods and nodes.

  The program shares \<open>*v1.Pod\<close> pointers between its queue, its nodes and the scheduler and
  mutates pods through them. A pointer is a \<open>pod_ptr\<close> and the objects live in a store
  \<open>pods :: pod_ptr \<Rightarrow> v1_pod\<close> that is passed through and returned by every operation that writes a
  pod. Nodes are never written after the cluster is built, so a \<open>*v1.Node\<close> is its value.
\<close>

type_synonym resource_list = "(string \<times> quantity) list"

datatype condition_type = PodScheduled | PodInitialized | PodReady | OtherCondition string

datatype condition_status = ConditionTrue | ConditionFalse | ConditionUnknown

record pod_condition =
  pc_Type :: condition_type
  pc_Status :: condition_status
  pc_LastProbeTime :: clock
  pc_LastTransitionTime :: clock
  pc_Reason :: string
  pc_Message :: string

datatype pod_phase = PodPhaseUnset | PodPending | PodRunning | PodSucceeded | PodFailed

datatype container_state =
    ContainerRunning clock
  | ContainerTerminated int string string clock clock

record container_status =
  cs_Name :: string
  cs_State :: container_state
  cs_Ready :: bool
  cs_RestartCount :: int
  cs_Image :: string

record pod_status =
  ps_Phase :: pod_phase
  ps_Conditions :: "pod_condition list"
  ps_Reason :: string
  ps_Message :: string
  ps_NominatedNodeName :: string
  ps_StartTime :: "clock option"
  ps_ContainerStatuses :: "container_status list"

record container =
  ct_Name :: string
  ct_Image :: string
  ct_Requests :: resource_list
  ct_Limits :: resource_list

record v1_pod =
  pod_Namespace :: string
  pod_Name :: string
  pod_UID :: string
  pod_Annotations :: "(string \<times> string) list"
  pod_CreationTimestamp :: clock
  pod_DeletionTimestamp :: "clock option"
  pod_NodeName :: string
  pod_Priority :: "int option"
  pod_GracePeriod :: "int option"
  pod_Containers :: "container list"
  pod_InitContainers :: "container list"
  pod_Status :: pod_status

type_synonym pod_ptr = nat
type_synonym pods = "pod_ptr \<Rightarrow> v1_pod"

record v1_node =
  node_Name :: string
  node_Allocatable :: resource_list

definition empty_status :: pod_status where
  "empty_status = \<lparr>ps_Phase = PodPhaseUnset, ps_Conditions = [], ps_Reason = [], ps_Message = [],
     ps_NominatedNodeName = [], ps_StartTime = None, ps_ContainerStatuses = []\<rparr>"

definition empty_pod :: v1_pod where
  "empty_pod = \<lparr>pod_Namespace = [], pod_Name = [], pod_UID = [], pod_Annotations = [],
     pod_CreationTimestamp = time_zero, pod_DeletionTimestamp = None, pod_NodeName = [],
     pod_Priority = None, pod_GracePeriod = None, pod_Containers = [], pod_InitContainers = [],
     pod_Status = empty_status\<rparr>"

definition set_status :: "pods \<Rightarrow> pod_ptr \<Rightarrow> pod_status \<Rightarrow> pods" where
  "set_status ps p s = ps(p := (ps p)\<lparr>pod_Status := s\<rparr>)"

definition set_nominated :: "pods \<Rightarrow> pod_ptr \<Rightarrow> string \<Rightarrow> pods" where
  "set_nominated ps p n = set_status ps p ((pod_Status (ps p))\<lparr>ps_NominatedNodeName := n\<rparr>)"

text \<open>
  What no operation of the simulator ever changes of a submitted pod: everything but its status,
  its deletion timestamp, its node name, and (while it is submitted) its UID, creation time and
  phase. \<open>same_static\<close> relates two stores that agree on it.
\<close>

definition pod_static :: "v1_pod \<Rightarrow> v1_pod" where
  "pod_static p = p\<lparr>pod_UID := [], pod_CreationTimestamp := 0, pod_DeletionTimestamp := None,
     pod_NodeName := [], pod_Status := empty_status\<rparr>"

definition same_static :: "pods \<Rightarrow> pods \<Rightarrow> bool" where
  "same_static ps ps' \<longleftrightarrow> (\<forall>p. pod_static (ps p) = pod_static (ps' p))"

lemma same_static_refl [simp]: "same_static ps ps"
  by (simp add: same_static_def)

lemma same_static_trans: "same_static a b \<Longrightarrow> same_static b c \<Longrightarrow> same_static a c"
  by (simp add: same_static_def)

lemma pod_static_fields:
  assumes "pod_static p = pod_static q"
  shows "pod_Namespace p = pod_Namespace q" "pod_Name p = pod_Name q"
    "pod_Priority p = pod_Priority q" "pod_GracePeriod p = pod_GracePeriod q"
    "pod_Containers p = pod_Containers q" "pod_InitContainers p = pod_InitContainers q"
    "pod_Annotations p = pod_Annotations q"
  using assms by (cases p; cases q; simp add: pod_static_def)+

lemma same_static_fields:
  assumes "same_static ps ps'"
  shows "pod_Namespace (ps p) = pod_Namespace (ps' p)" "pod_Name (ps p) = pod_Name (ps' p)"
    "pod_Priority (ps p) = pod_Priority (ps' p)" "pod_GracePeriod (ps p) = pod_GracePeriod (ps' p)"
    "pod_Containers (ps p) = pod_Containers (ps' p)"
    "pod_InitContainers (ps p) = pod_InitContainers (ps' p)"
    "pod_Annotations (ps p) = pod_Annotations (ps' p)"
  using assms pod_static_fields [of "ps p" "ps' p"] by (simp_all add: same_static_def)

lemma same_static_set_status [simp]: "same_static ps (set_status ps p s)"
  by (simp add: same_static_def set_status_def pod_static_def)

lemma same_static_set_nominated [simp]: "same_static ps (set_nominated ps p n)"
  by (simp add: set_nominated_def)

lemma set_status_simps [simp]:
  "pod_Namespace (set_status ps p s q) = pod_Namespace (ps q)"
  "pod_Name (set_status ps p s q) = pod_Name (ps q)"
  "pod_UID (set_status ps p s q) = pod_UID (ps q)"
  "pod_CreationTimestamp (set_status ps p s q) = pod_CreationTimestamp (ps q)"
  "pod_DeletionTimestamp (set_status ps p s q) = pod_DeletionTimestamp (ps q)"
  "pod_Priority (set_status ps p s q) = pod_Priority (ps q)"
  "pod_GracePeriod (set_status ps p s q) = pod_GracePeriod (ps q)"
  "pod_Containers (set_status ps p s q) = pod_Containers (ps q)"
  "pod_InitContainers (set_status ps p s q) = pod_InitContainers (ps q)"
  "pod_NodeName (set_status ps p s q) = pod_NodeName (ps q)"
  "pod_Status (set_status ps p s p) = s"
  by (simp_all add: set_status_def)

end
