(* ===== verification/Util.thy ===== *)
theory Util
  imports Api
begin

text \<open>
  pkg/util: arithmetic and comparison of resource lists, pod priorities and keys, and the
  update of pod conditions. \<open>resource.ParseQuantity\<close> is a parameter (\<open>parse\<close>, None for an
  error). \<open>rl_val\<close> reads a resource list as a function from resource names to rationals.
\<close>

section \<open>Resource lists\<close>

fun BuildResourceList_loop ::
  "(string \<Rightarrow> quantity option) \<Rightarrow> resource_list \<Rightarrow> (string \<times> string) list \<Rightarrow> resource_list res" where
  "BuildResourceList_loop parse resourceList [] = Inr resourceList"
| "BuildResourceList_loop parse resourceList ((key, value) # resources) =
     (case parse value of
        None \<Rightarrow> Inl (InvalidResourceValue key value)
      | Some quantity \<Rightarrow>
          BuildResourceList_loop parse (AList.update key quantity resourceList) resources)"

definition BuildResourceList ::
  "(string \<Rightarrow> quantity option) \<Rightarrow> (string \<times> string) list \<Rightarrow> resource_list res" where
  "BuildResourceList parse resources = BuildResourceList_loop parse [] resources"

fun ResourceListSum :: "resource_list \<Rightarrow> resource_list \<Rightarrow> resource_list" where
  "ResourceListSum acc [] = acc"
| "ResourceListSum acc ((r2Key, r2Val) # r2) =
     (case map_of acc r2Key of
        Some r1Val \<Rightarrow> ResourceListSum (AList.update r2Key (quantity_Add r1Val r2Val) acc) r2
      | None \<Rightarrow> ResourceListSum (AList.update r2Key r2Val acc) r2)"

fun ResourceListMax :: "resource_list \<Rightarrow> resource_list \<Rightarrow> resource_list" where
  "ResourceListMax mx [] = mx"
| "ResourceListMax mx ((r2Key, r2Val) # r2) =
     (case map_of mx r2Key of
        Some r1Val \<Rightarrow>
          ResourceListMax (if quantity_Cmp r1Val r2Val < 0 then AList.update r2Key r2Val mx else mx) r2
      | None \<Rightarrow> ResourceListMax (AList.update r2Key r2Val mx) r2)"

fun ResourceListMin :: "resource_list \<Rightarrow> resource_list \<Rightarrow> resource_list" where
  "ResourceListMin mn [] = mn"
| "ResourceListMin mn ((r2Key, r2Val) # r2) =
     (case map_of mn r2Key of
        Some r1Val \<Rightarrow>
          ResourceListMin (if quantity_Cmp r1Val r2Val > 0 then AList.update r2Key r2Val mn else mn) r2
      | None \<Rightarrow> ResourceListMin (AList.update r2Key r2Val mn) r2)"

fun ResourceListSub :: "resource_list \<Rightarrow> resource_list \<Rightarrow> resource_list" where
  "ResourceListSub acc [] = acc"
| "ResourceListSub acc ((r2Key, r2Val) # r2) =
     (case map_of acc r2Key of
        Some r1Val \<Rightarrow> ResourceListSub (AList.update r2Key (quantity_Sub r1Val r2Val) acc) r2
      | None \<Rightarrow> ResourceListSub (AList.update r2Key r2Val acc) r2)"

fun ResourceListGE :: "resource_list \<Rightarrow> resource_list \<Rightarrow> bool" where
  "ResourceListGE r1 [] = True"
| "ResourceListGE r1 ((r2Key, r2Val) # r2) =
     (case map_of r1 r2Key of
        None \<Rightarrow> False
      | Some r1Val \<Rightarrow> if quantity_Cmp r1Val r2Val < 0 then False else ResourceListGE r1 r2)"

fun ResourceListLE :: "resource_list \<Rightarrow> resource_list \<Rightarrow> bool" where
  "ResourceListLE r1 [] = True"
| "ResourceListLE r1 ((r2Key, r2Val) # r2) =
     (case map_of r1 r2Key of
        None \<Rightarrow> False
      | Some r1Val \<Rightarrow> if quantity_Cmp r1Val r2Val > 0 then False else ResourceListLE r1 r2)"

fun sumRequests_loop :: "resource_list \<Rightarrow> container list \<Rightarrow> resource_list" where
  "sumRequests_loop result [] = result"
| "sumRequests_loop result (container # containers) =
     sumRequests_loop (ResourceListSum result (ct_Requests container)) containers"

definition PodTotalResourceRequests :: "v1_pod \<Rightarrow> resource_list" where
  "PodTotalResourceRequests pod = sumRequests_loop [] (pod_Containers pod)"

section \<open>Priorities and keys\<close>

definition DefaultPriorityWhenNoDefaultClassExists :: int where
  "DefaultPriorityWhenNoDefaultClassExists = 0"

definition PodPriority :: "v1_pod \<Rightarrow> int" where
  "PodPriority pod =
     (case pod_Priority pod of
        None \<Rightarrow> DefaultPriorityWhenNoDefaultClassExists
      | Some prio \<Rightarrow> prio)"

definition PodKeyFromNames :: "string \<Rightarrow> string \<Rightarrow> string" where
  "PodKeyFromNames namespace name = namespace @ ''/'' @ name"

definition PodKey :: "v1_pod \<Rightarrow> string res" where
  "PodKey pod =
     (if pod_Namespace pod = [] then Inl EmptyPodNamespace
      else if pod_Name pod = [] then Inl EmptyPodName
      else Inr (PodKeyFromNames (pod_Namespace pod) (pod_Name pod)))"

section \<open>Pod conditions\<close>

fun GetPodConditionFromList :: "nat \<Rightarrow> pod_condition list \<Rightarrow> condition_type \<Rightarrow> (nat \<times> pod_condition) option" where
  "GetPodConditionFromList i [] conditionType = None"
| "GetPodConditionFromList i (c # conditions) conditionType =
     (if pc_Type c = conditionType then Some (i, c)
      else GetPodConditionFromList (Suc i) conditions conditionType)"

definition GetPodCondition :: "pod_status \<Rightarrow> condition_type \<Rightarrow> (nat \<times> pod_condition) option" where
  "GetPodCondition status conditionType = GetPodConditionFromList 0 (ps_Conditions status) conditionType"

definition UpdatePodCondition :: "clock \<Rightarrow> pod_status \<Rightarrow> pod_condition \<Rightarrow> pod_status \<times> bool" where
  "UpdatePodCondition clk status condition =
     (let condition = condition\<lparr>pc_LastTransitionTime := clk\<rparr>
      in case GetPodCondition status (pc_Type condition) of
           None \<Rightarrow> (status\<lparr>ps_Conditions := ps_Conditions status @ [condition]\<rparr>, True)
         | Some (conditionIndex, oldCondition) \<Rightarrow>
             let condition =
                   (if pc_Status condition = pc_Status oldCondition
                    then condition\<lparr>pc_LastTransitionTime := pc_LastTransitionTime oldCondition\<rparr>
                    else condition);
                 isEqual =
                   (pc_Status condition = pc_Status oldCondition \<and>
                    pc_Reason condition = pc_Reason oldCondition \<and>
                    pc_Message condition = pc_Message oldCondition \<and>
                    pc_LastProbeTime condition = pc_LastProbeTime oldCondition \<and>
                    pc_LastTransitionTime condition = pc_LastTransitionTime oldCondition)
             in (status\<lparr>ps_Conditions := (ps_Conditions status)[conditionIndex := condition]\<rparr>,
                 \<not> isEqual))"

section \<open>Lemmas on resource lists\<close>

definition rl_ok :: "resource_list \<Rightarrow> bool" where
  "rl_ok rl \<longleftrightarrow> distinct (map fst rl) \<and> (\<forall>(k, q) \<in> set rl. quantity_ok q)"

definition rl_keys :: "resource_list \<Rightarrow> string set" where
  "rl_keys rl = fst ` set rl"

definition rl_val :: "resource_list \<Rightarrow> string \<Rightarrow> rat" where
  "rl_val rl k = (case map_of rl k of None \<Rightarrow> 0 | Some q \<Rightarrow> qval q)"

lemma rl_ok_Nil [simp]: "rl_ok []"
  by (simp add: rl_ok_def)

lemma rl_ok_Cons: "rl_ok ((k, q) # rl) \<longleftrightarrow> k \<notin> rl_keys rl \<and> quantity_ok q \<and> rl_ok rl"
  by (auto simp: rl_ok_def rl_keys_def)

lemma rl_ok_map_of: "rl_ok rl \<Longrightarrow> map_of rl k = Some q \<Longrightarrow> quantity_ok q"
  by (auto simp: rl_ok_def dest: map_of_SomeD)

lemma rl_ok_update: "rl_ok rl \<Longrightarrow> quantity_ok q \<Longrightarrow> rl_ok (AList.update k q rl)"
  by (induction rl) (force simp: rl_ok_Cons rl_keys_def dom_update)+

lemma rl_keys_update [simp]: "rl_keys (AList.update k q rl) = insert k (rl_keys rl)"
  by (simp add: rl_keys_def dom_update)

lemma rl_keys_Cons [simp]: "rl_keys ((k, q) # rl) = insert k (rl_keys rl)"
  and rl_keys_Nil [simp]: "rl_keys [] = {}"
  by (simp_all add: rl_keys_def)

lemma rl_keys_iff: "k \<in> rl_keys rl \<longleftrightarrow> map_of rl k \<noteq> None"
  unfolding rl_keys_def map_of_eq_None_iff by simp

lemma rl_val_update: "rl_val (AList.update k q rl) = (rl_val rl)(k := qval q)"
  by (rule ext) (simp add: rl_val_def update_conv')

lemma rl_val_notin: "k \<notin> rl_keys rl \<Longrightarrow> rl_val rl k = 0"
  by (simp add: rl_val_def rl_keys_iff)

lemma rl_val_Cons: "rl_val ((k, q) # rl) j = (if j = k then qval q else rl_val rl j)"
  by (simp add: rl_val_def)

lemma ResourceListSum_spec:
  "rl_ok r1 \<Longrightarrow> rl_ok r2 \<Longrightarrow>
     rl_ok (ResourceListSum r1 r2) \<and> rl_keys (ResourceListSum r1 r2) = rl_keys r1 \<union> rl_keys r2 \<and>
     rl_val (ResourceListSum r1 r2) k = rl_val r1 k + rl_val r2 k"
proof (induction r1 r2 rule: ResourceListSum.induct)
  case (2 acc r2Key r2Val r2)
  from "2.prems" have ok: "quantity_ok r2Val" "rl_ok r2" and new: "r2Key \<notin> rl_keys r2"
    by (auto simp: rl_ok_Cons)
  show ?case
  proof (cases "map_of acc r2Key")
    case None
    with "2.IH"(1) [OF None] "2.prems" ok new show ?thesis
      by (auto simp: rl_ok_update rl_val_update rl_val_Cons rl_val_notin)
        (auto simp: rl_val_def)
  next
    case (Some r1Val)
    then have q: "quantity_ok r1Val" using "2.prems" rl_ok_map_of by blast
    have v: "rl_val acc r2Key = qval r1Val" by (simp add: rl_val_def Some)
    have "r2Key \<in> rl_keys acc" by (simp add: rl_keys_iff Some)
    with "2.IH"(2) [OF Some] "2.prems" ok new q v Some quantity_Add_exact [OF q ok(1)] show ?thesis
      by (auto simp: rl_ok_update rl_val_update rl_val_Cons rl_val_notin)
  qed
qed (simp add: rl_val_def)

lemmas ResourceListSum_ok = ResourceListSum_spec [THEN conjunct1]
lemmas ResourceListSum_keys = ResourceListSum_spec [THEN conjunct2, THEN conjunct1]
lemmas ResourceListSum_val = ResourceListSum_spec [THEN conjunct2, THEN conjunct2]

lemma ResourceListGE_iff:
  "rl_ok r2 \<Longrightarrow> ResourceListGE r1 r2 \<longleftrightarrow>
     (\<forall>k \<in> rl_keys r2. k \<in> rl_keys r1 \<and> rl_val r2 k \<le> rl_val r1 k)"
proof (induction r1 r2 rule: ResourceListGE.induct)
  case (2 r1 r2Key r2Val r2)
  from "2.prems" have new: "r2Key \<notin> rl_keys r2" and ok: "rl_ok r2" by (auto simp: rl_ok_Cons)
  have step: "(\<forall>k \<in> rl_keys r2. k \<in> rl_keys r1 \<and> rl_val ((r2Key, r2Val) # r2) k \<le> rl_val r1 k)
      \<longleftrightarrow> (\<forall>k \<in> rl_keys r2. k \<in> rl_keys r1 \<and> rl_val r2 k \<le> rl_val r1 k)"
    using new by (intro ball_cong) (auto simp: rl_val_Cons)
  show ?case
  proof (cases "map_of r1 r2Key")
    case None
    then show ?thesis by (simp add: rl_keys_iff)
  next
    case (Some r1Val)
    then have "r2Key \<in> rl_keys r1" "rl_val r1 r2Key = qval r1Val"
      by (simp_all add: rl_keys_iff rl_val_def)
    with Some "2.IH" [OF Some] ok step show ?thesis
      by (auto simp: quantity_Cmp_less rl_val_Cons)
  qed
qed simp

lemma ResourceListLE_iff:
  "rl_ok r2 \<Longrightarrow> ResourceListLE r1 r2 \<longleftrightarrow>
     (\<forall>k \<in> rl_keys r2. k \<in> rl_keys r1 \<and> rl_val r1 k \<le> rl_val r2 k)"
proof (induction r1 r2 rule: ResourceListLE.induct)
  case (2 r1 r2Key r2Val r2)
  from "2.prems" have new: "r2Key \<notin> rl_keys r2" and ok: "rl_ok r2" by (auto simp: rl_ok_Cons)
  have step: "(\<forall>k \<in> rl_keys r2. k \<in> rl_keys r1 \<and> rl_val r1 k \<le> rl_val ((r2Key, r2Val) # r2) k)
      \<longleftrightarrow> (\<forall>k \<in> rl_keys r2. k \<in> rl_keys r1 \<and> rl_val r1 k \<le> rl_val r2 k)"
    using new by (intro ball_cong) (auto simp: rl_val_Cons)
  show ?case
  proof (cases "map_of r1 r2Key")
    case None
    then show ?thesis by (simp add: rl_keys_iff)
  next
    case (Some r1Val)
    then have "r2Key \<in> rl_keys r1" "rl_val r1 r2Key = qval r1Val"
      by (simp_all add: rl_keys_iff rl_val_def)
    with Some "2.IH" [OF Some] ok step show ?thesis
      by (auto simp: quantity_Cmp_greater rl_val_Cons)
  qed
qed simp

definition containers_ok :: "container list \<Rightarrow> bool" where
  "containers_ok cs \<longleftrightarrow> (\<forall>c \<in> set cs. rl_ok (ct_Requests c))"

lemma sumRequests_loop_spec:
  "rl_ok r \<Longrightarrow> containers_ok cs \<Longrightarrow>
     rl_ok (sumRequests_loop r cs) \<and>
     rl_val (sumRequests_loop r cs) k = rl_val r k + (\<Sum>c\<leftarrow>cs. rl_val (ct_Requests c) k)"
proof (induction cs arbitrary: r)
  case (Cons c cs)
  then have "rl_ok (ct_Requests c)" "containers_ok cs" by (auto simp: containers_ok_def)
  with Cons.IH [of "ResourceListSum r (ct_Requests c)"] Cons.prems ResourceListSum_spec show ?case
    by simp
qed simp

lemma PodTotalResourceRequests_spec:
  "containers_ok (pod_Containers p) \<Longrightarrow>
     rl_ok (PodTotalResourceRequests p) \<and>
     rl_val (PodTotalResourceRequests p) k = (\<Sum>c\<leftarrow>pod_Containers p. rl_val (ct_Requests c) k)"
  using sumRequests_loop_spec [of "[]" "pod_Containers p" k]
  by (simp add: PodTotalResourceRequests_def rl_val_def)

section \<open>Lemmas on keys and conditions\<close>

lemma PodKeyFromNames_inj:
  "CHR ''/'' \<notin> set ns \<Longrightarrow> CHR ''/'' \<notin> set ns' \<Longrightarrow>
     PodKeyFromNames ns n = PodKeyFromNames ns' n' \<longleftrightarrow> ns = ns' \<and> n = n'"
proof (induction ns arbitrary: ns')
  case Nil
  then show ?case by (cases ns') (auto simp: PodKeyFromNames_def)
next
  case (Cons c ns)
  then show ?case by (cases ns') (auto simp: PodKeyFromNames_def)
qed

lemma PodKey_Inr_iff:
  "PodKey p = Inr k \<longleftrightarrow>
     pod_Namespace p \<noteq> [] \<and> pod_Name p \<noteq> [] \<and> k = PodKeyFromNames (pod_Namespace p) (pod_Name p)"
  by (auto simp: PodKey_def)

lemma PodKey_static: "same_static ps ps' \<Longrightarrow> PodKey (ps p) = PodKey (ps' p)"
  by (simp add: PodKey_def same_static_fields)

lemma PodPriority_static: "same_static ps ps' \<Longrightarrow> PodPriority (ps p) = PodPriority (ps' p)"
  by (simp add: PodPriority_def same_static_fields)

lemma PodKey_set_status [simp]: "PodKey (set_status ps p s q) = PodKey (ps q)"
  by (simp add: PodKey_def)

lemma PodPriority_set_status [simp]: "PodPriority (set_status ps p s q) = PodPriority (ps q)"
  by (simp add: PodPriority_def)

lemma GetPodConditionFromList_Some:
  "GetPodConditionFromList i cs t = Some (j, c) \<Longrightarrow>
     i \<le> j \<and> j - i < length cs \<and> cs ! (j - i) = c \<and> pc_Type c = t"
proof (induction cs arbitrary: i)
  case (Cons a cs)
  show ?case
  proof (cases "pc_Type a = t")
    case False
    with Cons.IH [of "Suc i"] Cons.prems
    have *: "Suc i \<le> j" "j - Suc i < length cs" "cs ! (j - Suc i) = c" "pc_Type c = t" by simp_all
    then obtain m where "j = Suc i + m" using le_Suc_ex by blast
    with * show ?thesis by simp
  qed (use Cons.prems in auto)
qed simp

lemma GetPodConditionFromList_None:
  "GetPodConditionFromList i cs t = None \<longleftrightarrow> (\<forall>c \<in> set cs. pc_Type c \<noteq> t)"
  by (induction cs arbitrary: i) auto

lemma GetPodConditionFromList_append:
  "GetPodConditionFromList i (cs @ ds) t =
     (case GetPodConditionFromList i cs t of
        Some r \<Rightarrow> Some r | None \<Rightarrow> GetPodConditionFromList (i + length cs) ds t)"
  by (induction cs arbitrary: i) (auto split: option.splits)

lemma GetPodConditionFromList_update:
  "GetPodConditionFromList i cs t = Some (j, c) \<Longrightarrow> pc_Type c' = t \<Longrightarrow>
     GetPodConditionFromList i (cs[j - i := c']) t = Some (j, c')"
proof (induction cs arbitrary: i)
  case (Cons a cs)
  show ?case
  proof (cases "pc_Type a = t")
    case False
    with Cons.prems have "GetPodConditionFromList (Suc i) cs t = Some (j, c)" by simp
    with Cons.IH [of "Suc i"] Cons.prems(2) False GetPodConditionFromList_Some [OF this]
    show ?thesis by (simp add: Suc_diff_Suc [symmetric] Suc_le_eq)
  qed (use Cons.prems in auto)
qed simp

lemma GetPodConditionFromList_update_other:
  "t \<noteq> pc_Type (cs ! j) \<Longrightarrow> pc_Type c' = pc_Type (cs ! j) \<Longrightarrow> j < length cs \<Longrightarrow>
     GetPodConditionFromList i (cs[j := c']) t = GetPodConditionFromList i cs t"
  by (induction cs arbitrary: i j) (auto split: nat.splits)

definition updated_condition :: "clock \<Rightarrow> pod_status \<Rightarrow> pod_condition \<Rightarrow> pod_condition" where
  "updated_condition clk s c =
     c\<lparr>pc_LastTransitionTime :=
        (case GetPodCondition s (pc_Type c) of
           Some (_, old) \<Rightarrow> if pc_Status old = pc_Status c then pc_LastTransitionTime old else clk
         | None \<Rightarrow> clk)\<rparr>"

lemma UpdatePodCondition_get:
  "\<exists>i. GetPodCondition (fst (UpdatePodCondition clk s c)) (pc_Type c) = Some (i, updated_condition clk s c)"
proof (cases "GetPodCondition s (pc_Type c)")
  case None
  then show ?thesis
    by (auto simp: UpdatePodCondition_def GetPodCondition_def updated_condition_def
        GetPodConditionFromList_append Let_def)
next
  case (Some r)
  obtain j old where r: "r = (j, old)" by force
  have u: "GetPodConditionFromList 0 ((ps_Conditions s)[j := c']) (pc_Type c) = Some (j, c')"
    if "pc_Type c' = pc_Type c" for c'
    using GetPodConditionFromList_update [of 0 "ps_Conditions s" "pc_Type c" j old c'] Some r that
    by (simp add: GetPodCondition_def)
  show ?thesis
    using Some r
    by (auto simp: UpdatePodCondition_def GetPodCondition_def updated_condition_def Let_def u)
qed

lemma UpdatePodCondition_other:
  assumes "t \<noteq> pc_Type c"
  shows "GetPodCondition (fst (UpdatePodCondition clk s c)) t = GetPodCondition s t"
proof (cases "GetPodCondition s (pc_Type c)")
  case None
  with assms show ?thesis
    by (simp add: UpdatePodCondition_def GetPodCondition_def GetPodConditionFromList_append Let_def
        split: option.splits)
next
  case (Some r)
  obtain j old where r: "r = (j, old)" by force
  have j: "j < length (ps_Conditions s)" "pc_Type (ps_Conditions s ! j) = pc_Type c"
    using GetPodConditionFromList_Some [of 0 "ps_Conditions s" "pc_Type c" j old] Some r
    by (auto simp: GetPodCondition_def)
  then show ?thesis
    using Some r assms GetPodConditionFromList_update_other [of t "ps_Conditions s" j]
    by (simp add: UpdatePodCondition_def GetPodCondition_def Let_def)
qed

end
