(* ===== verification/QueueContract.thy ===== *)
theory QueueContract
  imports Util
begin

text \<open>
  The contract of the \<open>PodQueue\<close> interface (pkg/queue/queue.go), as its two clients (the
  scheduler and the simulator loop) rely on it. \<open>live\<close> is the set of pending pods by key;
  \<open>inv ps q\<close> is the queue's representation invariant over the pod store. The contract is an
  interface only: FifoQueue.thy, PriorityQueue.thy and PodQueue.thy interpret it on the code's
  own operations.
\<close>

locale pod_queue_contract =
  fixes inv :: "pods \<Rightarrow> 'q \<Rightarrow> bool"
    and live :: "'q \<Rightarrow> string \<Rightarrow> pod_ptr option"
    and push :: "pods \<Rightarrow> 'q \<Rightarrow> pod_ptr \<Rightarrow> 'q res"
    and pop :: "pods \<Rightarrow> 'q \<Rightarrow> 'q \<times> pod_ptr res"
    and front :: "'q \<Rightarrow> 'q \<times> pod_ptr res"
    and delete :: "pods \<Rightarrow> 'q \<Rightarrow> string \<Rightarrow> string \<Rightarrow> (pods \<times> 'q \<times> bool) res"
    and update :: "pods \<Rightarrow> 'q \<Rightarrow> string \<Rightarrow> string \<Rightarrow> pod_ptr \<Rightarrow> 'q res"
  assumes inv_static: "inv ps q \<Longrightarrow> same_static ps ps' \<Longrightarrow> inv ps' q"
    and finite_live: "inv ps q \<Longrightarrow> finite (dom (live q))"
    and live_key: "inv ps q \<Longrightarrow> live q k = Some p \<Longrightarrow> PodKey (ps p) = Inr k"
    and push_fresh: "inv ps q \<Longrightarrow> PodKey (ps p) = Inr k \<Longrightarrow> live q k = None \<Longrightarrow>
      \<exists>q'. push ps q p = Inr q' \<and> inv ps q' \<and> live q' = (live q)(k \<mapsto> p)"
    and push_bad_key: "PodKey (ps p) = Inl e \<Longrightarrow> push ps q p = Inl e"
    and pop_empty: "inv ps q \<Longrightarrow> live q = Map.empty \<Longrightarrow>
      \<exists>q'. pop ps q = (q', Inl ErrEmptyQueue) \<and> inv ps q' \<and> live q' = Map.empty"
    and pop_live: "inv ps q \<Longrightarrow> live q \<noteq> Map.empty \<Longrightarrow>
      \<exists>q' k p. pop ps q = (q', Inr p) \<and> live q k = Some p \<and> inv ps q' \<and> live q' = (live q)(k := None)"
    and front_pop: "inv ps q \<Longrightarrow> front q = (q', r) \<Longrightarrow>
      inv ps q' \<and> live q' = live q \<and> snd (pop ps q') = r"
    and delete_key: "inv ps q \<Longrightarrow> k = PodKeyFromNames ns n \<Longrightarrow>
      \<exists>ps' q'. delete ps q ns n = Inr (ps', q', live q k \<noteq> None) \<and> same_static ps ps' \<and>
        inv ps' q' \<and> live q' = (live q)(k := None)"
    and update_bad_key: "PodKey (ps p) = Inl e \<Longrightarrow> update ps q ns n p = Inl e"
    and update_different: "PodKey (ps p) = Inr k \<Longrightarrow> k \<noteq> PodKeyFromNames ns n \<Longrightarrow>
      update ps q ns n p = Inl ErrDifferentNames"
    and update_missing: "inv ps q \<Longrightarrow> PodKey (ps p) = Inr k \<Longrightarrow> k = PodKeyFromNames ns n \<Longrightarrow>
      live q k = None \<Longrightarrow> update ps q ns n p = Inl (ErrNoMatchingPod k)"
    and update_live: "inv ps q \<Longrightarrow> PodKey (ps p) = Inr k \<Longrightarrow> k = PodKeyFromNames ns n \<Longrightarrow>
      live q k \<noteq> None \<Longrightarrow>
      \<exists>q'. update ps q ns n p = Inr q' \<and> inv ps q' \<and> live q' = (live q)(k \<mapsto> p)"
begin

lemma pop_cases:
  assumes "inv ps q" "pop ps q = (q', r)"
  obtains (Empty) "r = Inl ErrEmptyQueue" "live q = Map.empty" "live q' = Map.empty" "inv ps q'"
  | (Pod) k p where "r = Inr p" "live q k = Some p" "live q' = (live q)(k := None)" "inv ps q'"
      "PodKey (ps p) = Inr k"
  using pop_empty [OF assms(1)] pop_live [OF assms(1)] live_key [OF assms(1)] assms(2)
  by (cases "live q = Map.empty") (auto simp: prod_eq_iff)

lemma front_cases:
  assumes "inv ps q" "front q = (q', r)"
  obtains (Empty) "r = Inl ErrEmptyQueue" "live q = Map.empty" "live q' = live q" "inv ps q'"
  | (Pod) k p where "r = Inr p" "live q k = Some p" "live q' = live q" "inv ps q'"
      "PodKey (ps p) = Inr k" "snd (pop ps q') = Inr p"
proof -
  have fp: "inv ps q'" "live q' = live q" "snd (pop ps q') = r"
    using front_pop [OF assms] by auto
  obtain q'' r' where pop: "pop ps q' = (q'', r')" by force
  show thesis
  proof (rule pop_cases [OF fp(1) pop])
    assume "r' = Inl ErrEmptyQueue" "live q' = Map.empty"
    with fp pop show thesis by (intro Empty) auto
  next
    fix k p
    assume "r' = Inr p" "live q' k = Some p" "PodKey (ps p) = Inr k"
    with fp pop show thesis by (intro Pod [of p k]) auto
  qed
qed

lemma ran_remove:
  assumes "inv ps q" "live q k = Some p"
  shows "ran ((live q)(k := None)) = ran (live q) - {p}"
proof -
  have key: "k' = k" if "live q k' = Some p" for k'
    using live_key [OF assms] live_key [OF assms(1) that] by simp
  have "x \<in> ran ((live q)(k := None)) \<longleftrightarrow> x \<in> ran (live q) \<and> x \<noteq> p" for x
  proof
    assume "x \<in> ran ((live q)(k := None))"
    then obtain k' where k': "k' \<noteq> k" "live q k' = Some x" by (auto simp: ran_def split: if_split_asm)
    then have "x \<noteq> p" using key by blast
    with k'(2) show "x \<in> ran (live q) \<and> x \<noteq> p" by (auto intro: ranI)
  next
    assume "x \<in> ran (live q) \<and> x \<noteq> p"
    then obtain k' where k': "live q k' = Some x" "x \<noteq> p" by (auto simp: ran_def)
    then have "k' \<noteq> k" using assms(2) by auto
    with k'(1) have "((live q)(k := None)) k' = Some x" by simp
    then show "x \<in> ran ((live q)(k := None))" by (rule ranI)
  qed
  then show ?thesis by blast
qed

text \<open>Popping a live pod makes the queue smaller: the measure of every draining loop.\<close>

lemma pop_card:
  assumes "inv ps q" "pop ps q = (q', Inr p)"
  shows "card (dom (live q')) < card (dom (live q))"
proof (rule pop_cases [OF assms])
  fix k p'
  assume "live q k = Some p'" "live q' = (live q)(k := None)"
  then have "dom (live q') = dom (live q) - {k}" "k \<in> dom (live q)" by auto
  with card_Diff1_less [OF finite_live [OF assms(1)]] show ?thesis by (simp only:)
qed (use assms in simp_all)

lemma pop_after_front:
  assumes "inv ps q" "front q = (q', Inr p)"
  obtains q'' k where "pop ps q' = (q'', Inr p)" "inv ps q''" "live q k = Some p"
    "live q'' = (live q)(k := None)" "PodKey (ps p) = Inr k"
proof -
  from assms have fp: "inv ps q'" "live q' = live q" "snd (pop ps q') = Inr p"
    using front_pop by blast+
  then obtain q'' where pop: "pop ps q' = (q'', Inr p)" by (cases "pop ps q'") auto
  show thesis
    by (rule pop_cases [OF fp(1) pop]) (use fp pop that in auto)
qed

text \<open>Deleting twice: the second time nothing is found.\<close>

lemma delete_twice:
  assumes "inv ps q" "delete ps q ns n = Inr (ps', q', found)"
  obtains ps'' q'' where "delete ps' q' ns n = Inr (ps'', q'', False)" "live q'' = live q'"
proof -
  obtain ps1 q1 where d1: "delete ps q ns n = Inr (ps1, q1, live q (PodKeyFromNames ns n) \<noteq> None)"
    "inv ps1 q1" "live q1 = (live q)(PodKeyFromNames ns n := None)"
    using delete_key [OF assms(1) refl, of ns n] by auto
  then have eq: "ps1 = ps'" "q1 = q'" using assms(2) by auto
  with delete_key [of ps' q' "PodKeyFromNames ns n" ns n] d1 that show thesis by auto
qed

lemma push_then_live:
  assumes "inv ps q" "PodKey (ps p) = Inr k" "live q k = None" "push ps q p = Inr q'"
  shows "inv ps q'" "live q' = (live q)(k \<mapsto> p)" "card (dom (live q')) = Suc (card (dom (live q)))"
proof -
  from push_fresh [OF assms(1-3)] assms(4) have *: "inv ps q'" "live q' = (live q)(k \<mapsto> p)" by auto
  then show "inv ps q'" "live q' = (live q)(k \<mapsto> p)" by auto
  from * assms(3) finite_live [OF assms(1)]
  show "card (dom (live q')) = Suc (card (dom (live q)))"
    by (simp add: card_insert_if domIff)
qed

end

end
