(* ===== verification/FifoQueue.thy ===== *)
theory FifoQueue
  imports QueueContract
begin

text \<open>
  pkg/queue/fifo.go: the FIFO queue, a map of the pending pods and a slice of keys. Delete removes
  a pod from the map only, so the slice may hold stale keys; Pop and Front skip them. \<open>fifo_abs\<close> is
  the sequence of pending pods in the order in which Pop returns them; the refinement lemmas give
  the effect of each operation on it.
\<close>

record fifo_queue =
  fq_pods :: "(string \<times> pod_ptr) list"
  fq_queue :: "string list"

definition NewFIFOQueue :: fifo_queue where
  "NewFIFOQueue = \<lparr>fq_pods = [], fq_queue = []\<rparr>"

definition FIFOQueue_Push :: "pods \<Rightarrow> fifo_queue \<Rightarrow> pod_ptr \<Rightarrow> fifo_queue res" where
  "FIFOQueue_Push ps fifo pod =
     res_bind (PodKey (ps pod)) (\<lambda>key.
       Inr (fifo\<lparr>fq_pods := AList.update key pod (fq_pods fifo), fq_queue := fq_queue fifo @ [key]\<rparr>))"

fun FIFOQueue_Pop_loop ::
  "(string \<times> pod_ptr) list \<Rightarrow> string list \<Rightarrow> fifo_queue \<times> pod_ptr res" where
  "FIFOQueue_Pop_loop pods [] = (\<lparr>fq_pods = pods, fq_queue = []\<rparr>, Inl ErrEmptyQueue)"
| "FIFOQueue_Pop_loop pods (key # queue) =
     (case map_of pods key of
        Some pod \<Rightarrow> (\<lparr>fq_pods = AList.delete key pods, fq_queue = queue\<rparr>, Inr pod)
      | None \<Rightarrow> FIFOQueue_Pop_loop pods queue)"

definition FIFOQueue_Pop :: "fifo_queue \<Rightarrow> fifo_queue \<times> pod_ptr res" where
  "FIFOQueue_Pop fifo = FIFOQueue_Pop_loop (fq_pods fifo) (fq_queue fifo)"

fun FIFOQueue_Front_loop ::
  "(string \<times> pod_ptr) list \<Rightarrow> string list \<Rightarrow> fifo_queue \<times> pod_ptr res" where
  "FIFOQueue_Front_loop pods [] = (\<lparr>fq_pods = pods, fq_queue = []\<rparr>, Inl ErrEmptyQueue)"
| "FIFOQueue_Front_loop pods (key # queue) =
     (case map_of pods key of
        Some pod \<Rightarrow> (\<lparr>fq_pods = pods, fq_queue = key # queue\<rparr>, Inr pod)
      | None \<Rightarrow> FIFOQueue_Front_loop pods queue)"

definition FIFOQueue_Front :: "fifo_queue \<Rightarrow> fifo_queue \<times> pod_ptr res" where
  "FIFOQueue_Front fifo = FIFOQueue_Front_loop (fq_pods fifo) (fq_queue fifo)"

definition FIFOQueue_Delete :: "fifo_queue \<Rightarrow> string \<Rightarrow> string \<Rightarrow> fifo_queue \<times> bool" where
  "FIFOQueue_Delete fifo podNamespace podName =
     (let key = PodKeyFromNames podNamespace podName;
          ok = (map_of (fq_pods fifo) key \<noteq> None)
      in (fifo\<lparr>fq_pods := AList.delete key (fq_pods fifo)\<rparr>, ok))"

definition FIFOQueue_Update ::
  "pods \<Rightarrow> fifo_queue \<Rightarrow> string \<Rightarrow> string \<Rightarrow> pod_ptr \<Rightarrow> fifo_queue res" where
  "FIFOQueue_Update ps fifo podNamespace podName newPod =
     (let keyOrig = PodKeyFromNames podNamespace podName
      in res_bind (PodKey (ps newPod)) (\<lambda>keyNew.
           if keyOrig \<noteq> keyNew then Inl ErrDifferentNames
           else if map_of (fq_pods fifo) keyOrig = None then Inl (ErrNoMatchingPod keyOrig)
           else Inr (fifo\<lparr>fq_pods := AList.update keyOrig newPod (fq_pods fifo)\<rparr>)))"

text \<open>FIFOQueue does not support preemption: nominations do nothing.\<close>

definition FIFOQueue_UpdateNominatedNode :: "fifo_queue \<Rightarrow> pod_ptr \<Rightarrow> string \<Rightarrow> fifo_queue res" where
  "FIFOQueue_UpdateNominatedNode fifo pod nodeName = Inr fifo"

definition FIFOQueue_RemoveNominatedNode :: "fifo_queue \<Rightarrow> pod_ptr \<Rightarrow> fifo_queue res" where
  "FIFOQueue_RemoveNominatedNode fifo pod = Inr fifo"

definition FIFOQueue_NominatedPods :: "fifo_queue \<Rightarrow> string \<Rightarrow> pod_ptr list" where
  "FIFOQueue_NominatedPods fifo nodeName = []"

definition FIFOQueue_Len :: "fifo_queue \<Rightarrow> nat" where
  "FIFOQueue_Len fifo = length (fq_queue fifo)"

section \<open>The abstract queue\<close>

fun fifo_order :: "(string \<Rightarrow> pod_ptr option) \<Rightarrow> string list \<Rightarrow> (string \<times> pod_ptr) list" where
  "fifo_order m [] = []"
| "fifo_order m (k # ks) =
     (case m k of
        None \<Rightarrow> fifo_order m ks
      | Some p \<Rightarrow> (k, p) # filter (\<lambda>x. fst x \<noteq> k) (fifo_order m ks))"

definition fifo_abs :: "fifo_queue \<Rightarrow> (string \<times> pod_ptr) list" where
  "fifo_abs q = fifo_order (map_of (fq_pods q)) (fq_queue q)"

definition fifo_live :: "fifo_queue \<Rightarrow> string \<Rightarrow> pod_ptr option" where
  "fifo_live q = map_of (fq_pods q)"

definition fifo_inv :: "pods \<Rightarrow> fifo_queue \<Rightarrow> bool" where
  "fifo_inv ps q \<longleftrightarrow>
     (\<forall>k p. fifo_live q k = Some p \<longrightarrow> k \<in> set (fq_queue q) \<and> PodKey (ps p) = Inr k)"

lemma fifo_order_remove:
  "fifo_order (m(k := None)) ks = filter (\<lambda>x. fst x \<noteq> k) (fifo_order m ks)"
proof (induction ks)
  case (Cons a ks)
  have "filter (\<lambda>x. fst x \<noteq> k) (filter (\<lambda>x. fst x \<noteq> a) xs) = filter (\<lambda>x. fst x \<noteq> a) (filter (\<lambda>x. fst x \<noteq> k) xs)"
    for xs :: "(string \<times> pod_ptr) list"
    by (simp add: conj_commute)
  with Cons show ?case by (cases "a = k"; cases "m a") simp_all
qed simp

lemma fifo_order_replace:
  "m k \<noteq> None \<Longrightarrow>
     fifo_order (m(k \<mapsto> p)) ks = map (\<lambda>x. if fst x = k then (k, p) else x) (fifo_order m ks)"
proof (induction ks)
  case (Cons a ks)
  have "filter (\<lambda>x. fst x \<noteq> a) (map (\<lambda>x. if fst x = k then (k, p) else x) xs)
      = map (\<lambda>x. if fst x = k then (k, p) else x) (filter (\<lambda>x. fst x \<noteq> a) xs)"
    for xs :: "(string \<times> pod_ptr) list"
    by (induction xs) auto
  with Cons show ?case by (cases "a = k"; cases "m a") auto
qed simp

lemma fifo_order_set: "set (fifo_order m ks) = {(k, p). k \<in> set ks \<and> m k = Some p}"
proof (induction ks)
  case (Cons a ks)
  then show ?case by (cases "m a") auto
qed simp

lemma fifo_order_distinct: "distinct (map fst (fifo_order m ks))"
proof (induction ks)
  case (Cons a ks)
  then show ?case by (cases "m a") (auto simp: distinct_map_filter)
qed simp

lemma fifo_order_append:
  "fifo_order m (ks @ [k]) = fifo_order m ks @
     (if k \<in> set ks \<or> m k = None then [] else [(k, the (m k))])"
proof (induction ks)
  case Nil
  show ?case by (cases "m k") auto
next
  case (Cons a ks)
  then show ?case by (cases "m a") auto
qed

lemma fifo_order_irrelevant: "k \<notin> set ks \<Longrightarrow> fifo_order (m(k := x)) ks = fifo_order m ks"
  by (induction ks) (auto split: option.splits)

section \<open>Every operation on the abstract queue\<close>

lemma fifo_live_NewFIFOQueue: "fifo_abs NewFIFOQueue = []" "fifo_live NewFIFOQueue = Map.empty"
  "fifo_inv ps NewFIFOQueue"
  by (simp_all add: NewFIFOQueue_def fifo_abs_def fifo_live_def fifo_inv_def)

lemma fifo_Pop_loop_abs:
  "FIFOQueue_Pop_loop pods ks =
     (case fifo_order (map_of pods) ks of
        [] \<Rightarrow> (\<lparr>fq_pods = pods, fq_queue = []\<rparr>, Inl ErrEmptyQueue)
      | (k, p) # _ \<Rightarrow>
          (\<lparr>fq_pods = AList.delete k pods, fq_queue = tl (dropWhile (\<lambda>a. map_of pods a = None) ks)\<rparr>, Inr p))"
  by (induction pods ks rule: FIFOQueue_Pop_loop.induct) (auto split: option.splits list.splits)

lemma fifo_Front_loop_abs:
  "FIFOQueue_Front_loop pods ks =
     (\<lparr>fq_pods = pods, fq_queue = dropWhile (\<lambda>a. map_of pods a = None) ks\<rparr>,
      case fifo_order (map_of pods) ks of [] \<Rightarrow> Inl ErrEmptyQueue | (k, p) # _ \<Rightarrow> Inr p)"
  by (induction pods ks rule: FIFOQueue_Front_loop.induct) (auto split: option.splits)

lemma fifo_order_dropWhile: "fifo_order m (dropWhile (\<lambda>a. m a = None) ks) = fifo_order m ks"
  by (induction ks) auto

lemma fifo_order_Cons_tail:
  assumes "fifo_order m ks = (k, p) # xs"
  shows "fifo_order (m(k := None)) (tl (dropWhile (\<lambda>a. m a = None) ks)) = xs" "m k = Some p"
proof -
  from assms have "\<exists>ks'. dropWhile (\<lambda>a. m a = None) ks = k # ks' \<and> m k = Some p
      \<and> xs = filter (\<lambda>x. fst x \<noteq> k) (fifo_order m ks')"
    by (induction ks) (auto split: option.splits)
  then show "fifo_order (m(k := None)) (tl (dropWhile (\<lambda>a. m a = None) ks)) = xs" "m k = Some p"
    by (auto simp: fifo_order_remove)
qed

lemma FIFOQueue_Pop_abs:
  "FIFOQueue_Pop q = (q', r) \<Longrightarrow>
     (case fifo_abs q of
        [] \<Rightarrow> r = Inl ErrEmptyQueue \<and> fifo_abs q' = []
      | (k, p) # xs \<Rightarrow> r = Inr p \<and> fifo_abs q' = xs \<and> fifo_live q' = (fifo_live q)(k := None))"
  by (auto simp: FIFOQueue_Pop_def fifo_Pop_loop_abs fifo_abs_def fifo_live_def delete_conv'
      dest: fifo_order_Cons_tail split: list.splits)

lemma FIFOQueue_Front_abs:
  "FIFOQueue_Front q = (q', r) \<Longrightarrow>
     fifo_abs q' = fifo_abs q \<and> fifo_live q' = fifo_live q \<and>
     r = (case fifo_abs q of [] \<Rightarrow> Inl ErrEmptyQueue | (k, p) # _ \<Rightarrow> Inr p)"
  by (auto simp: FIFOQueue_Front_def fifo_Front_loop_abs fifo_abs_def fifo_live_def fifo_order_dropWhile)

lemma FIFOQueue_Push_abs:
  assumes "PodKey (ps p) = Inr k" "FIFOQueue_Push ps q p = Inr q'"
  shows "fifo_live q' = (fifo_live q)(k \<mapsto> p)"
    "k \<notin> set (fq_queue q) \<Longrightarrow> fifo_abs q' = fifo_abs q @ [(k, p)]"
    "fifo_live q k \<noteq> None \<Longrightarrow> k \<in> set (fq_queue q) \<Longrightarrow>
       fifo_abs q' = map (\<lambda>x. if fst x = k then (k, p) else x) (fifo_abs q)"
  using assms
  by (auto simp: FIFOQueue_Push_def fifo_live_def fifo_abs_def update_conv' fifo_order_append
      fifo_order_irrelevant fifo_order_replace)

lemma FIFOQueue_Delete_abs:
  assumes "FIFOQueue_Delete q ns n = (q', found)" "k = PodKeyFromNames ns n"
  shows "fifo_abs q' = filter (\<lambda>x. fst x \<noteq> k) (fifo_abs q)"
    "fifo_live q' = (fifo_live q)(k := None)" "found = (fifo_live q k \<noteq> None)"
  using assms
  by (auto simp: FIFOQueue_Delete_def fifo_live_def fifo_abs_def delete_conv' fifo_order_remove Let_def)

lemma FIFOQueue_Update_abs:
  assumes "PodKey (ps p) = Inr k" "k = PodKeyFromNames ns n" "fifo_live q k \<noteq> None"
  shows "\<exists>q'. FIFOQueue_Update ps q ns n p = Inr q' \<and> fifo_live q' = (fifo_live q)(k \<mapsto> p) \<and>
      fq_queue q' = fq_queue q \<and>
      fifo_abs q' = map (\<lambda>x. if fst x = k then (k, p) else x) (fifo_abs q)"
  using assms
  by (auto simp: FIFOQueue_Update_def fifo_live_def fifo_abs_def update_conv' fifo_order_replace Let_def)

lemma fifo_abs_set: "fifo_inv ps q \<Longrightarrow> set (fifo_abs q) = {(k, p). fifo_live q k = Some p}"
  by (auto simp: fifo_abs_def fifo_live_def fifo_order_set fifo_inv_def)

lemma fifo_abs_Nil: "fifo_inv ps q \<Longrightarrow> fifo_abs q = [] \<longleftrightarrow> fifo_live q = Map.empty"
  using fifo_abs_set [of ps q] by (auto simp: fun_eq_iff)

section \<open>The queue contract\<close>

definition fifo_pop :: "pods \<Rightarrow> fifo_queue \<Rightarrow> fifo_queue \<times> pod_ptr res" where
  "fifo_pop ps q = FIFOQueue_Pop q"

definition fifo_delete :: "pods \<Rightarrow> fifo_queue \<Rightarrow> string \<Rightarrow> string \<Rightarrow> (pods \<times> fifo_queue \<times> bool) res" where
  "fifo_delete ps q ns n = Inr (ps, FIFOQueue_Delete q ns n)"

lemma fifo_order_tail_keys:
  assumes "fifo_order m ks = (k, p) # xs" "m x = Some y" "x \<in> set ks" "x \<noteq> k"
  shows "x \<in> set (tl (dropWhile (\<lambda>a. m a = None) ks))"
proof -
  have "(x, y) \<in> set (fifo_order m ks)"
    using assms(2,3) by (simp add: fifo_order_set)
  then have "(x, y) \<in> set xs" using assms(1,4) by simp
  then have "(x, y) \<in> set (fifo_order (m(k := None)) (tl (dropWhile (\<lambda>a. m a = None) ks)))"
    by (simp only: fifo_order_Cons_tail(1) [OF assms(1)])
  then show ?thesis by (simp only: fifo_order_set) simp
qed

lemma fifo_inv_Pop: "fifo_inv ps q \<Longrightarrow> FIFOQueue_Pop q = (q', r) \<Longrightarrow> fifo_inv ps q'"
proof (cases "fifo_abs q")
  case Nil
  assume inv: "fifo_inv ps q" and pop: "FIFOQueue_Pop q = (q', r)"
  have "fifo_live q = Map.empty" using Nil fifo_abs_Nil [OF inv] by simp
  with Nil pop show ?thesis
    by (auto simp: FIFOQueue_Pop_def fifo_Pop_loop_abs fifo_abs_def fifo_live_def fifo_inv_def)
next
  case (Cons x xs)
  assume inv: "fifo_inv ps q" and pop: "FIFOQueue_Pop q = (q', r)"
  obtain k p where x: "x = (k, p)" by force
  have order: "fifo_order (map_of (fq_pods q)) (fq_queue q) = (k, p) # xs"
    using Cons x by (simp add: fifo_abs_def)
  with pop have q': "q' = \<lparr>fq_pods = AList.delete k (fq_pods q),
      fq_queue = tl (dropWhile (\<lambda>a. map_of (fq_pods q) a = None) (fq_queue q))\<rparr>"
    by (simp add: FIFOQueue_Pop_def fifo_Pop_loop_abs)
  from inv fifo_order_tail_keys [OF order] show ?thesis
    by (auto simp: q' fifo_inv_def fifo_live_def delete_conv' split: if_splits)
qed

lemma fifo_dropWhile_keys: "x \<in> set ks \<Longrightarrow> m x \<noteq> None \<Longrightarrow> x \<in> set (dropWhile (\<lambda>a. m a = None) ks)"
  by (induction ks) auto

lemma fifo_inv_Front: "fifo_inv ps q \<Longrightarrow> FIFOQueue_Front q = (q', r) \<Longrightarrow> fifo_inv ps q'"
  by (auto simp: FIFOQueue_Front_def fifo_Front_loop_abs fifo_live_def fifo_inv_def
      intro!: fifo_dropWhile_keys)

lemma fifo_inv_Push:
  "fifo_inv ps q \<Longrightarrow> PodKey (ps p) = Inr k \<Longrightarrow> FIFOQueue_Push ps q p = Inr q' \<Longrightarrow> fifo_inv ps q'"
  by (auto simp: FIFOQueue_Push_def fifo_live_def fifo_inv_def update_conv' split: if_splits)

lemma fifo_Pop_contract:
  assumes "fifo_inv ps q" "FIFOQueue_Pop q = (q', r)"
  shows "fifo_live q = Map.empty \<Longrightarrow> r = Inl ErrEmptyQueue \<and> fifo_live q' = Map.empty"
    "fifo_live q \<noteq> Map.empty \<Longrightarrow>
       \<exists>k p. r = Inr p \<and> fifo_live q k = Some p \<and> fifo_live q' = (fifo_live q)(k := None)"
proof -
  note abs = FIFOQueue_Pop_abs [OF assms(2)] fifo_abs_set [OF assms(1)]
    fifo_abs_Nil [OF assms(1)] fifo_abs_Nil [OF fifo_inv_Pop [OF assms]]
  show "fifo_live q = Map.empty \<Longrightarrow> r = Inl ErrEmptyQueue \<and> fifo_live q' = Map.empty"
    using abs by auto
  assume "fifo_live q \<noteq> Map.empty"
  then obtain k p xs where c: "fifo_abs q = (k, p) # xs" using abs(3) by (cases "fifo_abs q") auto
  have "(k, p) \<in> set (fifo_abs q)" by (simp add: c)
  then have "fifo_live q k = Some p" by (simp only: abs(2)) simp
  with c abs(1) show "\<exists>k p. r = Inr p \<and> fifo_live q k = Some p \<and> fifo_live q' = (fifo_live q)(k := None)"
    by auto
qed

interpretation fq: pod_queue_contract fifo_inv fifo_live FIFOQueue_Push fifo_pop FIFOQueue_Front
    fifo_delete FIFOQueue_Update
proof (unfold_locales, goal_cases)
  case (1 ps q ps')
  then show ?case by (auto simp: fifo_inv_def PodKey_static)
next
  case (2 ps q)
  then show ?case by (simp add: fifo_live_def finite_dom_map_of)
next
  case (3 ps q k p)
  then show ?case by (simp add: fifo_inv_def)
next
  case (4 ps q p k)
  then obtain q' where "FIFOQueue_Push ps q p = Inr q'" by (auto simp: FIFOQueue_Push_def)
  with 4 fifo_inv_Push FIFOQueue_Push_abs(1) show ?case by blast
next
  case (5 ps p e q)
  then show ?case by (simp add: FIFOQueue_Push_def)
next
  case (6 ps q)
  obtain q' r where "FIFOQueue_Pop q = (q', r)" by force
  with 6 fifo_Pop_contract(1) fifo_inv_Pop show ?case by (auto simp: fifo_pop_def)
next
  case (7 ps q)
  obtain q' r where "FIFOQueue_Pop q = (q', r)" by force
  with fifo_Pop_contract(2) [OF 7(1) this 7(2)] fifo_inv_Pop [OF 7(1) this] show ?case
    by (auto simp: fifo_pop_def)
next
  case (8 ps q q' r)
  obtain q'' r' where "FIFOQueue_Pop q' = (q'', r')" by force
  with 8 FIFOQueue_Front_abs [OF 8(2)] FIFOQueue_Pop_abs [OF this] fifo_inv_Front [OF 8] show ?case
    by (auto simp: fifo_pop_def split: list.splits)
next
  case (9 ps q k ns n)
  obtain q' found where d: "FIFOQueue_Delete q ns n = (q', found)" by force
  with 9 FIFOQueue_Delete_abs [OF d 9(2)] have "fifo_inv ps q'"
    by (auto simp: FIFOQueue_Delete_def fifo_inv_def Let_def split: if_splits)
  with d FIFOQueue_Delete_abs(2,3) [OF d 9(2)] show ?case by (simp add: fifo_delete_def)
next
  case (10 ps p e q ns n)
  then show ?case by (simp add: FIFOQueue_Update_def)
next
  case (11 ps p k ns n q)
  then show ?case by (simp add: FIFOQueue_Update_def)
next
  case (12 ps q p k ns n)
  then show ?case by (simp add: FIFOQueue_Update_def fifo_live_def)
next
  case (13 ps q p k ns n)
  from FIFOQueue_Update_abs [of ps p k ns n q] 13 obtain q' where
    u: "FIFOQueue_Update ps q ns n p = Inr q'" "fifo_live q' = (fifo_live q)(k \<mapsto> p)"
      "fq_queue q' = fq_queue q" by blast
  have "fifo_inv ps q'" using 13 u by (auto simp: fifo_inv_def split: if_splits)
  with u show ?case by blast
qed

end
