(* ===== verification/ContainerHeap.thy ===== *)
theory ContainerHeap
  imports Prelude "HOL-Library.Multiset"
begin

text \<open>
  Go's container/heap, as the priority queue uses it. The package works on any value with methods
  Len, Less and Swap, so its routines take \<open>hless\<close> and \<open>hswap\<close> as arguments; both may panic (an index
  out of range, a missing map entry), so both return \<open>res\<close>.

  Locale \<open>heap_interface\<close> is what the routines need of the two methods: under the representation
  invariant \<open>wf\<close> they do not panic and act on the list \<open>elems s\<close>. It gives the routines' frame and
  permutation properties whatever the comparator does. Locale \<open>heap_order\<close> adds that the comparator
  is a strict weak order and gives the heap property. PriorityQueue.thy interprets both.
\<close>

section \<open>The routines\<close>

type_synonym 's heap_less = "'s \<Rightarrow> nat \<Rightarrow> nat \<Rightarrow> bool res"
type_synonym 's heap_swap = "'s \<Rightarrow> nat \<Rightarrow> nat \<Rightarrow> 's res"

function heap_up :: "'s heap_less \<Rightarrow> 's heap_swap \<Rightarrow> 's \<Rightarrow> nat \<Rightarrow> 's res" where
  "heap_up hless hswap h j =
     (let i = (j - 1) div 2
      in if i = j then Inr h
         else res_bind (hless h j i) (\<lambda>lt.
           if \<not> lt then Inr h
           else res_bind (hswap h i j) (\<lambda>h'. heap_up hless hswap h' i)))"
  by pat_completeness auto
termination by (relation "measure (\<lambda>(_, _, _, j). j)") auto

declare heap_up.simps [simp del]

function heap_down_loop ::
  "'s heap_less \<Rightarrow> 's heap_swap \<Rightarrow> 's \<Rightarrow> nat \<Rightarrow> nat \<Rightarrow> ('s \<times> nat) res" where
  "heap_down_loop hless hswap h i n =
     (let j1 = 2 * i + 1
      in if n \<le> j1 then Inr (h, i)
         else res_bind (if j1 + 1 < n then hless h (j1 + 1) j1 else Inr False) (\<lambda>right.
           let j = (if right then j1 + 1 else j1)
           in res_bind (hless h j i) (\<lambda>lt.
                if \<not> lt then Inr (h, i)
                else res_bind (hswap h i j) (\<lambda>h'. heap_down_loop hless hswap h' j n))))"
  by pat_completeness auto
termination by (relation "measure (\<lambda>(_, _, _, i, n). n - i)") (auto split: if_splits)

declare heap_down_loop.simps [simp del]

definition heap_down ::
  "'s heap_less \<Rightarrow> 's heap_swap \<Rightarrow> 's \<Rightarrow> nat \<Rightarrow> nat \<Rightarrow> ('s \<times> bool) res" where
  "heap_down hless hswap h i0 n =
     res_bind (heap_down_loop hless hswap h i0 n) (\<lambda>(h', i). Inr (h', i0 < i))"

fun heap_Init_loop :: "'s heap_less \<Rightarrow> 's heap_swap \<Rightarrow> nat \<Rightarrow> 's \<Rightarrow> nat \<Rightarrow> 's res" where
  "heap_Init_loop hless hswap n h 0 = Inr h"
| "heap_Init_loop hless hswap n h (Suc i) =
     res_bind (heap_down hless hswap h i n) (\<lambda>(h', _). heap_Init_loop hless hswap n h' i)"

definition heap_Init :: "'s heap_less \<Rightarrow> 's heap_swap \<Rightarrow> ('s \<Rightarrow> nat) \<Rightarrow> 's \<Rightarrow> 's res" where
  "heap_Init hless hswap len h = (let n = len h in heap_Init_loop hless hswap n h (n div 2))"

definition heap_Push ::
  "'s heap_less \<Rightarrow> 's heap_swap \<Rightarrow> ('s \<Rightarrow> nat) \<Rightarrow> ('s \<Rightarrow> 'x \<Rightarrow> 's) \<Rightarrow> 's \<Rightarrow> 'x \<Rightarrow> 's res" where
  "heap_Push hless hswap len push h x = (let h' = push h x in heap_up hless hswap h' (len h' - 1))"

definition heap_Pop ::
  "'s heap_less \<Rightarrow> 's heap_swap \<Rightarrow> ('s \<Rightarrow> nat) \<Rightarrow> ('s \<Rightarrow> ('s \<times> 'x) res) \<Rightarrow> 's \<Rightarrow> ('s \<times> 'x) res" where
  "heap_Pop hless hswap len pop h =
     (let n = len h - 1
      in res_bind (hswap h 0 n) (\<lambda>h1. res_bind (heap_down hless hswap h1 0 n) (\<lambda>(h2, _). pop h2)))"

definition heap_fix_at :: "'s heap_less \<Rightarrow> 's heap_swap \<Rightarrow> 's \<Rightarrow> nat \<Rightarrow> nat \<Rightarrow> 's res" where
  "heap_fix_at hless hswap h i n =
     res_bind (heap_down hless hswap h i n) (\<lambda>(h', moved).
       if moved then Inr h' else heap_up hless hswap h' i)"

definition heap_Remove ::
  "'s heap_less \<Rightarrow> 's heap_swap \<Rightarrow> ('s \<Rightarrow> nat) \<Rightarrow> ('s \<Rightarrow> ('s \<times> 'x) res) \<Rightarrow> 's \<Rightarrow> nat \<Rightarrow> ('s \<times> 'x) res" where
  "heap_Remove hless hswap len pop h i =
     (let n = len h - 1
      in if n \<noteq> i
         then res_bind (hswap h i n) (\<lambda>h1. res_bind (heap_fix_at hless hswap h1 i n) pop)
         else pop h)"

definition heap_Fix :: "'s heap_less \<Rightarrow> 's heap_swap \<Rightarrow> ('s \<Rightarrow> nat) \<Rightarrow> 's \<Rightarrow> nat \<Rightarrow> 's res" where
  "heap_Fix hless hswap len h i = heap_fix_at hless hswap h i (len h)"

section \<open>Positions of a binary heap\<close>

definition list_swap :: "'a list \<Rightarrow> nat \<Rightarrow> nat \<Rightarrow> 'a list" where
  "list_swap xs i j = xs[i := xs ! j, j := xs ! i]"

lemma list_swap_length [simp]: "length (list_swap xs i j) = length xs"
  by (simp add: list_swap_def)

lemma list_swap_nth:
  "i < length xs \<Longrightarrow> j < length xs \<Longrightarrow>
     list_swap xs i j ! k = (if k = i then xs ! j else if k = j then xs ! i else xs ! k)"
  by (simp add: list_swap_def nth_list_update)

lemma list_swap_mset: "i < length xs \<Longrightarrow> j < length xs \<Longrightarrow> mset (list_swap xs i j) = mset xs"
  using mset_swap [of j xs i] by (simp add: list_swap_def)

lemma list_swap_same [simp]: "list_swap xs i i = xs"
  by (simp add: list_swap_def)

definition parent :: "nat \<Rightarrow> nat" where
  "parent j = (j - 1) div 2"

lemma parent_less: "0 < j \<Longrightarrow> parent j < j"
  by (simp add: parent_def)

lemma parent_le: "parent j \<le> j"
  by (simp add: parent_def)

lemma parent_eq_iff: "0 < j \<Longrightarrow> parent j = i \<longleftrightarrow> j = 2 * i + 1 \<or> j = 2 * i + 2"
  by (auto simp: parent_def)

lemma parent_fixed_iff: "parent j = j \<longleftrightarrow> j = 0"
  by (auto simp: parent_def)

text \<open>
  \<open>heap_from lt lo xs n\<close>: no element of the first \<open>n\<close> is less than its parent, for the parents from
  position \<open>lo\<close> on. \<open>heap_hole\<close>: the same except at position \<open>i\<close>, whose element may be out of
  place both ways, while its children still respect its parent.
\<close>

definition heap_from :: "('a \<Rightarrow> 'a \<Rightarrow> bool) \<Rightarrow> nat \<Rightarrow> 'a list \<Rightarrow> nat \<Rightarrow> bool" where
  "heap_from lt lo xs n \<longleftrightarrow>
     (\<forall>j < n. 0 < j \<longrightarrow> lo \<le> parent j \<longrightarrow> \<not> lt (xs ! j) (xs ! parent j))"

definition heap_hole :: "('a \<Rightarrow> 'a \<Rightarrow> bool) \<Rightarrow> nat \<Rightarrow> nat \<Rightarrow> 'a list \<Rightarrow> nat \<Rightarrow> bool" where
  "heap_hole lt lo i xs n \<longleftrightarrow>
     (\<forall>j < n. 0 < j \<longrightarrow> lo \<le> parent j \<longrightarrow> parent j \<noteq> i \<longrightarrow> j \<noteq> i \<longrightarrow> \<not> lt (xs ! j) (xs ! parent j)) \<and>
     (\<forall>j < n. 0 < j \<longrightarrow> parent j = i \<longrightarrow> 0 < i \<longrightarrow> lo \<le> parent i \<longrightarrow> \<not> lt (xs ! j) (xs ! parent i))"

abbreviation is_heap :: "('a \<Rightarrow> 'a \<Rightarrow> bool) \<Rightarrow> 'a list \<Rightarrow> bool" where
  "is_heap lt xs \<equiv> heap_from lt 0 xs (length xs)"

lemma heap_from_hole:
  assumes "heap_from lt lo xs n"
  shows "heap_hole lt lo n xs (Suc n)"
  unfolding heap_hole_def
proof (intro conjI allI impI)
  fix j assume "j < Suc n" "0 < j" "lo \<le> parent j" "parent j \<noteq> n" "j \<noteq> n"
  with assms show "\<not> lt (xs ! j) (xs ! parent j)" by (simp add: heap_from_def)
next
  fix j assume "j < Suc n" "0 < j" "parent j = n"
  with parent_less [of j] show "\<not> lt (xs ! j) (xs ! parent n)" by simp
qed

lemma heap_from_mono: "heap_from lt lo xs n \<Longrightarrow> m \<le> n \<Longrightarrow> heap_from lt lo xs m"
  by (simp add: heap_from_def)

lemma heap_from_cong:
  "(\<And>k. k < n \<Longrightarrow> xs ! k = ys ! k) \<Longrightarrow> heap_from lt lo xs n = heap_from lt lo ys n"
  unfolding heap_from_def by (metis parent_le le_less_trans)

lemma heap_holeD:
  assumes "heap_hole lt lo i xs n" "j < n" "0 < j"
  shows "lo \<le> parent j \<Longrightarrow> parent j \<noteq> i \<Longrightarrow> j \<noteq> i \<Longrightarrow> \<not> lt (xs ! j) (xs ! parent j)"
    "parent j = i \<Longrightarrow> 0 < i \<Longrightarrow> lo \<le> parent i \<Longrightarrow> \<not> lt (xs ! j) (xs ! parent i)"
  using assms unfolding heap_hole_def by blast+

text \<open>In a heap nothing is less than the root.\<close>

lemma heap_root_min:
  assumes "heap_from lt 0 xs n" "\<And>a b c. \<not> lt a b \<Longrightarrow> \<not> lt b c \<Longrightarrow> \<not> lt a c" "\<not> lt (xs ! 0) (xs ! 0)"
  shows "j < n \<Longrightarrow> \<not> lt (xs ! j) (xs ! 0)"
proof (induction j rule: less_induct)
  case (less j)
  show ?case
  proof (cases "j = 0")
    case False
    then have "parent j < j" by (simp add: parent_less)
    moreover have "\<not> lt (xs ! j) (xs ! parent j)"
      using assms(1) less.prems False by (simp add: heap_from_def)
    ultimately show ?thesis using less.IH [of "parent j"] less.prems assms(2) by force
  qed (use assms(3) in simp)
qed

text \<open>Replacing one element of a heap leaves a hole there.\<close>

lemma heap_hole_change:
  assumes "heap_from lt lo xs n" "\<And>a b c. \<not> lt a b \<Longrightarrow> \<not> lt b c \<Longrightarrow> \<not> lt a c"
    "\<And>k. k < n \<Longrightarrow> k \<noteq> i \<Longrightarrow> ys ! k = xs ! k"
  shows "heap_hole lt lo i ys n"
  unfolding heap_hole_def
proof (intro conjI allI impI)
  fix j assume j: "j < n" "0 < j" "lo \<le> parent j" "parent j \<noteq> i" "j \<noteq> i"
  with assms(3) parent_less [of j] show "\<not> lt (ys ! j) (ys ! parent j)"
    using assms(1) by (simp add: heap_from_def)
next
  fix j assume j: "j < n" "0 < j" "parent j = i" "0 < i" "lo \<le> parent i"
  from j have lt: "i < j" "parent i < i" using parent_less by blast+
  with j have "\<not> lt (xs ! j) (xs ! i)" "\<not> lt (xs ! i) (xs ! parent i)"
    using assms(1) by (auto simp: heap_from_def)
  then have "\<not> lt (xs ! j) (xs ! parent i)" using assms(2) by blast
  then show "\<not> lt (ys ! j) (ys ! parent i)" using assms(3) j lt by simp
qed

section \<open>The interface: permutation and frame\<close>

locale heap_interface =
  fixes wf :: "'s \<Rightarrow> bool"
    and elems :: "'s \<Rightarrow> 'a list"
    and lt :: "'a \<Rightarrow> 'a \<Rightarrow> bool"
    and hless :: "'s heap_less"
    and hswap :: "'s heap_swap"
  assumes less_ok: "wf h \<Longrightarrow> i < length (elems h) \<Longrightarrow> j < length (elems h) \<Longrightarrow>
      hless h i j = Inr (lt (elems h ! i) (elems h ! j))"
    and swap_ok: "wf h \<Longrightarrow> i < length (elems h) \<Longrightarrow> j < length (elems h) \<Longrightarrow>
      \<exists>h'. hswap h i j = Inr h' \<and> wf h' \<and> elems h' = list_swap (elems h) i j"
begin

definition permuted :: "nat \<Rightarrow> 's \<Rightarrow> 's \<Rightarrow> bool" where
  "permuted n h h' \<longleftrightarrow>
     wf h' \<and> mset (elems h') = mset (elems h) \<and> (\<forall>k \<ge> n. elems h' ! k = elems h ! k)"

lemma permuted_refl: "wf h \<Longrightarrow> permuted n h h"
  by (simp add: permuted_def)

lemma permuted_trans: "permuted n h h' \<Longrightarrow> permuted n h' h'' \<Longrightarrow> permuted n h h''"
  by (simp add: permuted_def)

lemma permuted_mono: "permuted n h h' \<Longrightarrow> n \<le> m \<Longrightarrow> permuted m h h'"
  by (simp add: permuted_def)

lemma permuted_length: "permuted n h h' \<Longrightarrow> length (elems h') = length (elems h)"
  unfolding permuted_def by (metis size_mset)

lemma permuted_swap:
  assumes "wf h" "i < n" "j < n" "n \<le> length (elems h)"
  obtains h' where "hswap h i j = Inr h'" "permuted n h h'" "elems h' = list_swap (elems h) i j"
proof -
  from assms swap_ok [of h i j] obtain h' where
    "hswap h i j = Inr h'" "wf h'" "elems h' = list_swap (elems h) i j" by auto
  moreover from this assms have "permuted n h h'"
    by (simp add: permuted_def list_swap_mset list_swap_nth)
  ultimately show thesis using that by blast
qed

lemma heap_up_permuted:
  "wf h \<Longrightarrow> j < n \<Longrightarrow> n \<le> length (elems h) \<Longrightarrow> \<exists>h'. heap_up hless hswap h j = Inr h' \<and> permuted n h h'"
proof (induction j arbitrary: h rule: less_induct)
  case (less j)
  let ?i = "(j - 1) div 2"
  have i: "?i < n" using less.prems(2) by auto
  from permuted_swap [OF less.prems(1) i less.prems(2,3)] obtain h' where
    h': "hswap h ?i j = Inr h'" "permuted n h h'" by blast
  have "?i \<noteq> j \<Longrightarrow> \<exists>h''. heap_up hless hswap h' ?i = Inr h'' \<and> permuted n h' h''"
    using less.IH [of ?i h'] i h'(2) less.prems permuted_length [OF h'(2)]
    by (simp add: permuted_def)
  with h' less.prems i less_ok [of h j ?i] permuted_refl permuted_trans [OF h'(2)] show ?case
    by (subst heap_up.simps) (auto simp: Let_def)
qed

definition child :: "'s \<Rightarrow> nat \<Rightarrow> nat \<Rightarrow> nat" where
  "child h i n =
     (if 2 * i + 2 < n \<and> lt (elems h ! (2 * i + 2)) (elems h ! (2 * i + 1)) then 2 * i + 2 else 2 * i + 1)"

lemma child_bounds: "2 * i + 1 < n \<Longrightarrow> child h i n < n" "i < child h i n" "parent (child h i n) = i"
  by (auto simp: child_def parent_def)

lemma heap_down_loop_leaf: "n \<le> 2 * i + 1 \<Longrightarrow> heap_down_loop hless hswap h i n = Inr (h, i)"
  by (subst heap_down_loop.simps) simp

lemma heap_down_loop_step:
  assumes "wf h" "n \<le> length (elems h)" "2 * i + 1 < n"
  shows "heap_down_loop hless hswap h i n =
    (if \<not> lt (elems h ! child h i n) (elems h ! i) then Inr (h, i)
     else res_bind (hswap h i (child h i n)) (\<lambda>h'. heap_down_loop hless hswap h' (child h i n) n))"
proof -
  have right: "(if 2 * i + 1 + 1 < n then hless h (2 * i + 1 + 1) (2 * i + 1) else Inr False)
      = Inr (child h i n = 2 * i + 2)"
    using assms less_ok [of h "2 * i + 2" "2 * i + 1"] by (auto simp: child_def)
  have j: "(if child h i n = 2 * i + 2 then 2 * i + 1 + 1 else 2 * i + 1) = child h i n"
    by (auto simp: child_def)
  have lt: "hless h (child h i n) i = Inr (lt (elems h ! child h i n) (elems h ! i))"
    using assms child_bounds(1) [of i n h] child_bounds(2) [of i h n] less_ok [of h "child h i n" i] by simp
  have "(n \<le> 2 * i + 1) = False" using assms(3) by simp
  then show ?thesis
    by (subst heap_down_loop.simps) (simp only: Let_def right res_bind_simps j lt if_False)
qed

lemma heap_down_loop_permuted:
  "wf h \<Longrightarrow> i < n \<Longrightarrow> n \<le> length (elems h) \<Longrightarrow>
     \<exists>h' i'. heap_down_loop hless hswap h i n = Inr (h', i') \<and> permuted n h h' \<and> i \<le> i'"
proof (induction "n - i" arbitrary: h i rule: less_induct)
  case less
  show ?case
  proof (cases "n \<le> 2 * i + 1")
    case True
    with less.prems show ?thesis
      by (auto simp: heap_down_loop_leaf intro: permuted_refl)
  next
    case False
    define j where "j = child h i n"
    have j: "j < n" "i < j" using False child_bounds(1) [of i n h] child_bounds(2) [of i h n] by (auto simp: j_def)
    from permuted_swap [OF less.prems(1,2) j(1) less.prems(3)] obtain h' where
      h': "hswap h i j = Inr h'" "permuted n h h'" by blast
    have "\<exists>h'' i'. heap_down_loop hless hswap h' j n = Inr (h'', i') \<and> permuted n h' h'' \<and> j \<le> i'"
      using less.hyps [of j h'] j h'(2) less.prems permuted_length [OF h'(2)]
      by (simp add: permuted_def)
    then obtain h'' i' where rec: "heap_down_loop hless hswap h' j n = Inr (h'', i')"
      "permuted n h h''" "j \<le> i'" using permuted_trans [OF h'(2)] by blast
    with False less.prems heap_down_loop_step [of h n i] h' j permuted_refl [of h n] show ?thesis
      by (auto simp: j_def [symmetric])
  qed
qed

lemma heap_down_permuted:
  "wf h \<Longrightarrow> n \<le> length (elems h) \<Longrightarrow>
     \<exists>h' moved. heap_down hless hswap h i n = Inr (h', moved) \<and> permuted n h h'"
  using heap_down_loop_permuted [of h i n]
  by (cases "i < n") (auto simp: heap_down_def heap_down_loop_leaf intro: permuted_refl)

lemma heap_fix_at_permuted:
  assumes "wf h" "i < m" "n \<le> m" "m \<le> length (elems h)"
  shows "\<exists>h'. heap_fix_at hless hswap h i n = Inr h' \<and> permuted m h h'"
proof -
  obtain h1 moved where h1: "heap_down hless hswap h i n = Inr (h1, moved)" "permuted n h h1"
    using heap_down_permuted [of h n i] assms by auto
  then have m1: "permuted m h h1" using permuted_mono assms(3) by blast
  obtain h2 where "heap_up hless hswap h1 i = Inr h2" "permuted m h1 h2"
    using heap_up_permuted [of h1 i m] assms m1 permuted_length [OF m1] by (auto simp: permuted_def)
  with h1(1) m1 permuted_trans [OF m1] show ?thesis
    by (cases moved) (simp_all add: heap_fix_at_def)
qed

lemma heap_Init_loop_permuted:
  "wf h \<Longrightarrow> n \<le> length (elems h) \<Longrightarrow>
     \<exists>h'. heap_Init_loop hless hswap n h i = Inr h' \<and> permuted n h h'"
proof (induction i arbitrary: h)
  case 0
  then show ?case by (simp add: permuted_refl)
next
  case (Suc i)
  obtain h1 moved where h1: "heap_down hless hswap h i n = Inr (h1, moved)" "permuted n h h1"
    using heap_down_permuted Suc.prems by blast
  obtain h2 where "heap_Init_loop hless hswap n h1 i = Inr h2" "permuted n h1 h2"
    using Suc.IH [of h1] h1(2) Suc.prems(2) permuted_length [OF h1(2)] by (auto simp: permuted_def)
  with h1(1) permuted_trans [OF h1(2)] show ?case by simp
qed

end

section \<open>The heap property\<close>

locale heap_order = heap_interface +
  assumes lt_asym: "lt a b \<Longrightarrow> \<not> lt b a"
    and lt_negtrans: "\<not> lt a b \<Longrightarrow> \<not> lt b c \<Longrightarrow> \<not> lt a c"
begin

lemma lt_irrefl: "\<not> lt a a"
  using lt_asym by blast

text \<open>One step down: the hole moves to the smaller child.\<close>

lemma hole_down:
  assumes hole: "heap_hole lt lo i (elems h) n" and i: "2 * i + 1 < n" and n: "n \<le> length (elems h)"
    and lt: "lt (elems h ! child h i n) (elems h ! i)"
    and ys: "ys = list_swap (elems h) i (child h i n)"
  shows "heap_hole lt lo (child h i n) ys n" "\<not> lt (ys ! child h i n) (ys ! i)"
    "0 < i \<Longrightarrow> lo \<le> parent i \<Longrightarrow> \<not> lt (ys ! i) (ys ! parent i)"
proof -
  define c where "c = child h i n"
  let ?xs = "elems h"
  have c: "c < n" "i < c" "parent c = i"
    using i child_bounds by (auto simp: c_def)
  have nth: "ys ! k = (if k = i then ?xs ! c else if k = c then ?xs ! i else ?xs ! k)" for k
    using c n unfolding ys c_def [symmetric] by (intro list_swap_nth) auto
  have sibling: "j < n \<Longrightarrow> 0 < j \<Longrightarrow> parent j = i \<Longrightarrow> \<not> lt (?xs ! j) (?xs ! c)" for j
    using lt_asym lt_irrefl i by (auto simp: parent_eq_iff c_def child_def)
  show "\<not> lt (ys ! child h i n) (ys ! i)"
    using lt c lt_asym by (simp add: nth c_def [symmetric])
  show up: "0 < i \<Longrightarrow> lo \<le> parent i \<Longrightarrow> \<not> lt (ys ! i) (ys ! parent i)"
    using hole c parent_less [of i] by (simp add: nth heap_hole_def)
  show "heap_hole lt lo (child h i n) ys n"
    unfolding c_def [symmetric] heap_hole_def
  proof (intro conjI allI impI)
    fix j assume j: "j < n" "0 < j" "lo \<le> parent j" "parent j \<noteq> c" "j \<noteq> c"
    show "\<not> lt (ys ! j) (ys ! parent j)"
    proof (cases "parent j = i \<or> j = i")
      case True
      then show ?thesis using j c up sibling [of j] parent_less [of j] by (auto simp: nth)
    next
      case False
      with hole j show ?thesis by (simp add: nth heap_hole_def)
    qed
  next
    fix j assume j: "j < n" "0 < j" "parent j = c" "0 < c" "lo \<le> parent c"
    then have "c < j" using parent_less by blast
    with hole j c have "\<not> lt (?xs ! j) (?xs ! parent j)" by (auto simp: heap_hole_def)
    with j c \<open>c < j\<close> show "\<not> lt (ys ! j) (ys ! parent c)" by (simp add: nth)
  qed
qed

lemma hole_stop:
  assumes "heap_hole lt lo i (elems h) n"
    "2 * i + 1 < n \<Longrightarrow> \<not> lt (elems h ! child h i n) (elems h ! i)"
  shows "j < n \<Longrightarrow> 0 < j \<Longrightarrow> parent j = i \<Longrightarrow> \<not> lt (elems h ! j) (elems h ! i)"
proof -
  assume j: "j < n" "0 < j" "parent j = i"
  then have i: "2 * i + 1 < n" by (auto simp: parent_eq_iff)
  have "\<not> lt (elems h ! j) (elems h ! child h i n)"
    using j lt_irrefl lt_asym by (auto simp: parent_eq_iff child_def)
  then show ?thesis using assms(2) [OF i] lt_negtrans by blast
qed

lemma heap_down_loop_heap:
  "wf h \<Longrightarrow> n \<le> length (elems h) \<Longrightarrow> heap_hole lt lo i (elems h) n \<Longrightarrow>
     (0 < i \<Longrightarrow> i < n \<Longrightarrow> lo \<le> parent i \<Longrightarrow> \<not> lt (elems h ! i) (elems h ! parent i)) \<Longrightarrow>
     heap_down_loop hless hswap h i n = Inr (h', i') \<Longrightarrow> heap_from lt lo (elems h') n"
proof (induction "n - i" arbitrary: h i rule: less_induct)
  case less
  have stop: "\<lbrakk>2 * i + 1 < n \<Longrightarrow> \<not> lt (elems h ! child h i n) (elems h ! i)\<rbrakk> \<Longrightarrow> heap_from lt lo (elems h) n"
    unfolding heap_from_def
  proof (intro allI impI)
    fix j assume prem: "2 * i + 1 < n \<Longrightarrow> \<not> lt (elems h ! child h i n) (elems h ! i)"
      and j: "j < n" "0 < j" "lo \<le> parent j"
    show "\<not> lt (elems h ! j) (elems h ! parent j)"
      using hole_stop [OF less.prems(3) prem] less.prems(3,4) j
      by (cases "parent j = i"; cases "j = i") (auto simp: heap_hole_def)
  qed
  show ?case
  proof (cases "2 * i + 1 < n \<and> lt (elems h ! child h i n) (elems h ! i)")
    case False
    then have "heap_down_loop hless hswap h i n = Inr (h, i)"
      using less.prems(1,2) by (cases "n \<le> 2 * i + 1") (auto simp: heap_down_loop_leaf heap_down_loop_step)
    with False stop less.prems(5) show ?thesis by auto
  next
    case True
    define c where "c = child h i n"
    have c: "c < n" "i < c" "parent c = i" using True child_bounds by (auto simp: c_def)
    obtain h1 where h1: "hswap h i c = Inr h1" "permuted n h h1" "elems h1 = list_swap (elems h) i c"
      using permuted_swap [of h i n c] less.prems(1,2) c by auto
    have rec: "heap_down_loop hless hswap h1 c n = Inr (h', i')"
      using less.prems(1,2,5) True h1(1) by (simp add: heap_down_loop_step c_def)
    note step = hole_down [OF less.prems(3) _ less.prems(2) _ h1(3) [unfolded c_def]]
    have "heap_hole lt lo c (elems h1) n" "\<not> lt (elems h1 ! c) (elems h1 ! parent c)"
      using step(1,2) True c(3) by (simp_all add: c_def)
    then show ?thesis
      using less.hyps [OF _ _ _ _ _ rec] c h1(2) less.prems(2) permuted_length [OF h1(2)]
      by (simp add: permuted_def)
  qed
qed

lemma heap_down_hole:
  assumes "wf h" "n \<le> length (elems h)" "i < n" "heap_hole lt lo i (elems h) n"
    "heap_down hless hswap h i n = Inr (h', moved)"
  shows "moved \<Longrightarrow> heap_from lt lo (elems h') n"
    "\<not> moved \<Longrightarrow> h' = h \<and> (\<forall>j < n. 0 < j \<longrightarrow> parent j = i \<longrightarrow> \<not> lt (elems h ! j) (elems h ! i))"
proof -
  obtain i' where loop: "heap_down_loop hless hswap h i n = Inr (h', i')" and moved: "moved = (i < i')"
    using assms(5) by (auto simp: heap_down_def res_bind_Inr_iff)
  show "moved \<Longrightarrow> heap_from lt lo (elems h') n"
    "\<not> moved \<Longrightarrow> h' = h \<and> (\<forall>j < n. 0 < j \<longrightarrow> parent j = i \<longrightarrow> \<not> lt (elems h ! j) (elems h ! i))"
  proof (atomize (full), cases "2 * i + 1 < n \<and> lt (elems h ! child h i n) (elems h ! i)")
    case False
    then have "heap_down_loop hless hswap h i n = Inr (h, i)"
      using assms(1,2) by (cases "n \<le> 2 * i + 1") (auto simp: heap_down_loop_leaf heap_down_loop_step)
    with loop moved hole_stop [OF assms(4)] False
    show "(moved \<longrightarrow> heap_from lt lo (elems h') n) \<and> (\<not> moved \<longrightarrow> h' = h \<and>
        (\<forall>j < n. 0 < j \<longrightarrow> parent j = i \<longrightarrow> \<not> lt (elems h ! j) (elems h ! i)))" by auto
  next
    case True
    define c where "c = child h i n"
    have c: "c < n" "i < c" "parent c = i" using True child_bounds by (auto simp: c_def)
    obtain h1 where h1: "hswap h i c = Inr h1" "permuted n h h1" "elems h1 = list_swap (elems h) i c"
      using permuted_swap [of h i n c] assms(1,2,3) c by auto
    have rec: "heap_down_loop hless hswap h1 c n = Inr (h', i')"
      using assms(1,2) loop True h1(1) by (simp add: heap_down_loop_step c_def)
    have wf1: "wf h1" "n \<le> length (elems h1)"
      using h1(2) assms(2) permuted_length [OF h1(2)] by (simp_all add: permuted_def)
    have "c \<le> i'" using heap_down_loop_permuted [OF wf1(1) c(1) wf1(2)] rec by simp
    note step = hole_down [OF assms(4) _ assms(2) _ h1(3) [unfolded c_def]]
    have "heap_hole lt lo c (elems h1) n" "\<not> lt (elems h1 ! c) (elems h1 ! parent c)"
      using step(1,2) True c(3) by (simp_all add: c_def)
    then have "heap_from lt lo (elems h') n"
      using heap_down_loop_heap [OF wf1 _ _ rec] by blast
    with \<open>c \<le> i'\<close> c(2) moved
    show "(moved \<longrightarrow> heap_from lt lo (elems h') n) \<and> (\<not> moved \<longrightarrow> h' = h \<and>
        (\<forall>j < n. 0 < j \<longrightarrow> parent j = i \<longrightarrow> \<not> lt (elems h ! j) (elems h ! i)))" by simp
  qed
qed

text \<open>One step up: the hole moves to the parent, whose children are then in order.\<close>

lemma hole_up:
  assumes hole: "heap_hole lt 0 j xs n" and j: "j < n" "0 < j" and n: "n \<le> length xs"
    and children: "\<And>k. k < n \<Longrightarrow> 0 < k \<Longrightarrow> parent k = j \<Longrightarrow> \<not> lt (xs ! k) (xs ! j)"
    and lt: "lt (xs ! j) (xs ! parent j)" and ys: "ys = list_swap xs (parent j) j"
  shows "heap_hole lt 0 (parent j) ys n"
    "k < n \<Longrightarrow> 0 < k \<Longrightarrow> parent k = parent j \<Longrightarrow> \<not> lt (ys ! k) (ys ! parent j)"
proof -
  define p where "p = parent j"
  have p: "p < j" "p < n" using j parent_less [of j] by (auto simp: p_def)
  have nth: "ys ! k = (if k = p then xs ! j else if k = j then xs ! p else xs ! k)" for k
    using p j n unfolding ys p_def [symmetric] by (intro list_swap_nth) auto
  have pp: "0 < p \<Longrightarrow> \<not> lt (xs ! p) (xs ! parent p)"
    using heap_holeD(1) [OF hole p(2)] p(1) parent_less [of p] by simp
  have sib: "k < n \<Longrightarrow> 0 < k \<Longrightarrow> parent k = p \<Longrightarrow> k \<noteq> j \<Longrightarrow> \<not> lt (xs ! k) (xs ! p)" for k
    using heap_holeD(1) [OF hole, of k] p(1) by simp
  have asym: "\<not> lt (xs ! p) (xs ! j)" using lt lt_asym by (simp add: p_def)
  show "\<not> lt (ys ! k) (ys ! parent j)" if k: "k < n" "0 < k" "parent k = parent j" for k
  proof (cases "k = j")
    case False
    have "p < k" using k parent_less [of k] by (simp add: p_def)
    moreover have "\<not> lt (xs ! k) (xs ! j)"
      using sib [of k] k False asym lt_negtrans by (auto simp: p_def)
    ultimately show ?thesis using False by (simp add: nth p_def [symmetric])
  qed (use asym p in \<open>simp add: nth p_def [symmetric]\<close>)
  show "heap_hole lt 0 (parent j) ys n"
    unfolding p_def [symmetric] heap_hole_def
  proof (intro conjI allI impI)
    fix k assume k: "k < n" "0 < k" "parent k \<noteq> p" "k \<noteq> p"
    then have "k \<noteq> j" by (auto simp: p_def)
    show "\<not> lt (ys ! k) (ys ! parent k)"
    proof (cases "parent k = j")
      case True
      then have "\<not> lt (xs ! k) (xs ! p)"
        using heap_holeD(2) [OF hole k(1,2)] j by (simp add: p_def)
      with True k \<open>k \<noteq> j\<close> p show ?thesis by (simp add: nth)
    next
      case False
      with heap_holeD(1) [OF hole k(1,2)] k(3,4) \<open>k \<noteq> j\<close> show ?thesis by (simp add: nth)
    qed
  next
    fix k assume k: "k < n" "0 < k" "parent k = p" "0 < p" "0 \<le> parent p"
    then have "p < k" "parent p < p" using parent_less by blast+
    then have "\<not> lt (xs ! p) (xs ! parent p)" "parent p \<noteq> j" "k \<noteq> p" "parent p \<noteq> p"
      using pp k(4) p(1) by simp_all
    with sib [OF k(1-3)] lt_negtrans show "\<not> lt (ys ! k) (ys ! parent p)"
      by (simp add: nth) blast
  qed
qed

lemma heap_up_heap:
  "wf h \<Longrightarrow> j < n \<Longrightarrow> n \<le> length (elems h) \<Longrightarrow> heap_hole lt 0 j (elems h) n \<Longrightarrow>
     (\<And>k. k < n \<Longrightarrow> 0 < k \<Longrightarrow> parent k = j \<Longrightarrow> \<not> lt (elems h ! k) (elems h ! j)) \<Longrightarrow>
     heap_up hless hswap h j = Inr h' \<Longrightarrow> heap_from lt 0 (elems h') n"
proof (induction j arbitrary: h rule: less_induct)
  case (less j)
  show ?case
  proof (cases "j = 0 \<or> \<not> lt (elems h ! j) (elems h ! parent j)")
    case True
    then have h': "h' = h"
      using less.prems(1,2,3,6) less_ok [of h j "parent j"] parent_le [of j]
      by (subst (asm) heap_up.simps) (auto simp: Let_def parent_def split: if_splits)
    show ?thesis
      unfolding heap_from_def h'
    proof (intro allI impI)
      fix k assume k: "k < n" "0 < k" "0 \<le> parent k"
      show "\<not> lt (elems h ! k) (elems h ! parent k)"
        using heap_holeD(1) [OF less.prems(4) k(1,2)] less.prems(5) [OF k(1,2)] True k
        by (cases "k = j"; cases "parent k = j") auto
    qed
  next
    case False
    let ?p = "parent j"
    have p: "?p < j" using False parent_less by simp
    obtain h1 where h1: "hswap h ?p j = Inr h1" "permuted n h h1" "elems h1 = list_swap (elems h) ?p j"
      using permuted_swap [of h ?p n j] less.prems(1,2,3) p by auto
    have rec: "heap_up hless hswap h1 ?p = Inr h'"
      using less.prems(1,2,3,6) less_ok [of h j ?p] p h1(1) False
      by (subst (asm) heap_up.simps) (auto simp: Let_def parent_def)
    have wf1: "wf h1" "n \<le> length (elems h1)"
      using h1(2) less.prems(3) permuted_length [OF h1(2)] by (simp_all add: permuted_def)
    have j: "0 < j" "lt (elems h ! j) (elems h ! ?p)" using False by auto
    note step = hole_up [OF less.prems(4,2) j(1) less.prems(3,5) j(2) h1(3)]
    have hole: "heap_hole lt 0 ?p (elems h1) n" by (rule step(1)) simp_all
    have pn: "?p < n" using p less.prems(2) by simp
    show ?thesis
    proof (rule less.IH [OF p wf1(1) pn wf1(2) hole _ rec])
      fix k assume "k < n" "0 < k" "parent k = ?p"
      then show "\<not> lt (elems h1 ! k) (elems h1 ! ?p)" by (intro step(2)) simp_all
    qed
  qed
qed

lemma heap_fix_at_heap:
  assumes "wf h" "n \<le> length (elems h)" "i < n" "heap_hole lt 0 i (elems h) n"
    "heap_fix_at hless hswap h i n = Inr h'"
  shows "heap_from lt 0 (elems h') n"
proof -
  obtain h1 moved where h1: "heap_down hless hswap h i n = Inr (h1, moved)"
    using heap_down_permuted [OF assms(1,2)] by blast
  note down = heap_down_hole [OF assms(1-4) h1]
  show ?thesis
  proof (cases moved)
    case True
    with down(1) h1 assms(5) show ?thesis by (simp add: heap_fix_at_def)
  next
    case False
    with h1 assms(5) have "heap_up hless hswap h i = Inr h'"
      using down(2) by (simp add: heap_fix_at_def)
    with heap_up_heap [OF assms(1,3,2,4)] down(2) False show ?thesis by blast
  qed
qed

lemma heap_Init_loop_heap:
  "wf h \<Longrightarrow> n \<le> length (elems h) \<Longrightarrow> heap_from lt i (elems h) n \<Longrightarrow>
     heap_Init_loop hless hswap n h i = Inr h' \<Longrightarrow> heap_from lt 0 (elems h') n"
proof (induction i arbitrary: h)
  case (Suc i)
  obtain h1 moved where h1: "heap_down hless hswap h i n = Inr (h1, moved)" "permuted n h h1"
    using heap_down_permuted Suc.prems(1,2) by blast
  have hole: "heap_hole lt i i (elems h) n"
    using Suc.prems(3) parent_less [of i] by (auto simp: heap_hole_def heap_from_def)
  obtain i' where loop: "heap_down_loop hless hswap h i n = Inr (h1, i')"
    using h1(1) by (auto simp: heap_down_def res_bind_Inr_iff)
  have "heap_from lt i (elems h1) n"
    by (rule heap_down_loop_heap [OF Suc.prems(1,2) hole _ loop]) (use parent_less [of i] in auto)
  then show ?case
    using Suc.IH [of h1] Suc.prems(2,4) h1 permuted_length [OF h1(2)] by (simp add: permuted_def)
qed simp

lemma heap_from_half: "n \<le> length (elems h) \<Longrightarrow> heap_from lt (n div 2) (elems h) n"
  by (auto simp: heap_from_def parent_def)

end

end
