(* ===== verification/Resource.thy ===== *)
theory Resource
  imports Util "HOL-Library.Multiset"
begin

text \<open>
  The fixed width resource totals of the vendored scheduler
  (vendor/k8s.io/kubernetes/pkg/scheduler/nodeinfo/node_info.go and what it calls): the \<open>Resource\<close>
  struct with its wrapping int64 counters, the test for scalar resource names down to the
  validation of qualified names, the non-zero request defaults, and the resource request of a pod
  (scheduler/util/utils.go), which the priority queue compares pods by.

  A nil ScalarResources map and an empty one read the same; both are \<open>[]\<close>. \<open>resource_get\<close> reads a
  Resource as a function of the resource name; the lemmas show that Add sums and that the order in
  which a resource list is visited does not matter to it.
\<close>

section \<open>Resource names\<close>

definition strings_HasPrefix :: "string \<Rightarrow> string \<Rightarrow> bool" where
  "strings_HasPrefix s p = (take (length p) s = p)"

fun strings_Contains :: "string \<Rightarrow> string \<Rightarrow> bool" where
  "strings_Contains [] sub = (sub = [])"
| "strings_Contains (c # s) sub = (strings_HasPrefix (c # s) sub \<or> strings_Contains s sub)"

fun strings_Split :: "char \<Rightarrow> string \<Rightarrow> string list" where
  "strings_Split d [] = [[]]"
| "strings_Split d (c # s) =
     (if c = d then [] # strings_Split d s
      else case strings_Split d s of [] \<Rightarrow> [[c]] | p # ps \<Rightarrow> (c # p) # ps)"

definition is_lower_alnum :: "char \<Rightarrow> bool" where
  "is_lower_alnum c = (let n = of_char c :: nat in (97 \<le> n \<and> n \<le> 122) \<or> (48 \<le> n \<and> n \<le> 57))"

definition is_alnum :: "char \<Rightarrow> bool" where
  "is_alnum c = (let n = of_char c :: nat in is_lower_alnum c \<or> (65 \<le> n \<and> n \<le> 90))"

text \<open>\<^verbatim>\<open>[a-z0-9]([-a-z0-9]*[a-z0-9])?\<close>\<close>

definition dns1123Label :: "string \<Rightarrow> bool" where
  "dns1123Label s =
     (s \<noteq> [] \<and> is_lower_alnum (hd s) \<and> is_lower_alnum (last s) \<and>
      list_all (\<lambda>c. is_lower_alnum c \<or> c = CHR ''-'') s)"

definition IsDNS1123Subdomain :: "string \<Rightarrow> bool" where
  "IsDNS1123Subdomain s = (length s \<le> 253 \<and> list_all dns1123Label (strings_Split CHR ''.'' s))"

text \<open>\<^verbatim>\<open>([A-Za-z0-9][-A-Za-z0-9_.]*)?[A-Za-z0-9]\<close>\<close>

definition qualifiedNameRegexp :: "string \<Rightarrow> bool" where
  "qualifiedNameRegexp s =
     (s \<noteq> [] \<and> is_alnum (hd s) \<and> is_alnum (last s) \<and>
      list_all (\<lambda>c. is_alnum c \<or> c = CHR ''-'' \<or> c = CHR ''_'' \<or> c = CHR ''.'') s)"

definition IsQualifiedName :: "string \<Rightarrow> bool" where
  "IsQualifiedName value =
     (case strings_Split CHR ''/'' value of
        [name] \<Rightarrow> name \<noteq> [] \<and> length name \<le> 63 \<and> qualifiedNameRegexp name
      | [prefix, name] \<Rightarrow>
          prefix \<noteq> [] \<and> IsDNS1123Subdomain prefix \<and>
          name \<noteq> [] \<and> length name \<le> 63 \<and> qualifiedNameRegexp name
      | _ \<Rightarrow> False)"

definition IsPrefixedNativeResource :: "string \<Rightarrow> bool" where
  "IsPrefixedNativeResource name = strings_Contains name ''kubernetes.io/''"

definition IsNativeResource :: "string \<Rightarrow> bool" where
  "IsNativeResource name = (\<not> strings_Contains name ''/'' \<or> IsPrefixedNativeResource name)"

definition IsExtendedResourceName :: "string \<Rightarrow> bool" where
  "IsExtendedResourceName name =
     (if IsNativeResource name \<or> strings_HasPrefix name ''requests.'' then False
      else IsQualifiedName (''requests.'' @ name))"

definition IsHugePageResourceName :: "string \<Rightarrow> bool" where
  "IsHugePageResourceName name = strings_HasPrefix name ''hugepages-''"

definition IsAttachableVolumeResourceName :: "string \<Rightarrow> bool" where
  "IsAttachableVolumeResourceName name = strings_HasPrefix name ''attachable-volumes-''"

definition IsScalarResourceName :: "string \<Rightarrow> bool" where
  "IsScalarResourceName name =
     (IsExtendedResourceName name \<or> IsHugePageResourceName name \<or>
      IsPrefixedNativeResource name \<or> IsAttachableVolumeResourceName name)"

section \<open>Resource\<close>

record resource =
  r_MilliCPU :: int
  r_Memory :: int
  r_EphemeralStorage :: int
  r_AllowedPodNumber :: int
  r_ScalarResources :: "(string \<times> int) list"

definition empty_resource :: resource where
  "empty_resource = \<lparr>r_MilliCPU = 0, r_Memory = 0, r_EphemeralStorage = 0, r_AllowedPodNumber = 0,
     r_ScalarResources = []\<rparr>"

abbreviation cpu :: string where "cpu \<equiv> ''cpu''"
abbreviation memory :: string where "memory \<equiv> ''memory''"
abbreviation pods_name :: string where "pods_name \<equiv> ''pods''"
abbreviation ephemeral_storage :: string where "ephemeral_storage \<equiv> ''ephemeral-storage''"

definition scalar :: "resource \<Rightarrow> string \<Rightarrow> int" where
  "scalar r name = (case map_of (r_ScalarResources r) name of None \<Rightarrow> 0 | Some v \<Rightarrow> v)"

definition SetScalar :: "resource \<Rightarrow> string \<Rightarrow> int \<Rightarrow> resource" where
  "SetScalar r name quantity =
     r\<lparr>r_ScalarResources := AList.update name quantity (r_ScalarResources r)\<rparr>"

definition AddScalar :: "resource \<Rightarrow> string \<Rightarrow> int \<Rightarrow> resource" where
  "AddScalar r name quantity = SetScalar r name (i64 (scalar r name + quantity))"

fun Resource_Add :: "resource \<Rightarrow> resource_list \<Rightarrow> resource" where
  "Resource_Add r [] = r"
| "Resource_Add r ((rName, rQuant) # rl) =
     Resource_Add
       (if rName = cpu then r\<lparr>r_MilliCPU := i64 (r_MilliCPU r + quantity_MilliValue rQuant)\<rparr>
        else if rName = memory then r\<lparr>r_Memory := i64 (r_Memory r + quantity_Value rQuant)\<rparr>
        else if rName = pods_name
          then r\<lparr>r_AllowedPodNumber := i64 (r_AllowedPodNumber r + quantity_Value rQuant)\<rparr>
        else if rName = ephemeral_storage
          then r\<lparr>r_EphemeralStorage := i64 (r_EphemeralStorage r + quantity_Value rQuant)\<rparr>
        else if IsScalarResourceName rName then AddScalar r rName (quantity_Value rQuant)
        else r) rl"

definition NewResource :: "resource_list \<Rightarrow> resource" where
  "NewResource rl = Resource_Add empty_resource rl"

fun SetMaxResource :: "resource \<Rightarrow> resource_list \<Rightarrow> resource" where
  "SetMaxResource r [] = r"
| "SetMaxResource r ((rName, rQuantity) # rl) =
     SetMaxResource
       (if rName = memory
          then (let mem = quantity_Value rQuantity
                in if mem > r_Memory r then r\<lparr>r_Memory := mem\<rparr> else r)
        else if rName = cpu
          then (let c = quantity_MilliValue rQuantity
                in if c > r_MilliCPU r then r\<lparr>r_MilliCPU := c\<rparr> else r)
        else if rName = ephemeral_storage
          then (let ephemeralStorage = quantity_Value rQuantity
                in if ephemeralStorage > r_EphemeralStorage r
                   then r\<lparr>r_EphemeralStorage := ephemeralStorage\<rparr> else r)
        else if IsScalarResourceName rName
          then (let v = quantity_Value rQuantity
                in if v > scalar r rName then SetScalar r rName v else r)
        else r) rl"

fun setMax_loop :: "resource \<Rightarrow> container list \<Rightarrow> resource" where
  "setMax_loop r [] = r"
| "setMax_loop r (c # cs) = setMax_loop (SetMaxResource r (ct_Requests c)) cs"

fun addRequests_loop :: "resource \<Rightarrow> container list \<Rightarrow> resource" where
  "addRequests_loop r [] = r"
| "addRequests_loop r (c # cs) = addRequests_loop (Resource_Add r (ct_Requests c)) cs"

definition GetResourceRequest :: "v1_pod \<Rightarrow> resource" where
  "GetResourceRequest pod =
     setMax_loop (addRequests_loop empty_resource (pod_Containers pod)) (pod_InitContainers pod)"

definition DefaultMilliCPURequest :: int where
  "DefaultMilliCPURequest = 100"

definition DefaultMemoryRequest :: int where
  "DefaultMemoryRequest = 200 * 1024 * 1024"

definition GetNonzeroRequests :: "resource_list \<Rightarrow> int \<times> int" where
  "GetNonzeroRequests requests =
     (case map_of requests cpu of
        None \<Rightarrow> DefaultMilliCPURequest
      | Some q \<Rightarrow> quantity_MilliValue q,
      case map_of requests memory of
        None \<Rightarrow> DefaultMemoryRequest
      | Some q \<Rightarrow> quantity_Value q)"

section \<open>Reading a Resource by name\<close>

text \<open>
  The counter Add and SetMax keep for a name: milli-units for cpu, units otherwise, none for names
  that are not counted.
\<close>

definition resource_get :: "resource \<Rightarrow> string \<Rightarrow> int" where
  "resource_get r name =
     (if name = cpu then r_MilliCPU r else if name = memory then r_Memory r
      else if name = pods_name then r_AllowedPodNumber r
      else if name = ephemeral_storage then r_EphemeralStorage r
      else scalar r name)"

definition resource_counts :: "string \<Rightarrow> bool" where
  "resource_counts name \<longleftrightarrow>
     name = cpu \<or> name = memory \<or> name = pods_name \<or> name = ephemeral_storage \<or>
     IsScalarResourceName name"

definition resource_amount :: "string \<Rightarrow> quantity \<Rightarrow> int" where
  "resource_amount name q =
     (if \<not> resource_counts name then 0
      else if name = cpu then quantity_MilliValue q else quantity_Value q)"

lemma scalar_simps [simp]:
  "scalar (r\<lparr>r_MilliCPU := a\<rparr>) n = scalar r n"
  "scalar (r\<lparr>r_Memory := a\<rparr>) n = scalar r n"
  "scalar (r\<lparr>r_EphemeralStorage := a\<rparr>) n = scalar r n"
  "scalar (r\<lparr>r_AllowedPodNumber := a\<rparr>) n = scalar r n"
  "scalar (SetScalar r m v) n = (if n = m then v else scalar r n)"
  by (simp_all add: scalar_def SetScalar_def update_conv')

lemma SetScalar_simps [simp]:
  "r_MilliCPU (SetScalar r n v) = r_MilliCPU r" "r_Memory (SetScalar r n v) = r_Memory r"
  "r_EphemeralStorage (SetScalar r n v) = r_EphemeralStorage r"
  "r_AllowedPodNumber (SetScalar r n v) = r_AllowedPodNumber r"
  by (simp_all add: SetScalar_def)

lemma resource_get_Add:
  "in64 (resource_get r name) \<Longrightarrow>
     resource_get (Resource_Add r rl) name =
     i64 (resource_get r name + (\<Sum>(k, q)\<leftarrow>rl. if k = name then resource_amount k q else 0))"
proof (induction r rl rule: Resource_Add.induct)
  case (1 r)
  then show ?case by (simp add: i64_id)
next
  case (2 r rName rQuant rl)
  define r' where "r' = (if rName = cpu then r\<lparr>r_MilliCPU := i64 (r_MilliCPU r + quantity_MilliValue rQuant)\<rparr>
        else if rName = memory then r\<lparr>r_Memory := i64 (r_Memory r + quantity_Value rQuant)\<rparr>
        else if rName = pods_name
          then r\<lparr>r_AllowedPodNumber := i64 (r_AllowedPodNumber r + quantity_Value rQuant)\<rparr>
        else if rName = ephemeral_storage
          then r\<lparr>r_EphemeralStorage := i64 (r_EphemeralStorage r + quantity_Value rQuant)\<rparr>
        else if IsScalarResourceName rName then AddScalar r rName (quantity_Value rQuant)
        else r)"
  have step: "resource_get r' name =
      i64 (resource_get r name + (if rName = name then resource_amount rName rQuant else 0))"
    using "2.prems"
    by (cases "rName = cpu"; cases "rName = memory"; cases "rName = pods_name";
        cases "rName = ephemeral_storage"; cases "IsScalarResourceName rName"; cases "name = rName")
      (simp_all add: r'_def resource_get_def resource_amount_def resource_counts_def AddScalar_def i64_id)
  then have "in64 (resource_get r' name)" by simp
  with "2.IH" have "resource_get (Resource_Add r' rl) name =
      i64 (resource_get r' name + (\<Sum>(k, q)\<leftarrow>rl. if k = name then resource_amount k q else 0))"
    by (simp add: r'_def [symmetric])
  then show ?case
    unfolding step by (simp add: r'_def [symmetric] i64_add_left add.assoc)
qed

lemma resource_get_NewResource:
  "resource_get (NewResource rl) name = i64 (\<Sum>(k, q)\<leftarrow>rl. if k = name then resource_amount k q else 0)"
proof -
  have "resource_get empty_resource name = 0"
    by (simp add: resource_get_def empty_resource_def scalar_def)
  then show ?thesis using resource_get_Add [of empty_resource name rl]
    by (simp add: NewResource_def in64_def)
qed

text \<open>Two lists with the same entries (two visiting orders of one Go map) give the same totals.\<close>

lemma Resource_Add_order:
  assumes "mset rl = mset rl'" "in64 (resource_get r name)"
  shows "resource_get (Resource_Add r rl) name = resource_get (Resource_Add r rl') name"
proof -
  let ?f = "\<lambda>(k, q). if k = name then resource_amount k q else 0"
  have "mset (map ?f rl) = mset (map ?f rl')"
    by (simp only: mset_map assms(1))
  then have "sum_list (map ?f rl) = sum_list (map ?f rl')"
    by (simp only: sum_mset_sum_list [symmetric])
  then show ?thesis using assms(2) by (simp only: resource_get_Add)
qed

lemma GetResourceRequest_static:
  "same_static ps ps' \<Longrightarrow> GetResourceRequest (ps p) = GetResourceRequest (ps' p)"
  by (simp add: GetResourceRequest_def same_static_fields)

lemma GetResourceRequest_set_status [simp]:
  "GetResourceRequest (set_status ps p s q) = GetResourceRequest (ps q)"
  by (simp add: GetResourceRequest_def)

end
