(* ===== verification/PriorityQueue.thy ===== *)
theory PriorityQueue
  imports QueueContract ContainerHeap Resource
begin

text \<open>
  pkg/queue/priority_queue.go and priority_queue_k8s.go: a binary heap of pod keys beside a map
  from keys to items, where every item keeps the position of its key in the heap. The comparator is
  a field of the queue and reads the pods through the store.

  \<open>raw_wf\<close> is the representation invariant (keys distinct, exactly the keys of the map, positions
  right). Under it no access panics and the heap routines act on \<open>raw_elems\<close>; \<open>pq_ordered\<close>, the heap
  property, is kept apart because it depends on the pods' current fields, which the scheduler
  changes while the pods are queued.
\<close>

section \<open>The comparators\<close>

type_synonym compare = "pods \<Rightarrow> pod_ptr \<Rightarrow> pod_ptr \<Rightarrow> bool"

definition podTimestamp :: "v1_pod \<Rightarrow> clock" where
  "podTimestamp pod =
     (case GetPodCondition (pod_Status pod) PodScheduled of
        None \<Rightarrow> pod_CreationTimestamp pod
      | Some (_, condition) \<Rightarrow>
          if time_IsZero (pc_LastProbeTime condition) then pc_LastTransitionTime condition
          else pc_LastProbeTime condition)"

definition DefaultComparator :: compare where
  "DefaultComparator ps pod0 pod1 =
     (let prio0 = PodPriority (ps pod0); prio1 = PodPriority (ps pod1);
          ts0 = podTimestamp (ps pod0); ts1 = podTimestamp (ps pod1)
      in prio0 > prio1 \<or> (prio0 = prio1 \<and> clock_Before ts0 ts1))"

definition ResourceRequestComparator :: compare where
  "ResourceRequestComparator ps pod0 pod1 =
     (let r0 = GetResourceRequest (ps pod0); r1 = GetResourceRequest (ps pod1)
      in r_Memory r0 > r_Memory r1)"

section \<open>rawPriorityQueue\<close>

record pq_item =
  it_pod :: pod_ptr
  it_index :: nat

record raw_pq =
  rq_items :: "(string \<times> pq_item) list"
  rq_keys :: "string list"
  rq_comparator :: compare

definition nil_dereference :: go_error where
  "nil_dereference = Panic ''nil pointer dereference''"

definition out_of_range :: go_error where
  "out_of_range = Panic ''index out of range''"

definition raw_Len :: "raw_pq \<Rightarrow> nat" where
  "raw_Len pq = length (rq_keys pq)"

definition raw_item :: "raw_pq \<Rightarrow> nat \<Rightarrow> pq_item res" where
  "raw_item pq i =
     (if i < length (rq_keys pq)
      then case map_of (rq_items pq) (rq_keys pq ! i) of
             None \<Rightarrow> Inl nil_dereference
           | Some item \<Rightarrow> Inr item
      else Inl out_of_range)"

definition raw_Less :: "pods \<Rightarrow> raw_pq \<Rightarrow> nat \<Rightarrow> nat \<Rightarrow> bool res" where
  "raw_Less ps pq i j =
     res_bind (raw_item pq i) (\<lambda>item0. res_bind (raw_item pq j) (\<lambda>item1.
       Inr (rq_comparator pq ps (it_pod item0) (it_pod item1))))"

definition raw_set_index :: "raw_pq \<Rightarrow> nat \<Rightarrow> raw_pq res" where
  "raw_set_index pq i =
     res_bind (raw_item pq i) (\<lambda>item.
       Inr (pq\<lparr>rq_items := AList.update (rq_keys pq ! i) (item\<lparr>it_index := i\<rparr>) (rq_items pq)\<rparr>))"

definition raw_Swap :: "raw_pq \<Rightarrow> nat \<Rightarrow> nat \<Rightarrow> raw_pq res" where
  "raw_Swap pq i j =
     (if i < length (rq_keys pq) \<and> j < length (rq_keys pq)
      then res_bind (raw_set_index (pq\<lparr>rq_keys := list_swap (rq_keys pq) i j\<rparr>) i) (\<lambda>pq'.
             raw_set_index pq' j)
      else Inl out_of_range)"

definition raw_Push :: "pods \<Rightarrow> raw_pq \<Rightarrow> pod_ptr \<Rightarrow> raw_pq" where
  "raw_Push ps pq pod =
     (let item = \<lparr>it_pod = pod, it_index = length (rq_items pq)\<rparr>;
          key = (case PodKey (ps pod) of Inl _ \<Rightarrow> [] | Inr key \<Rightarrow> key)
      in pq\<lparr>rq_items := AList.update key item (rq_items pq), rq_keys := rq_keys pq @ [key]\<rparr>)"

definition raw_Pop :: "raw_pq \<Rightarrow> (raw_pq \<times> pod_ptr) res" where
  "raw_Pop pq =
     (let n = length (rq_keys pq)
      in if n = 0 then Inl out_of_range
         else let key = rq_keys pq ! (n - 1)
              in case map_of (rq_items pq) key of
                   None \<Rightarrow> Inl nil_dereference
                 | Some item \<Rightarrow>
                     Inr (pq\<lparr>rq_items := AList.delete key (rq_items pq),
                            rq_keys := take (n - 1) (rq_keys pq)\<rparr>, it_pod item))"

definition raw_pendingPods :: "raw_pq \<Rightarrow> pod_ptr list" where
  "raw_pendingPods pq = map (\<lambda>(_, item). it_pod item) (rq_items pq)"

section \<open>PriorityQueue\<close>

record priority_queue =
  pq_inner :: raw_pq
  pq_nominatedPods :: "(string \<times> (string \<times> pod_ptr) list) list"

text \<open>
  \<open>keys\<close> is the order in which the range loop over the map of items visits it; the map's own list
  order is another visit of the same map, so the two may differ.
\<close>

definition newWithItems ::
  "pods \<Rightarrow> (string \<times> pq_item) list \<Rightarrow> string list \<Rightarrow> compare \<Rightarrow> priority_queue res" where
  "newWithItems ps items keys comparator =
     res_bind
       (heap_Init (raw_Less ps) raw_Swap raw_Len
          \<lparr>rq_items = items, rq_keys = keys, rq_comparator = comparator\<rparr>)
       (\<lambda>rawPq. Inr \<lparr>pq_inner = rawPq, pq_nominatedPods = []\<rparr>)"

definition NewPriorityQueueWithComparator :: "pods \<Rightarrow> compare \<Rightarrow> priority_queue res" where
  "NewPriorityQueueWithComparator ps comparator = newWithItems ps [] [] comparator"

definition NewPriorityQueue :: "pods \<Rightarrow> int \<Rightarrow> priority_queue res" where
  "NewPriorityQueue ps class =
     (if class = 1 then NewPriorityQueueWithComparator ps ResourceRequestComparator
      else NewPriorityQueueWithComparator ps DefaultComparator)"

fun Reorder_items ::
  "pods \<Rightarrow> (string \<times> pq_item) list \<Rightarrow> pod_ptr list \<Rightarrow> nat \<Rightarrow> (string \<times> pq_item) list" where
  "Reorder_items ps items [] idx = items"
| "Reorder_items ps items (pod # pods) idx =
     (let key = (case PodKey (ps pod) of Inl _ \<Rightarrow> [] | Inr key \<Rightarrow> key)
      in Reorder_items ps (AList.update key \<lparr>it_pod = pod, it_index = idx\<rparr> items) pods (Suc idx))"

definition PriorityQueue_Reorder ::
  "pods \<Rightarrow> priority_queue \<Rightarrow> string list \<Rightarrow> compare \<Rightarrow> priority_queue res" where
  "PriorityQueue_Reorder ps pq keys comparator =
     newWithItems ps (Reorder_items ps [] (raw_pendingPods (pq_inner pq)) 0) keys comparator"

definition PriorityQueue_Push :: "pods \<Rightarrow> priority_queue \<Rightarrow> pod_ptr \<Rightarrow> priority_queue res" where
  "PriorityQueue_Push ps pq pod =
     res_bind (PodKey (ps pod)) (\<lambda>_.
       res_bind (heap_Push (raw_Less ps) raw_Swap raw_Len (raw_Push ps) (pq_inner pq) pod) (\<lambda>inner.
         Inr (pq\<lparr>pq_inner := inner\<rparr>)))"

definition PriorityQueue_Pop :: "pods \<Rightarrow> priority_queue \<Rightarrow> priority_queue \<times> pod_ptr res" where
  "PriorityQueue_Pop ps pq =
     (if raw_Len (pq_inner pq) = 0 then (pq, Inl ErrEmptyQueue)
      else case heap_Pop (raw_Less ps) raw_Swap raw_Len raw_Pop (pq_inner pq) of
             Inl e \<Rightarrow> (pq, Inl e)
           | Inr (inner, pod) \<Rightarrow> (pq\<lparr>pq_inner := inner\<rparr>, Inr pod))"

definition PriorityQueue_Front :: "priority_queue \<Rightarrow> priority_queue \<times> pod_ptr res" where
  "PriorityQueue_Front pq =
     (if raw_Len (pq_inner pq) = 0 then (pq, Inl ErrEmptyQueue)
      else (pq, res_bind (raw_item (pq_inner pq) 0) (\<lambda>item. Inr (it_pod item))))"

definition delete_nominated ::
  "(string \<times> (string \<times> pod_ptr) list) list \<Rightarrow> string \<Rightarrow> string \<Rightarrow> (string \<times> (string \<times> pod_ptr) list) list" where
  "delete_nominated nominated nodeName key =
     (case map_of nominated nodeName of
        None \<Rightarrow> nominated
      | Some pods \<Rightarrow> AList.update nodeName (AList.delete key pods) nominated)"

definition PriorityQueue_Delete ::
  "pods \<Rightarrow> priority_queue \<Rightarrow> string \<Rightarrow> string \<Rightarrow> (pods \<times> priority_queue \<times> bool) res" where
  "PriorityQueue_Delete ps pq podNamespace podName =
     (let key = PodKeyFromNames podNamespace podName
      in case map_of (rq_items (pq_inner pq)) key of
           None \<Rightarrow> Inr (ps, pq, False)
         | Some item \<Rightarrow>
             let nominatedNodeName = ps_NominatedNodeName (pod_Status (ps (it_pod item)));
                 ps' = set_nominated ps (it_pod item) [];
                 nominated = delete_nominated (pq_nominatedPods pq) nominatedNodeName key
             in res_bind
                  (heap_Remove (raw_Less ps') raw_Swap raw_Len raw_Pop (pq_inner pq) (it_index item))
                  (\<lambda>(inner, _).
                    Inr (ps', pq\<lparr>pq_inner := inner\<lparr>rq_items := AList.delete key (rq_items inner)\<rparr>,
                               pq_nominatedPods := nominated\<rparr>, True)))"

definition PriorityQueue_Update ::
  "pods \<Rightarrow> priority_queue \<Rightarrow> string \<Rightarrow> string \<Rightarrow> pod_ptr \<Rightarrow> priority_queue res" where
  "PriorityQueue_Update ps pq podNamespace podName newPod =
     (let keyOrig = PodKeyFromNames podNamespace podName
      in res_bind (PodKey (ps newPod)) (\<lambda>keyNew.
           if keyOrig \<noteq> keyNew then Inl ErrDifferentNames
           else case map_of (rq_items (pq_inner pq)) keyOrig of
                  None \<Rightarrow> Inl (ErrNoMatchingPod keyOrig)
                | Some item \<Rightarrow>
                    let inner = (pq_inner pq)\<lparr>rq_items :=
                          AList.update keyOrig (item\<lparr>it_pod := newPod\<rparr>) (rq_items (pq_inner pq))\<rparr>
                    in res_bind (heap_Fix (raw_Less ps) raw_Swap raw_Len inner (it_index item))
                         (\<lambda>inner'. Inr (pq\<lparr>pq_inner := inner'\<rparr>))))"

definition PriorityQueue_RemoveNominatedNode ::
  "pods \<Rightarrow> priority_queue \<Rightarrow> pod_ptr \<Rightarrow> (pods \<times> priority_queue) res" where
  "PriorityQueue_RemoveNominatedNode ps pq pod =
     (let nodeName = ps_NominatedNodeName (pod_Status (ps pod))
      in if nodeName = [] then Inr (ps, pq)
         else res_bind (PodKey (ps pod)) (\<lambda>key.
                Inr (set_nominated ps pod [],
                     pq\<lparr>pq_nominatedPods := delete_nominated (pq_nominatedPods pq) nodeName key\<rparr>)))"

text \<open>
  UpdateNominatedNode writes the pod before it computes the key; the store is returned with the
  error, as the write stays.
\<close>

definition PriorityQueue_UpdateNominatedNode ::
  "pods \<Rightarrow> priority_queue \<Rightarrow> pod_ptr \<Rightarrow> string \<Rightarrow> pods \<times> priority_queue res" where
  "PriorityQueue_UpdateNominatedNode ps pq pod nodeName =
     (case PriorityQueue_RemoveNominatedNode ps pq pod of
        Inl e \<Rightarrow> (ps, Inl e)
      | Inr (ps', pq') \<Rightarrow>
          let ps'' = set_nominated ps' pod nodeName
          in (ps'', res_bind (PodKey (ps'' pod)) (\<lambda>key.
                let pods = (case map_of (pq_nominatedPods pq') nodeName of None \<Rightarrow> [] | Some pods \<Rightarrow> pods)
                in Inr (pq'\<lparr>pq_nominatedPods :=
                     AList.update nodeName (AList.update key pod pods) (pq_nominatedPods pq')\<rparr>))))"

definition PriorityQueue_NominatedPods :: "priority_queue \<Rightarrow> string \<Rightarrow> pod_ptr list" where
  "PriorityQueue_NominatedPods pq nodeName =
     (case map_of (pq_nominatedPods pq) nodeName of None \<Rightarrow> [] | Some pods \<Rightarrow> map snd pods)"

section \<open>The representation invariant of the heap\<close>

definition raw_wf :: "compare \<Rightarrow> raw_pq \<Rightarrow> bool" where
  "raw_wf c pq \<longleftrightarrow>
     rq_comparator pq = c \<and> distinct (map fst (rq_items pq)) \<and> distinct (rq_keys pq) \<and>
     set (rq_keys pq) = fst ` set (rq_items pq) \<and>
     (\<forall>i < length (rq_keys pq). \<exists>p.
        map_of (rq_items pq) (rq_keys pq ! i) = Some \<lparr>it_pod = p, it_index = i\<rparr>)"

definition raw_live :: "raw_pq \<Rightarrow> string \<Rightarrow> pod_ptr option" where
  "raw_live pq k = map_option it_pod (map_of (rq_items pq) k)"

definition raw_elems :: "raw_pq \<Rightarrow> (string \<times> pod_ptr) list" where
  "raw_elems pq = map (\<lambda>k. (k, the (raw_live pq k))) (rq_keys pq)"

definition raw_lt :: "pods \<Rightarrow> compare \<Rightarrow> string \<times> pod_ptr \<Rightarrow> string \<times> pod_ptr \<Rightarrow> bool" where
  "raw_lt ps c a b = c ps (snd a) (snd b)"

lemma raw_elems_length [simp]: "length (raw_elems pq) = length (rq_keys pq)"
  by (simp add: raw_elems_def)

lemma raw_elems_keys: "map fst (raw_elems pq) = rq_keys pq"
  by (simp add: raw_elems_def comp_def)

lemma raw_elems_nth: "i < length (rq_keys pq) \<Longrightarrow>
    raw_elems pq ! i = (rq_keys pq ! i, the (raw_live pq (rq_keys pq ! i)))"
  by (simp add: raw_elems_def)

lemma raw_wf_length: "raw_wf c pq \<Longrightarrow> length (rq_items pq) = length (rq_keys pq)"
  unfolding raw_wf_def by (metis distinct_card length_map list.set_map)

lemma raw_wf_index:
  "raw_wf c pq \<Longrightarrow> i < length (rq_keys pq) \<Longrightarrow>
     \<exists>p. map_of (rq_items pq) (rq_keys pq ! i) = Some \<lparr>it_pod = p, it_index = i\<rparr>"
  unfolding raw_wf_def by blast

lemma raw_wf_item:
  assumes "raw_wf c pq" "i < length (rq_keys pq)"
  shows "raw_item pq i = Inr \<lparr>it_pod = snd (raw_elems pq ! i), it_index = i\<rparr>"
  using assms by (auto simp: raw_item_def raw_wf_def raw_elems_nth raw_live_def)

lemma raw_wf_key_iff: "raw_wf c pq \<Longrightarrow> k \<in> set (rq_keys pq) \<longleftrightarrow> raw_live pq k \<noteq> None"
  by (auto simp: raw_wf_def raw_live_def map_of_eq_None_iff)

lemma raw_elems_live:
  assumes "raw_wf c pq"
  shows "map_of (raw_elems pq) = raw_live pq"
proof
  fix k
  show "map_of (raw_elems pq) k = raw_live pq k"
    using raw_wf_key_iff [OF assms, of k] by (auto simp: raw_elems_def map_of_map_restrict restrict_map_def)
qed

lemma raw_elems_distinct: "raw_wf c pq \<Longrightarrow> distinct (map fst (raw_elems pq))"
  by (simp add: raw_elems_keys raw_wf_def)

lemma raw_live_mset:
  assumes "raw_wf c pq" "raw_wf c' pq'" "mset (raw_elems pq) = mset (raw_elems pq')"
  shows "raw_live pq = raw_live pq'"
proof -
  have "set (raw_elems pq) = set (raw_elems pq')" using assms(3) by (metis set_mset_mset)
  then have "map_of (raw_elems pq) = map_of (raw_elems pq')"
    using raw_elems_distinct [OF assms(1)] raw_elems_distinct [OF assms(2)]
    by (intro map_of_inject_set [THEN iffD2])
  then show ?thesis using assms raw_elems_live by metis
qed

text \<open>The two heap methods: no panic, and Swap exchanges two elements.\<close>

lemma raw_Less_wf:
  assumes "raw_wf c pq" "i < length (raw_elems pq)" "j < length (raw_elems pq)"
  shows "raw_Less ps pq i j = Inr (raw_lt ps c (raw_elems pq ! i) (raw_elems pq ! j))"
  using assms by (simp add: raw_Less_def raw_wf_item raw_lt_def) (simp add: raw_wf_def)

lemma raw_Swap_wf:
  assumes wf: "raw_wf c pq" and i: "i < length (raw_elems pq)" and j: "j < length (raw_elems pq)"
  shows "\<exists>pq'. raw_Swap pq i j = Inr pq' \<and> raw_wf c pq' \<and>
    raw_elems pq' = list_swap (raw_elems pq) i j"
proof -
  let ?ks = "rq_keys pq" let ?ks' = "list_swap ?ks i j"
  have ij: "i < length ?ks" "j < length ?ks" using i j by auto
  obtain pi pj where items:
    "map_of (rq_items pq) (?ks ! i) = Some \<lparr>it_pod = pi, it_index = i\<rparr>"
    "map_of (rq_items pq) (?ks ! j) = Some \<lparr>it_pod = pj, it_index = j\<rparr>"
    using wf ij by (fastforce simp: raw_wf_def)
  have ks': "?ks' ! i = ?ks ! j" "?ks' ! j = ?ks ! i"
    using ij by (auto simp: list_swap_nth)
  define items' where "items' = AList.update (?ks ! i) \<lparr>it_pod = pi, it_index = j\<rparr>
      (AList.update (?ks ! j) \<lparr>it_pod = pj, it_index = i\<rparr> (rq_items pq))"
  define pq' where "pq' = pq\<lparr>rq_keys := ?ks', rq_items := items'\<rparr>"
  have inj: "a < length ?ks \<Longrightarrow> b < length ?ks \<Longrightarrow> ?ks ! a = ?ks ! b \<longleftrightarrow> a = b" for a b
    using wf by (simp add: raw_wf_def nth_eq_iff_index_eq)
  have pipj: "i = j \<Longrightarrow> pi = pj" using items by simp
  have swap: "raw_Swap pq i j = Inr pq'"
    using ij items ks' inj [OF ij] pipj
    by (auto simp: raw_Swap_def raw_set_index_def raw_item_def pq'_def items'_def update_conv')
  have map': "map_of items' = (map_of (rq_items pq))(?ks ! j \<mapsto> \<lparr>it_pod = pj, it_index = i\<rparr>,
      ?ks ! i \<mapsto> \<lparr>it_pod = pi, it_index = j\<rparr>)"
    by (simp add: items'_def update_conv')
  have live: "raw_live pq' = raw_live pq"
    using items by (auto simp: raw_live_def pq'_def map' fun_eq_iff)
  have perm: "mset ?ks' = mset ?ks" using ij by (simp add: list_swap_mset)
  have "distinct ?ks'" "set ?ks' = set ?ks"
    using wf mset_eq_imp_distinct_iff [OF perm] mset_eq_setD [OF perm] by (auto simp: raw_wf_def)
  moreover have "fst ` set items' = fst ` set (rq_items pq)"
  proof -
    have "?ks ! i \<in> fst ` set (rq_items pq)" "?ks ! j \<in> fst ` set (rq_items pq)"
      using wf ij by (auto simp: raw_wf_def)
    then show ?thesis by (simp add: items'_def dom_update insert_absorb)
  qed
  moreover have "distinct (map fst items')"
    using wf by (simp add: items'_def raw_wf_def distinct_update)
  moreover have "\<exists>p. map_of items' (?ks' ! k) = Some \<lparr>it_pod = p, it_index = k\<rparr>"
    if k: "k < length ?ks" for k
  proof -
    obtain pk where "map_of (rq_items pq) (?ks ! k) = Some \<lparr>it_pod = pk, it_index = k\<rparr>"
      using wf k by (auto simp: raw_wf_def)
    then show ?thesis
      using ij k inj by (auto simp: map' list_swap_nth pipj)
  qed
  ultimately have "raw_wf c pq'"
    using wf by (simp add: raw_wf_def pq'_def)
  moreover have "rq_keys pq' = ?ks'" by (simp add: pq'_def)
  then have "raw_elems pq' = list_swap (raw_elems pq) i j"
    by (intro nth_equalityI) (use ij in \<open>auto simp: raw_elems_nth live list_swap_nth\<close>)
  ultimately show ?thesis using swap by blast
qed

interpretation rq: heap_interface "raw_wf c" raw_elems "raw_lt ps c" "raw_Less ps" raw_Swap
  for c :: compare and ps :: pods
  by unfold_locales (use raw_Less_wf raw_Swap_wf in auto)

section \<open>The map and slice operations\<close>

lemma raw_Push_wf:
  assumes wf: "raw_wf c pq" and key: "PodKey (ps p) = Inr k" and fresh: "raw_live pq k = None"
  shows "raw_wf c (raw_Push ps pq p)" "raw_elems (raw_Push ps pq p) = raw_elems pq @ [(k, p)]"
    "raw_live (raw_Push ps pq p) = (raw_live pq)(k \<mapsto> p)"
proof -
  have k: "k \<notin> set (rq_keys pq)" using raw_wf_key_iff [OF wf] fresh by simp
  define pq' where "pq' = raw_Push ps pq p"
  have keys': "rq_keys pq' = rq_keys pq @ [k]" and c': "rq_comparator pq' = c"
    and items': "rq_items pq' = AList.update k \<lparr>it_pod = p, it_index = length (rq_keys pq)\<rparr> (rq_items pq)"
    using wf by (auto simp: pq'_def raw_Push_def key raw_wf_length [OF wf] Let_def) (simp add: raw_wf_def)
  have "\<exists>p'. map_of (rq_items pq') (rq_keys pq' ! i) = Some \<lparr>it_pod = p', it_index = i\<rparr>"
    if i: "i < length (rq_keys pq')" for i
  proof (cases "i = length (rq_keys pq)")
    case False
    then have "i < length (rq_keys pq)" using i keys' by simp
    moreover from this have "rq_keys pq ! i \<noteq> k" using k by (metis nth_mem)
    ultimately show ?thesis using raw_wf_index [OF wf, of i]
      by (simp add: keys' items' update_conv' nth_append)
  qed (simp add: keys' items' update_conv')
  then show "raw_wf c (raw_Push ps pq p)"
    using wf k unfolding pq'_def [symmetric]
    by (simp add: raw_wf_def keys' c' items' distinct_update dom_update)
  have live: "raw_live pq' = (raw_live pq)(k \<mapsto> p)"
    by (auto simp: raw_live_def items' update_conv' fun_eq_iff)
  then show "raw_live (raw_Push ps pq p) = (raw_live pq)(k \<mapsto> p)" by (simp add: pq'_def)
  from live have "raw_elems pq' = raw_elems pq @ [(k, p)]"
    using k by (auto simp: raw_elems_def keys')
  then show "raw_elems (raw_Push ps pq p) = raw_elems pq @ [(k, p)]"
    by (simp add: pq'_def)
qed

lemma raw_Pop_wf:
  assumes wf: "raw_wf c pq" and elems: "raw_elems pq = xs @ [(k, p)]"
  shows "\<exists>pq'. raw_Pop pq = Inr (pq', p) \<and> raw_wf c pq' \<and> raw_elems pq' = xs \<and>
    raw_live pq' = (raw_live pq)(k := None) \<and> k \<notin> fst ` set (rq_items pq')"
proof -
  define ks where "ks = map fst xs"
  have keys: "rq_keys pq = ks @ [k]"
    using arg_cong [OF elems, of "map fst"] by (simp add: raw_elems_keys ks_def)
  have dist: "distinct (ks @ [k])" using wf by (simp add: raw_wf_def keys)
  have lx: "length xs = length ks" by (simp add: ks_def)
  have live: "raw_live pq k = Some p"
    using raw_elems_distinct [OF wf] unfolding raw_elems_live [OF wf, symmetric]
    by (simp add: elems map_add_Some_iff map_of_eq_None_iff)
  then obtain item where item: "map_of (rq_items pq) k = Some item" "it_pod item = p"
    by (auto simp: raw_live_def)
  define pq' where "pq' = pq\<lparr>rq_items := AList.delete k (rq_items pq), rq_keys := ks\<rparr>"
  have pop: "raw_Pop pq = Inr (pq', p)"
    by (simp add: raw_Pop_def keys item pq'_def nth_append)
  have live': "raw_live pq' = (raw_live pq)(k := None)"
    by (auto simp: raw_live_def pq'_def delete_conv' fun_eq_iff)
  have "\<exists>p. map_of (rq_items pq') (ks ! i) = Some \<lparr>it_pod = p, it_index = i\<rparr>" if "i < length ks" for i
  proof -
    have "ks ! i \<noteq> k" using that dist by (auto simp: in_set_conv_nth)
    moreover have "\<exists>p. map_of (rq_items pq) (rq_keys pq ! i) = Some \<lparr>it_pod = p, it_index = i\<rparr>"
      using raw_wf_index [OF wf, of i] that by (simp add: keys)
    ultimately show ?thesis using that by (simp add: pq'_def delete_conv' keys nth_append)
  qed
  moreover have "set ks = fst ` set (rq_items pq) - {k}"
    using wf dist by (auto simp: raw_wf_def keys)
  ultimately have "raw_wf c pq'"
    using wf dist by (simp add: raw_wf_def pq'_def distinct_delete keys)
  moreover have "raw_elems pq' = xs"
  proof (rule nth_equalityI)
    fix i assume i: "i < length (raw_elems pq')"
    then have ik: "i < length ks" by (simp add: pq'_def)
    then have "ks ! i \<noteq> k" using dist by (auto simp: in_set_conv_nth)
    with ik have "raw_elems pq' ! i = raw_elems pq ! i"
      by (simp add: raw_elems_nth pq'_def keys nth_append live' [unfolded pq'_def])
    then show "raw_elems pq' ! i = xs ! i" using ik by (simp add: elems nth_append lx)
  qed (simp add: pq'_def lx)
  moreover have "k \<notin> fst ` set (rq_items pq')" by (simp add: pq'_def)
  ultimately show ?thesis using pop live' by blast
qed

section \<open>Every operation under the invariant\<close>

lemma rq_permuted_live: "raw_wf c pq \<Longrightarrow> rq.permuted c n pq pq' \<Longrightarrow> raw_live pq' = raw_live pq"
  using raw_live_mset [of c pq c pq'] by (simp add: rq.permuted_def)

definition pq_live :: "priority_queue \<Rightarrow> string \<Rightarrow> pod_ptr option" where
  "pq_live q = raw_live (pq_inner q)"

definition pq_inv :: "pods \<Rightarrow> priority_queue \<Rightarrow> bool" where
  "pq_inv ps q \<longleftrightarrow>
     raw_wf (rq_comparator (pq_inner q)) (pq_inner q) \<and>
     (\<forall>k p. pq_live q k = Some p \<longrightarrow> PodKey (ps p) = Inr k)"

text \<open>The heap property over the current pods.\<close>

definition pq_ordered :: "pods \<Rightarrow> priority_queue \<Rightarrow> bool" where
  "pq_ordered ps q \<longleftrightarrow>
     is_heap (raw_lt ps (rq_comparator (pq_inner q))) (raw_elems (pq_inner q))"

text \<open>Push: the heap gains one element at the end, then sifts it up.\<close>

lemma heap_Push_wf:
  assumes wf: "raw_wf c pq" and key: "PodKey (ps p) = Inr k" and fresh: "raw_live pq k = None"
  obtains pq' where "heap_Push (raw_Less ps) raw_Swap raw_Len (raw_Push ps) pq p = Inr pq'"
    "raw_wf c pq'" "raw_live pq' = (raw_live pq)(k \<mapsto> p)"
    "mset (raw_elems pq') = add_mset (k, p) (mset (raw_elems pq))"
proof -
  note push = raw_Push_wf [of c pq ps p k, OF wf key fresh]
  let ?h = "raw_Push ps pq p"
  have len: "raw_Len ?h = Suc (raw_Len pq)"
    by (simp add: raw_Len_def raw_Push_def Let_def)
  obtain pq' where up: "heap_up (raw_Less ps) raw_Swap ?h (raw_Len ?h - 1) = Inr pq'"
      and perm: "rq.permuted c (raw_Len ?h) ?h pq'"
    using rq.heap_up_permuted [OF push(1), of "raw_Len ?h - 1" "raw_Len ?h" ps] len
    by (auto simp: raw_Len_def)
  show thesis
  proof (rule that)
    show "heap_Push (raw_Less ps) raw_Swap raw_Len (raw_Push ps) pq p = Inr pq'"
      using up by (simp add: heap_Push_def)
    show "raw_wf c pq'" "mset (raw_elems pq') = add_mset (k, p) (mset (raw_elems pq))"
      using perm push(2) by (simp_all add: rq.permuted_def)
    show "raw_live pq' = (raw_live pq)(k \<mapsto> p)"
      using rq_permuted_live [OF push(1) perm] push(3) by simp
  qed
qed

text \<open>Pop: the root leaves.\<close>

lemma heap_Pop_wf:
  assumes wf: "raw_wf c pq" and ne: "raw_Len pq \<noteq> 0" and root: "raw_elems pq ! 0 = (k, p)"
  obtains pq' where "heap_Pop (raw_Less ps) raw_Swap raw_Len raw_Pop pq = Inr (pq', p)"
    "raw_wf c pq'" "raw_live pq' = (raw_live pq)(k := None)"
    "mset (raw_elems pq) = add_mset (k, p) (mset (raw_elems pq'))"
proof -
  define n where "n = raw_Len pq - 1"
  have len: "length (raw_elems pq) = Suc n" using ne by (simp add: n_def raw_Len_def)
  obtain h1 where h1: "raw_Swap pq 0 n = Inr h1" "raw_wf c h1" "raw_elems h1 = list_swap (raw_elems pq) 0 n"
    using rq.swap_ok [OF wf, of 0 n] ne by (auto simp: n_def raw_Len_def)
  obtain h2 moved where h2: "heap_down (raw_Less ps) raw_Swap h1 0 n = Inr (h2, moved)"
    "rq.permuted c n h1 h2"
    using rq.heap_down_permuted [OF h1(2), of n ps 0] h1(3) len by auto
  have "raw_elems h2 ! n = (k, p)"
    using h2(2) h1(3) len root by (simp add: rq.permuted_def list_swap_nth)
  moreover have len2: "length (raw_elems h2) = Suc n"
    using rq.permuted_length [OF h2(2)] h1(3) len by simp
  ultimately have last: "raw_elems h2 = take n (raw_elems h2) @ [(k, p)]"
    by (metis take_Suc_conv_app_nth lessI order_refl take_all)
  have wf2: "raw_wf c h2" using h2(2) by (simp add: rq.permuted_def)
  obtain pq' where pq': "raw_Pop h2 = Inr (pq', p)" "raw_wf c pq'" "raw_elems pq' = take n (raw_elems h2)"
    "raw_live pq' = (raw_live h2)(k := None)"
    using raw_Pop_wf [OF wf2 last] by blast
  have mset2: "mset (raw_elems h2) = mset (raw_elems pq)"
    using h2(2) h1(3) len by (simp add: rq.permuted_def list_swap_mset)
  show thesis
  proof (rule that)
    show "heap_Pop (raw_Less ps) raw_Swap raw_Len raw_Pop pq = Inr (pq', p)"
      using h1(1) h2(1) pq'(1) by (simp add: heap_Pop_def n_def)
    show "raw_wf c pq'" by fact
    show "raw_live pq' = (raw_live pq)(k := None)"
      using pq'(4) raw_live_mset [OF wf2 wf mset2] by simp
    show "mset (raw_elems pq) = add_mset (k, p) (mset (raw_elems pq'))"
      using mset2 pq'(3) arg_cong [OF last, of mset] by simp
  qed
qed

text \<open>Remove: the element at any position leaves.\<close>

lemma heap_Remove_wf:
  assumes wf: "raw_wf c pq" and i: "i < raw_Len pq" and at: "raw_elems pq ! i = (k, p)"
  obtains pq' where "heap_Remove (raw_Less ps) raw_Swap raw_Len raw_Pop pq i = Inr (pq', p)"
    "raw_wf c pq'" "raw_live pq' = (raw_live pq)(k := None)"
    "k \<notin> fst ` set (rq_items pq')" "mset (raw_elems pq) = add_mset (k, p) (mset (raw_elems pq'))"
proof -
  define n where "n = raw_Len pq - 1"
  have len: "length (raw_elems pq) = Suc n" using i by (simp add: n_def raw_Len_def)
  obtain h2 where h2: "raw_wf c h2" "mset (raw_elems h2) = mset (raw_elems pq)"
      "raw_elems h2 ! n = (k, p)"
      "heap_Remove (raw_Less ps) raw_Swap raw_Len raw_Pop pq i = raw_Pop h2"
  proof (cases "n = i")
    case True
    with that [of pq] wf at show thesis by (simp add: heap_Remove_def n_def)
  next
    case False
    with i have i_n: "i < n" by (simp add: n_def raw_Len_def)
    obtain h1 where h1: "raw_Swap pq i n = Inr h1" "raw_wf c h1" "raw_elems h1 = list_swap (raw_elems pq) i n"
      using rq.swap_ok [OF wf, of i n] len i_n by auto
    obtain h2 where h2: "heap_fix_at (raw_Less ps) raw_Swap h1 i n = Inr h2" "rq.permuted c n h1 h2"
      using rq.heap_fix_at_permuted [OF h1(2) i_n order_refl, of ps] h1(3) len by auto
    show thesis
    proof (rule that)
      show "raw_wf c h2" "mset (raw_elems h2) = mset (raw_elems pq)" "raw_elems h2 ! n = (k, p)"
        using h2(2) h1(3) len i_n at by (auto simp: rq.permuted_def list_swap_mset list_swap_nth)
      show "heap_Remove (raw_Less ps) raw_Swap raw_Len raw_Pop pq i = raw_Pop h2"
        using False h1(1) h2(1) by (simp add: heap_Remove_def n_def)
    qed
  qed
  have "length (raw_elems h2) = Suc n" using h2(2) len by (metis size_mset)
  with h2(3) have last: "raw_elems h2 = take n (raw_elems h2) @ [(k, p)]"
    by (metis take_Suc_conv_app_nth lessI order_refl take_all)
  obtain pq' where pq': "raw_Pop h2 = Inr (pq', p)" "raw_wf c pq'" "raw_elems pq' = take n (raw_elems h2)"
    "raw_live pq' = (raw_live h2)(k := None)" "k \<notin> fst ` set (rq_items pq')"
    using raw_Pop_wf [OF h2(1) last] by blast
  show thesis
  proof (rule that)
    show "heap_Remove (raw_Less ps) raw_Swap raw_Len raw_Pop pq i = Inr (pq', p)"
      using h2(4) pq'(1) by simp
    show "raw_wf c pq'" "k \<notin> fst ` set (rq_items pq')" by fact+
    show "raw_live pq' = (raw_live pq)(k := None)"
      using pq'(4) raw_live_mset [OF h2(1) wf h2(2)] by simp
    show "mset (raw_elems pq) = add_mset (k, p) (mset (raw_elems pq'))"
      using h2(2) pq'(3) arg_cong [OF last, of mset] by simp
  qed
qed

text \<open>Replacing the pod of an item, then Fix.\<close>

lemma raw_replace_wf:
  fixes p :: pod_ptr
  assumes wf: "raw_wf c pq" and item: "map_of (rq_items pq) k = Some item"
  defines "pq' \<equiv> pq\<lparr>rq_items := AList.update k (item\<lparr>it_pod := p\<rparr>) (rq_items pq)\<rparr>"
  shows "raw_wf c pq'" "raw_live pq' = (raw_live pq)(k \<mapsto> p)"
    "it_index item < raw_Len pq" "raw_elems pq' = (raw_elems pq)[it_index item := (k, p)]"
    "raw_elems pq ! it_index item = (k, it_pod item)"
proof -
  have live: "raw_live pq' = (raw_live pq)(k \<mapsto> p)"
    by (auto simp: raw_live_def pq'_def update_conv' fun_eq_iff)
  then show "raw_live pq' = (raw_live pq)(k \<mapsto> p)" .
  have "raw_live pq k \<noteq> None" using item by (simp add: raw_live_def)
  then have "k \<in> set (rq_keys pq)" using raw_wf_key_iff [OF wf] by simp
  then obtain i where i: "i < length (rq_keys pq)" "rq_keys pq ! i = k" by (auto simp: in_set_conv_nth)
  have idx: "it_index item = i" using raw_wf_index [OF wf i(1)] i(2) item by auto
  show "it_index item < raw_Len pq" using i idx by (simp add: raw_Len_def)
  show "raw_elems pq ! it_index item = (k, it_pod item)"
    using i item by (simp add: idx raw_elems_nth raw_live_def)
  have inj: "j < length (rq_keys pq) \<Longrightarrow> rq_keys pq ! j = k \<longleftrightarrow> j = i" for j
    using wf i by (auto simp: raw_wf_def nth_eq_iff_index_eq)
  have "\<exists>p'. map_of (rq_items pq') (rq_keys pq' ! j) = Some \<lparr>it_pod = p', it_index = j\<rparr>"
    if "j < length (rq_keys pq')" for j
    using raw_wf_index [OF wf, of j] that inj [of j] idx
    by (cases "j = i"; cases item) (auto simp: pq'_def update_conv' i)
  moreover have "k \<in> fst ` set (rq_items pq)" using \<open>k \<in> set (rq_keys pq)\<close> wf by (simp add: raw_wf_def)
  ultimately show "raw_wf c pq'"
    using wf unfolding raw_wf_def
    by (simp add: pq'_def distinct_update dom_update insert_absorb del: map_of_eq_Some_iff)
  show "raw_elems pq' = (raw_elems pq)[it_index item := (k, p)]"
  proof (rule nth_equalityI)
    have keys': "rq_keys pq' = rq_keys pq" by (simp add: pq'_def)
    then show "length (raw_elems pq') = length ((raw_elems pq)[it_index item := (k, p)])" by simp
    fix j assume "j < length (raw_elems pq')"
    then show "raw_elems pq' ! j = (raw_elems pq)[it_index item := (k, p)] ! j"
      using i inj by (auto simp: raw_elems_nth nth_list_update live keys' idx)
  qed
qed

section \<open>The queue contract\<close>

lemma pq_inv_live: "pq_inv ps q \<Longrightarrow> pq_live q k = Some p \<Longrightarrow> PodKey (ps p) = Inr k"
  by (simp add: pq_inv_def)

lemma pq_inv_wf: "pq_inv ps q \<Longrightarrow> raw_wf (rq_comparator (pq_inner q)) (pq_inner q)"
  by (simp add: pq_inv_def)

lemma raw_wf_comparator: "raw_wf c pq \<Longrightarrow> rq_comparator pq = c"
  by (simp add: raw_wf_def)

lemma pq_invI:
  assumes "raw_wf c (pq_inner q)" "\<And>k p. pq_live q k = Some p \<Longrightarrow> PodKey (ps p) = Inr k"
  shows "pq_inv ps q"
  using assms raw_wf_comparator [OF assms(1)] by (simp add: pq_inv_def)

lemma raw_live_empty_iff: "raw_wf c pq \<Longrightarrow> raw_live pq = Map.empty \<longleftrightarrow> raw_Len pq = 0"
proof -
  assume wf: "raw_wf c pq"
  have "raw_live pq = Map.empty \<longleftrightarrow> set (rq_keys pq) = {}"
    using raw_wf_key_iff [OF wf] by (simp add: fun_eq_iff set_eq_iff del: set_empty)
  then show ?thesis by (simp add: raw_Len_def)
qed

lemma pq_Pop_empty: "pq_inv ps q \<Longrightarrow> pq_live q = Map.empty \<Longrightarrow> PriorityQueue_Pop ps q = (q, Inl ErrEmptyQueue)"
  using raw_live_empty_iff [OF pq_inv_wf] by (simp add: PriorityQueue_Pop_def pq_live_def)

lemma pq_Pop_live:
  assumes inv: "pq_inv ps q" and ne: "pq_live q \<noteq> Map.empty"
    and root: "raw_elems (pq_inner q) ! 0 = (k, p)"
  shows "\<exists>q'. PriorityQueue_Pop ps q = (q', Inr p) \<and> pq_live q k = Some p \<and> pq_inv ps q' \<and>
    pq_live q' = (pq_live q)(k := None)"
proof -
  note wf = pq_inv_wf [OF inv]
  have len: "raw_Len (pq_inner q) \<noteq> 0"
    using ne raw_live_empty_iff [OF wf] by (simp add: pq_live_def)
  obtain h' where h': "heap_Pop (raw_Less ps) raw_Swap raw_Len raw_Pop (pq_inner q) = Inr (h', p)"
    "raw_wf (rq_comparator (pq_inner q)) h'" "raw_live h' = (raw_live (pq_inner q))(k := None)"
    using heap_Pop_wf [OF wf len root] by metis
  have "(k, p) \<in> set (raw_elems (pq_inner q))"
    using root len by (metis nth_mem raw_elems_length raw_Len_def neq0_conv)
  then have live: "pq_live q k = Some p"
    using raw_elems_live [OF wf] raw_elems_distinct [OF wf]
    by (metis map_of_is_SomeI pq_live_def)
  define q' where "q' = q\<lparr>pq_inner := h'\<rparr>"
  have live': "pq_live q' = (pq_live q)(k := None)" by (simp add: pq_live_def h'(3) q'_def)
  have "pq_inv ps q'"
    by (rule pq_invI [of "rq_comparator (pq_inner q)"])
      (use h'(2) live' pq_inv_live [OF inv] in \<open>auto simp: q'_def split: if_splits\<close>)
  with len h'(1) live live' show ?thesis by (auto simp: PriorityQueue_Pop_def q'_def)
qed

lemma pq_Push_fresh:
  assumes inv: "pq_inv ps q" and key: "PodKey (ps p) = Inr k" and fresh: "pq_live q k = None"
  shows "\<exists>q'. PriorityQueue_Push ps q p = Inr q' \<and> pq_inv ps q' \<and> pq_live q' = (pq_live q)(k \<mapsto> p)"
proof -
  obtain h' where h': "heap_Push (raw_Less ps) raw_Swap raw_Len (raw_Push ps) (pq_inner q) p = Inr h'"
    "raw_wf (rq_comparator (pq_inner q)) h'" "raw_live h' = (raw_live (pq_inner q))(k \<mapsto> p)"
    using heap_Push_wf [of _ "pq_inner q" ps p k, OF pq_inv_wf [OF inv] key] fresh
    by (metis pq_live_def)
  define q' where "q' = q\<lparr>pq_inner := h'\<rparr>"
  have live': "pq_live q' = (pq_live q)(k \<mapsto> p)" by (simp add: pq_live_def h'(3) q'_def)
  have "pq_inv ps q'"
    by (rule pq_invI [of "rq_comparator (pq_inner q)"])
      (use h'(2) live' key pq_inv_live [OF inv] in \<open>auto simp: q'_def split: if_splits\<close>)
  with h'(1) key live' show ?thesis by (simp add: PriorityQueue_Push_def q'_def)
qed

lemma pq_inv_static: "pq_inv ps q \<Longrightarrow> same_static ps ps' \<Longrightarrow> pq_inv ps' q"
  by (simp add: pq_inv_def PodKey_static)

lemma pq_Delete_key:
  assumes inv: "pq_inv ps q" and k: "k = PodKeyFromNames ns n"
  shows "\<exists>ps' q'. PriorityQueue_Delete ps q ns n = Inr (ps', q', pq_live q k \<noteq> None) \<and>
    same_static ps ps' \<and> pq_inv ps' q' \<and> pq_live q' = (pq_live q)(k := None)"
proof (cases "map_of (rq_items (pq_inner q)) k")
  case None
  then have "pq_live q k = None" by (simp add: pq_live_def raw_live_def)
  then have "pq_live q = (pq_live q)(k := None)" by (simp add: fun_upd_idem)
  with None inv \<open>pq_live q k = None\<close> show ?thesis
    by (intro exI [of _ ps] exI [of _ q]) (simp add: PriorityQueue_Delete_def k)
next
  case (Some item)
  note wf = pq_inv_wf [OF inv]
  define ps' where "ps' = set_nominated ps (it_pod item) []"
  note idx = raw_replace_wf(3,5) [OF wf Some]
  obtain h' where h': "heap_Remove (raw_Less ps') raw_Swap raw_Len raw_Pop (pq_inner q) (it_index item)
      = Inr (h', it_pod item)"
    "raw_wf (rq_comparator (pq_inner q)) h'" "raw_live h' = (raw_live (pq_inner q))(k := None)"
    "k \<notin> fst ` set (rq_items h')"
    using heap_Remove_wf [OF wf idx] by metis
  define q' where "q' = q\<lparr>pq_inner := h'\<lparr>rq_items := AList.delete k (rq_items h')\<rparr>,
      pq_nominatedPods := delete_nominated (pq_nominatedPods q)
        (ps_NominatedNodeName (pod_Status (ps (it_pod item)))) k\<rparr>"
  have "h'\<lparr>rq_items := AList.delete k (rq_items h')\<rparr> = h'"
    using h'(4) by simp
  then have inner: "pq_inner q' = h'" by (simp add: q'_def)
  have static: "same_static ps ps'" by (simp add: ps'_def)
  have live': "pq_live q' = (pq_live q)(k := None)" by (simp add: pq_live_def h'(3) inner)
  have "pq_inv ps q'"
    by (rule pq_invI [of "rq_comparator (pq_inner q)"])
      (use h'(2) live' pq_inv_live [OF inv] in \<open>auto simp: inner split: if_splits\<close>)
  then have "pq_inv ps' q'" using static by (rule pq_inv_static)
  moreover have "PriorityQueue_Delete ps q ns n = Inr (ps', q', True)"
    using Some h'(1) by (simp add: PriorityQueue_Delete_def k [symmetric] ps'_def q'_def)
  moreover have "pq_live q k \<noteq> None" using Some by (simp add: pq_live_def raw_live_def)
  ultimately show ?thesis using static live' by auto
qed

lemma pq_Update_live:
  assumes inv: "pq_inv ps q" and key: "PodKey (ps p) = Inr k" and k: "k = PodKeyFromNames ns n"
    and live: "pq_live q k \<noteq> None"
  shows "\<exists>q'. PriorityQueue_Update ps q ns n p = Inr q' \<and> pq_inv ps q' \<and>
    pq_live q' = (pq_live q)(k \<mapsto> p)"
proof -
  note wf = pq_inv_wf [OF inv]
  obtain item where item: "map_of (rq_items (pq_inner q)) k = Some item"
    using live by (auto simp: pq_live_def raw_live_def)
  define h where "h = (pq_inner q)\<lparr>rq_items := AList.update k (item\<lparr>it_pod := p\<rparr>) (rq_items (pq_inner q))\<rparr>"
  note rep = raw_replace_wf(1,2) [OF wf item, of p, folded h_def] raw_replace_wf(3) [OF wf item]
  have len: "raw_Len h = raw_Len (pq_inner q)" by (simp add: h_def raw_Len_def)
  obtain h' where h': "heap_Fix (raw_Less ps) raw_Swap raw_Len h (it_index item) = Inr h'"
    "rq.permuted (rq_comparator (pq_inner q)) (raw_Len h) h h'"
    using rq.heap_fix_at_permuted [OF rep(1), of "it_index item" "raw_Len h" "raw_Len h" ps] rep(3) len
    by (auto simp: heap_Fix_def raw_Len_def)
  define q' where "q' = q\<lparr>pq_inner := h'\<rparr>"
  have live': "pq_live q' = (pq_live q)(k \<mapsto> p)"
    using rq_permuted_live [OF rep(1) h'(2)] rep(2) by (simp add: pq_live_def q'_def)
  have "pq_inv ps q'"
    by (rule pq_invI [of "rq_comparator (pq_inner q)"])
      (use h'(2) live' key pq_inv_live [OF inv] in \<open>auto simp: q'_def rq.permuted_def split: if_splits\<close>)
  moreover have "PriorityQueue_Update ps q ns n p = Inr q'"
    using key item h'(1) by (simp add: PriorityQueue_Update_def k [symmetric] q'_def h_def Let_def)
  ultimately show ?thesis using live' by blast
qed

interpretation pq: pod_queue_contract pq_inv pq_live PriorityQueue_Push PriorityQueue_Pop
    PriorityQueue_Front PriorityQueue_Delete PriorityQueue_Update
proof (unfold_locales, goal_cases)
  case (1 ps q ps')
  then show ?case by (rule pq_inv_static)
next
  case (2 ps q)
  have "dom (pq_live q) = dom (map_of (rq_items (pq_inner q)))"
    by (auto simp: pq_live_def raw_live_def)
  then show ?case by (simp add: finite_dom_map_of)
next
  case (3 ps q k p)
  then show ?case by (rule pq_inv_live)
next
  case (4 ps q p k)
  then show ?case by (rule pq_Push_fresh)
next
  case (5 ps p e q)
  then show ?case by (simp add: PriorityQueue_Push_def)
next
  case (6 ps q)
  then show ?case using pq_Pop_empty by blast
next
  case (7 ps q)
  obtain k p where "raw_elems (pq_inner q) ! 0 = (k, p)" by force
  with pq_Pop_live [OF 7] show ?case by blast
next
  case (8 ps q q' r)
  note wf = pq_inv_wf [OF 8(1)]
  have q': "q' = q" using 8(2) by (auto simp: PriorityQueue_Front_def split: if_splits)
  show ?case
  proof (cases "raw_Len (pq_inner q) = 0")
    case True
    then have "pq_live q = Map.empty" using raw_live_empty_iff [OF wf] by (simp add: pq_live_def)
    with pq_Pop_empty [OF 8(1)] True 8 q' show ?thesis by (simp add: PriorityQueue_Front_def)
  next
    case False
    obtain k p where root: "raw_elems (pq_inner q) ! 0 = (k, p)" by force
    have "pq_live q \<noteq> Map.empty" using raw_live_empty_iff [OF wf] False by (simp add: pq_live_def)
    with pq_Pop_live [OF 8(1) _ root] False 8 q' root raw_wf_item [OF wf, of 0] show ?thesis
      by (auto simp: PriorityQueue_Front_def raw_Len_def)
  qed
next
  case (9 ps q k ns n)
  then show ?case by (rule pq_Delete_key)
next
  case (10 ps p e q ns n)
  then show ?case by (simp add: PriorityQueue_Update_def)
next
  case (11 ps p k ns n q)
  then show ?case by (simp add: PriorityQueue_Update_def)
next
  case (12 ps q p k ns n)
  then show ?case by (simp add: PriorityQueue_Update_def pq_live_def raw_live_def)
next
  case (13 ps q p k ns n)
  then show ?case by (rule pq_Update_live)
qed

section \<open>The heap property\<close>

text \<open>A comparator is good on a store when it is a strict weak order there.\<close>

definition comparator_ok :: "pods \<Rightarrow> compare \<Rightarrow> bool" where
  "comparator_ok ps c \<longleftrightarrow>
     (\<forall>a b. c ps a b \<longrightarrow> \<not> c ps b a) \<and> (\<forall>a b d. \<not> c ps a b \<longrightarrow> \<not> c ps b d \<longrightarrow> \<not> c ps a d)"

lemma DefaultComparator_ok: "comparator_ok ps DefaultComparator"
  by (auto simp: comparator_ok_def DefaultComparator_def clock_Before_def Let_def)

lemma ResourceRequestComparator_ok: "comparator_ok ps ResourceRequestComparator"
  unfolding comparator_ok_def ResourceRequestComparator_def Let_def by (meson less_asym not_less order_trans)

lemma raw_heap_order:
  "comparator_ok ps c \<Longrightarrow> heap_order (raw_wf c) raw_elems (raw_lt ps c) (raw_Less ps) raw_Swap"
  unfolding comparator_ok_def by unfold_locales (unfold raw_lt_def, blast+)

interpretation dc: heap_order "raw_wf DefaultComparator" raw_elems "raw_lt ps DefaultComparator"
    "raw_Less ps" raw_Swap for ps :: pods
  by (rule raw_heap_order [OF DefaultComparator_ok])

interpretation rc: heap_order "raw_wf ResourceRequestComparator" raw_elems
    "raw_lt ps ResourceRequestComparator" "raw_Less ps" raw_Swap for ps :: pods
  by (rule raw_heap_order [OF ResourceRequestComparator_ok])

definition raw_ordered :: "pods \<Rightarrow> compare \<Rightarrow> raw_pq \<Rightarrow> bool" where
  "raw_ordered ps c h \<longleftrightarrow> is_heap (raw_lt ps c) (raw_elems h)"

lemma raw_lt_negtrans:
  "comparator_ok ps c \<Longrightarrow> \<not> raw_lt ps c a b \<Longrightarrow> \<not> raw_lt ps c b d \<Longrightarrow> \<not> raw_lt ps c a d"
  unfolding comparator_ok_def raw_lt_def by blast

lemma raw_lt_irrefl: "comparator_ok ps c \<Longrightarrow> \<not> raw_lt ps c a a"
  unfolding comparator_ok_def raw_lt_def by blast

text \<open>The root of an ordered queue: no element goes before it.\<close>

lemma raw_ordered_root:
  assumes "comparator_ok ps c" "raw_ordered ps c h" "x \<in> set (raw_elems h)"
  shows "\<not> raw_lt ps c x (raw_elems h ! 0)"
proof -
  obtain j where j: "j < length (raw_elems h)" "raw_elems h ! j = x"
    using assms(3) by (auto simp: in_set_conv_nth simp del: raw_elems_length)
  have "\<not> raw_lt ps c (raw_elems h ! j) (raw_elems h ! 0)"
    by (rule heap_root_min [OF assms(2) [unfolded raw_ordered_def] _ _ j(1)])
      (use raw_lt_negtrans [OF assms(1)] raw_lt_irrefl [OF assms(1)] in blast)+
  then show ?thesis by (simp add: j(2))
qed

lemma heap_Push_ordered:
  assumes ok: "comparator_ok ps c" and wf: "raw_wf c h" and ord: "raw_ordered ps c h"
    and key: "PodKey (ps p) = Inr k" and fresh: "raw_live h k = None"
    and push: "heap_Push (raw_Less ps) raw_Swap raw_Len (raw_Push ps) h p = Inr h'"
  shows "raw_ordered ps c h'"
proof -
  note raw = raw_Push_wf [of c h ps p k, OF wf key fresh]
  let ?h = "raw_Push ps h p" let ?n = "raw_Len h"
  have len: "length (raw_elems ?h) = Suc ?n" by (simp add: raw(2) raw_Len_def del: raw_elems_length) (simp add: raw_Len_def)
  have up: "heap_up (raw_Less ps) raw_Swap ?h ?n = Inr h'"
    using push len by (simp add: heap_Push_def raw_Len_def)
  have "heap_from (raw_lt ps c) 0 (raw_elems ?h) ?n"
    using ord by (subst heap_from_cong [of _ _ "raw_elems h"])
      (simp_all add: raw(2) nth_append raw_ordered_def raw_Len_def)
  then have hole: "heap_hole (raw_lt ps c) 0 ?n (raw_elems ?h) (Suc ?n)" by (rule heap_from_hole)
  have "heap_from (raw_lt ps c) 0 (raw_elems h') (Suc ?n)"
  proof (rule heap_order.heap_up_heap [OF raw_heap_order [OF ok] raw(1) _ _ hole _ up])
    show "?n < Suc ?n" "Suc ?n \<le> length (raw_elems ?h)" using len by simp_all
    fix k' assume "k' < Suc ?n" "0 < k'" "parent k' = ?n"
    with parent_less [of k'] show "\<not> raw_lt ps c (raw_elems ?h ! k') (raw_elems ?h ! ?n)" by simp
  qed
  moreover have "length (raw_elems h') = Suc ?n"
    using rq.heap_up_permuted [OF raw(1), of ?n "Suc ?n" ps] up len
    by (auto simp del: raw_elems_length dest: rq.permuted_length)
  ultimately show ?thesis by (simp add: raw_ordered_def)
qed

lemma raw_Pop_elems: "raw_wf c h \<Longrightarrow> raw_elems h = xs @ [x] \<Longrightarrow> raw_Pop h = Inr (h', p) \<Longrightarrow> raw_elems h' = xs"
  using raw_Pop_wf [of c h xs "fst x" "snd x"] by auto

lemma raw_Pop_ordered:
  assumes "raw_wf c h" "length (raw_elems h) = Suc n" "heap_from (raw_lt ps c) 0 (raw_elems h) n"
    "raw_Pop h = Inr (h', p)"
  shows "raw_ordered ps c h'"
proof -
  have "raw_elems h = take n (raw_elems h) @ [raw_elems h ! n]"
    using assms(2) by (metis take_Suc_conv_app_nth lessI order_refl take_all)
  from raw_Pop_elems [OF assms(1) this assms(4)] have e: "raw_elems h' = take n (raw_elems h)" .
  then have "length (raw_elems h') = n" using assms(2) by simp
  with assms(3) e show ?thesis
    unfolding raw_ordered_def by (subst heap_from_cong [of _ _ "raw_elems h"]) simp_all
qed

lemma heap_Pop_ordered:
  assumes ok: "comparator_ok ps c" and wf: "raw_wf c h" and ord: "raw_ordered ps c h"
    and ne: "raw_Len h \<noteq> 0" and pop: "heap_Pop (raw_Less ps) raw_Swap raw_Len raw_Pop h = Inr (h', p)"
  shows "raw_ordered ps c h'"
proof -
  define n where "n = raw_Len h - 1"
  have len: "length (raw_elems h) = Suc n" using ne by (simp add: n_def raw_Len_def)
  obtain h1 where h1: "raw_Swap h 0 n = Inr h1" "raw_wf c h1" "raw_elems h1 = list_swap (raw_elems h) 0 n"
    using rq.swap_ok [OF wf, of 0 n] ne by (auto simp: n_def raw_Len_def)
  obtain h2 moved where down: "heap_down (raw_Less ps) raw_Swap h1 0 n = Inr (h2, moved)"
    and perm: "rq.permuted c n h1 h2"
    using rq.heap_down_permuted [OF h1(2), of n ps 0] h1(3) len by auto
  then obtain i' where loop: "heap_down_loop (raw_Less ps) raw_Swap h1 0 n = Inr (h2, i')"
    by (auto simp: heap_down_def res_bind_Inr_iff)
  have hole: "heap_hole (raw_lt ps c) 0 0 (raw_elems h1) n"
  proof (rule heap_hole_change [of _ _ "raw_elems h"])
    show "heap_from (raw_lt ps c) 0 (raw_elems h) n"
      using ord len heap_from_mono [of _ _ _ "Suc n" n] by (simp add: raw_ordered_def)
    show "raw_elems h1 ! k = raw_elems h ! k" if "k < n" "k \<noteq> 0" for k
      using that len by (simp add: h1(3) list_swap_nth)
  qed (rule raw_lt_negtrans [OF ok])
  have len1: "length (raw_elems h1) = Suc n" using h1(3) len by simp
  have "heap_from (raw_lt ps c) 0 (raw_elems h2) n"
    by (rule heap_order.heap_down_loop_heap [OF raw_heap_order [OF ok] h1(2) _ hole _ loop])
      (use len1 in simp_all)
  moreover have "raw_wf c h2" "length (raw_elems h2) = Suc n"
    using perm rq.permuted_length [OF perm] len1 by (simp_all add: rq.permuted_def)
  moreover have "raw_Pop h2 = Inr (h', p)"
    using pop h1(1) down unfolding heap_Pop_def Let_def n_def [symmetric] by simp
  ultimately show ?thesis using raw_Pop_ordered by blast
qed

lemma heap_fix_at_ordered:
  assumes ok: "comparator_ok ps c" and wf1: "raw_wf c h1" and i: "i < n" and n: "n \<le> length (raw_elems h1)"
    and before: "heap_from (raw_lt ps c) 0 xs n"
    and change: "\<And>k. k < n \<Longrightarrow> k \<noteq> i \<Longrightarrow> raw_elems h1 ! k = xs ! k"
    and fixed: "heap_fix_at (raw_Less ps) raw_Swap h1 i n = Inr h2"
  shows "heap_from (raw_lt ps c) 0 (raw_elems h2) n"
proof -
  have hole: "heap_hole (raw_lt ps c) 0 i (raw_elems h1) n"
    by (rule heap_hole_change [OF before raw_lt_negtrans [OF ok] change])
  show ?thesis
    by (rule heap_order.heap_fix_at_heap [OF raw_heap_order [OF ok] wf1 n i hole fixed])
qed

lemma heap_Remove_ordered:
  assumes ok: "comparator_ok ps c" and wf: "raw_wf c h" and ord: "raw_ordered ps c h"
    and i: "i < raw_Len h" and rem: "heap_Remove (raw_Less ps) raw_Swap raw_Len raw_Pop h i = Inr (h', p)"
  shows "raw_ordered ps c h'"
proof -
  define n where "n = raw_Len h - 1"
  have len: "length (raw_elems h) = Suc n" using i by (simp add: n_def raw_Len_def)
  have part: "heap_from (raw_lt ps c) 0 (raw_elems h) n"
    using ord len heap_from_mono [of _ _ _ "Suc n" n] by (simp add: raw_ordered_def)
  show ?thesis
  proof (cases "n = i")
    case True
    then have "raw_Pop h = Inr (h', p)" using rem by (simp add: heap_Remove_def n_def)
    then show ?thesis by (rule raw_Pop_ordered [OF wf len part])
  next
    case False
    with i have i_n: "i < n" by (simp add: n_def raw_Len_def)
    obtain h1 where h1: "raw_Swap h i n = Inr h1" "raw_wf c h1" "raw_elems h1 = list_swap (raw_elems h) i n"
      using rq.swap_ok [OF wf, of i n] len i_n by auto
    obtain h2 where h2: "heap_fix_at (raw_Less ps) raw_Swap h1 i n = Inr h2" "rq.permuted c n h1 h2"
      using rq.heap_fix_at_permuted [OF h1(2) i_n order_refl, of ps] h1(3) len by auto
    have len1: "length (raw_elems h1) = Suc n" using h1(3) len by simp
    have "heap_from (raw_lt ps c) 0 (raw_elems h2) n"
      by (rule heap_fix_at_ordered [OF ok h1(2) i_n _ part _ h2(1)])
        (use len1 len i_n in \<open>simp_all add: h1(3) list_swap_nth\<close>)
    moreover have "raw_wf c h2" "length (raw_elems h2) = Suc n"
      using h2(2) rq.permuted_length [OF h2(2)] len1 by (simp_all add: rq.permuted_def)
    moreover have "raw_Pop h2 = Inr (h', p)"
      using rem h1(1) h2(1) False unfolding heap_Remove_def Let_def n_def [symmetric] by simp
    ultimately show ?thesis using raw_Pop_ordered by blast
  qed
qed

lemma heap_Init_wf:
  assumes ok: "comparator_ok ps c" and wf: "raw_wf c h"
  obtains h' where "heap_Init (raw_Less ps) raw_Swap raw_Len h = Inr h'" "raw_wf c h'"
    "raw_live h' = raw_live h" "raw_ordered ps c h'"
proof -
  let ?n = "raw_Len h"
  have n: "?n \<le> length (raw_elems h)" by (simp add: raw_Len_def)
  obtain h' where h': "heap_Init_loop (raw_Less ps) raw_Swap ?n h (?n div 2) = Inr h'"
    "rq.permuted c ?n h h'"
    using rq.heap_Init_loop_permuted [OF wf n] by blast
  have half: "heap_from (raw_lt ps c) (?n div 2) (raw_elems h) ?n"
    by (rule heap_order.heap_from_half [OF raw_heap_order [OF ok] n])
  have "heap_from (raw_lt ps c) 0 (raw_elems h') ?n"
    by (rule heap_order.heap_Init_loop_heap [OF raw_heap_order [OF ok] wf n half h'(1)])
  moreover have "length (raw_elems h') = ?n"
    using rq.permuted_length [OF h'(2)] by (simp add: raw_Len_def)
  ultimately have "raw_ordered ps c h'" by (simp add: raw_ordered_def)
  moreover have "raw_wf c h'" using h'(2) by (simp add: rq.permuted_def)
  ultimately show thesis
    using that h' rq_permuted_live [OF wf h'(2)] by (simp add: heap_Init_def Let_def)
qed

section \<open>The order in which pods leave the queue\<close>

definition pq_comparator :: "priority_queue \<Rightarrow> compare" where
  "pq_comparator q = rq_comparator (pq_inner q)"

text \<open>No pending pod goes before \<open>p\<close>.\<close>

definition pq_first :: "pods \<Rightarrow> priority_queue \<Rightarrow> pod_ptr \<Rightarrow> bool" where
  "pq_first ps q p \<longleftrightarrow> (\<forall>k p'. pq_live q k = Some p' \<longrightarrow> \<not> pq_comparator q ps p' p)"

lemma pq_ordered_raw: "pq_ordered ps q \<longleftrightarrow> raw_ordered ps (pq_comparator q) (pq_inner q)"
  by (simp add: pq_ordered_def raw_ordered_def pq_comparator_def)

lemma pq_Pop_ordered:
  assumes inv: "pq_inv ps q" and ok: "comparator_ok ps (pq_comparator q)" and ord: "pq_ordered ps q"
    and pop: "PriorityQueue_Pop ps q = (q', Inr p)"
  shows "pq_first ps q p" "pq_ordered ps q'" "pq_comparator q' = pq_comparator q"
proof -
  note wf = pq_inv_wf [OF inv, folded pq_comparator_def]
  have len: "raw_Len (pq_inner q) \<noteq> 0" using pop by (auto simp: PriorityQueue_Pop_def split: if_splits)
  obtain k r where root: "raw_elems (pq_inner q) ! 0 = (k, r)" by force
  obtain h' where h': "heap_Pop (raw_Less ps) raw_Swap raw_Len raw_Pop (pq_inner q) = Inr (h', r)"
    "raw_wf (pq_comparator q) h'"
    using heap_Pop_wf [OF wf len root] by metis
  with pop len have q': "q' = q\<lparr>pq_inner := h'\<rparr>" "r = p"
    by (auto simp: PriorityQueue_Pop_def)
  show "pq_first ps q p"
    unfolding pq_first_def
  proof (intro allI impI)
    fix k' p' assume "pq_live q k' = Some p'"
    then have "(k', p') \<in> set (raw_elems (pq_inner q))"
      using raw_elems_live [OF wf] by (metis map_of_SomeD pq_live_def)
    from raw_ordered_root [OF ok ord [unfolded pq_ordered_raw] this] show "\<not> pq_comparator q ps p' p"
      by (simp add: root q'(2) raw_lt_def)
  qed
  show c': "pq_comparator q' = pq_comparator q"
    using raw_wf_comparator [OF h'(2)] by (simp add: pq_comparator_def q'(1))
  show "pq_ordered ps q'"
    unfolding pq_ordered_raw c'
    using heap_Pop_ordered [OF ok wf ord [unfolded pq_ordered_raw] len h'(1)] by (simp add: q'(1))
qed

lemma pq_Push_ordered:
  assumes inv: "pq_inv ps q" and ok: "comparator_ok ps (pq_comparator q)" and ord: "pq_ordered ps q"
    and key: "PodKey (ps p) = Inr k" and fresh: "pq_live q k = None"
    and push: "PriorityQueue_Push ps q p = Inr q'"
  shows "pq_ordered ps q'" "pq_comparator q' = pq_comparator q"
proof -
  note wf = pq_inv_wf [OF inv, folded pq_comparator_def]
  obtain h' where h': "heap_Push (raw_Less ps) raw_Swap raw_Len (raw_Push ps) (pq_inner q) p = Inr h'"
    "raw_wf (pq_comparator q) h'"
    using heap_Push_wf [of _ "pq_inner q" ps p k, OF wf key] fresh by (metis pq_live_def)
  with push key have q': "q' = q\<lparr>pq_inner := h'\<rparr>" by (simp add: PriorityQueue_Push_def)
  show c': "pq_comparator q' = pq_comparator q"
    using raw_wf_comparator [OF h'(2)] by (simp add: pq_comparator_def q')
  show "pq_ordered ps q'"
    unfolding pq_ordered_raw c'
    using heap_Push_ordered [OF ok wf ord [unfolded pq_ordered_raw] key _ h'(1)] fresh
    by (simp add: q' pq_live_def)
qed

text \<open>
  Draining: \<open>pq_drain n\<close> pops \<open>n\<close> times. The pods come out sorted by the comparator, and with enough
  pops every pending pod comes out.
\<close>

fun pq_drain :: "pods \<Rightarrow> nat \<Rightarrow> priority_queue \<Rightarrow> pod_ptr list" where
  "pq_drain ps 0 q = []"
| "pq_drain ps (Suc n) q =
     (case PriorityQueue_Pop ps q of
        (q', Inr p) \<Rightarrow> p # pq_drain ps n q'
      | (q', Inl e) \<Rightarrow> [])"

lemma pq_Pop_cases:
  assumes "pq_inv ps q"
  obtains (Empty) "PriorityQueue_Pop ps q = (q, Inl ErrEmptyQueue)" "pq_live q = Map.empty"
  | (Pod) q' k p where "PriorityQueue_Pop ps q = (q', Inr p)" "pq_live q k = Some p"
      "pq_inv ps q'" "pq_live q' = (pq_live q)(k := None)"
proof (cases "pq_live q = Map.empty")
  case True
  then show thesis using pq_Pop_empty [OF assms] Empty by blast
next
  case False
  obtain k p where "raw_elems (pq_inner q) ! 0 = (k, p)" by force
  with pq_Pop_live [OF assms False] Pod show thesis by blast
qed

lemma ran_map_remove: "m k = Some p \<Longrightarrow> ran m = insert p (ran (m(k := None)))"
  unfolding ran_def by (auto, metis option.inject)

lemma pq_drain_ran: "pq_inv ps q \<Longrightarrow> set (pq_drain ps n q) \<subseteq> ran (pq_live q)"
proof (induction n arbitrary: q)
  case (Suc n)
  from Suc.prems show ?case
  proof (cases rule: pq_Pop_cases)
    case (Pod q' k p)
    have "ran (pq_live q) = insert p (ran (pq_live q'))"
      using ran_map_remove [of "pq_live q" k p] Pod(2,4) by (simp only:)
    with Suc.IH [OF Pod(3)] Pod(1) show ?thesis by auto
  qed simp
qed simp

lemma pq_drain_complete:
  "pq_inv ps q \<Longrightarrow> card (dom (pq_live q)) \<le> n \<Longrightarrow> set (pq_drain ps n q) = ran (pq_live q)"
proof (induction n arbitrary: q)
  case 0
  then have "pq_live q = Map.empty" using pq.finite_live [OF 0(1)] by simp
  then show ?case by simp
next
  case (Suc n)
  from Suc.prems(1) show ?case
  proof (cases rule: pq_Pop_cases)
    case (Pod q' k p)
    have "card (dom (pq_live q')) < card (dom (pq_live q))"
      by (rule pq.pop_card [OF Suc.prems(1) Pod(1)])
    moreover have "ran (pq_live q) = insert p (ran (pq_live q'))"
      using ran_map_remove [of "pq_live q" k p] Pod(2,4) by (simp only:)
    ultimately show ?thesis using Suc.IH [OF Pod(3)] Suc.prems(2) Pod(1) by simp
  qed simp
qed

lemma pq_drain_length: "pq_inv ps q \<Longrightarrow> card (dom (pq_live q)) \<le> n \<Longrightarrow> length (pq_drain ps n q) = card (dom (pq_live q))"
proof (induction n arbitrary: q)
  case 0
  then show ?case by simp
next
  case (Suc n)
  from Suc.prems(1) show ?case
  proof (cases rule: pq_Pop_cases)
    case (Pod q' k p)
    have fin: "finite (dom (pq_live q))" by (rule pq.finite_live [OF Suc.prems(1)])
    have "dom (pq_live q) = insert k (dom (pq_live q'))" "k \<notin> dom (pq_live q')" using Pod by auto
    with fin have "card (dom (pq_live q)) = Suc (card (dom (pq_live q')))"
      by (metis card_insert_disjoint finite_insert)
    with Suc.IH [OF Pod(3)] Suc.prems(2) Pod(1) show ?thesis by simp
  qed simp
qed

lemma pq_drain_sorted:
  "pq_inv ps q \<Longrightarrow> comparator_ok ps (pq_comparator q) \<Longrightarrow> pq_ordered ps q \<Longrightarrow>
     sorted_wrt (\<lambda>a b. \<not> pq_comparator q ps b a) (pq_drain ps n q)"
proof (induction n arbitrary: q)
  case (Suc n)
  from Suc.prems(1) show ?case
  proof (cases rule: pq_Pop_cases)
    case (Pod q' k p)
    note ord = pq_Pop_ordered [OF Suc.prems Pod(1)]
    have "sorted_wrt (\<lambda>a b. \<not> pq_comparator q ps b a) (pq_drain ps n q')"
      using Suc.IH [OF Pod(3)] Suc.prems(2) ord(2,3) by simp
    moreover have "\<forall>x \<in> set (pq_drain ps n q'). \<not> pq_comparator q ps x p"
      using pq_drain_ran [OF Pod(3), of n] ord(1) Pod(4)
      by (auto simp: pq_first_def ran_def split: if_splits)
    ultimately show ?thesis by (simp add: Pod(1))
  qed simp
qed simp

end
