(* ===== verification/PodQueue.thy ===== *)
theory PodQueue
  imports FifoQueue PriorityQueue
begin

text \<open>
  pkg/queue/queue.go: the \<open>PodQueue\<close> interface and its metrics. A value of the Go interface is one of
  the two implementations in the repository, so the interface is the sum of the two and each method
  dispatches; both satisfy \<open>pod_queue_contract\<close>, hence so does the sum, which is what the scheduler
  and the simulator rely on.
\<close>

datatype pod_queue = Fifo fifo_queue | Prio priority_queue

definition Queue_Push :: "pods \<Rightarrow> pod_queue \<Rightarrow> pod_ptr \<Rightarrow> pod_queue res" where
  "Queue_Push ps q pod =
     (case q of
        Fifo f \<Rightarrow> res_bind (FIFOQueue_Push ps f pod) (\<lambda>f'. Inr (Fifo f'))
      | Prio p \<Rightarrow> res_bind (PriorityQueue_Push ps p pod) (\<lambda>p'. Inr (Prio p')))"

definition Queue_Pop :: "pods \<Rightarrow> pod_queue \<Rightarrow> pod_queue \<times> pod_ptr res" where
  "Queue_Pop ps q =
     (case q of
        Fifo f \<Rightarrow> (case FIFOQueue_Pop f of (f', r) \<Rightarrow> (Fifo f', r))
      | Prio p \<Rightarrow> (case PriorityQueue_Pop ps p of (p', r) \<Rightarrow> (Prio p', r)))"

definition Queue_Front :: "pod_queue \<Rightarrow> pod_queue \<times> pod_ptr res" where
  "Queue_Front q =
     (case q of
        Fifo f \<Rightarrow> (case FIFOQueue_Front f of (f', r) \<Rightarrow> (Fifo f', r))
      | Prio p \<Rightarrow> (case PriorityQueue_Front p of (p', r) \<Rightarrow> (Prio p', r)))"

definition Queue_Delete ::
  "pods \<Rightarrow> pod_queue \<Rightarrow> string \<Rightarrow> string \<Rightarrow> (pods \<times> pod_queue \<times> bool) res" where
  "Queue_Delete ps q podNamespace podName =
     (case q of
        Fifo f \<Rightarrow> (case FIFOQueue_Delete f podNamespace podName of (f', ok) \<Rightarrow> Inr (ps, Fifo f', ok))
      | Prio p \<Rightarrow>
          res_bind (PriorityQueue_Delete ps p podNamespace podName) (\<lambda>(ps', p', ok).
            Inr (ps', Prio p', ok)))"

definition Queue_Update :: "pods \<Rightarrow> pod_queue \<Rightarrow> string \<Rightarrow> string \<Rightarrow> pod_ptr \<Rightarrow> pod_queue res" where
  "Queue_Update ps q podNamespace podName newPod =
     (case q of
        Fifo f \<Rightarrow> res_bind (FIFOQueue_Update ps f podNamespace podName newPod) (\<lambda>f'. Inr (Fifo f'))
      | Prio p \<Rightarrow> res_bind (PriorityQueue_Update ps p podNamespace podName newPod) (\<lambda>p'. Inr (Prio p')))"

definition Queue_NominatedPods :: "pod_queue \<Rightarrow> string \<Rightarrow> pod_ptr list" where
  "Queue_NominatedPods q nodeName =
     (case q of
        Fifo f \<Rightarrow> FIFOQueue_NominatedPods f nodeName
      | Prio p \<Rightarrow> PriorityQueue_NominatedPods p nodeName)"

definition Queue_UpdateNominatedNode ::
  "pods \<Rightarrow> pod_queue \<Rightarrow> pod_ptr \<Rightarrow> string \<Rightarrow> pods \<times> pod_queue res" where
  "Queue_UpdateNominatedNode ps q pod nodeName =
     (case q of
        Fifo f \<Rightarrow> (ps, res_bind (FIFOQueue_UpdateNominatedNode f pod nodeName) (\<lambda>f'. Inr (Fifo f')))
      | Prio p \<Rightarrow>
          (case PriorityQueue_UpdateNominatedNode ps p pod nodeName of
             (ps', r) \<Rightarrow> (ps', res_bind r (\<lambda>p'. Inr (Prio p')))))"

definition Queue_RemoveNominatedNode ::
  "pods \<Rightarrow> pod_queue \<Rightarrow> pod_ptr \<Rightarrow> (pods \<times> pod_queue) res" where
  "Queue_RemoveNominatedNode ps q pod =
     (case q of
        Fifo f \<Rightarrow> res_bind (FIFOQueue_RemoveNominatedNode f pod) (\<lambda>f'. Inr (ps, Fifo f'))
      | Prio p \<Rightarrow>
          res_bind (PriorityQueue_RemoveNominatedNode ps p pod) (\<lambda>(ps', p'). Inr (ps', Prio p')))"

text \<open>
  The queue's metrics carry four statistics through unchanged and add the number of pending pods.
  The statistics are float32 values in the code; only their identity matters here.
\<close>

record 'f queue_metrics =
  qm_PendingPodsNum :: nat
  qm_QualityOfService :: 'f
  qm_PredictionPenalty :: 'f
  qm_NumSatifisedPods :: 'f
  qm_NumPods :: 'f

definition FIFOQueue_Metrics :: "fifo_queue \<Rightarrow> 'f \<Rightarrow> 'f \<Rightarrow> 'f \<Rightarrow> 'f \<Rightarrow> 'f queue_metrics" where
  "FIFOQueue_Metrics fifo qualityOfService predictionPenalty podQoses numPods =
     \<lparr>qm_PendingPodsNum = length (fq_queue fifo), qm_QualityOfService = qualityOfService,
      qm_PredictionPenalty = predictionPenalty, qm_NumSatifisedPods = podQoses,
      qm_NumPods = numPods\<rparr>"

definition PriorityQueue_Metrics :: "priority_queue \<Rightarrow> 'f \<Rightarrow> 'f \<Rightarrow> 'f \<Rightarrow> 'f \<Rightarrow> 'f queue_metrics" where
  "PriorityQueue_Metrics pq qualityOfService predictionPenalty podQoses numPods =
     \<lparr>qm_PendingPodsNum = raw_Len (pq_inner pq), qm_QualityOfService = qualityOfService,
      qm_PredictionPenalty = predictionPenalty, qm_NumSatifisedPods = podQoses,
      qm_NumPods = numPods\<rparr>"

definition Queue_Metrics :: "pod_queue \<Rightarrow> 'f \<Rightarrow> 'f \<Rightarrow> 'f \<Rightarrow> 'f \<Rightarrow> 'f queue_metrics" where
  "Queue_Metrics q a b c d =
     (case q of Fifo f \<Rightarrow> FIFOQueue_Metrics f a b c d | Prio p \<Rightarrow> PriorityQueue_Metrics p a b c d)"

section \<open>The queue contract\<close>

definition queue_live :: "pod_queue \<Rightarrow> string \<Rightarrow> pod_ptr option" where
  "queue_live q = (case q of Fifo f \<Rightarrow> fifo_live f | Prio p \<Rightarrow> pq_live p)"

definition queue_inv :: "pods \<Rightarrow> pod_queue \<Rightarrow> bool" where
  "queue_inv ps q = (case q of Fifo f \<Rightarrow> fifo_inv ps f | Prio p \<Rightarrow> pq_inv ps p)"

lemmas queue_defs = Queue_Push_def Queue_Pop_def Queue_Front_def Queue_Delete_def Queue_Update_def
  queue_live_def queue_inv_def

interpretation q: pod_queue_contract queue_inv queue_live Queue_Push Queue_Pop Queue_Front
    Queue_Delete Queue_Update
proof (unfold_locales, goal_cases)
  case (1 ps q ps')
  then show ?case
    using fq.inv_static [of ps _ ps'] pq.inv_static [of ps _ ps'] by (cases q) (simp_all add: queue_inv_def)
next
  case (2 ps q)
  then show ?case using fq.finite_live pq.finite_live by (cases q) (simp_all add: queue_defs)
next
  case (3 ps q k p)
  then show ?case using fq.live_key pq.live_key by (cases q) (simp_all add: queue_defs)
next
  case (4 ps q p k)
  then show ?case
    using fq.push_fresh [of ps _ p k] pq.push_fresh [of ps _ p k]
    by (cases q) (fastforce simp: queue_defs)+
next
  case (5 ps p e q)
  then show ?case using fq.push_bad_key pq.push_bad_key by (cases q) (simp_all add: queue_defs)
next
  case (6 ps q)
  then show ?case
    using fq.pop_empty [of ps] pq.pop_empty [of ps]
    by (cases q) (fastforce simp: queue_defs fifo_pop_def)+
next
  case (7 ps q)
  then show ?case
  proof (cases q)
    case (Fifo f)
    with 7 fq.pop_live [of ps f] show ?thesis by (auto simp: queue_defs fifo_pop_def)
  next
    case (Prio p)
    with 7 pq.pop_live [of ps p] show ?thesis by (auto simp: queue_defs)
  qed
next
  case (8 ps q q' r)
  then show ?case
    using fq.front_pop [of ps] pq.front_pop [of ps]
    by (cases q) (fastforce simp: queue_defs fifo_pop_def split: prod.splits)+
next
  case (9 ps q k ns n)
  then show ?case
  proof (cases q)
    case (Fifo f)
    with 9 fq.delete_key [of ps f k ns n] show ?thesis
      by (auto simp: queue_defs fifo_delete_def split: prod.splits)
  next
    case (Prio p)
    with 9 pq.delete_key [of ps p k ns n] show ?thesis by (fastforce simp: queue_defs)
  qed
next
  case (10 ps p e q ns n)
  then show ?case using fq.update_bad_key pq.update_bad_key by (cases q) (simp_all add: queue_defs)
next
  case (11 ps p k ns n q)
  then show ?case
    using fq.update_different pq.update_different by (cases q) (simp_all add: queue_defs)
next
  case (12 ps q p k ns n)
  then show ?case using fq.update_missing pq.update_missing by (cases q) (simp_all add: queue_defs)
next
  case (13 ps q p k ns n)
  then show ?case
    using fq.update_live [of ps _ p k ns n] pq.update_live [of ps _ p k ns n]
    by (cases q) (fastforce simp: queue_defs)+
qed

section \<open>What the operations do to the pods\<close>

lemma same_static_RemoveNominatedNode:
  "PriorityQueue_RemoveNominatedNode ps pq p = Inr (ps', pq') \<Longrightarrow>
     same_static ps ps' \<and> pq_inner pq' = pq_inner pq"
  by (auto simp: PriorityQueue_RemoveNominatedNode_def Let_def res_bind_Inr_iff split: if_splits)

lemma PriorityQueue_UpdateNominatedNode_frame:
  assumes "PriorityQueue_UpdateNominatedNode ps pq p n = (ps', r)"
  shows "same_static ps ps'" "r = Inr pq' \<Longrightarrow> pq_inner pq' = pq_inner pq"
  using assms same_static_RemoveNominatedNode [of ps pq p]
  by (auto simp: PriorityQueue_UpdateNominatedNode_def Let_def res_bind_Inr_iff
      intro: same_static_trans split: sum.splits)

lemma Queue_UpdateNominatedNode_frame:
  assumes "Queue_UpdateNominatedNode ps q p n = (ps', Inr q')" "queue_inv ps q"
  shows "same_static ps ps'" "queue_inv ps' q'" "queue_live q' = queue_live q"
proof -
  have "same_static ps ps' \<and> queue_live q' = queue_live q \<and> queue_inv ps q'"
  proof (cases q)
    case (Fifo f)
    with assms show ?thesis
      by (auto simp: Queue_UpdateNominatedNode_def FIFOQueue_UpdateNominatedNode_def)
  next
    case (Prio pq)
    obtain r where r: "PriorityQueue_UpdateNominatedNode ps pq p n = (ps', r)"
      "res_bind r (\<lambda>p'. Inr (Prio p')) = Inr q'"
      using assms(1) Prio by (auto simp: Queue_UpdateNominatedNode_def split: prod.splits)
    then obtain pq' where pq': "r = Inr pq'" "q' = Prio pq'" by (auto simp: res_bind_Inr_iff)
    with PriorityQueue_UpdateNominatedNode_frame [OF r(1)] assms(2) Prio show ?thesis
      by (simp add: queue_live_def queue_inv_def pq_live_def pq_inv_def)
  qed
  then show "same_static ps ps'" "queue_live q' = queue_live q" "queue_inv ps' q'"
    using q.inv_static by blast+
qed

lemma Queue_RemoveNominatedNode_frame:
  assumes "Queue_RemoveNominatedNode ps q p = Inr (ps', q')" "queue_inv ps q"
  shows "same_static ps ps'" "queue_inv ps' q'" "queue_live q' = queue_live q"
proof -
  have "same_static ps ps' \<and> queue_live q' = queue_live q \<and> queue_inv ps q'"
  proof (cases q)
    case (Fifo f)
    with assms show ?thesis
      by (auto simp: Queue_RemoveNominatedNode_def FIFOQueue_RemoveNominatedNode_def)
  next
    case (Prio pq)
    with assms show ?thesis
      using same_static_RemoveNominatedNode [of ps pq p]
      by (auto simp: Queue_RemoveNominatedNode_def res_bind_Inr_iff queue_live_def queue_inv_def
          pq_live_def pq_inv_def)
  qed
  then show "same_static ps ps'" "queue_live q' = queue_live q" "queue_inv ps' q'"
    using q.inv_static by blast+
qed

end
