(* ===== verification/QueueProperties.thy ===== *)
theory QueueProperties
  imports PodQueue
begin

text \<open>
  What the two queues guarantee to their users: the queue as a state machine over every operation of
  the interface, the order in which pods leave, and the places where the queues do not do what their
  comments promise. The example store has four pods named a, b, c, d in namespace default.
\<close>

section \<open>Reachable queues\<close>

text \<open>
  \<open>queue_reach ps q\<close>: the queue \<open>q\<close> over the pods \<open>ps\<close> is reached from a new queue by any
  sequence of operations in which only pods that are not pending are pushed; between operations the
  rest of the program may change the pods in any way that keeps their static part.
\<close>

inductive queue_reach :: "pods \<Rightarrow> pod_queue \<Rightarrow> bool" where
  new_fifo: "queue_reach ps (Fifo NewFIFOQueue)"
| new_prio: "NewPriorityQueueWithComparator ps c = Inr q \<Longrightarrow> queue_reach ps (Prio q)"
| push: "queue_reach ps q \<Longrightarrow> PodKey (ps p) = Inr k \<Longrightarrow> queue_live q k = None \<Longrightarrow>
    Queue_Push ps q p = Inr q' \<Longrightarrow> queue_reach ps q'"
| pop: "queue_reach ps q \<Longrightarrow> Queue_Pop ps q = (q', r) \<Longrightarrow> queue_reach ps q'"
| front: "queue_reach ps q \<Longrightarrow> Queue_Front q = (q', r) \<Longrightarrow> queue_reach ps q'"
| delete: "queue_reach ps q \<Longrightarrow> Queue_Delete ps q ns n = Inr (ps', q', found) \<Longrightarrow> queue_reach ps' q'"
| update: "queue_reach ps q \<Longrightarrow> Queue_Update ps q ns n p = Inr q' \<Longrightarrow> queue_reach ps q'"
| nominate: "queue_reach ps q \<Longrightarrow> Queue_UpdateNominatedNode ps q p n = (ps', Inr q') \<Longrightarrow>
    queue_reach ps' q'"
| unnominate: "queue_reach ps q \<Longrightarrow> Queue_RemoveNominatedNode ps q p = Inr (ps', q') \<Longrightarrow>
    queue_reach ps' q'"
| environment: "queue_reach ps q \<Longrightarrow> same_static ps ps' \<Longrightarrow> queue_reach ps' q"

lemma new_prio_inv:
  assumes "NewPriorityQueueWithComparator ps c = Inr q"
  shows "pq_inv ps q" "pq_live q = Map.empty" "pq_ordered ps q" "pq_comparator q = c"
proof -
  have "q = \<lparr>pq_inner = \<lparr>rq_items = [], rq_keys = [], rq_comparator = c\<rparr>, pq_nominatedPods = []\<rparr>"
    using assms
    by (simp add: NewPriorityQueueWithComparator_def newWithItems_def heap_Init_def raw_Len_def)
  then show "pq_inv ps q" "pq_live q = Map.empty" "pq_ordered ps q" "pq_comparator q = c"
    by (simp_all add: pq_inv_def pq_live_def raw_live_def raw_wf_def pq_ordered_def heap_from_def
        raw_elems_def pq_comparator_def fun_eq_iff)
qed

lemma queue_Pop_inv: "queue_inv ps q \<Longrightarrow> Queue_Pop ps q = (q', r) \<Longrightarrow> queue_inv ps q'"
  by (erule q.pop_cases) auto

lemma queue_Front_inv: "queue_inv ps q \<Longrightarrow> Queue_Front q = (q', r) \<Longrightarrow> queue_inv ps q'"
  using q.front_pop by blast

lemma queue_Delete_inv:
  "queue_inv ps q \<Longrightarrow> Queue_Delete ps q ns n = Inr (ps', q', found) \<Longrightarrow> queue_inv ps' q'"
  using q.delete_key [of ps q "PodKeyFromNames ns n" ns n] by auto

lemma queue_Update_inv:
  assumes "queue_inv ps q" "Queue_Update ps q ns n p = Inr q'"
  shows "queue_inv ps q'"
proof (cases "PodKey (ps p)")
  case (Inl e)
  with q.update_bad_key assms show ?thesis by fastforce
next
  case (Inr k)
  then show ?thesis
    using q.update_different [of ps p k ns n q] q.update_missing [of ps q p k ns n]
      q.update_live [of ps q p k ns n] assms
    by (cases "k = PodKeyFromNames ns n"; cases "queue_live q k = None") fastforce+
qed

lemma queue_reach_inv: "queue_reach ps q \<Longrightarrow> queue_inv ps q"
proof (induction rule: queue_reach.induct)
  case (new_fifo ps)
  then show ?case by (simp add: queue_inv_def fifo_live_NewFIFOQueue)
next
  case (new_prio ps c q)
  then show ?case by (simp add: queue_inv_def new_prio_inv)
next
  case (push ps q p k q')
  with q.push_then_live(1) show ?case by blast
next
  case (pop ps q q' r)
  then show ?case using queue_Pop_inv by blast
next
  case (front ps q q' r)
  then show ?case using queue_Front_inv by blast
next
  case (delete ps q ns n ps' q' found)
  then show ?case using queue_Delete_inv by blast
next
  case (update ps q ns n p q')
  then show ?case using queue_Update_inv by blast
next
  case (nominate ps q p n ps' q')
  then show ?case using Queue_UpdateNominatedNode_frame(2) by blast
next
  case (unnominate ps q p ps' q')
  then show ?case using Queue_RemoveNominatedNode_frame(2) by blast
next
  case (environment ps q ps')
  then show ?case using q.inv_static by blast
qed

section \<open>Example pods\<close>

definition demo_pod :: "string \<Rightarrow> int \<Rightarrow> clock \<Rightarrow> v1_pod" where
  "demo_pod name prio created = empty_pod\<lparr>pod_Namespace := ''default'', pod_Name := name,
     pod_Priority := Some prio, pod_CreationTimestamp := created\<rparr>"

definition demo_store :: pods where
  "demo_store p =
     (if p = 0 then demo_pod ''a'' 1 5 else if p = 1 then demo_pod ''b'' 1 3
      else if p = 2 then demo_pod ''c'' 7 9 else demo_pod ''d'' 0 0)"

fun push_all :: "pods \<Rightarrow> pod_queue \<Rightarrow> pod_ptr list \<Rightarrow> pod_queue res" where
  "push_all ps q [] = Inr q"
| "push_all ps q (p # rest) = res_bind (Queue_Push ps q p) (\<lambda>q'. push_all ps q' rest)"

definition demo_queue :: "pod_queue res" where
  "demo_queue =
     res_bind (NewPriorityQueueWithComparator demo_store DefaultComparator)
       (\<lambda>q. push_all demo_store (Prio q) [0, 1, 2])"

definition demo_pq :: priority_queue where
  "demo_pq =
     (case demo_queue of
        Inr (Prio q) \<Rightarrow> q
      | _ \<Rightarrow> \<lparr>pq_inner = \<lparr>rq_items = [], rq_keys = [], rq_comparator = DefaultComparator\<rparr>,
              pq_nominatedPods = []\<rparr>)"

definition demo_fifo :: fifo_queue where
  "demo_fifo = \<lparr>fq_pods = [(''default/a'', 0), (''default/b'', 1)], fq_queue = [''default/x'', ''default/a'', ''default/b'']\<rparr>"

lemma push_all_reach:
  "queue_reach ps q \<Longrightarrow> push_all ps q pods = Inr q' \<Longrightarrow>
     distinct (map (\<lambda>p. PodKey (ps p)) pods) \<Longrightarrow>
     (\<forall>p \<in> set pods. \<forall>k. PodKey (ps p) = Inr k \<longrightarrow> queue_live q k = None) \<Longrightarrow> queue_reach ps q'"
proof (induction pods arbitrary: q)
  case (Cons p pods)
  obtain q1 where q1: "Queue_Push ps q p = Inr q1" "push_all ps q1 pods = Inr q'"
    using Cons.prems(2) by (auto simp: res_bind_Inr_iff)
  obtain k where k: "PodKey (ps p) = Inr k"
    using q.push_bad_key q1(1) by (cases "PodKey (ps p)") fastforce+
  have fresh: "queue_live q k = None" using Cons.prems(4) k by simp
  have reach: "queue_reach ps q1" by (rule queue_reach.push [OF Cons.prems(1) k fresh q1(1)])
  have live: "queue_live q1 = (queue_live q)(k \<mapsto> p)"
    by (rule q.push_then_live(2) [OF queue_reach_inv [OF Cons.prems(1)] k fresh q1(1)])
  have other: "\<forall>p' \<in> set pods. PodKey (ps p') \<noteq> Inr k"
    using Cons.prems(3) k by (simp add: image_iff) metis
  show ?case
    by (rule Cons.IH [OF reach q1(2)]) (use Cons.prems(3,4) other in \<open>auto simp: live\<close>)
qed simp

lemma push_all_ordered:
  "pq_inv ps q \<Longrightarrow> comparator_ok ps c \<Longrightarrow> pq_comparator q = c \<Longrightarrow> pq_ordered ps q \<Longrightarrow>
     push_all ps (Prio q) pods = Inr q' \<Longrightarrow> distinct (map (\<lambda>p. PodKey (ps p)) pods) \<Longrightarrow>
     (\<forall>p \<in> set pods. \<forall>k. PodKey (ps p) = Inr k \<longrightarrow> pq_live q k = None) \<Longrightarrow>
     \<exists>q''. q' = Prio q'' \<and> pq_inv ps q'' \<and> pq_comparator q'' = c \<and> pq_ordered ps q''"
proof (induction pods arbitrary: q)
  case (Cons p pods)
  obtain q1 where q1: "PriorityQueue_Push ps q p = Inr q1" "push_all ps (Prio q1) pods = Inr q'"
    using Cons.prems(5) by (auto simp: res_bind_Inr_iff Queue_Push_def)
  obtain k where k: "PodKey (ps p) = Inr k"
    using q1(1) by (auto simp: PriorityQueue_Push_def res_bind_Inr_iff)
  have fresh: "pq_live q k = None" using Cons.prems(7) k by simp
  note push = pq.push_then_live [OF Cons.prems(1) k fresh q1(1)]
    pq_Push_ordered [OF Cons.prems(1) _ Cons.prems(4) k fresh q1(1)]
  have other: "\<forall>p' \<in> set pods. PodKey (ps p') \<noteq> Inr k"
    using Cons.prems(6) k by (simp add: image_iff) metis
  show ?case
    by (rule Cons.IH [OF push(1) Cons.prems(2) _ _ q1(2)])
      (use Cons.prems(2,3,6,7) other push in \<open>auto\<close>)
qed auto

lemma demo_pq_facts:
  "queue_reach demo_store (Prio demo_pq)" "pq_inv demo_store demo_pq"
  "pq_comparator demo_pq = DefaultComparator" "pq_ordered demo_store demo_pq"
proof -
  obtain q where q: "NewPriorityQueueWithComparator demo_store DefaultComparator = Inr q"
    by (auto simp: NewPriorityQueueWithComparator_def newWithItems_def heap_Init_def raw_Len_def)
  have "case demo_queue of Inr q' \<Rightarrow> True | Inl _ \<Rightarrow> False" by code_simp
  then obtain q' where q': "push_all demo_store (Prio q) [0, 1, 2] = Inr q'"
    by (auto simp: demo_queue_def q split: sum.splits)
  have dist: "distinct (map (\<lambda>p. PodKey (demo_store p)) [0, 1, 2])" by code_simp
  note new = new_prio_inv [OF q]
  obtain q'' where q'': "q' = Prio q''" "pq_inv demo_store q''" "pq_comparator q'' = DefaultComparator"
    "pq_ordered demo_store q''"
    using push_all_ordered [OF new(1) DefaultComparator_ok new(4,3) q' dist] new(2) by auto
  have "demo_pq = q''" using q q' q''(1) by (simp add: demo_pq_def demo_queue_def)
  moreover have "queue_reach demo_store q'"
    by (rule push_all_reach [OF queue_reach.new_prio [OF q] q' dist]) (simp add: queue_live_def new(2))
  ultimately show "queue_reach demo_store (Prio demo_pq)" "pq_inv demo_store demo_pq"
    "pq_comparator demo_pq = DefaultComparator" "pq_ordered demo_store demo_pq"
    using q'' by simp_all
qed

section \<open>Nominations\<close>

definition nominated_to :: "priority_queue \<Rightarrow> string \<Rightarrow> (string \<times> pod_ptr) list" where
  "nominated_to pq n = (case map_of (pq_nominatedPods pq) n of None \<Rightarrow> [] | Some pods \<Rightarrow> pods)"

definition nominated_ok :: "pods \<Rightarrow> priority_queue \<Rightarrow> bool" where
  "nominated_ok ps pq \<longleftrightarrow>
     (\<forall>n. distinct (map fst (nominated_to pq n)) \<and>
       (\<forall>k p. (k, p) \<in> set (nominated_to pq n) \<longrightarrow>
          n \<noteq> [] \<and> PodKey (ps p) = Inr k \<and> ps_NominatedNodeName (pod_Status (ps p)) = n))"

lemma NominatedPods_nominated_to: "PriorityQueue_NominatedPods pq n = map snd (nominated_to pq n)"
  by (simp add: PriorityQueue_NominatedPods_def nominated_to_def split: option.split)

lemma nominated_to_delete:
  "nominated_to (pq\<lparr>pq_nominatedPods := delete_nominated (pq_nominatedPods pq) n k\<rparr>) n' =
     (if n' = n then AList.delete k (nominated_to pq n) else nominated_to pq n')"
  by (auto simp: nominated_to_def delete_nominated_def update_conv' split: option.splits)

lemma nominated_to_update:
  "nominated_to (pq\<lparr>pq_nominatedPods := AList.update n pods (pq_nominatedPods pq)\<rparr>) n' =
     (if n' = n then pods else nominated_to pq n')"
  by (simp add: nominated_to_def update_conv')

lemma set_nominated_simps [simp]:
  "PodKey (set_nominated ps p n q) = PodKey (ps q)"
  "ps_NominatedNodeName (pod_Status (set_nominated ps p n q)) =
     (if q = p then n else ps_NominatedNodeName (pod_Status (ps q)))"
  by (simp_all add: set_nominated_def) (simp add: set_status_def)

lemma alist_delete_in: "x \<in> set (AList.delete k al) \<longleftrightarrow> x \<in> set al \<and> fst x \<noteq> k"
  by (auto simp: AList.delete_eq)

lemma RemoveNominatedNode_ok:
  assumes ok: "nominated_ok ps pq" and key: "PodKey (ps p) = Inr k"
  shows "\<exists>ps' pq'. PriorityQueue_RemoveNominatedNode ps pq p = Inr (ps', pq') \<and> nominated_ok ps' pq' \<and>
    same_static ps ps' \<and> (\<forall>n. p \<notin> snd ` set (nominated_to pq' n))"
proof (cases "ps_NominatedNodeName (pod_Status (ps p)) = []")
  case True
  with ok have "\<forall>n. p \<notin> snd ` set (nominated_to pq n)" by (fastforce simp: nominated_ok_def)
  with True ok show ?thesis by (auto simp: PriorityQueue_RemoveNominatedNode_def)
next
  case False
  define m where "m = ps_NominatedNodeName (pod_Status (ps p))"
  define pq' where "pq' = pq\<lparr>pq_nominatedPods := delete_nominated (pq_nominatedPods pq) m k\<rparr>"
  have to: "nominated_to pq' n = (if n = m then AList.delete k (nominated_to pq m) else nominated_to pq n)" for n
    by (simp add: pq'_def nominated_to_delete)
  have fresh: "p \<notin> snd ` set (nominated_to pq' n)" for n
  proof
    assume "p \<in> snd ` set (nominated_to pq' n)"
    then obtain k' where k': "(k', p) \<in> set (nominated_to pq' n)" by auto
    then have "(k', p) \<in> set (nominated_to pq n)" by (auto simp: to alist_delete_in split: if_splits)
    then have "PodKey (ps p) = Inr k'" "n = m" using ok by (auto simp: nominated_ok_def m_def)
    with k' key show False by (simp add: to alist_delete_in)
  qed
  have "nominated_ok (set_nominated ps p []) pq'"
    unfolding nominated_ok_def
  proof (intro allI conjI impI)
    fix n k' p' assume in': "(k', p') \<in> set (nominated_to pq' n)"
    then have "p' \<noteq> p" using fresh [of n] by (auto simp: image_iff)
    moreover have "(k', p') \<in> set (nominated_to pq n)"
      using in' by (auto simp: to alist_delete_in split: if_splits)
    ultimately show "n \<noteq> []" "PodKey (set_nominated ps p [] p') = Inr k'"
      "ps_NominatedNodeName (pod_Status (set_nominated ps p [] p')) = n"
      using ok by (auto simp: nominated_ok_def)
  qed (use ok in \<open>simp add: to nominated_ok_def distinct_delete\<close>)
  moreover have "PriorityQueue_RemoveNominatedNode ps pq p = Inr (set_nominated ps p [], pq')"
    using False key by (simp add: PriorityQueue_RemoveNominatedNode_def m_def pq'_def Let_def)
  ultimately show ?thesis using fresh by auto
qed

section \<open>Properties\<close>

text \<open>
  C28: A queue reached by any sequence of operations (pushes of pods that are not pending, pops, peeks,
  deletions, updates, nominations, and changes of the pods' statuses in between) never panics: when no
  pod is pending Pop and Front return ErrEmptyQueue, otherwise each returns a pending pod, and Pop
  after Front returns the pod Front showed; Delete always succeeds; Push succeeds; Update fails only
  with the documented errors.
\<close>

theorem queue_never_panics:
  assumes "queue_reach ps q"
  shows "(if queue_live q = Map.empty
      then snd (Queue_Pop ps q) = Inl ErrEmptyQueue \<and> snd (Queue_Front q) = Inl ErrEmptyQueue
      else (\<exists>k p. queue_live q k = Some p \<and> snd (Queue_Pop ps q) = Inr p) \<and>
        (\<exists>k p. queue_live q k = Some p \<and> snd (Queue_Front q) = Inr p \<and>
           snd (Queue_Pop ps (fst (Queue_Front q))) = Inr p)) \<and>
    (\<exists>r. Queue_Delete ps q ns n = Inr r) \<and>
    (\<forall>e. Queue_Update ps q ns n p = Inl e \<longrightarrow>
       e \<in> {EmptyPodNamespace, EmptyPodName, ErrDifferentNames, ErrNoMatchingPod (PodKeyFromNames ns n)}) \<and>
    (\<forall>k. PodKey (ps p) = Inr k \<longrightarrow> queue_live q k = None \<longrightarrow> (\<exists>q'. Queue_Push ps q p = Inr q'))"
proof (intro conjI allI impI)
  note inv = queue_reach_inv [OF assms]
  obtain q1 r1 where pop: "Queue_Pop ps q = (q1, r1)" by force
  obtain q2 r2 where front: "Queue_Front q = (q2, r2)" by force
  have "if queue_live q = Map.empty then r1 = Inl ErrEmptyQueue
      else \<exists>k p. queue_live q k = Some p \<and> r1 = Inr p"
    by (rule q.pop_cases [OF inv pop]) auto
  moreover have "if queue_live q = Map.empty then r2 = Inl ErrEmptyQueue
      else \<exists>k p. queue_live q k = Some p \<and> r2 = Inr p \<and> snd (Queue_Pop ps q2) = Inr p"
    by (rule q.front_cases [OF inv front]) auto
  ultimately show "if queue_live q = Map.empty
      then snd (Queue_Pop ps q) = Inl ErrEmptyQueue \<and> snd (Queue_Front q) = Inl ErrEmptyQueue
      else (\<exists>k p. queue_live q k = Some p \<and> snd (Queue_Pop ps q) = Inr p) \<and>
        (\<exists>k p. queue_live q k = Some p \<and> snd (Queue_Front q) = Inr p \<and>
           snd (Queue_Pop ps (fst (Queue_Front q))) = Inr p)"
    by (simp add: pop front split: if_splits)
  show "\<exists>r. Queue_Delete ps q ns n = Inr r"
    using q.delete_key [OF inv refl] by blast
  show "\<exists>q'. Queue_Push ps q p = Inr q'" if "PodKey (ps p) = Inr k" "queue_live q k = None" for k
    using q.push_fresh [of ps q p k] inv that by blast
  show "e \<in> {EmptyPodNamespace, EmptyPodName, ErrDifferentNames, ErrNoMatchingPod (PodKeyFromNames ns n)}"
    if e: "Queue_Update ps q ns n p = Inl e" for e
  proof (cases "PodKey (ps p)")
    case (Inl e')
    with q.update_bad_key [of ps p e' q ns n] e have "e = e'" by simp
    with Inl show ?thesis by (auto simp: PodKey_def split: if_splits)
  next
    case (Inr k)
    with e show ?thesis
      using q.update_different [of ps p k ns n q] q.update_missing [OF inv, of p k ns n]
        q.update_live [OF inv, of p k ns n]
      by (cases "k = PodKeyFromNames ns n"; cases "queue_live q k = None") auto
  qed
qed

theorem queue_never_panics_witness:
  "queue_reach demo_store (Prio demo_pq) \<and>
   (\<exists>r. Queue_Delete demo_store (Prio demo_pq) ''default'' ''b'' = Inr r)"
  using demo_pq_facts(1) queue_never_panics [OF demo_pq_facts(1), of "''default''" "''b''" 0] by blast

text \<open>
  C29: A priority queue hands out every pending pod exactly once, in the order of its comparator: when
  the comparator is a strict weak order on the pods and the heap is in order, draining the queue
  gives a list of all pending pods in which no pod comes after one it should precede.
\<close>

theorem pq_drain_order:
  assumes "pq_inv ps q" "comparator_ok ps (pq_comparator q)" "pq_ordered ps q"
    "card (dom (pq_live q)) \<le> n"
  shows "sorted_wrt (\<lambda>a b. \<not> pq_comparator q ps b a) (pq_drain ps n q) \<and>
    set (pq_drain ps n q) = ran (pq_live q) \<and> length (pq_drain ps n q) = card (dom (pq_live q))"
  using assms pq_drain_sorted pq_drain_complete pq_drain_length by blast

theorem pq_drain_order_witness:
  "pq_drain demo_store 3 demo_pq = [2, 1, 0] \<and>
   sorted_wrt (\<lambda>a b. \<not> DefaultComparator demo_store b a) (pq_drain demo_store 3 demo_pq)"
proof -
  have "map fst (rq_items (pq_inner demo_pq)) = [''default/a'', ''default/b'', ''default/c'']"
    by code_simp
  moreover have "dom (pq_live demo_pq) = set (map fst (rq_items (pq_inner demo_pq)))"
    using dom_map_of_conv_image_fst [of "rq_items (pq_inner demo_pq)"]
    by (simp add: pq_live_def raw_live_def dom_def)
  ultimately have "card (dom (pq_live demo_pq)) \<le> 3" by simp
  moreover have "pq_drain demo_store 3 demo_pq = [2, 1, 0]" by code_simp
  ultimately show ?thesis
    using pq_drain_order [OF demo_pq_facts(2) _ demo_pq_facts(4), of 3] DefaultComparator_ok
    by (simp add: demo_pq_facts(3))
qed

text \<open>
  C30: The FIFO queue with its lazily cleaned key slice implements a plain list of pending pods: Pop
  returns and removes the first, Front returns it, Delete filters the pod out and tells whether it was
  there, and a popped or deleted pod leaves the order of the others unchanged.
\<close>

theorem fifo_implements_list:
  "(case fifo_abs q of
      [] \<Rightarrow> snd (FIFOQueue_Pop q) = Inl ErrEmptyQueue \<and> fifo_abs (fst (FIFOQueue_Pop q)) = [] \<and>
            snd (FIFOQueue_Front q) = Inl ErrEmptyQueue
    | (k, p) # rest \<Rightarrow>
        snd (FIFOQueue_Pop q) = Inr p \<and> fifo_abs (fst (FIFOQueue_Pop q)) = rest \<and>
        snd (FIFOQueue_Front q) = Inr p) \<and>
   fifo_abs (fst (FIFOQueue_Front q)) = fifo_abs q \<and>
   fifo_abs (fst (FIFOQueue_Delete q ns n)) =
     filter (\<lambda>(k, _). k \<noteq> PodKeyFromNames ns n) (fifo_abs q) \<and>
   snd (FIFOQueue_Delete q ns n) = (fifo_live q (PodKeyFromNames ns n) \<noteq> None)"
proof -
  obtain q1 r1 where pop: "FIFOQueue_Pop q = (q1, r1)" by force
  obtain q2 r2 where front: "FIFOQueue_Front q = (q2, r2)" by force
  obtain q3 ok where delete: "FIFOQueue_Delete q ns n = (q3, ok)" by force
  have filter: "filter (\<lambda>x. fst x \<noteq> k) xs = filter (\<lambda>(k', _). k' \<noteq> k) xs"
    for k and xs :: "(string \<times> pod_ptr) list"
    by (rule filter_cong) auto
  show ?thesis
    using FIFOQueue_Pop_abs [OF pop] FIFOQueue_Front_abs [OF front] FIFOQueue_Delete_abs [OF delete refl]
    by (simp add: pop front delete filter split: list.splits prod.splits)
qed

text \<open>
  Push on the FIFO queue, in a well-formed queue and for a pod with a key, puts a pod whose key was
  never queued (or is no longer in the slice) at the end, and replaces a pending pod of the same name
  in place.
\<close>

theorem fifo_push_position:
  assumes "fifo_inv ps q" "PodKey (ps p) = Inr k"
  shows "\<exists>q'. FIFOQueue_Push ps q p = Inr q' \<and> fifo_inv ps q' \<and>
    (k \<notin> set (fq_queue q) \<longrightarrow> fifo_abs q' = fifo_abs q @ [(k, p)]) \<and>
    (fifo_live q k \<noteq> None \<longrightarrow>
       fifo_abs q' = map (\<lambda>x. if fst x = k then (k, p) else x) (fifo_abs q))"
proof -
  obtain q' where q': "FIFOQueue_Push ps q p = Inr q'" using assms(2) by (simp add: FIFOQueue_Push_def)
  have "k \<in> set (fq_queue q)" if "fifo_live q k \<noteq> None" using that assms(1) by (auto simp: fifo_inv_def)
  with FIFOQueue_Push_abs [OF assms(2) q'] fifo_inv_Push [OF assms q'] q' show ?thesis by blast
qed

theorem fifo_push_position_witness:
  "fifo_inv demo_store demo_fifo \<and> PodKey (demo_store 2) = Inr ''default/c'' \<and>
   (\<exists>q'. FIFOQueue_Push demo_store demo_fifo 2 = Inr q' \<and> fifo_inv demo_store q')"
proof -
  have key: "PodKey (demo_store 2) = Inr ''default/c''" by code_simp
  have "PodKey (demo_store 0) = Inr ''default/a''" "PodKey (demo_store 1) = Inr ''default/b''"
    by code_simp+
  then have inv: "fifo_inv demo_store demo_fifo"
    by (auto simp: fifo_inv_def fifo_live_def demo_fifo_def split: if_splits)
  from fifo_push_position [OF inv key] inv key show ?thesis by blast
qed

text \<open>
  Deleting a pod from the FIFO queue leaves its key in the slice, so a pod of the same name pushed
  later takes the deleted pod's place instead of the end of the queue, and the reported number of
  pending pods counts the stale key: a and b are queued, a is deleted and pushed again, and Pop
  returns a while the queue reports three pending pods.
\<close>

theorem fifo_repush_jumps_queue:
  "res_bind (FIFOQueue_Push demo_store NewFIFOQueue 0) (\<lambda>q. res_bind (FIFOQueue_Push demo_store q 1) (\<lambda>q.
     res_bind (FIFOQueue_Push demo_store (fst (FIFOQueue_Delete q ''default'' ''a'')) 0) (\<lambda>q.
       Inr (snd (FIFOQueue_Pop q), length (fifo_abs q), FIFOQueue_Len q)))) = Inr (Inr 0, 2, 3)"
  by code_simp

text \<open>
  Pushing a pod whose name is already pending corrupts the priority queue: the key is queued twice
  but the map holds one item, and once the pod has been popped the next Pop dereferences nil.
\<close>

theorem pq_duplicate_push_panics:
  "res_bind (NewPriorityQueue demo_store 0) (\<lambda>q. res_bind (push_all demo_store (Prio q) [0, 2, 0]) (\<lambda>q.
     Inr (queue_live q ''default/a'',
          map (\<lambda>n. snd (Queue_Pop demo_store (((\<lambda>q. fst (Queue_Pop demo_store q)) ^^ n) q))) [0, 1, 2]))) =
   Inr (Some 0, [Inr 2, Inr 0, Inl nil_dereference])"
  by code_simp

text \<open>
  C31: Nominating a pod to a node lists it under that node and under no other: in a priority queue whose
  nomination table lists pods only under the node name in their status, UpdateNominatedNode succeeds
  for a pod with a key, keeps the table so, and the pod is listed exactly under the new node.
\<close>

theorem nomination_exact:
  assumes "nominated_ok ps pq" "PodKey (ps p) = Inr k" "n \<noteq> []"
  shows "\<exists>ps' pq'. PriorityQueue_UpdateNominatedNode ps pq p n = (ps', Inr pq') \<and>
    nominated_ok ps' pq' \<and> ps_NominatedNodeName (pod_Status (ps' p)) = n \<and>
    (\<forall>n'. p \<in> set (PriorityQueue_NominatedPods pq' n') \<longleftrightarrow> n' = n)"
proof -
  obtain ps1 pq1 where r: "PriorityQueue_RemoveNominatedNode ps pq p = Inr (ps1, pq1)"
    "nominated_ok ps1 pq1" "same_static ps ps1" "\<forall>n. p \<notin> snd ` set (nominated_to pq1 n)"
    using RemoveNominatedNode_ok [of ps pq p k] assms by blast
  have key1: "PodKey (ps1 p) = Inr k" using PodKey_static [OF r(3)] assms(2) by metis
  define pods where "pods = AList.update k p (nominated_to pq1 n)"
  define pq' where "pq' = pq1\<lparr>pq_nominatedPods := AList.update n pods (pq_nominatedPods pq1)\<rparr>"
  have to: "nominated_to pq' n' = (if n' = n then pods else nominated_to pq1 n')" for n'
    by (simp add: pq'_def nominated_to_update)
  have upd: "PriorityQueue_UpdateNominatedNode ps pq p n = (set_nominated ps1 p n, Inr pq')"
    using r(1) key1
    by (simp add: PriorityQueue_UpdateNominatedNode_def Let_def pq'_def pods_def nominated_to_def)
  have in_pods: "(k', p') \<in> set pods \<Longrightarrow> (k' = k \<and> p' = p) \<or> (k', p') \<in> set (nominated_to pq1 n)" for k' p'
  proof -
    assume "(k', p') \<in> set pods"
    moreover have "distinct (map fst pods)"
      using r(2) by (simp add: pods_def nominated_ok_def distinct_update)
    ultimately have "map_of pods k' = Some p'" by (rule map_of_is_SomeI [rotated])
    then show ?thesis by (auto simp: pods_def update_conv' dest: map_of_SomeD split: if_splits)
  qed
  have fresh1: "(k', p') \<in> set (nominated_to pq1 n') \<Longrightarrow> p' \<noteq> p" for k' p' n'
    using r(4) by force
  have ok': "nominated_ok (set_nominated ps1 p n) pq'"
    unfolding nominated_ok_def
  proof (intro allI conjI impI)
    fix n' k' p' assume "(k', p') \<in> set (nominated_to pq' n')"
    then have "(n' = n \<and> k' = k \<and> p' = p) \<or> (p' \<noteq> p \<and> (k', p') \<in> set (nominated_to pq1 n'))"
      using in_pods [of k' p'] fresh1 [of k' p'] by (auto simp: to split: if_splits)
    then show "n' \<noteq> []" "PodKey (set_nominated ps1 p n p') = Inr k'"
      "ps_NominatedNodeName (pod_Status (set_nominated ps1 p n p')) = n'"
      using r(2) assms(3) key1 by (auto simp: nominated_ok_def)
  qed (use r(2) in \<open>simp add: to pods_def nominated_ok_def distinct_update\<close>)
  have "map_of pods k = Some p" by (simp add: pods_def update_conv')
  then have "p \<in> snd ` set pods" by (metis map_of_SomeD image_eqI snd_conv)
  then have "p \<in> snd ` set (nominated_to pq' n') \<longleftrightarrow> n' = n" for n'
    using r(4) by (simp add: to)
  then have "p \<in> set (PriorityQueue_NominatedPods pq' n') \<longleftrightarrow> n' = n" for n'
    by (simp add: NominatedPods_nominated_to)
  with upd ok' show ?thesis by simp
qed

theorem nomination_exact_witness:
  "nominated_ok demo_store demo_pq \<and> PodKey (demo_store 1) = Inr ''default/b'' \<and>
   (\<exists>ps' pq'. PriorityQueue_UpdateNominatedNode demo_store demo_pq 1 ''node-0'' = (ps', Inr pq') \<and>
      1 \<in> set (PriorityQueue_NominatedPods pq' ''node-0''))"
proof -
  have key: "PodKey (demo_store 1) = Inr ''default/b''" by code_simp
  have "pq_nominatedPods demo_pq = []" by code_simp
  then have ok: "nominated_ok demo_store demo_pq" by (simp add: nominated_ok_def nominated_to_def)
  have "''node-0'' \<noteq> []" by simp
  from nomination_exact [OF ok key this] obtain ps' pq' where
    "PriorityQueue_UpdateNominatedNode demo_store demo_pq 1 ''node-0'' = (ps', Inr pq')"
    "1 \<in> set (PriorityQueue_NominatedPods pq' ''node-0'')" by metis
  with ok key show ?thesis by (intro conjI exI)
qed

end
