(* ===== verification/ResourceProperties.thy ===== *)
theory ResourceProperties
  imports Resource
begin

text \<open>
  What the resource arithmetic guarantees: quantities compute exactly, resource lists are added,
  maximised and compared name by name, the test a node's capacity is checked with, pod keys, and the
  update of pod conditions.
\<close>

section \<open>Maximum, minimum and difference of resource lists\<close>

lemma rl_val_Nil: "rl_keys [] = {}" "rl_val [] k = 0"
  by (simp_all add: rl_val_def rl_keys_def)

lemma ResourceListMax_spec:
  "rl_ok r1 \<Longrightarrow> rl_ok r2 \<Longrightarrow>
     rl_ok (ResourceListMax r1 r2) \<and> rl_keys (ResourceListMax r1 r2) = rl_keys r1 \<union> rl_keys r2 \<and>
     rl_val (ResourceListMax r1 r2) k =
       (if k \<notin> rl_keys r1 then rl_val r2 k else if k \<notin> rl_keys r2 then rl_val r1 k
        else max (rl_val r1 k) (rl_val r2 k))"
proof (induction r1 r2 rule: ResourceListMax.induct)
  case (2 mx r2Key r2Val r2)
  from "2.prems" have ok: "quantity_ok r2Val" "rl_ok r2" and new: "r2Key \<notin> rl_keys r2"
    by (auto simp: rl_ok_Cons)
  show ?case
  proof (cases "map_of mx r2Key")
    case None
    have "r2Key \<notin> rl_keys mx" by (simp add: rl_keys_iff None)
    with "2.IH"(1) [OF None] "2.prems" ok new None show ?thesis
      by (auto simp: rl_ok_update rl_val_update rl_val_Cons)
  next
    case (Some r1Val)
    have v: "rl_val mx r2Key = qval r1Val" by (simp add: rl_val_def Some)
    have key: "r2Key \<in> rl_keys mx" by (simp add: rl_keys_iff Some)
    show ?thesis
    proof (cases "quantity_Cmp r1Val r2Val < 0")
      case True
      with "2.IH"(2) [OF Some] "2.prems" ok new v key Some show ?thesis
        by (auto simp: rl_ok_update rl_val_update rl_val_Cons quantity_Cmp_less)
    next
      case False
      with "2.IH"(2) [OF Some] "2.prems" ok new v key Some show ?thesis
        by (auto simp: rl_val_Cons quantity_Cmp_less)
    qed
  qed
qed (simp add: rl_val_notin rl_val_Nil)

lemma ResourceListMin_spec:
  "rl_ok r1 \<Longrightarrow> rl_ok r2 \<Longrightarrow>
     rl_ok (ResourceListMin r1 r2) \<and> rl_keys (ResourceListMin r1 r2) = rl_keys r1 \<union> rl_keys r2 \<and>
     rl_val (ResourceListMin r1 r2) k =
       (if k \<notin> rl_keys r1 then rl_val r2 k else if k \<notin> rl_keys r2 then rl_val r1 k
        else min (rl_val r1 k) (rl_val r2 k))"
proof (induction r1 r2 rule: ResourceListMin.induct)
  case (2 mn r2Key r2Val r2)
  from "2.prems" have ok: "quantity_ok r2Val" "rl_ok r2" and new: "r2Key \<notin> rl_keys r2"
    by (auto simp: rl_ok_Cons)
  show ?case
  proof (cases "map_of mn r2Key")
    case None
    have "r2Key \<notin> rl_keys mn" by (simp add: rl_keys_iff None)
    with "2.IH"(1) [OF None] "2.prems" ok new None show ?thesis
      by (auto simp: rl_ok_update rl_val_update rl_val_Cons)
  next
    case (Some r1Val)
    have v: "rl_val mn r2Key = qval r1Val" by (simp add: rl_val_def Some)
    have key: "r2Key \<in> rl_keys mn" by (simp add: rl_keys_iff Some)
    show ?thesis
    proof (cases "quantity_Cmp r1Val r2Val > 0")
      case True
      with "2.IH"(2) [OF Some] "2.prems" ok new v key Some show ?thesis
        by (auto simp: rl_ok_update rl_val_update rl_val_Cons quantity_Cmp_greater)
    next
      case False
      with "2.IH"(2) [OF Some] "2.prems" ok new v key Some show ?thesis
        by (auto simp: rl_val_Cons quantity_Cmp_greater)
    qed
  qed
qed (simp add: rl_val_notin rl_val_Nil)

text \<open>A quantity whose int64 value is not the smallest one, which has no negation.\<close>

definition negatable :: "resource_list \<Rightarrow> bool" where
  "negatable rl \<longleftrightarrow> (\<forall>(k, q) \<in> set rl. ia_value (q_i q) \<noteq> min_int64)"

lemma ResourceListSub_spec:
  "rl_ok r1 \<Longrightarrow> rl_ok r2 \<Longrightarrow> negatable r2 \<Longrightarrow>
     rl_ok (ResourceListSub r1 r2) \<and> rl_keys (ResourceListSub r1 r2) = rl_keys r1 \<union> rl_keys r2 \<and>
     rl_val (ResourceListSub r1 r2) k =
       (if k \<in> rl_keys r1 then rl_val r1 k - rl_val r2 k else rl_val r2 k)"
proof (induction r1 r2 rule: ResourceListSub.induct)
  case (2 acc r2Key r2Val r2)
  from "2.prems" have ok: "quantity_ok r2Val" "rl_ok r2" and new: "r2Key \<notin> rl_keys r2"
    and neg: "ia_value (q_i r2Val) \<noteq> min_int64" "negatable r2"
    by (auto simp: rl_ok_Cons negatable_def)
  show ?case
  proof (cases "map_of acc r2Key")
    case None
    have "r2Key \<notin> rl_keys acc" by (simp add: rl_keys_iff None)
    with "2.IH"(1) [OF None] "2.prems" ok neg new None show ?thesis
      by (auto simp: rl_ok_update rl_val_update rl_val_Cons rl_val_notin)
  next
    case (Some r1Val)
    then have q: "quantity_ok r1Val" using "2.prems" rl_ok_map_of by blast
    have v: "rl_val acc r2Key = qval r1Val" by (simp add: rl_val_def Some)
    have "r2Key \<in> rl_keys acc" by (simp add: rl_keys_iff Some)
    with "2.IH"(2) [OF Some] "2.prems" ok neg new q v Some quantity_Sub_exact [OF q ok(1) neg(1)]
    show ?thesis
      by (auto simp: rl_ok_update rl_val_update rl_val_Cons rl_val_notin)
  qed
qed (simp add: rl_val_notin rl_val_Nil)

section \<open>Properties\<close>



text \<open>
  Sum, maximum and minimum of two resource lists are taken resource by resource over the resources of
  either list: a resource in only one of them keeps its amount.
\<close>

theorem resource_list_pointwise:
  assumes "rl_ok r1" "rl_ok r2"
  shows "rl_keys (ResourceListSum r1 r2) = rl_keys r1 \<union> rl_keys r2 \<and>
    rl_val (ResourceListSum r1 r2) k = rl_val r1 k + rl_val r2 k \<and>
    (k \<in> rl_keys r1 \<inter> rl_keys r2 \<longrightarrow>
       rl_val (ResourceListMax r1 r2) k = max (rl_val r1 k) (rl_val r2 k) \<and>
       rl_val (ResourceListMin r1 r2) k = min (rl_val r1 k) (rl_val r2 k)) \<and>
    (k \<notin> rl_keys r1 \<longrightarrow> rl_val (ResourceListMax r1 r2) k = rl_val r2 k \<and>
       rl_val (ResourceListMin r1 r2) k = rl_val r2 k) \<and>
    (k \<notin> rl_keys r2 \<longrightarrow> rl_val (ResourceListMax r1 r2) k = rl_val r1 k \<and>
       rl_val (ResourceListMin r1 r2) k = rl_val r1 k)"
  using ResourceListSum_spec [OF assms] ResourceListMax_spec [OF assms] ResourceListMin_spec [OF assms]
  by (auto simp: rl_val_notin)

definition demo_requests :: resource_list where
  "demo_requests = [(''cpu'', NewMilliQuantity 1500 DecimalSI), (''memory'', NewQuantity 2048 BinarySI)]"

definition demo_allocatable :: resource_list where
  "demo_allocatable = [(''memory'', NewQuantity 4096 BinarySI), (''pods'', NewQuantity 10 DecimalSI),
     (''cpu'', NewQuantity 2 DecimalSI)]"

lemma demo_rl_ok: "rl_ok demo_requests" "rl_ok demo_allocatable"
  by (simp_all add: rl_ok_def demo_requests_def demo_allocatable_def quantity_ok_def NewQuantity_def
      NewMilliQuantity_def in64_def)

theorem resource_list_pointwise_witness:
  "rl_val (ResourceListSum demo_requests demo_allocatable) ''cpu'' = 7 / 2"
proof -
  have "rl_val demo_requests ''cpu'' = 3 / 2" "rl_val demo_allocatable ''cpu'' = 2"
    by (simp_all add: rl_val_def demo_requests_def demo_allocatable_def qval_def NewQuantity_def
        NewMilliQuantity_def amount_val_def power_int_minus)
  with resource_list_pointwise [OF demo_rl_ok, of "''cpu''"] show ?thesis by simp
qed

text \<open>
  The capacity test of a node, ResourceListGE of the allocatable resources and the total requests of
  a pod, holds exactly when every resource any container requests is allocatable and the containers'
  requests for it together do not exceed it.
\<close>

theorem capacity_test:
  assumes "containers_ok (pod_Containers p)"
  shows "ResourceListGE allocatable (PodTotalResourceRequests p) \<longleftrightarrow>
    (\<forall>k \<in> rl_keys (PodTotalResourceRequests p).
       k \<in> rl_keys allocatable \<and>
       (\<Sum>c\<leftarrow>pod_Containers p. rl_val (ct_Requests c) k) \<le> rl_val allocatable k)"
  using ResourceListGE_iff [of "PodTotalResourceRequests p" allocatable] PodTotalResourceRequests_spec [OF assms]
  by simp

definition demo_requesting_pod :: v1_pod where
  "demo_requesting_pod = empty_pod\<lparr>pod_Containers :=
     [\<lparr>ct_Name = ''c0'', ct_Image = ''i'', ct_Requests = demo_requests, ct_Limits = []\<rparr>,
      \<lparr>ct_Name = ''c1'', ct_Image = ''i'', ct_Requests = demo_requests, ct_Limits = []\<rparr>]\<rparr>"

theorem capacity_test_witness:
  "\<not> (\<forall>k \<in> rl_keys (PodTotalResourceRequests demo_requesting_pod).
       k \<in> rl_keys demo_allocatable \<and>
       (\<Sum>c\<leftarrow>pod_Containers demo_requesting_pod. rl_val (ct_Requests c) k) \<le> rl_val demo_allocatable k)"
proof -
  have ok: "containers_ok (pod_Containers demo_requesting_pod)"
    by (simp add: containers_ok_def demo_requesting_pod_def demo_rl_ok)
  have "\<not> ResourceListGE demo_allocatable (PodTotalResourceRequests demo_requesting_pod)" by code_simp
  with capacity_test [OF ok] show ?thesis by simp
qed

text \<open>
  ResourceListSub subtracts only the resources of the first list; a resource of the second list that
  the first does not have is added with its positive amount, so the result is not the difference its
  comment announces: subtracting two memory from one cpu gives one cpu and two memory.
\<close>

theorem resource_list_sub_missing:
  "ResourceListSub [(''cpu'', NewQuantity 1 DecimalSI)] [(''memory'', NewQuantity 2 BinarySI)] =
   [(''cpu'', NewQuantity 1 DecimalSI), (''memory'', NewQuantity 2 BinarySI)]"
  by code_simp

text \<open>
  The key of a pod names it: PodKey fails exactly for an empty namespace or name, and two pods whose
  namespaces have no slash have the same key exactly when they have the same namespace and name.
\<close>

theorem pod_key_unique:
  assumes "CHR ''/'' \<notin> set (pod_Namespace p)" "CHR ''/'' \<notin> set (pod_Namespace q)"
  shows "(PodKey p = Inl EmptyPodNamespace \<longleftrightarrow> pod_Namespace p = []) \<and>
    (PodKey p = Inl EmptyPodName \<longleftrightarrow> pod_Namespace p \<noteq> [] \<and> pod_Name p = []) \<and>
    (\<forall>k. PodKey p = Inr k \<longrightarrow> PodKey q = Inr k \<longleftrightarrow>
       pod_Namespace q = pod_Namespace p \<and> pod_Name q = pod_Name p)"
  using PodKeyFromNames_inj [OF assms(2,1)] by (auto simp: PodKey_def)

theorem pod_key_unique_witness:
  "PodKey (empty_pod\<lparr>pod_Namespace := ''default''\<rparr>) = Inl EmptyPodName"
proof -
  let ?p = "empty_pod\<lparr>pod_Namespace := ''default''\<rparr>"
  have "CHR ''/'' \<notin> set (pod_Namespace ?p)" by simp
  from pod_key_unique [OF this this] show ?thesis by (simp add: empty_pod_def)
qed

text \<open>
  UpdatePodCondition sets the condition of the given type, keeping the transition time of the old
  condition when its status does not change and taking the clock otherwise, leaves the conditions of
  every other type alone, and reports a change exactly when the condition is new or differs.
\<close>

theorem update_pod_condition:
  "map_option snd (GetPodCondition (fst (UpdatePodCondition clk st c)) (pc_Type c)) =
     Some (c\<lparr>pc_LastTransitionTime :=
       (case GetPodCondition st (pc_Type c) of
          Some (_, old) \<Rightarrow> if pc_Status old = pc_Status c then pc_LastTransitionTime old else clk
        | None \<Rightarrow> clk)\<rparr>) \<and>
   (t \<noteq> pc_Type c \<longrightarrow> GetPodCondition (fst (UpdatePodCondition clk st c)) t = GetPodCondition st t) \<and>
   (snd (UpdatePodCondition clk st c) \<longleftrightarrow>
      map_option snd (GetPodCondition st (pc_Type c)) \<noteq>
      map_option snd (GetPodCondition (fst (UpdatePodCondition clk st c)) (pc_Type c)))"
proof -
  let ?u = "UpdatePodCondition clk st c"
  obtain i where get: "GetPodCondition (fst ?u) (pc_Type c) = Some (i, updated_condition clk st c)"
    using UpdatePodCondition_get by blast
  have changed: "snd ?u \<longleftrightarrow> map_option snd (GetPodCondition st (pc_Type c)) \<noteq> Some (updated_condition clk st c)"
  proof (cases "GetPodCondition st (pc_Type c)")
    case None
    then show ?thesis by (simp add: UpdatePodCondition_def Let_def)
  next
    case (Some r)
    obtain j old where r: "r = (j, old)" by force
    have "pc_Type old = pc_Type c"
      using GetPodConditionFromList_Some [of 0 "ps_Conditions st" "pc_Type c" j old] Some r
      by (simp add: GetPodCondition_def)
    with Some r show ?thesis
      by (cases old; cases c) (auto simp: UpdatePodCondition_def Let_def updated_condition_def)
  qed
  show ?thesis
    using get UpdatePodCondition_other [of t c clk st] changed by (simp add: updated_condition_def)
qed

theorem update_pod_condition_witness:
  "GetPodCondition (fst (UpdatePodCondition 5 empty_status
       \<lparr>pc_Type = PodReady, pc_Status = ConditionTrue, pc_LastProbeTime = 5, pc_LastTransitionTime = 0,
        pc_Reason = [], pc_Message = []\<rparr>)) PodScheduled = None"
proof -
  have "GetPodCondition empty_status PodScheduled = None" by code_simp
  with update_pod_condition [of 5 empty_status
      "\<lparr>pc_Type = PodReady, pc_Status = ConditionTrue, pc_LastProbeTime = 5, pc_LastTransitionTime = 0,
        pc_Reason = [], pc_Message = []\<rparr>" PodScheduled]
  show ?thesis by simp
qed

end
