(* ===== verification/SimPod.thy ===== *)
theory SimPod
  imports Util
begin

text \<open>
  pkg/pod: the simulated pod. A pod is bound to a node with a list of phases (spec.go), each a number
  of seconds and a resource usage; from then on what it is doing is a function of the clock. Reading
  the usage rewrites the phase list: past phases are folded into the first remaining one, and a pod
  whose phases come from a file loads \<open>LOAD_PHASE_CACHE\<close> more when it reaches the last loaded phase.

  What the code gets from outside is the record \<open>io_env\<close>: reading and parsing a pod file, parsing the
  YAML of a simSpec annotation, parsing a quantity, and the package variable LOAD_PHASE_CACHE. Of the
  pod in a file only the annotations are used; an absent (nil) annotation map is \<open>None\<close>.

  \<open>usage_at\<close> is what the phase list means: the usage at a number of executed seconds. The lemmas show
  that the destructive lookup computes it for every non-decreasing sequence of clocks, and that the
  status of a pod moves only forward.
\<close>

section \<open>Specs (spec.go)\<close>

record spec_phase =
  ph_seconds :: int
  ph_resourceUsage :: resource_list

type_synonym spec = "spec_phase list"

datatype pod_file =
    FileMissing
  | FileInvalid
  | FilePod "(string \<times> string) list option"

record io_env =
  env_ReadPod :: "string \<Rightarrow> pod_file"
  env_Yaml :: "string \<Rightarrow> (int \<times> (string \<times> string) list option) list option"
  env_ParseQuantity :: "string \<Rightarrow> quantity option"
  env_LOAD_PHASE_CACHE :: nat

fun parseSpecYAML_loop ::
  "(string \<Rightarrow> quantity option) \<Rightarrow> spec \<Rightarrow> (int \<times> (string \<times> string) list option) list \<Rightarrow> spec res" where
  "parseSpecYAML_loop parse sp [] = Inr sp"
| "parseSpecYAML_loop parse sp ((seconds, usage) # phases) =
     (case usage of
        None \<Rightarrow> Inl InvalidResourceUsageField
      | Some resources \<Rightarrow>
          res_bind (BuildResourceList parse resources) (\<lambda>resourceUsage.
            parseSpecYAML_loop parse
              (sp @ [\<lparr>ph_seconds = seconds, ph_resourceUsage = resourceUsage\<rparr>]) phases))"

definition parseSpecYAML :: "io_env \<Rightarrow> string \<Rightarrow> spec res" where
  "parseSpecYAML env specYAML =
     (case env_Yaml env specYAML of
        None \<Rightarrow> Inl (UnmarshalError specYAML)
      | Some phases \<Rightarrow> parseSpecYAML_loop (env_ParseQuantity env) [] phases)"

definition parseSpec :: "io_env \<Rightarrow> (string \<times> string) list \<Rightarrow> (spec \<times> nat) res" where
  "parseSpec env annotations =
     (case map_of annotations ''simSpec'' of
        None \<Rightarrow> Inl SimSpecNotDefined
      | Some specAnnot \<Rightarrow> res_bind (parseSpecYAML env specAnnot) (\<lambda>s. Inr (s, length s)))"

definition parsePath :: "(string \<times> string) list \<Rightarrow> string" where
  "parsePath annotations = (case map_of annotations ''path'' of None \<Rightarrow> [] | Some path \<Rightarrow> path)"

section \<open>Pods (pod.go)\<close>

datatype status = Ok | Deleted | OverCapacity

record sim_pod =
  sp_v1 :: pod_ptr
  sp_spec :: spec
  sp_boundAt :: clock
  sp_status :: status
  sp_node :: string
  sp_path :: string
  sp_currentPhase :: nat
  sp_numPhase :: nat
  sp_loadPhase :: nat

definition status_String :: "status \<Rightarrow> string" where
  "status_String st = (case st of Ok \<Rightarrow> ''Ok'' | Deleted \<Rightarrow> ''Deleted'' | OverCapacity \<Rightarrow> ''OverCapacity'')"

text \<open>The annotations of the pod in a file; writing into a nil annotation map panics.\<close>

definition loadPodFromFile :: "io_env \<Rightarrow> string \<Rightarrow> (string \<times> string) list res" where
  "loadPodFromFile env filePath =
     (case env_ReadPod env filePath of
        FileMissing \<Rightarrow> Inl (CannotFindFile filePath)
      | FileInvalid \<Rightarrow> Inl (CannotParseFile filePath)
      | FilePod None \<Rightarrow> Inl (Panic ''assignment to entry in nil map'')
      | FilePod (Some annotations) \<Rightarrow> Inr (AList.update ''path'' filePath annotations))"

definition NewPod :: "io_env \<Rightarrow> pods \<Rightarrow> pod_ptr \<Rightarrow> clock \<Rightarrow> status \<Rightarrow> string \<Rightarrow> sim_pod res" where
  "NewPod env ps pod boundAt st node =
     (let path = parsePath (pod_Annotations (ps pod))
      in if path = [] then
           res_bind (parseSpec env (pod_Annotations (ps pod))) (\<lambda>(sp, numPhase).
             Inr \<lparr>sp_v1 = pod, sp_spec = sp, sp_boundAt = boundAt, sp_status = st, sp_node = node,
                  sp_path = path, sp_currentPhase = 0, sp_numPhase = numPhase,
                  sp_loadPhase = numPhase\<rparr>)
         else
           res_bind (loadPodFromFile env path) (\<lambda>podFromFile.
           res_bind (parseSpec env podFromFile) (\<lambda>(pSpec, numPhase).
             let newLoadPhase =
                   (if env_LOAD_PHASE_CACHE env \<ge> numPhase then numPhase else env_LOAD_PHASE_CACHE env);
                 path' = (if env_LOAD_PHASE_CACHE env \<ge> numPhase then [] else path)
             in Inr \<lparr>sp_v1 = pod, sp_spec = take newLoadPhase pSpec, sp_boundAt = boundAt,
                     sp_status = st, sp_node = node, sp_path = path', sp_currentPhase = 0,
                     sp_numPhase = numPhase, sp_loadPhase = newLoadPhase\<rparr>)))"

text \<open>
  UpdatePod: the spec, load position and path of the result are all loadPod's caller reads. Slicing
  outside the parsed phases panics.
\<close>

definition UpdatePod :: "io_env \<Rightarrow> sim_pod \<Rightarrow> nat \<Rightarrow> spec \<Rightarrow> sim_pod res" where
  "UpdatePod env pod numPhase pSpec =
     (let loadPhase = sp_loadPhase pod;
          more = loadPhase + env_LOAD_PHASE_CACHE env;
          newLoadPhase = (if more \<ge> numPhase then numPhase else more);
          path = (if more \<ge> numPhase then [] else sp_path pod)
      in if loadPhase \<le> newLoadPhase \<and> newLoadPhase \<le> length pSpec
         then Inr (pod\<lparr>sp_spec := sp_spec pod @ take (newLoadPhase - loadPhase) (drop loadPhase pSpec),
                       sp_path := path, sp_numPhase := numPhase, sp_loadPhase := newLoadPhase\<rparr>)
         else Inl (Panic ''slice bounds out of range''))"

definition loadPod :: "io_env \<Rightarrow> sim_pod \<Rightarrow> sim_pod res" where
  "loadPod env pod =
     (if sp_path pod = [] then Inr pod
      else case env_ReadPod env (sp_path pod) of
             FileMissing \<Rightarrow> Inl (CannotFindFile (sp_path pod))
           | FileInvalid \<Rightarrow> Inl (CannotParseFile (sp_path pod))
           | FilePod annotations \<Rightarrow>
               res_bind (parseSpec env (case annotations of None \<Rightarrow> [] | Some a \<Rightarrow> a)) (\<lambda>(sp, numPhase).
                 UpdatePod env pod numPhase sp))"

fun total_seconds_loop :: "int \<Rightarrow> spec \<Rightarrow> int" where
  "total_seconds_loop acc [] = acc"
| "total_seconds_loop acc (phase # sp) = total_seconds_loop (i32 (acc + ph_seconds phase)) sp"

definition totalExecutionDuration :: "sim_pod \<Rightarrow> duration" where
  "totalExecutionDuration pod = i64 (total_seconds_loop 0 (sp_spec pod) * second)"

definition finishAt :: "sim_pod \<Rightarrow> clock" where
  "finishAt pod = clock_Add (sp_boundAt pod) (totalExecutionDuration pod)"

text \<open>The deletion timestamp is a pointer; reading a nil one panics.\<close>

definition deletion_timestamp :: "pods \<Rightarrow> sim_pod \<Rightarrow> clock res" where
  "deletion_timestamp ps pod =
     (case pod_DeletionTimestamp (ps (sp_v1 pod)) of
        None \<Rightarrow> Inl (Panic ''nil pointer dereference'')
      | Some t \<Rightarrow> Inr t)"

definition executedDuration :: "pods \<Rightarrow> clock \<Rightarrow> sim_pod \<Rightarrow> duration res" where
  "executedDuration ps clk pod =
     (case sp_status pod of
        Ok \<Rightarrow>
          let elapsed = clock_Sub clk (sp_boundAt pod); total' = totalExecutionDuration pod
          in Inr (if elapsed < total' then elapsed else total')
      | Deleted \<Rightarrow> res_bind (deletion_timestamp ps pod) (\<lambda>t. Inr (clock_Sub t (sp_boundAt pod)))
      | OverCapacity \<Rightarrow> Inr 0)"

text \<open>
  The tests on a pod with status Ok do not reach the deletion timestamp, so they cannot panic;
  \<open>&&\<close> is the conditional.
\<close>

definition IsRunning :: "pods \<Rightarrow> clock \<Rightarrow> sim_pod \<Rightarrow> bool" where
  "IsRunning ps clk pod =
     (sp_status pod = Ok \<and>
      (case executedDuration ps clk pod of Inr d \<Rightarrow> d < totalExecutionDuration pod | Inl _ \<Rightarrow> False))"

definition IsTerminated :: "pods \<Rightarrow> clock \<Rightarrow> sim_pod \<Rightarrow> bool" where
  "IsTerminated ps clk pod =
     (sp_status pod = Ok \<and>
      (case executedDuration ps clk pod of Inr d \<Rightarrow> d \<ge> totalExecutionDuration pod | Inl _ \<Rightarrow> False))"

definition grace_period :: "v1_pod \<Rightarrow> int" where
  "grace_period p = (case pod_GracePeriod p of None \<Rightarrow> 30 | Some gp \<Rightarrow> gp)"

definition IsDeleted :: "pods \<Rightarrow> clock \<Rightarrow> sim_pod \<Rightarrow> bool res" where
  "IsDeleted ps clk pod =
     (if sp_status pod = Deleted
      then res_bind (deletion_timestamp ps pod) (\<lambda>t.
             Inr (clock_Sub clk t \<ge> i64 (grace_period (ps (sp_v1 pod)) * second)))
      else Inr False)"

definition IsTerminating :: "pods \<Rightarrow> clock \<Rightarrow> sim_pod \<Rightarrow> bool res" where
  "IsTerminating ps clk pod =
     (if sp_status pod = Deleted then res_bind (IsDeleted ps clk pod) (\<lambda>b. Inr (\<not> b)) else Inr False)"

definition running_or_terminating :: "pods \<Rightarrow> clock \<Rightarrow> sim_pod \<Rightarrow> bool res" where
  "running_or_terminating ps clk pod =
     (if IsRunning ps clk pod then Inr True else IsTerminating ps clk pod)"

definition HasFailedToStart :: "sim_pod \<Rightarrow> bool" where
  "HasFailedToStart pod = (sp_status pod = OverCapacity)"

text \<open>Delete marks the pod and writes the deletion timestamp of its v1.Pod.\<close>

definition sim_Delete :: "pods \<Rightarrow> clock \<Rightarrow> sim_pod \<Rightarrow> pods \<times> sim_pod" where
  "sim_Delete ps clk pod =
     (if IsTerminated ps clk pod \<or> sp_status pod = Deleted then (ps, pod)
      else (ps(sp_v1 pod := (ps (sp_v1 pod))\<lparr>pod_DeletionTimestamp := Some clk\<rparr>),
            pod\<lparr>sp_status := Deleted\<rparr>))"

text \<open>The loop over the phases: the index and accumulated duration of the first phase not over.\<close>

fun find_phase :: "int \<Rightarrow> int \<Rightarrow> nat \<Rightarrow> spec \<Rightarrow> (nat \<times> int) option" where
  "find_phase executedSeconds acc i [] = None"
| "find_phase executedSeconds acc i (phase # sp) =
     (let acc' = i32 (acc + ph_seconds phase)
      in if executedSeconds < acc' then Some (i, acc')
         else find_phase executedSeconds acc' (Suc i) sp)"

definition delete_past_phases :: "nat \<Rightarrow> int \<Rightarrow> sim_pod \<Rightarrow> sim_pod" where
  "delete_past_phases stop acc pod =
     (if 0 < stop
      then pod\<lparr>sp_spec := (sp_spec pod ! stop)\<lparr>ph_seconds := acc\<rparr> # drop (Suc stop) (sp_spec pod),
               sp_currentPhase := sp_currentPhase pod + stop\<rparr>
      else pod)"

definition load_more_phases :: "io_env \<Rightarrow> sim_pod \<Rightarrow> sim_pod res" where
  "load_more_phases env pod =
     (if sp_currentPhase pod \<ge> sp_loadPhase pod - 1 \<and> sp_loadPhase pod < sp_numPhase pod
      then case loadPod env pod of
             Inl (Panic e) \<Rightarrow> Inl (Panic e)
           | Inl _ \<Rightarrow> Inl (Panic ''nil pointer dereference'')
           | Inr l \<Rightarrow> Inr (pod\<lparr>sp_spec := sp_spec l, sp_loadPhase := sp_loadPhase l, sp_path := sp_path l\<rparr>)
      else Inr pod)"

definition ResourceUsage :: "io_env \<Rightarrow> pods \<Rightarrow> clock \<Rightarrow> sim_pod \<Rightarrow> (sim_pod \<times> resource_list) res" where
  "ResourceUsage env ps clk pod =
     res_bind (running_or_terminating ps clk pod) (\<lambda>using.
       if \<not> using then Inr (pod, [])
       else
         res_bind (executedDuration ps clk pod) (\<lambda>executed.
           case find_phase (duration_Seconds_int32 executed) 0 0 (sp_spec pod) of
             None \<Rightarrow> Inl (Panic ''Unreachable code in pod.ResourceUsage()'')
           | Some (stop, acc) \<Rightarrow>
               let usage = ph_resourceUsage (sp_spec pod ! stop)
               in res_bind (load_more_phases env (delete_past_phases stop acc pod)) (\<lambda>pod'.
                    Inr (pod', usage))))"

definition TotalResourceRequests :: "pods \<Rightarrow> sim_pod \<Rightarrow> resource_list" where
  "TotalResourceRequests ps pod = PodTotalResourceRequests (ps (sp_v1 pod))"

fun sumLimits_loop :: "resource_list \<Rightarrow> container list \<Rightarrow> resource_list" where
  "sumLimits_loop result [] = result"
| "sumLimits_loop result (c # cs) = sumLimits_loop (ResourceListSum result (ct_Limits c)) cs"

definition TotalResourceLimits :: "pods \<Rightarrow> sim_pod \<Rightarrow> resource_list" where
  "TotalResourceLimits ps pod = sumLimits_loop [] (pod_Containers (ps (sp_v1 pod)))"

section \<open>Statuses\<close>

definition success_condition :: "condition_type \<Rightarrow> clock \<Rightarrow> clock \<Rightarrow> pod_condition" where
  "success_condition ty clk startTime =
     \<lparr>pc_Type = ty, pc_Status = ConditionTrue, pc_LastProbeTime = clk,
      pc_LastTransitionTime = startTime, pc_Reason = [], pc_Message = []\<rparr>"

definition container_status_of :: "container_state \<Rightarrow> container \<Rightarrow> container_status" where
  "container_status_of st c =
     \<lparr>cs_Name = ct_Name c, cs_State = st, cs_Ready = True, cs_RestartCount = 0, cs_Image = ct_Image c\<rparr>"

definition BuildStatus :: "pods \<Rightarrow> clock \<Rightarrow> sim_pod \<Rightarrow> pod_status res" where
  "BuildStatus ps clk pod =
     (let st = pod_Status (ps (sp_v1 pod))
      in if sp_status pod = OverCapacity
         then Inr (st\<lparr>ps_Phase := PodFailed, ps_Reason := ''CapacityExceeded'',
                ps_Message := ''Pod cannot be started due to the requested resource exceeds the capacity''\<rparr>)
         else
           res_bind (running_or_terminating ps clk pod) (\<lambda>using.
             let startTime = sp_boundAt pod;
                 containerState =
                   (if using then ContainerRunning startTime
                    else ContainerTerminated 0 ''Succeeded''
                           ''All containers in the pod have voluntarily terminated'' startTime (finishAt pod));
                 st1 = st\<lparr>ps_StartTime := Some startTime,
                          ps_Phase := (if using then PodRunning else PodSucceeded)\<rparr>;
                 st2 = fst (UpdatePodCondition clk st1 (success_condition PodInitialized clk startTime));
                 st3 = fst (UpdatePodCondition clk st2 (success_condition PodReady clk startTime))
             in Inr (st3\<lparr>ps_ContainerStatuses :=
                   map (container_status_of containerState) (pod_Containers (ps (sp_v1 pod)))\<rparr>)))"

record pod_metrics =
  pm_ResourceRequest :: resource_list
  pm_ResourceLimit :: resource_list
  pm_ResourceUsage :: resource_list
  pm_ResourceAllocation :: resource_list
  pm_BoundAt :: clock
  pm_Node :: string
  pm_ExecutedSeconds :: int
  pm_Priority :: int
  pm_Status :: status

definition Pod_Metrics :: "io_env \<Rightarrow> pods \<Rightarrow> clock \<Rightarrow> sim_pod \<Rightarrow> (sim_pod \<times> pod_metrics) res" where
  "Pod_Metrics env ps clk pod =
     res_bind (ResourceUsage env ps clk pod) (\<lambda>(pod', usage).
     res_bind (executedDuration ps clk pod') (\<lambda>executed.
       Inr (pod', \<lparr>pm_ResourceRequest = TotalResourceRequests ps pod',
                   pm_ResourceLimit = TotalResourceLimits ps pod', pm_ResourceUsage = usage,
                   pm_ResourceAllocation = usage, pm_BoundAt = sp_boundAt pod', pm_Node = sp_node pod',
                   pm_ExecutedSeconds = duration_Seconds_int32 executed,
                   pm_Priority = PodPriority (ps (sp_v1 pod')), pm_Status = sp_status pod'\<rparr>)))"

section \<open>What a phase list means\<close>

definition spec_total :: "spec \<Rightarrow> int" where
  "spec_total sp = (\<Sum>ph\<leftarrow>sp. ph_seconds ph)"

text \<open>The seconds are not negative and their sum fits the int32 accumulator.\<close>

definition spec_ok :: "spec \<Rightarrow> bool" where
  "spec_ok sp \<longleftrightarrow> (\<forall>ph \<in> set sp. 0 \<le> ph_seconds ph) \<and> spec_total sp \<le> max_int32"

text \<open>The usage after \<open>t\<close> executed seconds, none once all phases are over.\<close>

fun usage_at :: "spec \<Rightarrow> int \<Rightarrow> resource_list option" where
  "usage_at [] t = None"
| "usage_at (ph # sp) t =
     (if t < ph_seconds ph then Some (ph_resourceUsage ph) else usage_at sp (t - ph_seconds ph))"

text \<open>The phase list once the first \<open>k\<close> phases are over: they are folded into phase \<open>k\<close>.\<close>

definition fold_phases :: "nat \<Rightarrow> spec \<Rightarrow> spec" where
  "fold_phases k sp = (sp ! k)\<lparr>ph_seconds := spec_total (take (Suc k) sp)\<rparr> # drop (Suc k) sp"

lemma spec_total_simps [simp]:
  "spec_total [] = 0"
  "spec_total (ph # sp) = ph_seconds ph + spec_total sp"
  "spec_total (sp @ sp') = spec_total sp + spec_total sp'"
  by (simp_all add: spec_total_def)

abbreviation nonneg_phases :: "spec \<Rightarrow> bool" where
  "nonneg_phases sp \<equiv> (\<forall>ph \<in> set sp. 0 \<le> ph_seconds ph)"

lemma spec_total_nonneg: "nonneg_phases sp \<Longrightarrow> 0 \<le> spec_total sp"
  by (induction sp) auto

lemma spec_total_take_mono:
  assumes "nonneg_phases sp" "i \<le> j"
  shows "spec_total (take i sp) \<le> spec_total (take j sp)"
proof -
  have "take j sp = take i sp @ take (j - i) (drop i sp)"
    using assms(2) by (metis le_add_diff_inverse take_add)
  moreover have "0 \<le> spec_total (take (j - i) (drop i sp))"
    using assms(1) by (intro spec_total_nonneg) (meson in_set_dropD in_set_takeD)
  ultimately show ?thesis by simp
qed

lemma spec_total_take_le: "nonneg_phases sp \<Longrightarrow> spec_total (take i sp) \<le> spec_total sp"
  using spec_total_take_mono [of sp i "max i (length sp)"] by simp

lemma spec_ok_take: "spec_ok sp \<Longrightarrow> spec_ok (take i sp)"
  using spec_total_take_le [of sp i] by (auto simp: spec_ok_def dest: in_set_takeD)

lemma spec_total_take_Suc:
  "i < length sp \<Longrightarrow> spec_total (take (Suc i) sp) = spec_total (take i sp) + ph_seconds (sp ! i)"
  by (simp add: take_Suc_conv_app_nth)

lemma spec_total_drop: "spec_total (take i sp) + spec_total (drop i sp) = spec_total sp"
  by (metis append_take_drop_id spec_total_simps(3))

lemma total_seconds_loop_exact:
  "0 \<le> acc \<Longrightarrow> nonneg_phases sp \<Longrightarrow> acc + spec_total sp \<le> max_int32 \<Longrightarrow>
     total_seconds_loop acc sp = acc + spec_total sp"
proof (induction acc sp rule: total_seconds_loop.induct)
  case (2 acc phase sp)
  then have "0 \<le> spec_total sp" by (intro spec_total_nonneg) simp
  with 2 have "i32 (acc + ph_seconds phase) = acc + ph_seconds phase"
    by (intro i32_id) (simp add: in32_def)
  with 2 show ?case by simp
qed simp

lemma total_seconds_spec: "spec_ok sp \<Longrightarrow> total_seconds_loop 0 sp = spec_total sp"
  using total_seconds_loop_exact [of 0 sp] by (simp add: spec_ok_def)

lemma totalExecutionDuration_exact:
  assumes "spec_ok (sp_spec pod)"
  shows "totalExecutionDuration pod = spec_total (sp_spec pod) * second"
proof -
  have "0 \<le> spec_total (sp_spec pod)" "spec_total (sp_spec pod) \<le> max_int32"
    using assms spec_total_nonneg by (auto simp: spec_ok_def)
  then show ?thesis
    using assms by (simp add: totalExecutionDuration_def total_seconds_spec i64_id in64_def second_def)
qed

lemma find_phase_Some:
  "0 \<le> acc \<Longrightarrow> nonneg_phases sp \<Longrightarrow> acc + spec_total sp \<le> max_int32 \<Longrightarrow>
     find_phase t acc i sp = Some (n, acc') \<Longrightarrow>
     \<exists>k < length sp. n = i + k \<and> acc' = acc + spec_total (take (Suc k) sp) \<and> t < acc' \<and>
       (k = 0 \<or> acc + spec_total (take k sp) \<le> t)"
proof (induction t acc i sp rule: find_phase.induct)
  case (2 t acc i phase sp)
  then have "0 \<le> spec_total sp" by (intro spec_total_nonneg) simp
  with 2 have acc: "i32 (acc + ph_seconds phase) = acc + ph_seconds phase"
    by (intro i32_id) (simp add: in32_def)
  show ?case
  proof (cases "t < acc + ph_seconds phase")
    case True
    with 2 acc show ?thesis by (intro exI [of _ 0]) simp
  next
    case False
    have "\<exists>k < length sp. n = Suc i + k \<and> acc' = acc + ph_seconds phase + spec_total (take (Suc k) sp) \<and>
        t < acc' \<and> (k = 0 \<or> acc + ph_seconds phase + spec_total (take k sp) \<le> t)"
      using "2.IH" [OF refl] "2.prems" acc False by (simp add: add.assoc)
    then obtain k where "k < length sp" "n = Suc i + k"
      "acc' = acc + ph_seconds phase + spec_total (take (Suc k) sp)" "t < acc'"
      "k = 0 \<or> acc + ph_seconds phase + spec_total (take k sp) \<le> t" by blast
    with False show ?thesis by (intro exI [of _ "Suc k"]) auto
  qed
qed simp

lemma find_phase_None:
  "0 \<le> acc \<Longrightarrow> nonneg_phases sp \<Longrightarrow> acc + spec_total sp \<le> max_int32 \<Longrightarrow>
     find_phase t acc i sp = None \<Longrightarrow> sp = [] \<or> acc + spec_total sp \<le> t"
proof (induction t acc i sp rule: find_phase.induct)
  case (2 t acc i phase sp)
  then have "0 \<le> spec_total sp" by (intro spec_total_nonneg) simp
  with 2 have acc: "i32 (acc + ph_seconds phase) = acc + ph_seconds phase"
    by (intro i32_id) (simp add: in32_def)
  with "2.prems" have "\<not> t < acc + ph_seconds phase" by (auto simp: Let_def split: if_splits)
  with 2 acc show ?case by (cases "sp = []") (simp_all add: add.assoc)
qed simp

lemma usage_at_phase:
  "k < length sp \<Longrightarrow> nonneg_phases sp \<Longrightarrow> t < spec_total (take (Suc k) sp) \<Longrightarrow>
     k = 0 \<or> spec_total (take k sp) \<le> t \<Longrightarrow> usage_at sp t = Some (ph_resourceUsage (sp ! k))"
proof (induction sp arbitrary: k t)
  case (Cons ph sp)
  show ?case
  proof (cases k)
    case 0
    with Cons.prems show ?thesis by simp
  next
    case (Suc k')
    have "0 \<le> spec_total (take k' sp)"
      using Cons.prems(2) by (intro spec_total_nonneg) (auto dest: in_set_takeD)
    with Cons.prems Suc have "\<not> t < ph_seconds ph" by simp
    moreover have "usage_at sp (t - ph_seconds ph) = Some (ph_resourceUsage (sp ! k'))"
      using Cons.prems Suc by (intro Cons.IH) auto
    ultimately show ?thesis using Suc by simp
  qed
qed simp

lemma usage_at_None_iff: "nonneg_phases sp \<Longrightarrow> sp \<noteq> [] \<Longrightarrow> usage_at sp t = None \<longleftrightarrow> spec_total sp \<le> t"
proof (induction sp arbitrary: t)
  case (Cons ph sp)
  then have "0 \<le> spec_total sp" by (intro spec_total_nonneg) simp
  with Cons show ?case by (cases "sp = []") (auto simp: algebra_simps)
qed simp

text \<open>Folding keeps the total and every usage from then on, and composes.\<close>

lemma fold_phases_total: "k < length sp \<Longrightarrow> spec_total (fold_phases k sp) = spec_total sp"
  using spec_total_drop [of "Suc k" sp] by (simp add: fold_phases_def)

lemma fold_phases_nonneg: "k < length sp \<Longrightarrow> nonneg_phases sp \<Longrightarrow> nonneg_phases (fold_phases k sp)"
  using spec_total_nonneg [of "take (Suc k) sp"]
  by (auto simp: fold_phases_def dest: in_set_dropD in_set_takeD)

lemma fold_phases_ok: "k < length sp \<Longrightarrow> spec_ok sp \<Longrightarrow> spec_ok (fold_phases k sp)"
  using fold_phases_nonneg fold_phases_total by (simp add: spec_ok_def)

lemma fold_phases_0: "sp \<noteq> [] \<Longrightarrow> fold_phases 0 sp = sp"
  by (cases sp) (simp_all add: fold_phases_def)

lemma fold_phases_length: "k < length sp \<Longrightarrow> length (fold_phases k sp) = length sp - k"
  by (simp add: fold_phases_def)

lemma fold_phases_nth_usage:
  "k < length sp \<Longrightarrow> j < length sp - k \<Longrightarrow>
     ph_resourceUsage (fold_phases k sp ! j) = ph_resourceUsage (sp ! (k + j))"
  by (cases j) (simp_all add: fold_phases_def)

lemma fold_phases_take_total:
  "k < length sp \<Longrightarrow> j < length sp - k \<Longrightarrow>
     spec_total (take (Suc j) (fold_phases k sp)) = spec_total (take (Suc (k + j)) sp)"
proof -
  assume "k < length sp" "j < length sp - k"
  have "take (Suc (k + j)) sp = take (Suc k) sp @ take j (drop (Suc k) sp)"
    by (metis add_Suc take_add)
  then show ?thesis by (simp add: fold_phases_def)
qed

lemma fold_phases_fold:
  assumes "k < length sp" "j < length sp - k"
  shows "fold_phases j (fold_phases k sp) = fold_phases (k + j) sp"
proof -
  have "(fold_phases k sp ! j)\<lparr>ph_seconds := c\<rparr> = (sp ! (k + j))\<lparr>ph_seconds := c\<rparr>" for c
    using assms by (cases j) (simp_all add: fold_phases_def)
  then have "(fold_phases k sp ! j)\<lparr>ph_seconds := spec_total (take (Suc j) (fold_phases k sp))\<rparr>
      = (sp ! (k + j))\<lparr>ph_seconds := spec_total (take (Suc (k + j)) sp)\<rparr>"
    using fold_phases_take_total [OF assms] by simp
  moreover have "drop (Suc j) (fold_phases k sp) = drop (Suc (k + j)) sp"
    by (simp add: fold_phases_def add.commute)
  ultimately show ?thesis
    by (subst fold_phases_def) (simp add: fold_phases_def [of "k + j"])
qed

lemma fold_phases_append:
  assumes "k < L" "L \<le> L'" "L' \<le> length sp"
  shows "fold_phases k (take L sp) @ take (L' - L) (drop L sp) = fold_phases k (take L' sp)"
proof -
  have "take (Suc k) (take L sp) = take (Suc k) (take L' sp)" using assms by (simp add: min_def)
  moreover have "drop (Suc k) (take L sp) @ take (L' - L) (drop L sp) = drop (Suc k) (take L' sp)"
  proof -
    have "take L' sp = take L sp @ take (L' - L) (drop L sp)"
      using assms(2) take_add [of L "L' - L" sp] by simp
    then show ?thesis using assms by simp
  qed
  ultimately show ?thesis using assms by (simp add: fold_phases_def)
qed

section \<open>Reading the usage of a loaded pod\<close>

definition file_spec :: "io_env \<Rightarrow> string \<Rightarrow> spec \<Rightarrow> bool" where
  "file_spec env path F \<longleftrightarrow>
     (\<exists>annotations. env_ReadPod env path = FilePod (Some annotations) \<and>
        parseSpec env annotations = Inr (F, length F))"

text \<open>
  \<open>pod_loaded env F pod\<close>: the pod executes the phases \<open>F\<close>; its phase list is the loaded part of \<open>F\<close>
  with the phases before the current one folded, and what is not loaded is still in the file.
\<close>

definition pod_loaded :: "io_env \<Rightarrow> spec \<Rightarrow> sim_pod \<Rightarrow> bool" where
  "pod_loaded env F pod \<longleftrightarrow>
     spec_ok F \<and> sp_numPhase pod = length F \<and> sp_currentPhase pod < sp_loadPhase pod \<and>
     sp_loadPhase pod \<le> length F \<and>
     sp_spec pod = fold_phases (sp_currentPhase pod) (take (sp_loadPhase pod) F) \<and>
     (sp_loadPhase pod < length F \<longrightarrow> sp_path pod \<noteq> [] \<and> file_spec env (sp_path pod) F)"

text \<open>What ResourceUsage never changes.\<close>

definition same_identity :: "sim_pod \<Rightarrow> sim_pod \<Rightarrow> bool" where
  "same_identity pod pod' \<longleftrightarrow>
     sp_v1 pod' = sp_v1 pod \<and> sp_boundAt pod' = sp_boundAt pod \<and> sp_status pod' = sp_status pod \<and>
     sp_node pod' = sp_node pod"

lemma pod_loaded_nonneg: "pod_loaded env F pod \<Longrightarrow> nonneg_phases F"
  by (simp add: pod_loaded_def spec_ok_def)

lemma pod_loaded_spec:
  assumes "pod_loaded env F pod"
  shows "spec_ok (sp_spec pod)" "spec_total (sp_spec pod) = spec_total (take (sp_loadPhase pod) F)"
    "length (sp_spec pod) = sp_loadPhase pod - sp_currentPhase pod"
  using assms fold_phases_ok [of "sp_currentPhase pod" "take (sp_loadPhase pod) F"]
    spec_ok_take [of F "sp_loadPhase pod"]
  by (simp_all add: pod_loaded_def fold_phases_total fold_phases_length)

definition loaded_nanos :: "spec \<Rightarrow> sim_pod \<Rightarrow> int" where
  "loaded_nanos F pod = spec_total (take (sp_loadPhase pod) F) * second"

lemma pod_loaded_total: "pod_loaded env F pod \<Longrightarrow> totalExecutionDuration pod = loaded_nanos F pod"
  by (simp add: totalExecutionDuration_exact pod_loaded_spec loaded_nanos_def)

lemma spec_total_bounds: "spec_ok F \<Longrightarrow> 0 \<le> spec_total (take i F) \<and> spec_total (take i F) \<le> max_int32"
  using spec_ok_take [of F i] spec_total_nonneg [of "take i F"] by (simp add: spec_ok_def)

lemma clock_Sub_less_iff:
  assumes "0 \<le> n" "n \<le> max_int32 * second"
  shows "clock_Sub c b < n \<longleftrightarrow> c - b < n"
  using assms by (auto simp: clock_Sub_def second_def)

lemma pod_loaded_running:
  assumes "pod_loaded env F pod" "sp_status pod = Ok"
  shows "IsRunning ps clk pod \<longleftrightarrow> clk - sp_boundAt pod < loaded_nanos F pod"
    "executedDuration ps clk pod = Inr (if clk - sp_boundAt pod < loaded_nanos F pod
       then clock_Sub clk (sp_boundAt pod) else loaded_nanos F pod)"
proof -
  have "0 \<le> loaded_nanos F pod \<and> loaded_nanos F pod \<le> max_int32 * second"
    using assms(1) spec_total_bounds [of F "sp_loadPhase pod"]
    by (simp add: pod_loaded_def loaded_nanos_def second_def)
  then have iff: "clock_Sub clk (sp_boundAt pod) < loaded_nanos F pod \<longleftrightarrow>
      clk - sp_boundAt pod < loaded_nanos F pod"
    by (intro clock_Sub_less_iff) auto
  show "executedDuration ps clk pod = Inr (if clk - sp_boundAt pod < loaded_nanos F pod
       then clock_Sub clk (sp_boundAt pod) else loaded_nanos F pod)"
    using assms iff by (simp add: executedDuration_def pod_loaded_total Let_def)
  then show "IsRunning ps clk pod \<longleftrightarrow> clk - sp_boundAt pod < loaded_nanos F pod"
    using assms iff by (simp add: IsRunning_def pod_loaded_total)
qed

lemma div_second_less: "e div second < t \<longleftrightarrow> e < t * second"
proof -
  have "e = (e div second) * second + e mod second" by simp
  moreover have "0 \<le> e mod second" "e mod second < second" by (simp_all add: second_def)
  ultimately show ?thesis unfolding second_def by linarith
qed

lemma executed_seconds:
  assumes "0 \<le> e" "e < t * second" "t \<le> max_int32"
  shows "duration_Seconds_int32 e = e div second"
proof -
  have "e div second < t" using assms(2) by (simp add: div_second_less)
  moreover have "0 \<le> e div second" using assms(1) by (simp add: second_def pos_imp_zdiv_nonneg_iff)
  moreover have "e sdiv 1000000000 = e div second" using assms(1) by (simp add: second_def sdiv_pos)
  ultimately show ?thesis using assms(3) by (simp add: duration_Seconds_int32_def i32_id in32_def)
qed


lemma div_second_le: "t \<le> e div second \<longleftrightarrow> t * second \<le> e"
  using div_second_less [of e t] by linarith

text \<open>Loading more phases from the file.\<close>

lemma loadPod_loaded:
  assumes loaded: "pod_loaded env F pod" and less: "sp_loadPhase pod < length F"
  defines "L \<equiv> min (sp_loadPhase pod + env_LOAD_PHASE_CACHE env) (length F)"
  shows "\<exists>l. loadPod env pod = Inr l \<and>
    pod_loaded env F (pod\<lparr>sp_spec := sp_spec l, sp_loadPhase := sp_loadPhase l, sp_path := sp_path l\<rparr>) \<and>
    sp_loadPhase l = L"
proof -
  obtain annotations where pfile: "env_ReadPod env (sp_path pod) = FilePod (Some annotations)"
    "parseSpec env annotations = Inr (F, length F)" and path: "sp_path pod \<noteq> []"
    using assms(1,2) by (auto simp: pod_loaded_def file_spec_def)
  define l where "l = pod\<lparr>sp_spec := sp_spec pod @ take (L - sp_loadPhase pod) (drop (sp_loadPhase pod) F),
      sp_path := (if sp_loadPhase pod + env_LOAD_PHASE_CACHE env \<ge> length F then [] else sp_path pod),
      sp_numPhase := length F, sp_loadPhase := L\<rparr>"
  have L: "sp_loadPhase pod \<le> L" "L \<le> length F" using less by (auto simp: L_def)
  have load: "loadPod env pod = Inr l"
    using pfile path L
    by (simp add: loadPod_def UpdatePod_def Let_def l_def L_def min_def)
  have "sp_spec l = fold_phases (sp_currentPhase pod) (take L F)"
    using loaded L fold_phases_append [of "sp_currentPhase pod" "sp_loadPhase pod" L F]
    by (simp add: l_def pod_loaded_def)
  moreover have "L < length F \<Longrightarrow> sp_path l = sp_path pod" by (auto simp: l_def L_def)
  ultimately have "pod_loaded env F
      (pod\<lparr>sp_spec := sp_spec l, sp_loadPhase := sp_loadPhase l, sp_path := sp_path l\<rparr>)"
    using loaded L less by (auto simp: pod_loaded_def l_def)
  with load show ?thesis by (auto simp: l_def)
qed

text \<open>One reading while the pod is executing a loaded phase.\<close>

lemma ResourceUsage_running:
  assumes loaded: "pod_loaded env F pod" and ok: "sp_status pod = Ok"
    and e: "e = clk - sp_boundAt pod" "0 \<le> e" "e < loaded_nanos F pod"
    and past: "sp_currentPhase pod = 0 \<or> spec_total (take (sp_currentPhase pod) F) * second \<le> e"
  obtains pod' u where "ResourceUsage env ps clk pod = Inr (pod', u)" "usage_at F (e div second) = Some u"
    "pod_loaded env F pod'" "same_identity pod pod'"
    "sp_currentPhase pod' = 0 \<or> spec_total (take (sp_currentPhase pod') F) * second \<le> e"
    "e < spec_total (take (Suc (sp_currentPhase pod')) F) * second"
    "0 < env_LOAD_PHASE_CACHE env \<Longrightarrow>
       sp_loadPhase pod' = length F \<or> Suc (sp_currentPhase pod') < sp_loadPhase pod'"
proof -
  define c where "c = sp_currentPhase pod"
  define L where "L = sp_loadPhase pod"
  define s where "s = e div second"
  define sp where "sp = take L F"
  note nn = pod_loaded_nonneg [OF loaded]
  have cL: "c < L" "L \<le> length F" and spec: "sp_spec pod = fold_phases c sp" and okF: "spec_ok F"
    and num: "sp_numPhase pod = length F"
    using loaded by (auto simp: pod_loaded_def c_def L_def sp_def)
  have nn': "nonneg_phases sp" using nn by (auto simp: sp_def dest: in_set_takeD)
  have csp: "c < length sp" "length sp = L" using cL by (auto simp: sp_def)
  have tsp: "spec_total sp \<le> max_int32" using spec_total_bounds [OF okF] by (simp add: sp_def)
  have es: "e < spec_total sp * second" using e(3) by (simp add: loaded_nanos_def sp_def L_def)
  have s_less: "s < spec_total sp" using es by (simp add: s_def div_second_less)
  have s_past: "c = 0 \<or> spec_total (take c sp) \<le> s"
    using past cL by (simp add: s_def div_second_le c_def sp_def min_def)
  have secs: "duration_Seconds_int32 e = s" using executed_seconds [OF e(2) es tsp] by (simp add: s_def)
  have bound: "spec_total sp * second \<le> max_int64" using tsp by (simp add: second_def)
  then have sub: "clock_Sub clk (sp_boundAt pod) = e" using e(1,2) es by (simp add: clock_Sub_def)
  have exec: "executedDuration ps clk pod = Inr e" and run: "IsRunning ps clk pod"
    using pod_loaded_running [OF loaded ok] e(1,3) sub by simp_all
  have fold_ok: "spec_ok (fold_phases c sp)" "spec_total (fold_phases c sp) = spec_total sp"
    using pod_loaded_spec(1) [OF loaded] spec fold_phases_total csp by auto
  have ne: "fold_phases c sp \<noteq> []" by (simp add: fold_phases_def)
  have "find_phase s 0 0 (fold_phases c sp) \<noteq> None"
  proof
    assume "find_phase s 0 0 (fold_phases c sp) = None"
    with find_phase_None [of 0 "fold_phases c sp" s 0] fold_ok s_less ne show False
      by (simp add: spec_ok_def)
  qed
  then obtain stop acc where find: "find_phase s 0 0 (fold_phases c sp) = Some (stop, acc)"
    by (cases "find_phase s 0 0 (fold_phases c sp)") auto
  have stop: "stop < length (fold_phases c sp)" "acc = spec_total (take (Suc stop) (fold_phases c sp))"
      "s < acc" "stop = 0 \<or> spec_total (take stop (fold_phases c sp)) \<le> s"
    using find_phase_Some [OF _ _ _ find] fold_ok by (auto simp: spec_ok_def)
  define c' where "c' = c + stop"
  have sl: "stop < length sp - c" using stop(1) fold_phases_length [OF csp(1)] by simp
  then have c'L: "c' < L" using csp by (simp add: c'_def)
  have acc: "acc = spec_total (take (Suc c') sp)"
    using stop(2) fold_phases_take_total [OF csp(1) sl] by (simp add: c'_def)
  have take_sp: "k \<le> L \<Longrightarrow> take k sp = take k F" for k by (simp add: sp_def min_def)
  have past': "c' = 0 \<or> spec_total (take c' sp) \<le> s"
  proof (cases stop)
    case 0
    then show ?thesis using s_past by (simp add: c'_def)
  next
    case (Suc j)
    then show ?thesis using stop(4) fold_phases_take_total [OF csp(1), of j] sl by (simp add: c'_def)
  qed
  have usage: "usage_at F s = Some (ph_resourceUsage (F ! c'))"
    using usage_at_phase [of c' F s] nn past' stop(3) acc take_sp [of c'] take_sp [of "Suc c'"] c'L cL
    by simp
  have nth: "ph_resourceUsage (fold_phases c sp ! stop) = ph_resourceUsage (F ! c')"
    using fold_phases_nth_usage [OF csp(1) sl] c'L by (simp add: c'_def sp_def)
  define pod1 where "pod1 = delete_past_phases stop acc pod"
  have spec1: "sp_spec pod1 = fold_phases c' sp"
  proof (cases "0 < stop")
    case True
    have "(sp_spec pod ! stop)\<lparr>ph_seconds := acc\<rparr> # drop (Suc stop) (sp_spec pod)
        = fold_phases stop (fold_phases c sp)"
      using stop(2) by (simp add: spec fold_phases_def [of stop])
    then show ?thesis using True fold_phases_fold [OF csp(1) sl] by (simp add: pod1_def delete_past_phases_def c'_def)
  qed (simp add: pod1_def delete_past_phases_def c'_def spec)
  have pod1: "sp_currentPhase pod1 = c'" "sp_loadPhase pod1 = L" "sp_numPhase pod1 = length F"
    "sp_path pod1 = sp_path pod" "same_identity pod pod1"
    by (auto simp: pod1_def delete_past_phases_def c'_def c_def L_def num same_identity_def)
  have loaded1: "pod_loaded env F pod1"
    using loaded pod1 spec1 c'L cL by (simp add: pod_loaded_def L_def [symmetric] sp_def)
  have early: "sp_currentPhase pod' = c' \<Longrightarrow>
      (sp_currentPhase pod' = 0 \<or> spec_total (take (sp_currentPhase pod') F) * second \<le> e) \<and>
      e < spec_total (take (Suc (sp_currentPhase pod')) F) * second" for pod' :: sim_pod
    using past' stop(3) acc take_sp [of c'] take_sp [of "Suc c'"] c'L
    by (auto simp: s_def div_second_le div_second_less)
  have ru: "ResourceUsage env ps clk pod =
      res_bind (load_more_phases env pod1) (\<lambda>pod'. Inr (pod', ph_resourceUsage (F ! c')))"
    using run exec find nth
    by (simp add: ResourceUsage_def running_or_terminating_def secs spec pod1_def Let_def)
  show thesis
  proof (cases "c' \<ge> L - 1 \<and> L < length F")
    case False
    show thesis
      by (rule that [of pod1 "ph_resourceUsage (F ! c')"])
        (use ru False usage loaded1 pod1 early c'L cL in \<open>auto simp: s_def load_more_phases_def\<close>)
  next
    case True
    then have "sp_loadPhase pod1 < length F" using pod1(2) by simp
    from loadPod_loaded [OF loaded1 this] obtain l where l: "loadPod env pod1 = Inr l"
      "pod_loaded env F (pod1\<lparr>sp_spec := sp_spec l, sp_loadPhase := sp_loadPhase l, sp_path := sp_path l\<rparr>)"
      "sp_loadPhase l = min (L + env_LOAD_PHASE_CACHE env) (length F)"
      by (auto simp: pod1(2))
    show thesis
      by (rule that [of "pod1\<lparr>sp_spec := sp_spec l, sp_loadPhase := sp_loadPhase l, sp_path := sp_path l\<rparr>"
            "ph_resourceUsage (F ! c')"])
        (use ru True usage l pod1 early c'L in \<open>auto simp: s_def same_identity_def load_more_phases_def\<close>)
  qed
qed

section \<open>Reading the usage over time\<close>

fun usage_run :: "io_env \<Rightarrow> pods \<Rightarrow> clock list \<Rightarrow> sim_pod \<Rightarrow> resource_list list res" where
  "usage_run env ps [] pod = Inr []"
| "usage_run env ps (clk # clks) pod =
     res_bind (ResourceUsage env ps clk pod) (\<lambda>(pod', usage).
       res_bind (usage_run env ps clks pod') (\<lambda>usages. Inr (usage # usages)))"

text \<open>The usage of the phases \<open>F\<close> for a pod bound at \<open>boundAt\<close>.\<close>

definition usage_spec :: "spec \<Rightarrow> clock \<Rightarrow> clock \<Rightarrow> resource_list" where
  "usage_spec F boundAt clk =
     (case usage_at F ((clk - boundAt) div second) of None \<Rightarrow> [] | Some usage \<Rightarrow> usage)"

lemma usage_spec_None:
  "spec_ok F \<Longrightarrow> spec_total F * second \<le> clk - boundAt \<Longrightarrow> usage_spec F boundAt clk = []"
proof (cases "F = []")
  case False
  assume "spec_ok F" "spec_total F * second \<le> clk - boundAt"
  then show ?thesis
    using usage_at_None_iff [of F "(clk - boundAt) div second"] False
    by (simp add: usage_spec_def spec_ok_def div_second_le)
qed (simp add: usage_spec_def)

lemma ResourceUsage_over:
  assumes "pod_loaded env F pod" "sp_status pod = Ok" "sp_loadPhase pod = length F"
    "spec_total F * second \<le> clk - sp_boundAt pod"
  shows "ResourceUsage env ps clk pod = Inr (pod, [])" "usage_spec F (sp_boundAt pod) clk = []"
proof -
  have "\<not> IsRunning ps clk pod"
    using pod_loaded_running(1) [OF assms(1,2)] assms(3,4) by (simp add: loaded_nanos_def)
  then show "ResourceUsage env ps clk pod = Inr (pod, [])"
    using assms(2) by (simp add: ResourceUsage_def running_or_terminating_def IsTerminating_def)
  show "usage_spec F (sp_boundAt pod) clk = []"
    using usage_spec_None assms(1,4) by (simp add: pod_loaded_def)
qed

text \<open>
  \<open>paced gap t clks\<close>: the clocks follow \<open>t\<close> in order, each at most \<open>gap\<close> after the one before.
\<close>

fun paced :: "int \<Rightarrow> clock \<Rightarrow> clock list \<Rightarrow> bool" where
  "paced gap t [] = True"
| "paced gap t (clk # clks) = (t \<le> clk \<and> clk - t \<le> gap \<and> paced gap clk clks)"

text \<open>
  The reader at time \<open>t\<close>: the current phase has begun, and either everything is loaded or the
  current phase is not over and one more phase is loaded.
\<close>

definition in_step :: "spec \<Rightarrow> clock \<Rightarrow> sim_pod \<Rightarrow> bool" where
  "in_step F t pod \<longleftrightarrow>
     (sp_currentPhase pod = 0 \<or>
        spec_total (take (sp_currentPhase pod) F) * second \<le> t - sp_boundAt pod) \<and>
     (sp_loadPhase pod = length F \<or>
        Suc (sp_currentPhase pod) < sp_loadPhase pod \<and>
        t - sp_boundAt pod < spec_total (take (Suc (sp_currentPhase pod)) F) * second)"

lemma delete_past_phases_loadPhase [simp]: "sp_loadPhase (delete_past_phases i a pod) = sp_loadPhase pod"
  by (simp add: delete_past_phases_def)

lemma in_step_read:
  assumes loaded: "pod_loaded env F pod" and ok: "sp_status pod = Ok" and cache: "0 < env_LOAD_PHASE_CACHE env"
    and step: "in_step F t pod" and order: "t \<le> clk" "0 \<le> clk - sp_boundAt pod"
    and gap: "sp_loadPhase pod = length F \<or> clk - t \<le> gap \<and> (\<forall>ph \<in> set F. gap \<le> ph_seconds ph * second)"
  obtains pod' where
    "ResourceUsage env ps clk pod = Inr (pod', usage_spec F (sp_boundAt pod) clk)"
    "pod_loaded env F pod'" "same_identity pod pod'" "in_step F clk pod'"
    "sp_loadPhase pod = length F \<Longrightarrow> sp_loadPhase pod' = length F"
proof -
  define e where "e = clk - sp_boundAt pod"
  note nn = pod_loaded_nonneg [OF loaded]
  have L: "sp_loadPhase pod \<le> length F" and num: "sp_numPhase pod = length F"
    using loaded by (simp_all add: pod_loaded_def)
  show thesis
  proof (cases "e < loaded_nanos F pod")
    case False
    have "sp_loadPhase pod = length F"
    proof (rule ccontr)
      assume ne: "sp_loadPhase pod \<noteq> length F"
      let ?c = "Suc (sp_currentPhase pod)"
      have c: "?c < sp_loadPhase pod" "t - sp_boundAt pod < spec_total (take ?c F) * second"
        using step ne by (auto simp: in_step_def)
      have "F ! ?c \<in> set F" using c(1) L by simp
      with gap ne have "clk - t \<le> ph_seconds (F ! ?c) * second" by fastforce
      moreover have "spec_total (take (Suc ?c) F) = spec_total (take ?c F) + ph_seconds (F ! ?c)"
        using c(1) L by (intro spec_total_take_Suc) simp
      ultimately have "e < spec_total (take (Suc ?c) F) * second"
        using c(2) by (simp add: e_def distrib_right)
      moreover have "spec_total (take (Suc ?c) F) \<le> spec_total (take (sp_loadPhase pod) F)"
        using c(1) by (intro spec_total_take_mono [OF nn]) simp
      ultimately show False using False by (simp add: loaded_nanos_def second_def)
    qed
    moreover from this have "spec_total F * second \<le> clk - sp_boundAt pod"
      using False by (simp add: loaded_nanos_def e_def)
    ultimately show thesis
      using that [of pod] ResourceUsage_over [OF loaded ok] loaded step order
      by (auto simp: in_step_def same_identity_def)
  next
    case True
    have past: "sp_currentPhase pod = 0 \<or> spec_total (take (sp_currentPhase pod) F) * second \<le> e"
      using step order by (auto simp: in_step_def e_def)
    obtain pod' u where r: "ResourceUsage env ps clk pod = Inr (pod', u)" "usage_at F (e div second) = Some u"
      "pod_loaded env F pod'" "same_identity pod pod'"
      "sp_currentPhase pod' = 0 \<or> spec_total (take (sp_currentPhase pod') F) * second \<le> e"
      "e < spec_total (take (Suc (sp_currentPhase pod')) F) * second"
      "sp_loadPhase pod' = length F \<or> Suc (sp_currentPhase pod') < sp_loadPhase pod'"
      using ResourceUsage_running [OF loaded ok e_def _ True past, of ps] order cache by (auto simp: e_def)
    have mono: "sp_loadPhase pod = length F \<Longrightarrow> sp_loadPhase pod' = length F"
    proof -
      assume full: "sp_loadPhase pod = length F"
      have "load_more_phases env (delete_past_phases i a pod) = Inr (delete_past_phases i a pod)" for i a
        using full num by (simp add: load_more_phases_def delete_past_phases_def)
      with r(1) full num show ?thesis
        by (auto simp: ResourceUsage_def res_bind_Inr_iff Let_def split: if_splits option.splits)
    qed
    show thesis
      by (rule that [of pod'])
        (use r mono in \<open>auto simp: usage_spec_def e_def in_step_def same_identity_def\<close>)
  qed
qed

lemma usage_run_exact:
  "pod_loaded env F pod \<Longrightarrow> sp_status pod = Ok \<Longrightarrow> 0 < env_LOAD_PHASE_CACHE env \<Longrightarrow> in_step F t pod \<Longrightarrow>
     sp_boundAt pod \<le> t \<Longrightarrow> paced gap t clks \<Longrightarrow>
     (sp_loadPhase pod = length F \<or> (\<forall>ph \<in> set F. gap \<le> ph_seconds ph * second)) \<Longrightarrow>
     usage_run env ps clks pod = Inr (map (usage_spec F (sp_boundAt pod)) clks)"
proof (induction clks arbitrary: pod t)
  case (Cons clk clks)
  have order: "t \<le> clk" "0 \<le> clk - sp_boundAt pod" and paced': "paced gap clk clks" and g: "clk - t \<le> gap"
    using Cons.prems(5,6) by auto
  have gap: "sp_loadPhase pod = length F \<or> clk - t \<le> gap \<and> (\<forall>ph \<in> set F. gap \<le> ph_seconds ph * second)"
    using Cons.prems(7) g by blast
  from in_step_read [OF Cons.prems(1-4) order gap, of ps] obtain pod' where
    r: "ResourceUsage env ps clk pod = Inr (pod', usage_spec F (sp_boundAt pod) clk)"
    "pod_loaded env F pod'" "same_identity pod pod'" "in_step F clk pod'"
    "sp_loadPhase pod = length F \<Longrightarrow> sp_loadPhase pod' = length F" by blast
  have "usage_run env ps clks pod' = Inr (map (usage_spec F (sp_boundAt pod')) clks)"
    by (rule Cons.IH [OF r(2) _ Cons.prems(3) r(4) _ paced'])
      (use r(3,5) Cons.prems(2,7) order in \<open>auto simp: same_identity_def\<close>)
  with r(1,3) show ?case by (simp add: same_identity_def)
qed simp

text \<open>Where a new pod's phases come from.\<close>

definition pod_phases :: "io_env \<Rightarrow> v1_pod \<Rightarrow> spec \<Rightarrow> bool" where
  "pod_phases env p F \<longleftrightarrow>
     (if parsePath (pod_Annotations p) = [] then parseSpec env (pod_Annotations p) = Inr (F, length F)
      else file_spec env (parsePath (pod_Annotations p)) F)"

lemma parseSpec_path: "parseSpec env (AList.update ''path'' x annotations) = parseSpec env annotations"
  by (simp add: parseSpec_def update_conv')

lemma NewPod_loaded:
  assumes phases: "pod_phases env (ps p) F" and F: "F \<noteq> []" "spec_ok F" and cache: "0 < env_LOAD_PHASE_CACHE env"
  shows "\<exists>pod. NewPod env ps p boundAt st node = Inr pod \<and> pod_loaded env F pod \<and> sp_v1 pod = p \<and>
    sp_boundAt pod = boundAt \<and> sp_status pod = st \<and> sp_node pod = node \<and> sp_currentPhase pod = 0 \<and>
    (parsePath (pod_Annotations (ps p)) = [] \<longrightarrow> sp_loadPhase pod = length F) \<and>
    sp_loadPhase pod = (if parsePath (pod_Annotations (ps p)) = [] then length F
                        else min (env_LOAD_PHASE_CACHE env) (length F))"
proof (cases "parsePath (pod_Annotations (ps p)) = []")
  case True
  with assms show ?thesis
    by (auto simp: NewPod_def pod_phases_def pod_loaded_def fold_phases_0 Let_def)
next
  case False
  obtain annotations where pfile: "env_ReadPod env (parsePath (pod_Annotations (ps p))) = FilePod (Some annotations)"
    "parseSpec env annotations = Inr (F, length F)"
    using phases False by (auto simp: pod_phases_def file_spec_def)
  let ?path = "parsePath (pod_Annotations (ps p))"
  define L where "L = min (env_LOAD_PHASE_CACHE env) (length F)"
  have L: "0 < L" "L \<le> length F" using cache F by (auto simp: L_def)
  have new: "NewPod env ps p boundAt st node = Inr \<lparr>sp_v1 = p, sp_spec = take L F, sp_boundAt = boundAt,
      sp_status = st, sp_node = node, sp_path = (if env_LOAD_PHASE_CACHE env \<ge> length F then [] else ?path),
      sp_currentPhase = 0, sp_numPhase = length F, sp_loadPhase = L\<rparr>"
    using False pfile
    by (simp add: NewPod_def loadPodFromFile_def parseSpec_path Let_def L_def min_def)
  have "fold_phases 0 (take L F) = take L F" using L F by (intro fold_phases_0) auto
  then show ?thesis
    using False F L pfile by (auto simp: new pod_loaded_def file_spec_def L_def)
qed

section \<open>Deletion timestamps\<close>

text \<open>A deleted pod carries a deletion timestamp: only Delete sets the status, and it writes both.\<close>

definition deletion_ok :: "pods \<Rightarrow> sim_pod \<Rightarrow> bool" where
  "deletion_ok ps pod \<longleftrightarrow>
     (sp_status pod = Deleted \<longrightarrow> pod_DeletionTimestamp (ps (sp_v1 pod)) \<noteq> None)"

lemma sim_Delete_ok: "deletion_ok ps pod \<Longrightarrow> sim_Delete ps clk pod = (ps', pod') \<Longrightarrow> deletion_ok ps' pod'"
  by (auto simp: sim_Delete_def deletion_ok_def split: if_splits)

lemma running_or_terminating_ok:
  assumes "deletion_ok ps pod"
  shows "\<exists>b. running_or_terminating ps clk pod = Inr b"
  using assms
  by (auto simp: running_or_terminating_def IsTerminating_def IsDeleted_def deletion_timestamp_def deletion_ok_def)

section \<open>Reading the usage never panics\<close>

lemma advance_loaded:
  assumes loaded: "pod_loaded env F pod" and stop: "stop < length (sp_spec pod)"
    and acc: "acc = spec_total (take (Suc stop) (sp_spec pod))"
  shows "\<exists>pod'. load_more_phases env (delete_past_phases stop acc pod) = Inr pod' \<and>
    pod_loaded env F pod' \<and> same_identity pod pod' \<and> sp_loadPhase pod \<le> sp_loadPhase pod'"
proof -
  define c where "c = sp_currentPhase pod"
  define sp where "sp = take (sp_loadPhase pod) F"
  define pod1 where "pod1 = delete_past_phases stop acc pod"
  have c: "c < length sp" "length sp = sp_loadPhase pod" "sp_spec pod = fold_phases c sp"
    using loaded by (auto simp: pod_loaded_def c_def sp_def)
  then have sl: "stop < length sp - c" using stop fold_phases_length by simp
  have "sp_spec pod1 = fold_phases (c + stop) sp"
  proof (cases "0 < stop")
    case True
    have "(sp_spec pod ! stop)\<lparr>ph_seconds := acc\<rparr> # drop (Suc stop) (sp_spec pod)
        = fold_phases stop (fold_phases c sp)"
      by (simp add: acc c(3) fold_phases_def [of stop])
    then show ?thesis using True fold_phases_fold [OF c(1) sl] by (simp add: pod1_def delete_past_phases_def)
  qed (simp add: pod1_def delete_past_phases_def c(3))
  moreover have frame: "sp_currentPhase pod1 = c + stop" "sp_loadPhase pod1 = sp_loadPhase pod"
    "sp_numPhase pod1 = sp_numPhase pod" "sp_path pod1 = sp_path pod" "same_identity pod pod1"
    by (auto simp: pod1_def delete_past_phases_def c_def same_identity_def)
  ultimately have loaded1: "pod_loaded env F pod1"
    using loaded c sl by (simp add: pod_loaded_def sp_def)
  show ?thesis
  proof (cases "sp_currentPhase pod1 \<ge> sp_loadPhase pod1 - 1 \<and> sp_loadPhase pod1 < sp_numPhase pod1")
    case False
    then have "load_more_phases env pod1 = Inr pod1" by (auto simp: load_more_phases_def)
    with loaded1 frame show ?thesis by (auto simp: pod1_def)
  next
    case True
    then have "sp_loadPhase pod1 < length F" using loaded1 by (simp add: pod_loaded_def)
    from loadPod_loaded [OF loaded1 this] obtain l where l: "loadPod env pod1 = Inr l"
      "pod_loaded env F (pod1\<lparr>sp_spec := sp_spec l, sp_loadPhase := sp_loadPhase l, sp_path := sp_path l\<rparr>)"
      "sp_loadPhase l = min (sp_loadPhase pod1 + env_LOAD_PHASE_CACHE env) (length F)"
      by blast
    have "load_more_phases env pod1 =
        Inr (pod1\<lparr>sp_spec := sp_spec l, sp_loadPhase := sp_loadPhase l, sp_path := sp_path l\<rparr>)"
      using True l(1) by (simp add: load_more_phases_def)
    then show ?thesis
      using l(2,3) frame \<open>sp_loadPhase pod1 < length F\<close> by (auto simp: pod1_def [symmetric] same_identity_def)
  qed
qed

text \<open>
  \<open>pod_ready env F ps t pod\<close>: the pod was bound by \<open>t\<close> and executes \<open>F\<close>, or it has no phases; if it is
  deleted, it was running when it was.
\<close>

definition pod_ready :: "io_env \<Rightarrow> spec \<Rightarrow> pods \<Rightarrow> clock \<Rightarrow> sim_pod \<Rightarrow> bool" where
  "pod_ready env F ps t pod \<longleftrightarrow> pod_loaded env F pod \<and> sp_boundAt pod \<le> t \<and>
     (sp_status pod = Deleted \<longrightarrow> (\<exists>d. pod_DeletionTimestamp (ps (sp_v1 pod)) = Some d \<and>
        sp_boundAt pod \<le> d \<and> d - sp_boundAt pod < loaded_nanos F pod))"

lemma ResourceUsage_ready:
  assumes ready: "pod_ready env F ps t pod" and t: "t \<le> clk"
  obtains pod' u where "ResourceUsage env ps clk pod = Inr (pod', u)" "pod_ready env F ps t pod'"
    "same_identity pod pod'"
proof -
  have loaded: "pod_loaded env F pod" using ready by (simp add: pod_ready_def)
  have del: "sp_status pod = Deleted \<Longrightarrow> deletion_ok ps pod" using ready by (auto simp: pod_ready_def deletion_ok_def)
  then have "deletion_ok ps pod" by (auto simp: deletion_ok_def)
  then obtain b where b: "running_or_terminating ps clk pod = Inr b" using running_or_terminating_ok by blast
  show thesis
  proof (cases b)
    case False
    with b ready show ?thesis by (intro that [of pod "[]"]) (simp_all add: ResourceUsage_def same_identity_def)
  next
    case True
    have T: "0 \<le> spec_total (take (sp_loadPhase pod) F)" "spec_total (take (sp_loadPhase pod) F) \<le> max_int32"
      using loaded spec_total_bounds [of F "sp_loadPhase pod"] by (simp_all add: pod_loaded_def)
    then have small: "x < loaded_nanos F pod \<Longrightarrow> x \<le> max_int64" for x
      by (simp add: loaded_nanos_def second_def)
    have "\<exists>e. executedDuration ps clk pod = Inr e \<and> 0 \<le> e \<and> e < loaded_nanos F pod"
    proof (cases "sp_status pod = Deleted")
      case True
      then show ?thesis using ready small
        by (auto simp: pod_ready_def executedDuration_def deletion_timestamp_def clock_Sub_def)
    next
      case False
      with True b have ok: "sp_status pod = Ok" and run: "IsRunning ps clk pod"
        by (auto simp: running_or_terminating_def IsTerminating_def IsRunning_def split: if_splits)
      with pod_loaded_running [OF loaded ok, of ps clk] t ready small show ?thesis
        by (auto simp: pod_ready_def clock_Sub_def)
    qed
    then obtain e where e: "executedDuration ps clk pod = Inr e" "0 \<le> e" "e < loaded_nanos F pod" by blast
    let ?s = "e div second"
    have secs: "duration_Seconds_int32 e = ?s"
      using executed_seconds [OF e(2) _ T(2)] e(3) by (simp add: loaded_nanos_def)
    have less: "?s < spec_total (sp_spec pod)"
      using e(3) pod_loaded_spec(2) [OF loaded] by (simp add: loaded_nanos_def div_second_less)
    have ok: "spec_ok (sp_spec pod)" "sp_spec pod \<noteq> []"
      using pod_loaded_spec(1) [OF loaded] less by (auto simp: e(2) pos_imp_zdiv_nonneg_iff second_def)
        (use loaded in \<open>simp add: pod_loaded_def fold_phases_def\<close>)
    have "find_phase ?s 0 0 (sp_spec pod) \<noteq> None"
    proof
      assume "find_phase ?s 0 0 (sp_spec pod) = None"
      with find_phase_None [of 0 "sp_spec pod" ?s 0] ok less show False by (simp add: spec_ok_def)
    qed
    then obtain stop acc where find: "find_phase ?s 0 0 (sp_spec pod) = Some (stop, acc)"
      by (cases "find_phase ?s 0 0 (sp_spec pod)") auto
    have "stop < length (sp_spec pod)" "acc = spec_total (take (Suc stop) (sp_spec pod))"
      using find_phase_Some [OF _ _ _ find] ok by (auto simp: spec_ok_def)
    from advance_loaded [OF loaded this] obtain pod' where
      r: "load_more_phases env (delete_past_phases stop acc pod) = Inr pod'" "pod_loaded env F pod'"
        "same_identity pod pod'" "sp_loadPhase pod \<le> sp_loadPhase pod'" by blast
    have "loaded_nanos F pod \<le> loaded_nanos F pod'"
      using spec_total_take_mono [OF pod_loaded_nonneg [OF loaded] r(4)] by (simp add: loaded_nanos_def second_def)
    then have "pod_ready env F ps t pod'"
      using ready r(2,3) by (auto simp: pod_ready_def same_identity_def)
    moreover have "ResourceUsage env ps clk pod = Inr (pod', ph_resourceUsage (sp_spec pod ! stop))"
      using True b e(1) secs find r(1) by (simp add: ResourceUsage_def Let_def)
    ultimately show ?thesis using r(3) that by blast
  qed
qed

end
