(* ===== verification/PodProperties.thy ===== *)
theory PodProperties
  imports SimPod
begin

text \<open>
  What a simulated pod guarantees: its five states partition its life and it moves through them in one
  direction, deletion takes exactly the grace period, the destructive and lazily loading lookup of
  the resource usage gives what the phases say, and BuildStatus reports it. The example pod reads its
  phases from a file.
\<close>

section \<open>The states of a pod\<close>

lemma IsTerminated_iff:
  assumes "spec_ok (sp_spec pod)" "sp_status pod = Ok"
  shows "IsTerminated ps clk pod \<longleftrightarrow> finishAt pod \<le> clk"
    "IsRunning ps clk pod \<longleftrightarrow> clk < finishAt pod"
proof -
  have "0 \<le> totalExecutionDuration pod \<and> totalExecutionDuration pod \<le> max_int32 * second"
    using assms(1) spec_total_bounds [of "sp_spec pod" "length (sp_spec pod)"]
    by (simp add: totalExecutionDuration_exact second_def)
  then have "clock_Sub clk (sp_boundAt pod) < totalExecutionDuration pod \<longleftrightarrow>
      clk - sp_boundAt pod < totalExecutionDuration pod"
    by (intro clock_Sub_less_iff) auto
  then show "IsTerminated ps clk pod \<longleftrightarrow> finishAt pod \<le> clk" "IsRunning ps clk pod \<longleftrightarrow> clk < finishAt pod"
    using assms(2)
    by (auto simp: IsTerminated_def IsRunning_def executedDuration_def finishAt_def clock_Add_def Let_def)
qed

text \<open>
  C39: At every clock a pod is in exactly one of five states: running, terminated, terminating, deleted,
  or failed to start; none of the five tests panics.
\<close>

theorem pod_states_partition:
  assumes "deletion_ok ps pod"
  shows "\<exists>terminating deleted. IsTerminating ps clk pod = Inr terminating \<and> IsDeleted ps clk pod = Inr deleted \<and>
    length (filter id [IsRunning ps clk pod, IsTerminated ps clk pod, terminating, deleted, HasFailedToStart pod]) = 1"
proof (cases "sp_status pod")
  case Deleted
  then show ?thesis
    using assms by (auto simp: deletion_ok_def IsTerminating_def IsDeleted_def deletion_timestamp_def
        IsRunning_def IsTerminated_def HasFailedToStart_def)
qed (auto simp: IsTerminating_def IsDeleted_def IsRunning_def IsTerminated_def HasFailedToStart_def
    executedDuration_def Let_def)

text \<open>
  A pod that started runs until the clock reaches its bind time plus the sum of its phases and is
  terminated from then on; the switch happens once, at \<open>finishAt\<close>.
\<close>

theorem pod_runs_until_finish:
  assumes "spec_ok (sp_spec pod)" "sp_status pod = Ok"
  shows "finishAt pod = sp_boundAt pod + spec_total (sp_spec pod) * second \<and>
    (IsRunning ps clk pod \<longleftrightarrow> clk < finishAt pod) \<and> (IsTerminated ps clk pod \<longleftrightarrow> finishAt pod \<le> clk) \<and>
    (IsTerminated ps clk pod \<longrightarrow> clk \<le> clk' \<longrightarrow> IsTerminated ps clk' pod)"
  using IsTerminated_iff [OF assms] assms(1)
  by (auto simp: finishAt_def clock_Add_def totalExecutionDuration_exact)

text \<open>
  Deleting a pod that is not over marks it once: it is terminating exactly until its grace period
  (30 seconds unless the pod says otherwise) has passed since the first Delete, deleted from then on,
  never running again, and deleting it a second time changes nothing; deleting a terminated pod
  changes nothing.
\<close>

theorem pod_deletion:
  assumes "sp_status pod \<noteq> Deleted" "in64 (grace_period (ps (sp_v1 pod)) * second)"
    "in64 (clk - t)" "sim_Delete ps t pod = (ps', pod')"
  shows "if IsTerminated ps t pod then ps' = ps \<and> pod' = pod
    else sp_status pod' = Deleted \<and>
      IsTerminating ps' clk pod' = Inr (clk - t < grace_period (ps (sp_v1 pod)) * second) \<and>
      IsDeleted ps' clk pod' = Inr (grace_period (ps (sp_v1 pod)) * second \<le> clk - t) \<and>
      \<not> IsRunning ps' clk pod' \<and> sim_Delete ps' clk pod' = (ps', pod')"
proof (cases "IsTerminated ps t pod")
  case False
  then have *: "ps' = ps(sp_v1 pod := (ps (sp_v1 pod))\<lparr>pod_DeletionTimestamp := Some t\<rparr>)"
    "pod' = pod\<lparr>sp_status := Deleted\<rparr>"
    using assms(1,4) by (auto simp: sim_Delete_def)
  have "grace_period (ps' (sp_v1 pod')) = grace_period (ps (sp_v1 pod))"
    by (simp add: * grace_period_def)
  with False assms(2,3) show ?thesis
    by (auto simp: * IsTerminating_def IsDeleted_def deletion_timestamp_def IsRunning_def sim_Delete_def
        i64_id clock_Sub_exact)
qed (use assms(4) in \<open>simp add: sim_Delete_def\<close>)

section \<open>The resource usage over time\<close>

text \<open>
  C16: The usage of a pod bound with the phases \<open>F\<close> is what the phases say, however often it is read and
  although every reading folds past phases away and loads later ones from the file: for clocks that
  never go back, the readings are the usage of the phase containing each clock, nothing after the
  last. For a pod whose phases come from a file this needs a cache of at least two phases and
  readings no further apart than the shortest phase.
\<close>

theorem usage_is_phases:
  assumes "pod_phases env (ps p) F" "F \<noteq> []" "spec_ok F" "2 \<le> env_LOAD_PHASE_CACHE env"
    "NewPod env ps p boundAt Ok node = Inr pod" "paced gap boundAt clks" "0 < gap"
    "parsePath (pod_Annotations (ps p)) = [] \<or> (\<forall>ph \<in> set F. gap \<le> ph_seconds ph * second)"
  shows "usage_run env ps clks pod = Inr (map (usage_spec F boundAt) clks)"
proof -
  from NewPod_loaded [of env ps p F boundAt Ok node] assms(1-5) have
    loaded: "pod_loaded env F pod" "sp_boundAt pod = boundAt" "sp_status pod = Ok" "sp_currentPhase pod = 0"
    and full: "sp_loadPhase pod = (if parsePath (pod_Annotations (ps p)) = [] then length F
       else min (env_LOAD_PHASE_CACHE env) (length F))"
    by auto
  have hd: "spec_total (take (Suc 0) F) = ph_seconds (F ! 0)" using assms(2) by (cases F) simp_all
  have "in_step F boundAt pod"
  proof (cases "sp_loadPhase pod = length F")
    case False
    then have "parsePath (pod_Annotations (ps p)) \<noteq> []" "1 < sp_loadPhase pod"
      using full assms(4) by (auto split: if_splits)
    with assms(8) have gap: "\<forall>ph \<in> set F. gap \<le> ph_seconds ph * second" by blast
    have "F ! 0 \<in> set F" using assms(2) by simp
    with gap assms(7) have "0 < ph_seconds (F ! 0) * second" by fastforce
    then show ?thesis using \<open>1 < sp_loadPhase pod\<close> loaded(2,4) hd by (simp add: in_step_def)
  qed (simp add: in_step_def loaded)
  with usage_run_exact [OF loaded(1,3) _ _ _ assms(6)] assms(4,8) full loaded(2) show ?thesis
    by auto
qed

definition demo_rl :: "int \<Rightarrow> resource_list" where
  "demo_rl n = [(''cpu'', NewQuantity n DecimalSI)]"

definition demo_phases :: spec where
  "demo_phases = map (\<lambda>n. \<lparr>ph_seconds = 10, ph_resourceUsage = demo_rl n\<rparr>) [1, 2, 3, 4, 5, 6]"

text \<open>A file with a simSpec of six phases of ten seconds, using 1, 2, ... 6 cpus.\<close>

definition demo_env :: "nat \<Rightarrow> io_env" where
  "demo_env cache =
     \<lparr>env_ReadPod = (\<lambda>path. if path = ''/pod.json'' then FilePod (Some [(''simSpec'', ''phases'')]) else FileMissing),
      env_Yaml = (\<lambda>text. Some (map (\<lambda>n. (10, Some [(''cpu'', [n])])) ''123456'')),
      env_ParseQuantity = (\<lambda>s. Some (NewQuantity (of_char (hd s) - 48) DecimalSI)),
      env_LOAD_PHASE_CACHE = cache\<rparr>"

definition file_store :: pods where
  "file_store = (\<lambda>p. empty_pod\<lparr>pod_Namespace := ''default'', pod_Name := ''file-pod'',
     pod_Annotations := [(''path'', ''/pod.json'')]\<rparr>)"

definition demo_sim_pod :: sim_pod where
  "demo_sim_pod = \<lparr>sp_v1 = 0, sp_spec = demo_phases, sp_boundAt = 0, sp_status = Ok, sp_node = ''node-0'',
     sp_path = [], sp_currentPhase = 0, sp_numPhase = 6, sp_loadPhase = 6\<rparr>"

lemma demo_phases_simps:
  "length demo_phases = 6" "demo_phases \<noteq> []" "spec_total demo_phases = 60" "spec_ok demo_phases"
  "\<forall>ph \<in> set demo_phases. ph_seconds ph = 10"
  by (simp_all add: demo_phases_def spec_ok_def)

lemma demo_pod_phases: "pod_phases (demo_env cache) (file_store 0) demo_phases"
proof -
  have "parseSpec (demo_env 2) [(''simSpec'', ''phases'')] = Inr (demo_phases, 6)" by code_simp
  then have "parseSpec (demo_env cache) [(''simSpec'', ''phases'')] = Inr (demo_phases, length demo_phases)"
    by (simp add: demo_phases_simps parseSpec_def parseSpecYAML_def demo_env_def)
  moreover have "env_ReadPod (demo_env cache) ''/pod.json'' = FilePod (Some [(''simSpec'', ''phases'')])"
    by (simp add: demo_env_def)
  ultimately show ?thesis by (simp add: pod_phases_def file_store_def parsePath_def file_spec_def)
qed

theorem pod_states_partition_witness:
  "deletion_ok file_store demo_sim_pod \<and>
   (\<exists>terminating. IsTerminating file_store 7 demo_sim_pod = Inr terminating)"
proof -
  have ok: "deletion_ok file_store demo_sim_pod" by (simp add: deletion_ok_def demo_sim_pod_def)
  from pod_states_partition [OF ok, of 7] ok show ?thesis by blast
qed

theorem pod_runs_until_finish_witness:
  "spec_ok (sp_spec demo_sim_pod) \<and> sp_status demo_sim_pod = Ok \<and>
   finishAt demo_sim_pod = 60 * second \<and> IsTerminated file_store (61 * second) demo_sim_pod"
proof -
  have ok: "spec_ok (sp_spec demo_sim_pod)" "sp_status demo_sim_pod = Ok"
    by (simp_all add: demo_sim_pod_def demo_phases_simps)
  have "finishAt demo_sim_pod = 60 * second"
    using pod_runs_until_finish [OF ok, of file_store 0 0]
    by (simp add: demo_sim_pod_def demo_phases_simps)
  with pod_runs_until_finish [OF ok, of file_store "61 * second" 0] ok show ?thesis
    by (simp add: second_def)
qed

theorem pod_deletion_witness:
  "IsTerminating (fst (sim_Delete file_store (10 * second) demo_sim_pod)) (39 * second)
     (snd (sim_Delete file_store (10 * second) demo_sim_pod)) = Inr True"
proof -
  obtain ps' pod' where d: "sim_Delete file_store (10 * second) demo_sim_pod = (ps', pod')" by force
  have "sp_status demo_sim_pod \<noteq> Deleted" "grace_period (file_store (sp_v1 demo_sim_pod)) = 30"
    by (simp_all add: demo_sim_pod_def grace_period_def file_store_def empty_pod_def)
  moreover have "\<not> IsTerminated file_store (10 * second) demo_sim_pod" by code_simp
  moreover have "in64 (30 * second)" "in64 (39 * second - 10 * second)" by (simp_all add: in64_def second_def)
  ultimately show ?thesis
    using pod_deletion [of demo_sim_pod file_store "39 * second" "10 * second" ps' pod'] d
    by (simp add: second_def)
qed

theorem usage_is_phases_witness:
  "\<exists>pod. NewPod (demo_env 2) file_store 0 0 Ok ''node-0'' = Inr pod \<and>
     usage_run (demo_env 2) file_store [0, 10 * second, 20 * second, 30 * second, 31 * second] pod =
       Inr (map demo_rl [1, 2, 3, 4, 4])"
proof -
  have cache: "2 \<le> env_LOAD_PHASE_CACHE (demo_env 2)" by (simp add: demo_env_def)
  then have "0 < env_LOAD_PHASE_CACHE (demo_env 2)" by simp
  from NewPod_loaded [of "demo_env 2" file_store 0 demo_phases 0 Ok "''node-0''",
      OF demo_pod_phases demo_phases_simps(2,4) this]
  obtain pod where new: "NewPod (demo_env 2) file_store 0 0 Ok ''node-0'' = Inr pod" by blast
  have "paced (10 * second) 0 [0, 10 * second, 20 * second, 30 * second, 31 * second]" "0 < 10 * second"
    by (simp_all add: second_def)
  from usage_is_phases [of "demo_env 2" file_store 0 demo_phases 0 "''node-0''" pod "10 * second",
      OF demo_pod_phases demo_phases_simps(2,4) cache new this] demo_phases_simps(5)
  have "usage_run (demo_env 2) file_store [0, 10 * second, 20 * second, 30 * second, 31 * second] pod =
      Inr (map (usage_spec demo_phases 0) [0, 10 * second, 20 * second, 30 * second, 31 * second])"
    by simp
  moreover have "map (usage_spec demo_phases 0) [0, 10 * second, 20 * second, 30 * second, 31 * second]
      = map demo_rl [1, 2, 3, 4, 4]"
    by code_simp
  ultimately show ?thesis using new by auto
qed

text \<open>
  The end of a pod whose phases come from a file is computed from the phases loaded so far: read
  less often than its phases change, the pod is over too early. With the default cache of two phases,
  six phases of ten seconds and readings 30 seconds apart, the pod is terminated, with no usage, at
  half its execution time, and the remaining phases are never loaded.
\<close>

theorem lazy_phases_end_early:
  "(case NewPod (demo_env 2) file_store 0 0 Ok ''node-0'' of
      Inl _ \<Rightarrow> False
    | Inr pod \<Rightarrow>
        IsTerminated file_store (30 * second) pod \<and>
        usage_run (demo_env 2) file_store [0, 30 * second] pod = Inr [demo_rl 1, []] \<and>
        usage_at demo_phases 30 = Some (demo_rl 4))"
  by code_simp

section \<open>The reported status\<close>

definition condition_of :: "pod_status \<Rightarrow> condition_type \<Rightarrow> pod_condition option" where
  "condition_of st t = map_option snd (GetPodCondition st t)"

lemma condition_of_simps [simp]:
  "condition_of (st\<lparr>ps_Phase := a\<rparr>) t = condition_of st t"
  "condition_of (st\<lparr>ps_StartTime := b\<rparr>) t = condition_of st t"
  "condition_of (st\<lparr>ps_ContainerStatuses := d\<rparr>) t = condition_of st t"
  by (simp_all add: condition_of_def GetPodCondition_def)

lemma condition_of_update:
  "condition_of (fst (UpdatePodCondition clk st c)) t =
     (if t = pc_Type c then Some (updated_condition clk st c) else condition_of st t)"
  using UpdatePodCondition_get [of clk st c] UpdatePodCondition_other [of t c clk st]
  by (auto simp: condition_of_def)

lemma UpdatePodCondition_frame:
  "ps_Phase (fst (UpdatePodCondition clk st c)) = ps_Phase st"
  "ps_StartTime (fst (UpdatePodCondition clk st c)) = ps_StartTime st"
  "ps_NominatedNodeName (fst (UpdatePodCondition clk st c)) = ps_NominatedNodeName st"
  by (simp_all add: UpdatePodCondition_def Let_def split: option.splits)

text \<open>
  BuildStatus reports the state of the pod: Failed for a pod that failed to start, otherwise Running
  while it is running or terminating and Succeeded once it is over, started at its bind time, with
  PodInitialized and PodReady true and probed now, one container status per container, and every
  other condition and the nomination of the pod as they were.
\<close>

theorem build_status_reports:
  assumes "deletion_ok ps pod"
  shows "\<exists>st using. BuildStatus ps clk pod = Inr st \<and> running_or_terminating ps clk pod = Inr using \<and>
    ps_Phase st = (if HasFailedToStart pod then PodFailed else if using then PodRunning else PodSucceeded) \<and>
    (\<not> HasFailedToStart pod \<longrightarrow>
       ps_StartTime st = Some (sp_boundAt pod) \<and>
       map cs_Name (ps_ContainerStatuses st) = map ct_Name (pod_Containers (ps (sp_v1 pod))) \<and>
       (\<forall>t \<in> {PodInitialized, PodReady}. \<exists>c. condition_of st t = Some c \<and>
          pc_Status c = ConditionTrue \<and> pc_LastProbeTime c = clk)) \<and>
    condition_of st PodScheduled = condition_of (pod_Status (ps (sp_v1 pod))) PodScheduled \<and>
    ps_NominatedNodeName st = ps_NominatedNodeName (pod_Status (ps (sp_v1 pod)))"
proof -
  obtain using' where u: "running_or_terminating ps clk pod = Inr using'"
    using running_or_terminating_ok [OF assms] by blast
  have cname: "cs_Name \<circ> container_status_of s = ct_Name" for s
    by (simp add: fun_eq_iff container_status_of_def)
  show ?thesis
    by (cases "sp_status pod = OverCapacity")
      (auto simp: BuildStatus_def u HasFailedToStart_def Let_def condition_of_update UpdatePodCondition_frame
        updated_condition_def success_condition_def cname condition_of_def [of "_\<lparr>ps_Message := _\<rparr>"]
        GetPodCondition_def condition_of_def [of "pod_Status _"])
qed

theorem build_status_reports_witness:
  "\<exists>st. BuildStatus file_store (5 * second) demo_sim_pod = Inr st \<and> ps_StartTime st = Some 0"
proof -
  have ok: "deletion_ok file_store demo_sim_pod" by (simp add: deletion_ok_def demo_sim_pod_def)
  have "\<not> HasFailedToStart demo_sim_pod" "sp_boundAt demo_sim_pod = 0"
    by (simp_all add: HasFailedToStart_def demo_sim_pod_def)
  with build_status_reports [OF ok, of "5 * second"] show ?thesis by auto
qed

end
