(* ===== verification/NodeInfo.thy ===== *)
theory NodeInfo
  imports Resource
begin

text \<open>
  vendor/k8s.io/kubernetes/pkg/scheduler/nodeinfo/node_info.go: the summary of a node the scheduler
  works on, as far as the simulator's scheduling reads it: the node, its pods, and the running totals
  of what they request. Ports, affinity, taints, images, node conditions and the generation counter
  are not modelled; no plugin of the repository reads them.

  \<open>ni_ok\<close> says that the totals are the sums over the pods, in int64 arithmetic; AddPod and RemovePod
  keep it, and RemovePod undoes AddPod.
\<close>

record node_info =
  ni_node :: "v1_node option"
  ni_pods :: "pod_ptr list"
  ni_requestedResource :: resource
  ni_nonzeroRequest :: resource
  ni_allocatableResource :: resource

fun calculateResource_loop :: "resource \<times> int \<times> int \<Rightarrow> container list \<Rightarrow> resource \<times> int \<times> int" where
  "calculateResource_loop acc [] = acc"
| "calculateResource_loop (res, non0CPU, non0Mem) (c # cs) =
     (case GetNonzeroRequests (ct_Requests c) of (non0CPUReq, non0MemReq) \<Rightarrow>
        calculateResource_loop
          (Resource_Add res (ct_Requests c), i64 (non0CPU + non0CPUReq), i64 (non0Mem + non0MemReq)) cs)"

definition calculateResource :: "v1_pod \<Rightarrow> resource \<times> int \<times> int" where
  "calculateResource pod = calculateResource_loop (empty_resource, 0, 0) (pod_Containers pod)"

fun addScalars :: "resource \<Rightarrow> (string \<times> int) list \<Rightarrow> resource" where
  "addScalars r [] = r"
| "addScalars r ((rName, rQuant) # qs) =
     addScalars (SetScalar r rName (i64 (scalar r rName + rQuant))) qs"

fun subScalars :: "resource \<Rightarrow> (string \<times> int) list \<Rightarrow> resource" where
  "subScalars r [] = r"
| "subScalars r ((rName, rQuant) # qs) =
     subScalars (SetScalar r rName (i64 (scalar r rName - rQuant))) qs"

definition NodeInfo_AddPod :: "pods \<Rightarrow> node_info \<Rightarrow> pod_ptr \<Rightarrow> node_info" where
  "NodeInfo_AddPod ps n pod =
     (case calculateResource (ps pod) of (res, non0CPU, non0Mem) \<Rightarrow>
        let r = ni_requestedResource n; z = ni_nonzeroRequest n
        in n\<lparr>ni_requestedResource :=
               addScalars (r\<lparr>r_MilliCPU := i64 (r_MilliCPU r + r_MilliCPU res),
                             r_Memory := i64 (r_Memory r + r_Memory res),
                             r_EphemeralStorage := i64 (r_EphemeralStorage r + r_EphemeralStorage res)\<rparr>)
                 (r_ScalarResources res),
             ni_nonzeroRequest := z\<lparr>r_MilliCPU := i64 (r_MilliCPU z + non0CPU),
                                    r_Memory := i64 (r_Memory z + non0Mem)\<rparr>,
             ni_pods := ni_pods n @ [pod]\<rparr>)"

definition GetPodKey :: "v1_pod \<Rightarrow> string res" where
  "GetPodKey pod = (if pod_UID pod = [] then Inl EmptyUID else Inr (pod_UID pod))"

fun find_pod :: "pods \<Rightarrow> string \<Rightarrow> nat \<Rightarrow> pod_ptr list \<Rightarrow> nat option" where
  "find_pod ps k1 i [] = None"
| "find_pod ps k1 i (p # rest) =
     (case GetPodKey (ps p) of
        Inl _ \<Rightarrow> find_pod ps k1 (Suc i) rest
      | Inr k2 \<Rightarrow> if k1 = k2 then Some i else find_pod ps k1 (Suc i) rest)"

text \<open>
  Removing element \<open>i\<close> from a slice by moving the last one there: \<open>swap_out\<close> is the backing array
  after the move, which a slice taken before still shows; the new slice is one shorter.
\<close>

definition swap_out :: "nat \<Rightarrow> 'a list \<Rightarrow> 'a list" where
  "swap_out i xs = xs[i := xs ! (length xs - 1)]"

definition NodeInfo_RemovePod :: "pods \<Rightarrow> node_info \<Rightarrow> pod_ptr \<Rightarrow> node_info res" where
  "NodeInfo_RemovePod ps n pod =
     res_bind (GetPodKey (ps pod)) (\<lambda>k1.
       case find_pod ps k1 0 (ni_pods n) of
         None \<Rightarrow>
           (case ni_node n of
              None \<Rightarrow> Inl (Panic ''nil pointer dereference'')
            | Some _ \<Rightarrow> Inl (NoCorrespondingPod (pod_Name (ps pod))))
       | Some i \<Rightarrow>
           (case calculateResource (ps pod) of (res, non0CPU, non0Mem) \<Rightarrow>
              let r = ni_requestedResource n; z = ni_nonzeroRequest n
              in Inr (n\<lparr>ni_pods := take (length (ni_pods n) - 1) (swap_out i (ni_pods n)),
                        ni_requestedResource :=
                          subScalars (r\<lparr>r_MilliCPU := i64 (r_MilliCPU r - r_MilliCPU res),
                                        r_Memory := i64 (r_Memory r - r_Memory res),
                                        r_EphemeralStorage := i64 (r_EphemeralStorage r - r_EphemeralStorage res)\<rparr>)
                            (r_ScalarResources res),
                        ni_nonzeroRequest := z\<lparr>r_MilliCPU := i64 (r_MilliCPU z - non0CPU),
                                               r_Memory := i64 (r_Memory z - non0Mem)\<rparr>\<rparr>)))"

definition empty_node_info :: node_info where
  "empty_node_info = \<lparr>ni_node = None, ni_pods = [], ni_requestedResource = empty_resource,
     ni_nonzeroRequest = empty_resource, ni_allocatableResource = empty_resource\<rparr>"

definition NewNodeInfo :: "pods \<Rightarrow> pod_ptr list \<Rightarrow> node_info" where
  "NewNodeInfo ps pods = foldl (NodeInfo_AddPod ps) empty_node_info pods"

definition NodeInfo_SetNode :: "node_info \<Rightarrow> v1_node \<Rightarrow> node_info" where
  "NodeInfo_SetNode n node =
     n\<lparr>ni_node := Some node, ni_allocatableResource := NewResource (node_Allocatable node)\<rparr>"

text \<open>Clone copies every part; a copy of a value is the value.\<close>

definition NodeInfo_Clone :: "node_info \<Rightarrow> node_info" where
  "NodeInfo_Clone n = n"

section \<open>Totals\<close>

definition resource_ok :: "resource \<Rightarrow> bool" where
  "resource_ok r \<longleftrightarrow> distinct (map fst (r_ScalarResources r)) \<and> (\<forall>name. in64 (resource_get r name))"

definition pod_requests :: "v1_pod \<Rightarrow> resource" where
  "pod_requests pod = fst (calculateResource pod)"

lemma resource_ok_in64: "resource_ok r \<Longrightarrow> in64 (resource_get r name)"
  by (simp add: resource_ok_def)

lemma empty_resource_ok [simp]: "resource_ok empty_resource"
  by (simp add: resource_ok_def empty_resource_def resource_get_def scalar_def in64_def)

lemma resource_get_empty [simp]: "resource_get empty_resource name = 0"
  by (simp add: resource_get_def empty_resource_def scalar_def)

lemma Resource_Add_distinct:
  "distinct (map fst (r_ScalarResources r)) \<Longrightarrow> distinct (map fst (r_ScalarResources (Resource_Add r rl)))"
proof (induction r rl rule: Resource_Add.induct)
  case (2 r rName rQuant rl)
  have "distinct (map fst (r_ScalarResources (AddScalar r rName v)))" for v
    using "2.prems" by (simp add: AddScalar_def SetScalar_def distinct_update)
  with 2 show ?case by simp
qed simp

lemma Resource_Add_ok: "resource_ok r \<Longrightarrow> resource_ok (Resource_Add r rl)"
  using Resource_Add_distinct resource_get_Add by (simp add: resource_ok_def)

lemma calculateResource_loop_ok:
  "resource_ok (fst acc) \<Longrightarrow> in64 (fst (snd acc)) \<Longrightarrow> in64 (snd (snd acc)) \<Longrightarrow>
     resource_ok (fst (calculateResource_loop acc cs)) \<and> in64 (fst (snd (calculateResource_loop acc cs))) \<and>
     in64 (snd (snd (calculateResource_loop acc cs)))"
  by (induction acc cs rule: calculateResource_loop.induct)
    (auto simp: Resource_Add_ok split: prod.splits)

lemma pod_requests_ok: "resource_ok (pod_requests p)"
  using calculateResource_loop_ok [of "(empty_resource, 0, 0)" "pod_Containers p"]
  by (simp add: pod_requests_def calculateResource_def in64_def)

definition alist_get :: "(string \<times> int) list \<Rightarrow> string \<Rightarrow> int" where
  "alist_get qs name = (case map_of qs name of None \<Rightarrow> 0 | Some v \<Rightarrow> v)"

lemma scalar_alist_get: "scalar r = alist_get (r_ScalarResources r)"
  by (simp add: fun_eq_iff scalar_def alist_get_def)

lemma alist_get_simps [simp]:
  "alist_get [] name = 0"
  "alist_get ((k, v) # qs) name = (if name = k then v else alist_get qs name)"
  by (simp_all add: alist_get_def)

lemma alist_get_notin: "name \<notin> fst ` set qs \<Longrightarrow> alist_get qs name = 0"
  by (simp add: alist_get_def map_of_eq_None_iff [THEN iffD2])

lemma i64_i64 [simp]: "i64 (i64 x) = i64 x"
  by (simp add: i64_id)

lemma scalar_addScalars:
  "distinct (map fst qs) \<Longrightarrow> in64 (scalar r name) \<Longrightarrow>
     scalar (addScalars r qs) name = i64 (scalar r name + alist_get qs name)"
proof (induction r qs rule: addScalars.induct)
  case (1 r)
  then show ?case by (simp add: i64_id)
next
  case (2 r k v qs)
  from "2.prems"(1) have "alist_get qs k = 0" by (simp add: alist_get_notin)
  with "2.IH" "2.prems" show ?case by (cases "name = k") simp_all
qed

lemma scalar_subScalars:
  "distinct (map fst qs) \<Longrightarrow> in64 (scalar r name) \<Longrightarrow>
     scalar (subScalars r qs) name = i64 (scalar r name - alist_get qs name)"
proof (induction r qs rule: subScalars.induct)
  case (1 r)
  then show ?case by (simp add: i64_id)
next
  case (2 r k v qs)
  from "2.prems"(1) have "alist_get qs k = 0" by (simp add: alist_get_notin)
  with "2.IH" "2.prems" show ?case by (cases "name = k") simp_all
qed

lemma addScalars_frame [simp]:
  "r_MilliCPU (addScalars r qs) = r_MilliCPU r" "r_Memory (addScalars r qs) = r_Memory r"
  "r_EphemeralStorage (addScalars r qs) = r_EphemeralStorage r"
  "r_AllowedPodNumber (addScalars r qs) = r_AllowedPodNumber r"
  by (induction r qs rule: addScalars.induct) simp_all

lemma subScalars_frame [simp]:
  "r_MilliCPU (subScalars r qs) = r_MilliCPU r" "r_Memory (subScalars r qs) = r_Memory r"
  "r_EphemeralStorage (subScalars r qs) = r_EphemeralStorage r"
  "r_AllowedPodNumber (subScalars r qs) = r_AllowedPodNumber r"
  by (induction r qs rule: subScalars.induct) simp_all

text \<open>What a pod or a node has requested of a resource; the number of pods is not counted there.\<close>

definition requested :: "resource \<Rightarrow> string \<Rightarrow> int" where
  "requested r name = (if name = pods_name then 0 else resource_get r name)"

lemma resource_get_cases:
  "resource_get r name = (if name = cpu then r_MilliCPU r else if name = memory then r_Memory r
     else if name = pods_name then r_AllowedPodNumber r
     else if name = ephemeral_storage then r_EphemeralStorage r
     else alist_get (r_ScalarResources r) name)"
  by (simp add: resource_get_def scalar_alist_get)

definition scalars_ok :: "resource \<Rightarrow> bool" where
  "scalars_ok r \<longleftrightarrow> in64 (r_MilliCPU r) \<and> in64 (r_Memory r) \<and> in64 (r_EphemeralStorage r) \<and>
     (\<forall>name. in64 (scalar r name))"

lemma requested_AddPod:
  assumes "scalars_ok (ni_requestedResource n)"
  shows "requested (ni_requestedResource (NodeInfo_AddPod ps n p)) name =
      i64 (requested (ni_requestedResource n) name + requested (pod_requests (ps p)) name)"
    "scalars_ok (ni_requestedResource (NodeInfo_AddPod ps n p))"
proof -
  obtain res c m where calc: "calculateResource (ps p) = (res, c, m)" by (cases "calculateResource (ps p)") auto
  then have res: "pod_requests (ps p) = res" by (simp add: pod_requests_def)
  then have dist: "distinct (map fst (r_ScalarResources res))"
    using pod_requests_ok [of "ps p"] by (simp add: resource_ok_def)
  have sc: "in64 (scalar (ni_requestedResource n) nm)" for nm using assms by (simp add: scalars_ok_def)
  note add = scalar_addScalars [OF dist, folded scalar_alist_get]
  show "scalars_ok (ni_requestedResource (NodeInfo_AddPod ps n p))"
    using sc by (simp add: NodeInfo_AddPod_def calc Let_def scalars_ok_def add)
  have "in64 0" by (simp add: in64_def)
  then show "requested (ni_requestedResource (NodeInfo_AddPod ps n p)) name =
      i64 (requested (ni_requestedResource n) name + requested (pod_requests (ps p)) name)"
    using sc
    by (simp add: NodeInfo_AddPod_def calc Let_def requested_def resource_get_def add res i64_id)
qed

text \<open>The node's totals are the sums over its pods.\<close>

definition ni_ok :: "pods \<Rightarrow> node_info \<Rightarrow> bool" where
  "ni_ok ps n \<longleftrightarrow> scalars_ok (ni_requestedResource n) \<and>
     (\<forall>name. requested (ni_requestedResource n) name =
        i64 (\<Sum>p\<leftarrow>ni_pods n. requested (pod_requests (ps p)) name))"

lemma ni_ok_AddPod: "ni_ok ps n \<Longrightarrow> ni_ok ps (NodeInfo_AddPod ps n p)"
proof -
  assume ok: "ni_ok ps n"
  have "ni_pods (NodeInfo_AddPod ps n p) = ni_pods n @ [p]"
    by (simp add: NodeInfo_AddPod_def Let_def split: prod.splits)
  then show ?thesis
    using ok requested_AddPod [of n ps p] by (simp add: ni_ok_def i64_add_left)
qed

lemma ni_ok_empty: "ni_ok ps empty_node_info"
  by (simp add: ni_ok_def empty_node_info_def scalars_ok_def requested_def scalar_alist_get)
    (simp add: empty_resource_def in64_def i64_id)

lemma ni_ok_fold: "ni_ok ps n \<Longrightarrow> ni_ok ps (foldl (NodeInfo_AddPod ps) n pods)"
  by (induction pods arbitrary: n) (simp_all add: ni_ok_AddPod)

lemma ni_pods_fold: "ni_pods (foldl (NodeInfo_AddPod ps) n pods) = ni_pods n @ pods"
proof (induction pods arbitrary: n)
  case (Cons p pods)
  have "ni_pods (NodeInfo_AddPod ps n p) = ni_pods n @ [p]"
    by (simp add: NodeInfo_AddPod_def Let_def split: prod.splits)
  with Cons show ?case by simp
qed simp

lemma ni_ok_NewNodeInfo: "ni_ok ps (NewNodeInfo ps pods)" "ni_pods (NewNodeInfo ps pods) = pods"
  by (simp_all add: NewNodeInfo_def ni_ok_fold ni_ok_empty ni_pods_fold)
    (simp add: empty_node_info_def)

lemma ni_ok_SetNode: "ni_ok ps n \<Longrightarrow> ni_ok ps (NodeInfo_SetNode n node)"
  by (simp add: ni_ok_def NodeInfo_SetNode_def)

section \<open>Removing a pod\<close>

lemma find_pod_Some:
  "find_pod ps k i pods = Some j \<Longrightarrow> k \<noteq> [] \<Longrightarrow>
     i \<le> j \<and> j - i < length pods \<and> pod_UID (ps (pods ! (j - i))) = k"
proof (induction ps k i pods rule: find_pod.induct)
  case (2 ps k1 i p rest)
  show ?case
  proof (cases "pod_UID (ps p) = k1")
    case True
    with 2 show ?thesis by (auto simp: GetPodKey_def)
  next
    case False
    with 2 have "Suc i \<le> j \<and> j - Suc i < length rest \<and> pod_UID (ps (rest ! (j - Suc i))) = k1"
      by (auto simp: GetPodKey_def split: if_splits)
    then show ?thesis by (cases "j - i") (auto simp: Suc_diff_le dest: arg_cong [of _ _ "\<lambda>x. x - 1"])
  qed
qed simp

lemma find_pod_None: "find_pod ps k i pods = None \<Longrightarrow> k \<noteq> [] \<Longrightarrow> \<forall>p \<in> set pods. pod_UID (ps p) \<noteq> k"
  by (induction ps k i pods rule: find_pod.induct) (auto simp: GetPodKey_def split: if_splits)

lemma swap_out_mset:
  assumes "i < length xs"
  shows "mset xs = add_mset (xs ! i) (mset (take (length xs - 1) (swap_out i xs)))"
proof -
  let ?n = "length xs - 1"
  have n: "?n < length xs" using assms by linarith
  have "list_eq": "swap_out i xs = take ?n (swap_out i xs) @ [xs ! ?n]"
  proof -
    have "length (swap_out i xs) = Suc ?n" using assms by (simp add: swap_out_def)
    moreover have "swap_out i xs ! ?n = xs ! ?n" using n by (cases "i = ?n") (simp_all add: swap_out_def)
    ultimately show ?thesis by (metis take_Suc_conv_app_nth lessI order_refl take_all)
  qed
  have "mset (swap_out i xs) = add_mset (xs ! ?n) (mset xs - {#xs ! i#})"
    using assms by (simp add: swap_out_def mset_update)
  with arg_cong [OF list_eq, of mset] have "mset (take ?n (swap_out i xs)) = mset xs - {#xs ! i#}" by simp
  then show ?thesis using assms by simp
qed

lemma requested_RemovePod:
  assumes "scalars_ok (ni_requestedResource n)" "NodeInfo_RemovePod ps n p = Inr n'"
  shows "requested (ni_requestedResource n') name =
      i64 (requested (ni_requestedResource n) name - requested (pod_requests (ps p)) name)"
    "scalars_ok (ni_requestedResource n')" "ni_node n' = ni_node n"
    "ni_allocatableResource n' = ni_allocatableResource n"
    "\<exists>q. pod_UID (ps q) = pod_UID (ps p) \<and> mset (ni_pods n) = add_mset q (mset (ni_pods n'))"
proof -
  obtain res c m where calc: "calculateResource (ps p) = (res, c, m)" by (cases "calculateResource (ps p)") auto
  then have res: "pod_requests (ps p) = res" by (simp add: pod_requests_def)
  then have dist: "distinct (map fst (r_ScalarResources res))"
    using pod_requests_ok [of "ps p"] by (simp add: resource_ok_def)
  have sc: "in64 (scalar (ni_requestedResource n) nm)" for nm using assms by (simp add: scalars_ok_def)
  note sub = scalar_subScalars [OF dist, folded scalar_alist_get]
  obtain i where uid: "pod_UID (ps p) \<noteq> []" and i: "find_pod ps (pod_UID (ps p)) 0 (ni_pods n) = Some i"
    and n': "ni_pods n' = take (length (ni_pods n) - 1) (swap_out i (ni_pods n))"
      "ni_requestedResource n' = subScalars ((ni_requestedResource n)
         \<lparr>r_MilliCPU := i64 (r_MilliCPU (ni_requestedResource n) - r_MilliCPU res),
          r_Memory := i64 (r_Memory (ni_requestedResource n) - r_Memory res),
          r_EphemeralStorage := i64 (r_EphemeralStorage (ni_requestedResource n) - r_EphemeralStorage res)\<rparr>)
         (r_ScalarResources res)"
      "ni_node n' = ni_node n" "ni_allocatableResource n' = ni_allocatableResource n"
    using assms(2)
    by (auto simp: NodeInfo_RemovePod_def GetPodKey_def calc Let_def split: if_splits option.splits)
  show "ni_node n' = ni_node n" "ni_allocatableResource n' = ni_allocatableResource n" by fact+
  show "scalars_ok (ni_requestedResource n')" using sc by (simp add: n' scalars_ok_def sub)
  show "requested (ni_requestedResource n') name =
      i64 (requested (ni_requestedResource n) name - requested (pod_requests (ps p)) name)"
    using sc by (simp add: n' requested_def resource_get_def sub res i64_id [of 0] in64_def [of 0])
  have "i < length (ni_pods n)" "pod_UID (ps (ni_pods n ! i)) = pod_UID (ps p)"
    using find_pod_Some [OF i uid] by simp_all
  with swap_out_mset [of i "ni_pods n"]
  show "\<exists>q. pod_UID (ps q) = pod_UID (ps p) \<and> mset (ni_pods n) = add_mset q (mset (ni_pods n'))"
    by (auto simp: n')
qed

text \<open>The pods of the node are told apart by their UIDs.\<close>

definition uids_ok :: "pods \<Rightarrow> pod_ptr set \<Rightarrow> bool" where
  "uids_ok ps P \<longleftrightarrow> inj_on (\<lambda>p. pod_UID (ps p)) P \<and> (\<forall>p \<in> P. pod_UID (ps p) \<noteq> [])"

lemma RemovePod_present:
  assumes "uids_ok ps (set (ni_pods n))" "p \<in> set (ni_pods n)"
  shows "\<exists>n'. NodeInfo_RemovePod ps n p = Inr n'"
proof -
  have uid: "pod_UID (ps p) \<noteq> []" using assms by (auto simp: uids_ok_def)
  then have "find_pod ps (pod_UID (ps p)) 0 (ni_pods n) \<noteq> None"
    using find_pod_None [of ps "pod_UID (ps p)" 0 "ni_pods n"] assms(2) by blast
  then show ?thesis using uid
    by (auto simp: NodeInfo_RemovePod_def GetPodKey_def Let_def split: prod.splits)
qed

lemma ni_ok_RemovePod:
  assumes ok: "ni_ok ps n" and uids: "uids_ok ps (set (ni_pods n))" and p: "p \<in> set (ni_pods n)"
    and rem: "NodeInfo_RemovePod ps n p = Inr n'"
  shows "ni_ok ps n'" "mset (ni_pods n) = add_mset p (mset (ni_pods n'))"
proof -
  note r = requested_RemovePod [OF _ rem]
  have sc: "scalars_ok (ni_requestedResource n)" using ok by (simp add: ni_ok_def)
  obtain q where q: "pod_UID (ps q) = pod_UID (ps p)" "mset (ni_pods n) = add_mset q (mset (ni_pods n'))"
    using r(5) [OF sc] by blast
  have "q \<in># mset (ni_pods n)" by (simp only: q(2)) simp
  then have "q \<in> set (ni_pods n)" by simp
  then have "q = p" using uids p q(1) by (auto simp: uids_ok_def dest: inj_onD)
  with q(2) show mset: "mset (ni_pods n) = add_mset p (mset (ni_pods n'))" by simp
  have "requested (ni_requestedResource n') name = i64 (\<Sum>x\<leftarrow>ni_pods n'. requested (pod_requests (ps x)) name)" for name
  proof -
    let ?f = "\<lambda>x. requested (pod_requests (ps x)) name"
    have "sum_list (map ?f (ni_pods n)) = ?f p + sum_list (map ?f (ni_pods n'))"
      using arg_cong [OF mset, of "\<lambda>M. \<Sum>x\<in>#M. ?f x"] by (simp add: sum_mset_sum_list flip: mset_map)
    moreover have "requested (ni_requestedResource n) name = i64 (sum_list (map ?f (ni_pods n)))"
      using ok by (simp add: ni_ok_def)
    ultimately show ?thesis using r(1) [OF sc] by (simp add: i64_diff_left)
  qed
  then show "ni_ok ps n'" using r(2) [OF sc] by (simp add: ni_ok_def)
qed

end
