(* ===== verification/SimNode.thy ===== *)
theory SimNode
  imports SimPod NodeInfo
begin

text \<open>
  pkg/node: a simulated node, a map from pod keys to the simulated pods bound to it. Simulated pods
  are shared by pointer between the node and the simulator, so they live in a heap: \<open>hp_pods\<close> the
  v1.Pod objects, \<open>hp_sims\<close> the simulated pods, allocated at \<open>hp_next\<close>.

  \<open>sims_ok\<close> is the invariant on the pods of a node: every pointer is allocated, the pods' keys are the
  map's keys, and deleted pods carry a timestamp; under it no operation panics.
\<close>

type_synonym sim_ptr = nat

record heap =
  hp_pods :: pods
  hp_sims :: "sim_ptr \<Rightarrow> sim_pod"
  hp_next :: sim_ptr

record sim_node =
  sn_v1 :: v1_node
  sn_pods :: "(string \<times> sim_ptr) list"

definition NewNode :: "v1_node \<Rightarrow> sim_node" where
  "NewNode node = \<lparr>sn_v1 = node, sn_pods = []\<rparr>"

definition node_using :: "heap \<Rightarrow> clock \<Rightarrow> sim_ptr \<Rightarrow> bool res" where
  "node_using h clk s = running_or_terminating (hp_pods h) clk (hp_sims h s)"

section \<open>Counts and totals\<close>

definition runningPodsNum :: "heap \<Rightarrow> clock \<Rightarrow> sim_node \<Rightarrow> int" where
  "runningPodsNum h clk node =
     int (length (filter (\<lambda>(_, s). IsRunning (hp_pods h) clk (hp_sims h s)) (sn_pods node)))"

definition terminatingPodsNum :: "heap \<Rightarrow> clock \<Rightarrow> sim_node \<Rightarrow> int res" where
  "terminatingPodsNum h clk node =
     fold_res (\<lambda>(_, s) num. res_bind (IsTerminating (hp_pods h) clk (hp_sims h s)) (\<lambda>b.
       Inr (if b then num + 1 else num))) (sn_pods node) 0"

definition bindingFailedPodsNum :: "heap \<Rightarrow> sim_node \<Rightarrow> int" where
  "bindingFailedPodsNum h node =
     int (length (filter (\<lambda>(_, s). HasFailedToStart (hp_sims h s)) (sn_pods node)))"

definition totalResourceRequest :: "heap \<Rightarrow> clock \<Rightarrow> sim_node \<Rightarrow> resource_list res" where
  "totalResourceRequest h clk node =
     fold_res (\<lambda>(_, s) acc. res_bind (node_using h clk s) (\<lambda>b.
       Inr (if b then ResourceListSum acc (TotalResourceRequests (hp_pods h) (hp_sims h s)) else acc)))
       (sn_pods node) []"

text \<open>Reading the usage of a pod changes the pod.\<close>

definition totalResourceUsage :: "io_env \<Rightarrow> clock \<Rightarrow> sim_node \<Rightarrow> heap \<Rightarrow> (heap \<times> resource_list) res" where
  "totalResourceUsage env clk node h =
     fold_res (\<lambda>(_, s) (h, acc). res_bind (node_using h clk s) (\<lambda>b.
       if b then
         res_bind (ResourceUsage env (hp_pods h) clk (hp_sims h s)) (\<lambda>(pod', usage).
           Inr (h\<lparr>hp_sims := (hp_sims h)(s := pod')\<rparr>, ResourceListSum acc usage))
       else Inr (h, acc)))
       (sn_pods node) (h, [])"

definition node_PodsNum :: "heap \<Rightarrow> clock \<Rightarrow> sim_node \<Rightarrow> int res" where
  "node_PodsNum h clk node =
     res_bind (terminatingPodsNum h clk node) (\<lambda>t. Inr (runningPodsNum h clk node + t))"

record node_metrics =
  nm_Allocatable :: resource_list
  nm_RunningPodsNum :: int
  nm_TerminatingPodsNum :: int
  nm_FailedPodsNum :: int
  nm_TotalResourceRequest :: resource_list
  nm_TotalResourceUsage :: resource_list
  nm_TotalResourceAllocation :: resource_list

definition Node_Metrics :: "io_env \<Rightarrow> clock \<Rightarrow> sim_node \<Rightarrow> heap \<Rightarrow> (heap \<times> node_metrics) res" where
  "Node_Metrics env clk node h =
     res_bind (terminatingPodsNum h clk node) (\<lambda>terminating.
     res_bind (totalResourceRequest h clk node) (\<lambda>request.
     res_bind (totalResourceUsage env clk node h) (\<lambda>(h', usage).
       Inr (h', \<lparr>nm_Allocatable = node_Allocatable (sn_v1 node),
                 nm_RunningPodsNum = runningPodsNum h clk node, nm_TerminatingPodsNum = terminating,
                 nm_FailedPodsNum = bindingFailedPodsNum h node, nm_TotalResourceRequest = request,
                 nm_TotalResourceUsage = usage, nm_TotalResourceAllocation = []\<rparr>))))"

section \<open>Binding, deleting, collecting\<close>

definition rl_Pods :: "resource_list \<Rightarrow> quantity" where
  "rl_Pods rl = (case map_of rl pods_name of None \<Rightarrow> zero_quantity | Some q \<Rightarrow> q)"

text \<open>The capacity check decides a status that the next line of the code overwrites.\<close>

definition BindPod ::
  "io_env \<Rightarrow> clock \<Rightarrow> pod_ptr \<Rightarrow> sim_node \<Rightarrow> heap \<Rightarrow> (sim_node \<times> heap \<times> sim_ptr) res" where
  "BindPod env clk pod node h =
     res_bind (PodKey (hp_pods h pod)) (\<lambda>key.
     res_bind (totalResourceRequest h clk node) (\<lambda>request.
       let newTotalReq = ResourceListSum request (PodTotalResourceRequests (hp_pods h pod));
           allocatable = node_Allocatable (sn_v1 node);
           podStatus = (if \<not> ResourceListGE allocatable newTotalReq \<or>
                           runningPodsNum h clk node \<ge> quantity_Value (rl_Pods allocatable)
                        then OverCapacity else Ok);
           podStatus = Ok
       in res_bind (NewPod env (hp_pods h) pod clk podStatus (node_Name (sn_v1 node))) (\<lambda>simPod.
          res_bind (BuildStatus (hp_pods h) clk simPod) (\<lambda>st.
            let s = hp_next h
            in Inr (node\<lparr>sn_pods := AList.update key s (sn_pods node)\<rparr>,
                    h\<lparr>hp_pods := set_status (hp_pods h) pod st, hp_sims := (hp_sims h)(s := simPod),
                      hp_next := Suc s\<rparr>, s)))))"

definition Node_DeletePod :: "clock \<Rightarrow> string \<Rightarrow> string \<Rightarrow> sim_node \<Rightarrow> heap \<Rightarrow> heap \<times> bool" where
  "Node_DeletePod clk podNamespace podName node h =
     (case map_of (sn_pods node) (PodKeyFromNames podNamespace podName) of
        None \<Rightarrow> (h, False)
      | Some s \<Rightarrow>
          (case sim_Delete (hp_pods h) clk (hp_sims h s) of
             (ps', pod') \<Rightarrow> (h\<lparr>hp_pods := ps', hp_sims := (hp_sims h)(s := pod')\<rparr>, True)))"

definition Node_Pod :: "sim_node \<Rightarrow> string \<Rightarrow> string \<Rightarrow> sim_ptr option" where
  "Node_Pod node namespace name = map_of (sn_pods node) (PodKeyFromNames namespace name)"

definition Node_PodList :: "sim_node \<Rightarrow> sim_ptr list" where
  "Node_PodList node = map snd (sn_pods node)"

definition GCTerminatedPods :: "heap \<Rightarrow> clock \<Rightarrow> sim_node \<Rightarrow> sim_node res" where
  "GCTerminatedPods h clk node =
     fold_res (\<lambda>(name, s) node.
       res_bind (if IsTerminated (hp_pods h) clk (hp_sims h s) then Inr True
                 else IsDeleted (hp_pods h) clk (hp_sims h s)) (\<lambda>gone.
         Inr (if gone then node\<lparr>sn_pods := AList.delete name (sn_pods node)\<rparr> else node)))
       (sn_pods node) node"

section \<open>The scheduler's view\<close>

definition runningAndTerminatingPodsV1WithStatus ::
  "clock \<Rightarrow> sim_node \<Rightarrow> heap \<Rightarrow> (heap \<times> pod_ptr list) res" where
  "runningAndTerminatingPodsV1WithStatus clk node h =
     fold_res (\<lambda>(_, s) (h, podList). res_bind (node_using h clk s) (\<lambda>b.
       if b then
         res_bind (BuildStatus (hp_pods h) clk (hp_sims h s)) (\<lambda>st.
           let podV1 = sp_v1 (hp_sims h s)
           in Inr (h\<lparr>hp_pods := set_status (hp_pods h) podV1 st\<rparr>, podList @ [podV1]))
       else Inr (h, podList)))
       (sn_pods node) (h, [])"

definition ToNodeInfo :: "clock \<Rightarrow> sim_node \<Rightarrow> heap \<Rightarrow> (heap \<times> node_info) res" where
  "ToNodeInfo clk node h =
     res_bind (runningAndTerminatingPodsV1WithStatus clk node h) (\<lambda>(h', podList).
       Inr (h', NodeInfo_SetNode (NewNodeInfo (hp_pods h') podList) (sn_v1 node)))"

section \<open>The invariant\<close>

definition sim_ok :: "heap \<Rightarrow> string \<Rightarrow> sim_ptr \<Rightarrow> bool" where
  "sim_ok h key s \<longleftrightarrow> s < hp_next h \<and> deletion_ok (hp_pods h) (hp_sims h s) \<and>
     PodKey (hp_pods h (sp_v1 (hp_sims h s))) = Inr key"

definition sims_ok :: "heap \<Rightarrow> sim_node \<Rightarrow> bool" where
  "sims_ok h node \<longleftrightarrow> distinct (map fst (sn_pods node)) \<and> (\<forall>(key, s) \<in> set (sn_pods node). sim_ok h key s)"

definition uses :: "heap \<Rightarrow> clock \<Rightarrow> sim_ptr \<Rightarrow> bool" where
  "uses h clk s \<longleftrightarrow> node_using h clk s = Inr True"

definition gone :: "heap \<Rightarrow> clock \<Rightarrow> sim_ptr \<Rightarrow> bool" where
  "gone h clk s \<longleftrightarrow> IsTerminated (hp_pods h) clk (hp_sims h s) \<or> IsDeleted (hp_pods h) clk (hp_sims h s) = Inr True"

lemma sims_okD: "sims_ok h node \<Longrightarrow> (key, s) \<in> set (sn_pods node) \<Longrightarrow> sim_ok h key s"
  by (auto simp: sims_ok_def)

lemma sims_ok_NewNode [simp]: "sims_ok h (NewNode v1)"
  by (simp add: sims_ok_def NewNode_def)

lemma node_using_uses: "sim_ok h key s \<Longrightarrow> node_using h clk s = Inr (uses h clk s)"
  using running_or_terminating_ok [of "hp_pods h" "hp_sims h s" clk]
  by (auto simp: sim_ok_def uses_def node_using_def)

lemma IsDeleted_ok: "deletion_ok ps pod \<Longrightarrow> \<exists>b. IsDeleted ps clk pod = Inr b"
  by (auto simp: IsDeleted_def deletion_ok_def deletion_timestamp_def)

lemma IsTerminating_ok: "deletion_ok ps pod \<Longrightarrow> \<exists>b. IsTerminating ps clk pod = Inr b"
  by (auto simp: IsTerminating_def IsDeleted_def deletion_ok_def deletion_timestamp_def)

lemma terminatingPodsNum_eq:
  assumes "sims_ok h node"
  shows "terminatingPodsNum h clk node = Inr (int (length
    (filter (\<lambda>(_, s). IsTerminating (hp_pods h) clk (hp_sims h s) = Inr True) (sn_pods node))))"
proof -
  have "fold_res (\<lambda>(_, s) num. res_bind (IsTerminating (hp_pods h) clk (hp_sims h s)) (\<lambda>b.
       Inr (if b then num + 1 else num))) xs n =
     Inr (n + int (length (filter (\<lambda>(_, s). IsTerminating (hp_pods h) clk (hp_sims h s) = Inr True) xs)))"
    if "\<forall>(key, s) \<in> set xs. deletion_ok (hp_pods h) (hp_sims h s)" for xs n
    using that
  proof (induction xs arbitrary: n)
    case (Cons x xs)
    obtain key s where x: "x = (key, s)" by force
    with Cons.prems obtain b where "IsTerminating (hp_pods h) clk (hp_sims h s) = Inr b"
      using IsTerminating_ok [of "hp_pods h" "hp_sims h s" clk] by auto
    with Cons x show ?case by (cases b) simp_all
  qed simp
  from this [of "sn_pods node" 0] show ?thesis
    using assms by (auto simp: terminatingPodsNum_def sims_ok_def sim_ok_def)
qed

section \<open>Requests\<close>

definition pod_request :: "heap \<Rightarrow> sim_ptr \<Rightarrow> resource_list" where
  "pod_request h s = TotalResourceRequests (hp_pods h) (hp_sims h s)"

definition requests_ok :: "heap \<Rightarrow> sim_node \<Rightarrow> bool" where
  "requests_ok h node \<longleftrightarrow>
     (\<forall>(key, s) \<in> set (sn_pods node). containers_ok (pod_Containers (hp_pods h (sp_v1 (hp_sims h s)))))"

lemma totalResourceRequest_eq:
  assumes "sims_ok h node"
  shows "totalResourceRequest h clk node =
    Inr (foldl ResourceListSum [] (map (pod_request h) (filter (uses h clk) (map snd (sn_pods node)))))"
proof -
  have "fold_res (\<lambda>(_, s) acc. res_bind (node_using h clk s) (\<lambda>b.
       Inr (if b then ResourceListSum acc (TotalResourceRequests (hp_pods h) (hp_sims h s)) else acc))) xs acc =
     Inr (foldl ResourceListSum acc (map (pod_request h) (filter (uses h clk) (map snd xs))))"
    if "\<forall>(key, s) \<in> set xs. sim_ok h key s" for xs acc
    using that
  proof (induction xs arbitrary: acc)
    case (Cons x xs)
    obtain key s where x: "x = (key, s)" by force
    with Cons show ?case by (simp add: node_using_uses [of h key] pod_request_def)
  qed simp
  then show ?thesis using assms by (simp add: totalResourceRequest_def sims_ok_def)
qed

lemma foldl_ResourceListSum_spec:
  "rl_ok acc \<Longrightarrow> \<forall>rl \<in> set rls. rl_ok rl \<Longrightarrow>
     rl_ok (foldl ResourceListSum acc rls) \<and>
     rl_val (foldl ResourceListSum acc rls) k = rl_val acc k + (\<Sum>rl\<leftarrow>rls. rl_val rl k)"
proof (induction rls arbitrary: acc)
  case (Cons rl rls)
  with Cons.IH [of "ResourceListSum acc rl"] ResourceListSum_spec [of acc rl k] show ?case by simp
qed simp

lemma totalResourceRequest_spec:
  assumes "sims_ok h node" "requests_ok h node"
  obtains rl where "totalResourceRequest h clk node = Inr rl" "rl_ok rl"
    "\<And>k. rl_val rl k = (\<Sum>s\<leftarrow>filter (uses h clk) (map snd (sn_pods node)). rl_val (pod_request h s) k)"
proof -
  let ?ss = "filter (uses h clk) (map snd (sn_pods node))"
  let ?rls = "map (pod_request h) ?ss"
  have ok: "\<forall>rl \<in> set ?rls. rl_ok rl"
    using assms(2) PodTotalResourceRequests_spec
    by (fastforce simp: requests_ok_def pod_request_def TotalResourceRequests_def)
  show thesis
  proof (rule that)
    show "totalResourceRequest h clk node = Inr (foldl ResourceListSum [] ?rls)"
      by (rule totalResourceRequest_eq [OF assms(1)])
    show "rl_ok (foldl ResourceListSum [] ?rls)" using foldl_ResourceListSum_spec [OF rl_ok_Nil ok] by blast
    show "rl_val (foldl ResourceListSum [] ?rls) k = (\<Sum>s\<leftarrow>?ss. rl_val (pod_request h s) k)" for k
      using foldl_ResourceListSum_spec [OF rl_ok_Nil ok, of k] by (simp add: rl_val_def comp_def)
  qed
qed

section \<open>Garbage collection\<close>

lemma GC_fold:
  "\<forall>(key, s) \<in> set xs. sim_ok h key s \<Longrightarrow>
   fold_res (\<lambda>(name, s) node.
       res_bind (if IsTerminated (hp_pods h) clk (hp_sims h s) then Inr True
                 else IsDeleted (hp_pods h) clk (hp_sims h s)) (\<lambda>gone.
         Inr (if gone then node\<lparr>sn_pods := AList.delete name (sn_pods node)\<rparr> else node))) xs node =
     Inr (node\<lparr>sn_pods := filter (\<lambda>(k, s). k \<notin> fst ` {x \<in> set xs. gone h clk (snd x)}) (sn_pods node)\<rparr>)"
proof (induction xs arbitrary: node)
  case (Cons x xs)
  obtain key s where x: "x = (key, s)" by force
  with Cons.prems have "deletion_ok (hp_pods h) (hp_sims h s)" by (simp add: sim_ok_def)
  then obtain b where b: "IsDeleted (hp_pods h) clk (hp_sims h s) = Inr b" using IsDeleted_ok by blast
  let ?g = "gone h clk s"
  have step: "res_bind (if IsTerminated (hp_pods h) clk (hp_sims h s) then Inr True
                 else IsDeleted (hp_pods h) clk (hp_sims h s)) (\<lambda>gone.
         Inr (if gone then node\<lparr>sn_pods := AList.delete key (sn_pods node)\<rparr> else node)) =
       Inr (if ?g then node\<lparr>sn_pods := AList.delete key (sn_pods node)\<rparr> else node)"
    by (simp add: gone_def b)
  have "filter (\<lambda>(k, s). k \<notin> fst ` {x \<in> set xs. gone h clk (snd x)})
      (if ?g then AList.delete key (sn_pods node) else sn_pods node) =
    filter (\<lambda>(k, s). k \<notin> fst ` {y \<in> set (x # xs). gone h clk (snd y)}) (sn_pods node)"
  proof (cases ?g)
    case True
    then have "{y \<in> set (x # xs). gone h clk (snd y)} = insert x {y \<in> set xs. gone h clk (snd y)}"
      by (auto simp: x)
    then have "fst ` {y \<in> set (x # xs). gone h clk (snd y)} = insert key (fst ` {x \<in> set xs. gone h clk (snd x)})"
      by (simp add: x)
    with True show ?thesis by (auto simp: AList.delete_eq intro!: filter_cong)
  next
    case False
    then have "{y \<in> set (x # xs). gone h clk (snd y)} = {x \<in> set xs. gone h clk (snd x)}" by (auto simp: x)
    with False show ?thesis by simp
  qed
  with Cons step show ?case by (cases ?g) (simp_all add: x)
qed simp

lemma GCTerminatedPods_eq:
  assumes "sims_ok h node"
  shows "GCTerminatedPods h clk node =
    Inr (node\<lparr>sn_pods := filter (\<lambda>(_, s). \<not> gone h clk s) (sn_pods node)\<rparr>)"
proof -
  have dist: "distinct (map fst (sn_pods node))" using assms by (simp add: sims_ok_def)
  have "filter (\<lambda>(k, s). k \<notin> fst ` {x \<in> set (sn_pods node). gone h clk (snd x)}) (sn_pods node)
      = filter (\<lambda>(_, s). \<not> gone h clk s) (sn_pods node)"
  proof (rule filter_cong [OF refl], clarify)
    fix k s
    assume ks: "(k, s) \<in> set (sn_pods node)"
    have "k \<in> fst ` {x \<in> set (sn_pods node). gone h clk (snd x)} \<longleftrightarrow> gone h clk s"
    proof
      assume "k \<in> fst ` {x \<in> set (sn_pods node). gone h clk (snd x)}"
      then obtain s' where "(k, s') \<in> set (sn_pods node)" "gone h clk s'" by auto
      moreover from this ks have "s' = s" using eq_key_imp_eq_value [OF dist] by blast
      ultimately show "gone h clk s" by simp
    next
      assume "gone h clk s"
      with ks have "(k, s) \<in> {x \<in> set (sn_pods node). gone h clk (snd x)}" by simp
      then show "k \<in> fst ` {x \<in> set (sn_pods node). gone h clk (snd x)}" by (metis fst_conv imageI)
    qed
    then show "(k \<notin> fst ` {x \<in> set (sn_pods node). gone h clk (snd x)}) = (\<not> gone h clk s)" by simp
  qed
  then show ?thesis
    using GC_fold [of "sn_pods node" h clk node] assms by (simp add: GCTerminatedPods_def sims_ok_def)
qed

section \<open>Growing heaps\<close>

text \<open>
  Every operation extends the heap: no simulated pod disappears or changes its v1.Pod, no v1.Pod changes
  but in what the simulator writes, and deletion timestamps stay.
\<close>

definition heap_le :: "heap \<Rightarrow> heap \<Rightarrow> bool" where
  "heap_le h h' \<longleftrightarrow> hp_next h \<le> hp_next h' \<and> same_static (hp_pods h) (hp_pods h') \<and>
     (\<forall>s < hp_next h. sp_v1 (hp_sims h' s) = sp_v1 (hp_sims h s) \<and>
        (deletion_ok (hp_pods h) (hp_sims h s) \<longrightarrow> deletion_ok (hp_pods h') (hp_sims h' s)))"

lemma heap_le_refl [simp]: "heap_le h h"
  by (simp add: heap_le_def)

lemma heap_le_trans [trans]: "heap_le a b \<Longrightarrow> heap_le b c \<Longrightarrow> heap_le a c"
  unfolding heap_le_def using same_static_trans by (metis order_less_le_trans order_trans)

lemma sim_ok_mono: "sim_ok h key s \<Longrightarrow> heap_le h h' \<Longrightarrow> sim_ok h' key s"
  using PodKey_static [of "hp_pods h" "hp_pods h'"] by (auto simp: sim_ok_def heap_le_def)

lemma sims_ok_mono: "sims_ok h node \<Longrightarrow> heap_le h h' \<Longrightarrow> sims_ok h' node"
  using sim_ok_mono by (fastforce simp: sims_ok_def)

text \<open>Writing statuses changes nothing a node looks at.\<close>

definition same_but_status :: "heap \<Rightarrow> heap \<Rightarrow> bool" where
  "same_but_status h h' \<longleftrightarrow> hp_sims h' = hp_sims h \<and> hp_next h' = hp_next h \<and>
     (\<forall>p. (hp_pods h p)\<lparr>pod_Status := empty_status\<rparr> = (hp_pods h' p)\<lparr>pod_Status := empty_status\<rparr>)"

lemma same_but_status_refl [simp]: "same_but_status h h"
  by (simp add: same_but_status_def)

lemma same_but_status_trans: "same_but_status a b \<Longrightarrow> same_but_status b c \<Longrightarrow> same_but_status a c"
  by (simp add: same_but_status_def)

lemma same_but_status_set [simp]: "same_but_status h (h\<lparr>hp_pods := set_status (hp_pods h) p st\<rparr>)"
  by (simp add: same_but_status_def set_status_def)

lemma same_but_status_fields:
  assumes "same_but_status h h'"
  shows "pod_DeletionTimestamp (hp_pods h' p) = pod_DeletionTimestamp (hp_pods h p)"
    "pod_GracePeriod (hp_pods h' p) = pod_GracePeriod (hp_pods h p)"
    "pod_Containers (hp_pods h' p) = pod_Containers (hp_pods h p)"
    "pod_UID (hp_pods h' p) = pod_UID (hp_pods h p)"
    "pod_static (hp_pods h' p) = pod_static (hp_pods h p)"
proof -
  have eq: "(hp_pods h p)\<lparr>pod_Status := empty_status\<rparr> = (hp_pods h' p)\<lparr>pod_Status := empty_status\<rparr>"
    using assms by (simp add: same_but_status_def)
  show "pod_DeletionTimestamp (hp_pods h' p) = pod_DeletionTimestamp (hp_pods h p)"
    "pod_GracePeriod (hp_pods h' p) = pod_GracePeriod (hp_pods h p)"
    "pod_Containers (hp_pods h' p) = pod_Containers (hp_pods h p)"
    "pod_UID (hp_pods h' p) = pod_UID (hp_pods h p)"
    "pod_static (hp_pods h' p) = pod_static (hp_pods h p)"
    using arg_cong [OF eq, of pod_DeletionTimestamp] arg_cong [OF eq, of pod_GracePeriod]
      arg_cong [OF eq, of pod_Containers] arg_cong [OF eq, of pod_UID] arg_cong [OF eq, of pod_static]
    by (simp_all add: pod_static_def)
qed

lemma same_but_status_le:
  assumes "same_but_status h h'"
  shows "heap_le h h'"
proof -
  have "hp_sims h' = hp_sims h" "hp_next h' = hp_next h" using assms by (simp_all add: same_but_status_def)
  then show ?thesis
    by (simp add: heap_le_def same_static_def deletion_ok_def same_but_status_fields [OF assms])
qed

lemma same_but_status_uses:
  assumes "same_but_status h h'"
  shows "uses h' clk s = uses h clk s" "IsRunning (hp_pods h') clk (hp_sims h' s) = IsRunning (hp_pods h) clk (hp_sims h s)"
    "gone h' clk s = gone h clk s"
proof -
  note simps = deletion_timestamp_def grace_period_def same_but_status_fields [OF assms]
  have sims: "hp_sims h' = hp_sims h" using assms by (simp add: same_but_status_def)
  have d: "deletion_timestamp (hp_pods h') pod = deletion_timestamp (hp_pods h) pod" for pod
    by (simp add: simps)
  have x: "executedDuration (hp_pods h') clk pod = executedDuration (hp_pods h) clk pod" for pod
    by (simp add: executedDuration_def d cong: status.case_cong)
  have i: "IsDeleted (hp_pods h') clk pod = IsDeleted (hp_pods h) clk pod" for pod
    unfolding IsDeleted_def d by (simp add: simps)
  show run: "IsRunning (hp_pods h') clk (hp_sims h' s) = IsRunning (hp_pods h) clk (hp_sims h s)"
    by (simp add: IsRunning_def x sims)
  show "uses h' clk s = uses h clk s"
    using run by (simp add: uses_def node_using_def running_or_terminating_def IsTerminating_def i sims)
  show "gone h' clk s = gone h clk s" by (simp add: gone_def IsTerminated_def x i sims)
qed

section \<open>The scheduler's view of a node\<close>

definition using_pods :: "heap \<Rightarrow> clock \<Rightarrow> sim_node \<Rightarrow> pod_ptr list" where
  "using_pods h clk node = map (\<lambda>s. sp_v1 (hp_sims h s)) (filter (uses h clk) (map snd (sn_pods node)))"

lemma BuildStatus_uses:
  assumes "sim_ok h key s" "uses h clk s"
  shows "\<exists>st. BuildStatus (hp_pods h) clk (hp_sims h s) = Inr st \<and> ps_Phase st = PodRunning"
proof -
  have rt: "running_or_terminating (hp_pods h) clk (hp_sims h s) = Inr True"
    using assms(2) by (simp add: uses_def node_using_def)
  then have "sp_status (hp_sims h s) \<noteq> OverCapacity"
    by (auto simp: running_or_terminating_def IsRunning_def IsTerminating_def)
  then show ?thesis
    by (simp add: BuildStatus_def rt Let_def UpdatePodCondition_def split: option.splits)
qed

lemma V1WithStatus_loop:
  "\<forall>(key, s) \<in> set xs. sim_ok h key s \<Longrightarrow> \<forall>p \<in> set acc. ps_Phase (pod_Status (hp_pods h p)) = PodRunning \<Longrightarrow>
   \<exists>h'. fold_res (\<lambda>(_, s) (h, podList). res_bind (node_using h clk s) (\<lambda>b.
       if b then
         res_bind (BuildStatus (hp_pods h) clk (hp_sims h s)) (\<lambda>st.
           let podV1 = sp_v1 (hp_sims h s)
           in Inr (h\<lparr>hp_pods := set_status (hp_pods h) podV1 st\<rparr>, podList @ [podV1]))
       else Inr (h, podList))) xs (h, acc) =
     Inr (h', acc @ map (\<lambda>s. sp_v1 (hp_sims h s)) (filter (uses h clk) (map snd xs))) \<and>
   same_but_status h h' \<and>
   (\<forall>p \<in> set acc \<union> (\<lambda>s. sp_v1 (hp_sims h s)) ` {s \<in> snd ` set xs. uses h clk s}.
      ps_Phase (pod_Status (hp_pods h' p)) = PodRunning) \<and>
   (\<forall>p. p \<notin> (\<lambda>s. sp_v1 (hp_sims h s)) ` {s \<in> snd ` set xs. uses h clk s} \<longrightarrow> hp_pods h' p = hp_pods h p)"
proof (induction xs arbitrary: h acc)
  case Nil
  then show ?case by (intro exI [of _ h]) simp
next
  case (Cons x xs)
  obtain key s where x: "x = (key, s)" by force
  have ok: "sim_ok h key s" and oks: "\<forall>(key, s) \<in> set xs. sim_ok h key s" using Cons.prems x by auto
  show ?case
  proof (cases "uses h clk s")
    case False
    have "{y \<in> snd ` set (x # xs). uses h clk y} = {y \<in> snd ` set xs. uses h clk y}"
      using False by (auto simp: x)
    with Cons.IH [OF oks Cons.prems(2)] False show ?thesis
      by (simp add: x node_using_uses [OF ok])
  next
    case True
    let ?p = "sp_v1 (hp_sims h s)"
    obtain st where st: "BuildStatus (hp_pods h) clk (hp_sims h s) = Inr st" "ps_Phase st = PodRunning"
      using BuildStatus_uses [OF ok True] by blast
    define h1 where "h1 = h\<lparr>hp_pods := set_status (hp_pods h) ?p st\<rparr>"
    have h1: "same_but_status h h1" "hp_sims h1 = hp_sims h" by (simp_all add: h1_def)
    have u: "uses h1 clk = uses h clk" using same_but_status_uses(1) [OF h1(1)] by blast
    have oks1: "\<forall>(key, s) \<in> set xs. sim_ok h1 key s"
      using oks sim_ok_mono [OF _ same_but_status_le [OF h1(1)]] by auto
    have "\<forall>p \<in> set (acc @ [?p]). ps_Phase (pod_Status (hp_pods h1 p)) = PodRunning"
      using Cons.prems(2) st(2) by (auto simp: h1_def set_status_def)
    from Cons.IH [OF oks1 this] obtain h' where h':
      "fold_res (\<lambda>(_, s) (h, podList). res_bind (node_using h clk s) (\<lambda>b.
       if b then
         res_bind (BuildStatus (hp_pods h) clk (hp_sims h s)) (\<lambda>st.
           let podV1 = sp_v1 (hp_sims h s)
           in Inr (h\<lparr>hp_pods := set_status (hp_pods h) podV1 st\<rparr>, podList @ [podV1]))
       else Inr (h, podList))) xs (h1, acc @ [?p]) =
       Inr (h', (acc @ [?p]) @ map (\<lambda>s. sp_v1 (hp_sims h s)) (filter (uses h clk) (map snd xs)))"
      "same_but_status h1 h'"
      "\<forall>p \<in> set (acc @ [?p]) \<union> (\<lambda>s. sp_v1 (hp_sims h s)) ` {s \<in> snd ` set xs. uses h clk s}.
         ps_Phase (pod_Status (hp_pods h' p)) = PodRunning"
      "\<forall>p. p \<notin> (\<lambda>s. sp_v1 (hp_sims h s)) ` {s \<in> snd ` set xs. uses h clk s} \<longrightarrow> hp_pods h' p = hp_pods h1 p"
      by (auto simp only: u h1(2))
    have img: "{y \<in> snd ` set (x # xs). uses h clk y} = insert s {y \<in> snd ` set xs. uses h clk y}"
      using True by (auto simp: x)
    have other: "q \<noteq> ?p \<Longrightarrow> hp_pods h1 q = hp_pods h q" for q by (simp add: h1_def set_status_def)
    show ?thesis
    proof (intro exI [of _ h'] conjI)
      show "same_but_status h h'" by (rule same_but_status_trans [OF h1(1) h'(2)])
      show "\<forall>p \<in> set acc \<union> (\<lambda>s. sp_v1 (hp_sims h s)) ` {y \<in> snd ` set (x # xs). uses h clk y}.
          ps_Phase (pod_Status (hp_pods h' p)) = PodRunning"
        using h'(3) by (simp only: img) simp
      show "\<forall>p. p \<notin> (\<lambda>s. sp_v1 (hp_sims h s)) ` {y \<in> snd ` set (x # xs). uses h clk y} \<longrightarrow>
          hp_pods h' p = hp_pods h p"
        using h'(4) other by (simp only: img) simp
    qed (use h'(1) True st(1) in \<open>simp add: x node_using_uses [OF ok] Let_def h1_def\<close>)
  qed
qed

lemma V1WithStatus_spec:
  assumes "sims_ok h node"
  shows "\<exists>h'. runningAndTerminatingPodsV1WithStatus clk node h = Inr (h', using_pods h clk node) \<and>
    same_but_status h h' \<and>
    (\<forall>p \<in> set (using_pods h clk node). ps_Phase (pod_Status (hp_pods h' p)) = PodRunning) \<and>
    (\<forall>p. p \<notin> set (using_pods h clk node) \<longrightarrow> hp_pods h' p = hp_pods h p)"
proof -
  have set_eq: "set (using_pods h clk node) =
      (\<lambda>s. sp_v1 (hp_sims h s)) ` {s \<in> snd ` set (sn_pods node). uses h clk s}"
    by (auto simp: using_pods_def)
  have "\<forall>(key, s) \<in> set (sn_pods node). sim_ok h key s" using assms by (simp add: sims_ok_def)
  from V1WithStatus_loop [OF this, of "[]"] show ?thesis
    unfolding runningAndTerminatingPodsV1WithStatus_def set_eq
    by (simp add: using_pods_def)
qed

lemma calculateResource_cong:
  "pod_Containers p = pod_Containers q \<Longrightarrow> pod_requests p = pod_requests q"
  by (simp add: pod_requests_def calculateResource_def)

lemma ToNodeInfo_spec:
  assumes "sims_ok h node"
  shows "\<exists>h' ni. ToNodeInfo clk node h = Inr (h', ni) \<and> same_but_status h h' \<and>
    ni_pods ni = using_pods h clk node \<and> ni_node ni = Some (sn_v1 node) \<and>
    ni_allocatableResource ni = NewResource (node_Allocatable (sn_v1 node)) \<and> ni_ok (hp_pods h') ni \<and>
    (\<forall>p \<in> set (ni_pods ni). ps_Phase (pod_Status (hp_pods h' p)) = PodRunning) \<and>
    (\<forall>p. p \<notin> set (ni_pods ni) \<longrightarrow> hp_pods h' p = hp_pods h p)"
proof -
  obtain h' where h': "runningAndTerminatingPodsV1WithStatus clk node h = Inr (h', using_pods h clk node)"
    "same_but_status h h'" "\<forall>p \<in> set (using_pods h clk node). ps_Phase (pod_Status (hp_pods h' p)) = PodRunning"
    "\<forall>p. p \<notin> set (using_pods h clk node) \<longrightarrow> hp_pods h' p = hp_pods h p"
    using V1WithStatus_spec [OF assms] by blast
  show ?thesis
    by (intro exI [of _ h'] exI [of _ "NodeInfo_SetNode (NewNodeInfo (hp_pods h') (using_pods h clk node)) (sn_v1 node)"])
      (use h' in \<open>simp add: ToNodeInfo_def ni_ok_SetNode ni_ok_NewNodeInfo\<close>,
       simp add: NodeInfo_SetNode_def ni_ok_NewNodeInfo)
qed

end
