(* ===== verification/NodeProperties.thy ===== *)
theory NodeProperties
  imports SimNode PodProperties
begin

text \<open>
  What a simulated node guarantees: its invariant survives every operation, binding puts a fresh
  running pod in the map, garbage collection drops exactly the pods that are over, the totals are the
  sums over the pods using the node, and the scheduler sees exactly those.
\<close>

section \<open>Binding and deleting\<close>

lemma NewPod_fields:
  "NewPod env ps p boundAt st node = Inr pod \<Longrightarrow>
     sp_v1 pod = p \<and> sp_boundAt pod = boundAt \<and> sp_status pod = st \<and> sp_node pod = node \<and> sp_currentPhase pod = 0"
  by (auto simp: NewPod_def Let_def res_bind_Inr_iff split: if_splits prod.splits)

lemma BuildStatus_Ok: "sp_status pod = Ok \<Longrightarrow> \<exists>st. BuildStatus ps clk pod = Inr st"
  by (simp add: BuildStatus_def Let_def running_or_terminating_def IsTerminating_def split: if_splits)

lemma BindPod_cases:
  assumes "sims_ok h node"
  shows "BindPod env clk p node h =
    (case PodKey (hp_pods h p) of Inl e \<Rightarrow> Inl e
     | Inr key \<Rightarrow>
         (case NewPod env (hp_pods h) p clk Ok (node_Name (sn_v1 node)) of Inl e \<Rightarrow> Inl e
          | Inr pod \<Rightarrow>
              Inr (node\<lparr>sn_pods := AList.update key (hp_next h) (sn_pods node)\<rparr>,
                   h\<lparr>hp_pods := set_status (hp_pods h) p (projr (BuildStatus (hp_pods h) clk pod)),
                     hp_sims := (hp_sims h)(hp_next h := pod), hp_next := Suc (hp_next h)\<rparr>, hp_next h)))"
proof (cases "PodKey (hp_pods h p)")
  case (Inr key)
  show ?thesis
  proof (cases "NewPod env (hp_pods h) p clk Ok (node_Name (sn_v1 node))")
    case (Inr pod)
    then obtain st where "BuildStatus (hp_pods h) clk pod = Inr st" using NewPod_fields BuildStatus_Ok by blast
    with Inr \<open>PodKey _ = _\<close> show ?thesis
      by (simp add: BindPod_def totalResourceRequest_eq [OF assms] Let_def)
  qed (use Inr in \<open>simp add: BindPod_def totalResourceRequest_eq [OF assms] Let_def\<close>)
qed (simp add: BindPod_def)

lemma BindPod_Inr:
  assumes "sims_ok h node" "BindPod env clk p node h = Inr (node', h', s)"
  obtains key pod st where "PodKey (hp_pods h p) = Inr key"
    "NewPod env (hp_pods h) p clk Ok (node_Name (sn_v1 node)) = Inr pod" "s = hp_next h"
    "node' = node\<lparr>sn_pods := AList.update key s (sn_pods node)\<rparr>"
    "h' = h\<lparr>hp_pods := set_status (hp_pods h) p st, hp_sims := (hp_sims h)(s := pod), hp_next := Suc s\<rparr>"
  using assms(2) by (auto simp: BindPod_cases [OF assms(1)] split: sum.splits)

lemma BindPod_le:
  assumes "sims_ok h node" "BindPod env clk p node h = Inr (node', h', s)"
  shows "heap_le h h'"
  using BindPod_Inr [OF assms] by cases (auto simp: heap_le_def deletion_ok_def)

lemma BindPod_sims_ok:
  assumes ok: "sims_ok h node" and bind: "BindPod env clk p node h = Inr (node', h', s)"
  shows "sims_ok h' node'"
proof -
  obtain key pod st where b: "PodKey (hp_pods h p) = Inr key"
    "NewPod env (hp_pods h) p clk Ok (node_Name (sn_v1 node)) = Inr pod" "s = hp_next h"
    "node' = node\<lparr>sn_pods := AList.update key s (sn_pods node)\<rparr>"
    "h' = h\<lparr>hp_pods := set_status (hp_pods h) p st, hp_sims := (hp_sims h)(s := pod), hp_next := Suc s\<rparr>"
    by (rule BindPod_Inr [OF ok bind])
  have pod: "sp_v1 pod = p" "sp_status pod = Ok" using NewPod_fields [OF b(2)] by auto
  have old: "sims_ok h' node" by (rule sims_ok_mono [OF ok BindPod_le [OF ok bind]])
  have new: "sim_ok h' key s" using b(1) pod by (simp add: sim_ok_def b(5) deletion_ok_def)
  have "\<forall>(k, s) \<in> set (AList.update key s (sn_pods node)). sim_ok h' k s"
    by (rule ball_set_update) (use old new in \<open>auto simp: sims_ok_def\<close>)
  then show ?thesis using old by (simp add: sims_ok_def b(4) distinct_update)
qed

lemma sim_Delete_frame:
  "sim_Delete ps clk pod = (ps', pod') \<Longrightarrow>
     same_static ps ps' \<and> sp_v1 pod' = sp_v1 pod \<and>
     (\<forall>p. pod_DeletionTimestamp (ps p) \<noteq> None \<longrightarrow> pod_DeletionTimestamp (ps' p) \<noteq> None)"
  by (auto simp: sim_Delete_def same_static_def pod_static_def split: if_splits)

lemma Node_DeletePod_le:
  assumes "Node_DeletePod clk ns name node h = (h', found)"
  shows "heap_le h h'"
proof (cases "map_of (sn_pods node) (PodKeyFromNames ns name)")
  case (Some s)
  obtain ps' pod' where d: "sim_Delete (hp_pods h) clk (hp_sims h s) = (ps', pod')" by force
  with assms Some have "h' = h\<lparr>hp_pods := ps', hp_sims := (hp_sims h)(s := pod')\<rparr>"
    by (simp add: Node_DeletePod_def)
  with sim_Delete_frame [OF d] sim_Delete_ok [OF _ d] show ?thesis
    by (auto simp: heap_le_def deletion_ok_def)
qed (use assms in \<open>simp add: Node_DeletePod_def\<close>)

lemma GC_sims_ok: "sims_ok h node \<Longrightarrow> GCTerminatedPods h clk node = Inr node' \<Longrightarrow> sims_ok h node'"
proof -
  assume ok: "sims_ok h node" and gc: "GCTerminatedPods h clk node = Inr node'"
  then have "sn_pods node' = filter (\<lambda>(_, s). \<not> gone h clk s) (sn_pods node)"
    using GCTerminatedPods_eq [OF ok] by auto
  with ok show "sims_ok h node'" by (auto simp: sims_ok_def distinct_map_filter)
qed

section \<open>Usage\<close>

definition sims_ready :: "io_env \<Rightarrow> heap \<Rightarrow> clock \<Rightarrow> sim_node \<Rightarrow> bool" where
  "sims_ready env h t node \<longleftrightarrow>
     (\<forall>(key, s) \<in> set (sn_pods node). \<exists>F. pod_ready env F (hp_pods h) t (hp_sims h s))"

text \<open>Reading usages only advances the phases of pods.\<close>

definition usage_le :: "io_env \<Rightarrow> clock \<Rightarrow> heap \<Rightarrow> heap \<Rightarrow> bool" where
  "usage_le env t h h' \<longleftrightarrow> hp_pods h' = hp_pods h \<and> hp_next h' = hp_next h \<and>
     (\<forall>s. same_identity (hp_sims h s) (hp_sims h' s) \<and>
        (\<forall>F. pod_ready env F (hp_pods h) t (hp_sims h s) \<longrightarrow> pod_ready env F (hp_pods h) t (hp_sims h' s)))"

lemma usage_le_refl [simp]: "usage_le env t h h"
  by (simp add: usage_le_def same_identity_def)

lemma usage_le_le: "usage_le env t h h' \<Longrightarrow> heap_le h h'"
  by (auto simp: usage_le_def heap_le_def same_identity_def deletion_ok_def)

lemma usage_le_step:
  assumes "usage_le env t h h1" "pod_ready env F (hp_pods h) t (hp_sims h s)" "t \<le> clk"
  shows "\<exists>pod' u. ResourceUsage env (hp_pods h1) clk (hp_sims h1 s) = Inr (pod', u) \<and>
    usage_le env t h (h1\<lparr>hp_sims := (hp_sims h1)(s := pod')\<rparr>)"
proof -
  have ps: "hp_pods h1 = hp_pods h" using assms(1) by (simp add: usage_le_def)
  have "pod_ready env F (hp_pods h1) t (hp_sims h1 s)" using assms(1,2) by (simp add: usage_le_def)
  from ResourceUsage_ready [OF this assms(3)] obtain pod' u where
    r: "ResourceUsage env (hp_pods h1) clk (hp_sims h1 s) = Inr (pod', u)" "same_identity (hp_sims h1 s) pod'" .
  have keep: "pod_ready env G (hp_pods h1) t pod'" if "pod_ready env G (hp_pods h1) t (hp_sims h1 s)" for G
    using ResourceUsage_ready [OF that assms(3)] r(1) by auto
  show ?thesis
    using assms(1) r keep ps by (auto simp: usage_le_def same_identity_def)
qed

lemma totalResourceUsage_ok:
  assumes "sims_ok h node" "sims_ready env h t node" "t \<le> clk"
  shows "\<exists>h' usage. totalResourceUsage env clk node h = Inr (h', usage) \<and> usage_le env t h h'"
proof -
  have "\<exists>s'. totalResourceUsage env clk node h = Inr s' \<and> usage_le env t h (fst s')"
    unfolding totalResourceUsage_def
  proof (rule fold_res_ok [where P = "\<lambda>st. usage_le env t h (fst st)"], simp)
    fix x and st :: "heap \<times> resource_list"
    assume "x \<in> set (sn_pods node)" and le: "usage_le env t h (fst st)"
    obtain key s where x: "x = (key, s)" by (cases x)
    with \<open>x \<in> set (sn_pods node)\<close> have mem: "(key, s) \<in> set (sn_pods node)" by simp
    obtain h1 acc where st: "st = (h1, acc)" by force
    have le1: "usage_le env t h h1" using le st by simp
    have "sim_ok h1 key s" by (rule sim_ok_mono [OF sims_okD [OF assms(1) mem] usage_le_le [OF le1]])
    note using1 = node_using_uses [OF this, of clk]
    obtain F where "pod_ready env F (hp_pods h) t (hp_sims h s)" using assms(2) mem by (auto simp: sims_ready_def)
    from usage_le_step [OF le1 this assms(3)] obtain pod' u where
      "ResourceUsage env (hp_pods h1) clk (hp_sims h1 s) = Inr (pod', u)"
      "usage_le env t h (h1\<lparr>hp_sims := (hp_sims h1)(s := pod')\<rparr>)" by blast
    with using1 le1 show "\<exists>s'. (case x of (_, s) \<Rightarrow> \<lambda>(h, acc). res_bind (node_using h clk s) (\<lambda>b.
       if b then
         res_bind (ResourceUsage env (hp_pods h) clk (hp_sims h s)) (\<lambda>(pod', usage).
           Inr (h\<lparr>hp_sims := (hp_sims h)(s := pod')\<rparr>, ResourceListSum acc usage))
       else Inr (h, acc))) st = Inr s' \<and> usage_le env t h (fst s')"
      by (cases "uses h1 clk s") (simp_all add: x st)
  qed
  then show ?thesis by auto
qed

lemma Node_Metrics_ok:
  assumes "sims_ok h node" "sims_ready env h t node" "t \<le> clk"
  shows "\<exists>h' m. Node_Metrics env clk node h = Inr (h', m) \<and> usage_le env t h h'"
  using totalResourceUsage_ok [OF assms]
  by (auto simp: Node_Metrics_def terminatingPodsNum_eq [OF assms(1)] totalResourceRequest_eq [OF assms(1)])

section \<open>Properties\<close>

text \<open>
  C26: The invariant of a node (its map is keyed by the pods' keys, every pointer is allocated, deleted
  pods carry a timestamp) survives binding, deleting and collecting pods, of this or of another node
  sharing the heap, and building the scheduler's view; under it collection, deletion, the counts, the
  request total and the scheduler's view never panic.
\<close>

theorem node_invariant:
  assumes "sims_ok h node" "sims_ok h other"
  shows "(\<forall>env p node' h' s. BindPod env clk p node h = Inr (node', h', s) \<longrightarrow> sims_ok h' node' \<and> sims_ok h' other) \<and>
    (\<forall>ns name h' found. Node_DeletePod clk ns name node h = (h', found) \<longrightarrow> sims_ok h' node \<and> sims_ok h' other) \<and>
    (\<exists>node'. GCTerminatedPods h clk node = Inr node' \<and> sims_ok h node') \<and>
    (\<exists>h' ni. ToNodeInfo clk node h = Inr (h', ni) \<and> sims_ok h' node \<and> sims_ok h' other) \<and>
    (\<exists>n. node_PodsNum h clk node = Inr n) \<and> (\<exists>rl. totalResourceRequest h clk node = Inr rl)"
proof (intro conjI allI impI)
  show "\<exists>node'. GCTerminatedPods h clk node = Inr node' \<and> sims_ok h node'"
    using GCTerminatedPods_eq [OF assms(1)] GC_sims_ok [OF assms(1)] by blast
  show "\<exists>h' ni. ToNodeInfo clk node h = Inr (h', ni) \<and> sims_ok h' node \<and> sims_ok h' other"
    using ToNodeInfo_spec [OF assms(1)] same_but_status_le sims_ok_mono assms by meson
  show "\<exists>n. node_PodsNum h clk node = Inr n"
    by (simp add: node_PodsNum_def terminatingPodsNum_eq [OF assms(1)])
  show "\<exists>rl. totalResourceRequest h clk node = Inr rl" by (simp add: totalResourceRequest_eq [OF assms(1)])
next
  fix env p node' h' s
  assume bind: "BindPod env clk p node h = Inr (node', h', s)"
  show "sims_ok h' node'" by (rule BindPod_sims_ok [OF assms(1) bind])
  show "sims_ok h' other" by (rule sims_ok_mono [OF assms(2) BindPod_le [OF assms(1) bind]])
next
  fix ns name h' found
  assume "Node_DeletePod clk ns name node h = (h', found)"
  note le = Node_DeletePod_le [OF this]
  show "sims_ok h' node" by (rule sims_ok_mono [OF assms(1) le])
  show "sims_ok h' other" by (rule sims_ok_mono [OF assms(2) le])
qed

text \<open>
  Binding a pod with a valid key and readable phases always succeeds: the node gets a new simulated
  pod of status Ok under the pod's key, bound now and to this node, every other key keeps its pod; it
  fails only with the error of the key or of the phases. The node's capacity plays no part: whatever
  it can allocate, the outcome is the same, so a pod never fails to start.
\<close>

theorem bind_pod:
  assumes "sims_ok h node"
  shows "case BindPod env clk p node h of
      Inr (node', h', s) \<Rightarrow>
        \<exists>key. PodKey (hp_pods h p) = Inr key \<and> s = hp_next h \<and>
          map_of (sn_pods node') = (map_of (sn_pods node))(key \<mapsto> s) \<and> sn_v1 node' = sn_v1 node \<and>
          sp_v1 (hp_sims h' s) = p \<and> sp_boundAt (hp_sims h' s) = clk \<and> sp_status (hp_sims h' s) = Ok \<and>
          sp_node (hp_sims h' s) = node_Name (sn_v1 node) \<and> \<not> HasFailedToStart (hp_sims h' s) \<and>
          (\<forall>s' < hp_next h. hp_sims h' s' = hp_sims h s') \<and> (\<forall>q. q \<noteq> p \<longrightarrow> hp_pods h' q = hp_pods h q) \<and>
          (\<forall>rl. BindPod env clk p (node\<lparr>sn_v1 := (sn_v1 node)\<lparr>node_Allocatable := rl\<rparr>\<rparr>) h =
             Inr (node'\<lparr>sn_v1 := (sn_v1 node)\<lparr>node_Allocatable := rl\<rparr>\<rparr>, h', s))
    | Inl e \<Rightarrow>
        PodKey (hp_pods h p) = Inl e \<or>
        (\<exists>key. PodKey (hp_pods h p) = Inr key) \<and>
          NewPod env (hp_pods h) p clk Ok (node_Name (sn_v1 node)) = Inl e"
proof (cases "BindPod env clk p node h")
  case (Inl e)
  then show ?thesis by (auto simp: BindPod_cases [OF assms] split: sum.splits)
next
  case (Inr r)
  obtain node' h' s where r: "r = (node', h', s)" by (cases r)
  with Inr have bind: "BindPod env clk p node h = Inr (node', h', s)" by simp
  obtain key pod st where b: "PodKey (hp_pods h p) = Inr key"
    "NewPod env (hp_pods h) p clk Ok (node_Name (sn_v1 node)) = Inr pod" "s = hp_next h"
    "node' = node\<lparr>sn_pods := AList.update key s (sn_pods node)\<rparr>"
    "h' = h\<lparr>hp_pods := set_status (hp_pods h) p st, hp_sims := (hp_sims h)(s := pod), hp_next := Suc s\<rparr>"
    by (rule BindPod_Inr [OF assms bind])
  have "BindPod env clk p (node\<lparr>sn_v1 := (sn_v1 node)\<lparr>node_Allocatable := rl\<rparr>\<rparr>) h =
      Inr (node'\<lparr>sn_v1 := (sn_v1 node)\<lparr>node_Allocatable := rl\<rparr>\<rparr>, h', s)" for rl
  proof -
    have "sims_ok h (node\<lparr>sn_v1 := (sn_v1 node)\<lparr>node_Allocatable := rl\<rparr>\<rparr>)" using assms by (simp add: sims_ok_def)
    from BindPod_cases [OF this, of env clk p] bind show ?thesis
      by (simp add: BindPod_cases [OF assms] b(1,2)) auto
  qed
  with b NewPod_fields [OF b(2)] show ?thesis
    by (simp add: bind update_conv' set_status_def HasFailedToStart_def)
qed

text \<open>
  Collecting a node's garbage removes exactly the pods that are terminated or whose deletion has
  completed, although it deletes from the map it iterates over; running, terminating and failed pods
  keep their key.
\<close>

theorem gc_exact:
  assumes "sims_ok h node"
  shows "\<exists>node'. GCTerminatedPods h clk node = Inr node' \<and> sn_v1 node' = sn_v1 node \<and>
    (\<forall>key s. map_of (sn_pods node') key = Some s \<longleftrightarrow> map_of (sn_pods node) key = Some s \<and>
       \<not> IsTerminated (hp_pods h) clk (hp_sims h s) \<and> IsDeleted (hp_pods h) clk (hp_sims h s) = Inr False)"
proof -
  let ?node' = "node\<lparr>sn_pods := filter (\<lambda>(_, s). \<not> gone h clk s) (sn_pods node)\<rparr>"
  have dist: "distinct (map fst (sn_pods node))" "distinct (map fst (sn_pods ?node'))"
    using assms by (simp_all add: sims_ok_def distinct_map_filter)
  have iff: "\<not> gone h clk s \<longleftrightarrow> \<not> IsTerminated (hp_pods h) clk (hp_sims h s) \<and>
      IsDeleted (hp_pods h) clk (hp_sims h s) = Inr False" if mem: "(key, s) \<in> set (sn_pods node)" for key s
  proof -
    have "deletion_ok (hp_pods h) (hp_sims h s)" using sims_okD [OF assms mem] by (simp add: sim_ok_def)
    then obtain b where "IsDeleted (hp_pods h) clk (hp_sims h s) = Inr b" using IsDeleted_ok by blast
    then show ?thesis by (cases b) (simp_all add: gone_def)
  qed
  have "map_of (sn_pods ?node') key = Some s \<longleftrightarrow> map_of (sn_pods node) key = Some s \<and> \<not> gone h clk s" for key s
    using map_of_eq_Some_iff [OF dist(1)] map_of_eq_Some_iff [OF dist(2)] by simp
  moreover have "map_of (sn_pods node) key = Some s \<Longrightarrow> (key, s) \<in> set (sn_pods node)" for key s
    by (rule map_of_SomeD)
  ultimately have "map_of (sn_pods ?node') key = Some s \<longleftrightarrow> map_of (sn_pods node) key = Some s \<and>
       \<not> IsTerminated (hp_pods h) clk (hp_sims h s) \<and> IsDeleted (hp_pods h) clk (hp_sims h s) = Inr False" for key s
    using iff [of key s] by blast
  moreover have "sn_v1 ?node' = sn_v1 node" by simp
  ultimately show ?thesis using GCTerminatedPods_eq [OF assms, of clk] by blast
qed

text \<open>
  The resources a node reports as requested are, for every resource name, the sum of the requests of
  its running and terminating pods: pods that are over or failed do not count.
\<close>

theorem node_total_request:
  assumes "sims_ok h node" "requests_ok h node"
  shows "\<exists>rl. totalResourceRequest h clk node = Inr rl \<and> rl_ok rl \<and>
    (\<forall>name. rl_val rl name = (\<Sum>s\<leftarrow>filter (\<lambda>s. IsRunning (hp_pods h) clk (hp_sims h s) \<or>
         IsTerminating (hp_pods h) clk (hp_sims h s) = Inr True) (map snd (sn_pods node)).
       \<Sum>c\<leftarrow>pod_Containers (hp_pods h (sp_v1 (hp_sims h s))). rl_val (ct_Requests c) name))"
proof -
  have uses: "uses h clk s \<longleftrightarrow> IsRunning (hp_pods h) clk (hp_sims h s) \<or>
      IsTerminating (hp_pods h) clk (hp_sims h s) = Inr True" for s
    by (simp add: uses_def node_using_def running_or_terminating_def)
  obtain rl where rl: "totalResourceRequest h clk node = Inr rl" "rl_ok rl"
    "\<And>k. rl_val rl k = (\<Sum>s\<leftarrow>filter (uses h clk) (map snd (sn_pods node)). rl_val (pod_request h s) k)"
    by (rule totalResourceRequest_spec [OF assms, where clk = clk]) blast
  have "rl_val (pod_request h s) k =
      (\<Sum>c\<leftarrow>pod_Containers (hp_pods h (sp_v1 (hp_sims h s))). rl_val (ct_Requests c) k)"
    if "s \<in> set (filter (uses h clk) (map snd (sn_pods node)))" for s k
    using that assms(2) PodTotalResourceRequests_spec
    by (fastforce simp: pod_request_def TotalResourceRequests_def requests_ok_def)
  then have "rl_val rl k = (\<Sum>s\<leftarrow>filter (uses h clk) (map snd (sn_pods node)).
      \<Sum>c\<leftarrow>pod_Containers (hp_pods h (sp_v1 (hp_sims h s))). rl_val (ct_Requests c) k)" for k
    unfolding rl(3) by (intro arg_cong [of _ _ sum_list] map_cong) simp_all
  with rl(1,2) show ?thesis by (simp add: uses [abs_def])
qed

text \<open>
  C27: The NodeInfo the scheduler gets lists exactly the pods running or terminating on the node, each
  with phase Running in its refreshed status, leaves every other pod as it was, carries the node and
  its allocatable resources, and its requested totals are the sums over the listed pods, in int64.
\<close>

theorem scheduler_view:
  assumes "sims_ok h node"
  shows "\<exists>h' ni. ToNodeInfo clk node h = Inr (h', ni) \<and> ni_node ni = Some (sn_v1 node) \<and>
    ni_pods ni = map (\<lambda>s. sp_v1 (hp_sims h s)) (filter (\<lambda>s. IsRunning (hp_pods h) clk (hp_sims h s) \<or>
         IsTerminating (hp_pods h) clk (hp_sims h s) = Inr True) (map snd (sn_pods node))) \<and>
    ni_allocatableResource ni = NewResource (node_Allocatable (sn_v1 node)) \<and>
    (\<forall>name. requested (ni_requestedResource ni) name =
       i64 (\<Sum>p\<leftarrow>ni_pods ni. requested (pod_requests (hp_pods h p)) name)) \<and>
    (\<forall>p. if p \<in> set (ni_pods ni) then ps_Phase (pod_Status (hp_pods h' p)) = PodRunning
         else hp_pods h' p = hp_pods h p)"
proof -
  have uses: "uses h clk = (\<lambda>s. IsRunning (hp_pods h) clk (hp_sims h s) \<or>
      IsTerminating (hp_pods h) clk (hp_sims h s) = Inr True)"
    by (simp add: fun_eq_iff uses_def node_using_def running_or_terminating_def)
  obtain h' ni where r: "ToNodeInfo clk node h = Inr (h', ni)" "same_but_status h h'"
    "ni_pods ni = using_pods h clk node" "ni_node ni = Some (sn_v1 node)"
    "ni_allocatableResource ni = NewResource (node_Allocatable (sn_v1 node))" "ni_ok (hp_pods h') ni"
    "\<forall>p \<in> set (ni_pods ni). ps_Phase (pod_Status (hp_pods h' p)) = PodRunning"
    "\<forall>p. p \<notin> set (ni_pods ni) \<longrightarrow> hp_pods h' p = hp_pods h p"
    using ToNodeInfo_spec [OF assms] by blast
  have "pod_requests (hp_pods h' p) = pod_requests (hp_pods h p)" for p
    by (rule calculateResource_cong) (rule same_but_status_fields(3) [OF r(2)])
  with r(6) have "requested (ni_requestedResource ni) name =
      i64 (\<Sum>p\<leftarrow>ni_pods ni. requested (pod_requests (hp_pods h p)) name)" for name
    by (simp add: ni_ok_def)
  moreover have "ni_pods ni = map (\<lambda>s. sp_v1 (hp_sims h s)) (filter (\<lambda>s. IsRunning (hp_pods h) clk (hp_sims h s) \<or>
         IsTerminating (hp_pods h) clk (hp_sims h s) = Inr True) (map snd (sn_pods node)))"
    by (simp only: r(3) using_pods_def uses)
  moreover have "\<forall>p. if p \<in> set (ni_pods ni) then ps_Phase (pod_Status (hp_pods h' p)) = PodRunning
         else hp_pods h' p = hp_pods h p"
    using r(7,8) by simp
  ultimately show ?thesis using r(1,4,5) by blast
qed

section \<open>Witnesses\<close>

text \<open>A node of four cpus with a running pod of six phases, and a store where pod 1 is to be bound.\<close>

definition node_store :: pods where
  "node_store = (\<lambda>p. (file_store p)\<lparr>pod_Name := (if p = 0 then ''pod-0'' else ''pod-1''),
     pod_Containers := [\<lparr>ct_Name = ''main'', ct_Image = ''busybox'', ct_Requests = demo_rl 2, ct_Limits = []\<rparr>]\<rparr>)"

definition demo_heap :: heap where
  "demo_heap = \<lparr>hp_pods = node_store, hp_sims = (\<lambda>_. demo_sim_pod), hp_next = 1\<rparr>"

definition demo_node :: sim_node where
  "demo_node = \<lparr>sn_v1 = \<lparr>node_Name = ''node-0'', node_Allocatable = demo_rl 4\<rparr>, sn_pods = [(''default/pod-0'', 0)]\<rparr>"

lemma demo_node_ok: "sims_ok demo_heap demo_node"
proof -
  have "PodKey (node_store 0) = Inr ''default/pod-0''" by code_simp
  then show ?thesis
    by (simp add: sims_ok_def sim_ok_def demo_heap_def demo_node_def demo_sim_pod_def deletion_ok_def)
qed

lemma demo_NewNode_ok: "sims_ok demo_heap (NewNode v1)"
  by simp

theorem node_invariant_witness:
  "\<exists>h' ni. ToNodeInfo 7 demo_node demo_heap = Inr (h', ni) \<and> sims_ok h' demo_node"
  using node_invariant [OF demo_node_ok demo_NewNode_ok, of 7] by blast

text \<open>Two pods of two cpus each fit on the node; so does a third, although it asks for more than is left.\<close>

theorem bind_pod_witness:
  "\<exists>node' h' s. BindPod (demo_env 2) 5 1 (demo_node\<lparr>sn_v1 := \<lparr>node_Name = ''node-0'', node_Allocatable = demo_rl 3\<rparr>\<rparr>)
       demo_heap = Inr (node', h', s) \<and> sp_status (hp_sims h' s) = Ok"
proof -
  have key: "PodKey (hp_pods demo_heap 1) = Inr ''default/pod-1''" by code_simp
  have "case NewPod (demo_env 2) (hp_pods demo_heap) 1 5 Ok ''node-0'' of Inl _ \<Rightarrow> False | Inr _ \<Rightarrow> True" by code_simp
  then obtain pod where new: "NewPod (demo_env 2) (hp_pods demo_heap) 1 5 Ok ''node-0'' = Inr pod"
    by (cases "NewPod (demo_env 2) (hp_pods demo_heap) 1 5 Ok ''node-0''") auto
  let ?node = "demo_node\<lparr>sn_v1 := \<lparr>node_Name = ''node-0'', node_Allocatable = demo_rl 3\<rparr>\<rparr>"
  have "sims_ok demo_heap ?node" using demo_node_ok by (simp add: sims_ok_def)
  from bind_pod [OF this, where env = "demo_env 2" and clk = 5 and p = 1] key new show ?thesis
    by (cases "BindPod (demo_env 2) 5 1 ?node demo_heap") auto
qed

theorem gc_exact_witness:
  "\<exists>node'. GCTerminatedPods demo_heap (60 * second) demo_node = Inr node' \<and> map_of (sn_pods node') ''default/pod-0'' = None"
proof -
  have "IsTerminated (hp_pods demo_heap) (60 * second) (hp_sims demo_heap 0)" by code_simp
  moreover have "map_of (sn_pods demo_node) ''default/pod-0'' = Some 0" by (simp add: demo_node_def)
  moreover obtain node' where gc: "GCTerminatedPods demo_heap (60 * second) demo_node = Inr node'"
    "\<And>key s. map_of (sn_pods node') key = Some s \<longleftrightarrow> map_of (sn_pods demo_node) key = Some s \<and>
       \<not> IsTerminated (hp_pods demo_heap) (60 * second) (hp_sims demo_heap s) \<and>
       IsDeleted (hp_pods demo_heap) (60 * second) (hp_sims demo_heap s) = Inr False"
    using gc_exact [OF demo_node_ok, of "60 * second"] by blast
  ultimately have "map_of (sn_pods node') ''default/pod-0'' = None"
    by (cases "map_of (sn_pods node') ''default/pod-0''") auto
  with gc(1) show ?thesis by blast
qed

lemma demo_requests_ok: "requests_ok demo_heap demo_node"
  by (simp add: requests_ok_def demo_node_def demo_heap_def demo_sim_pod_def node_store_def containers_ok_def
      demo_rl_def rl_ok_def quantity_ok_def NewQuantity_def in64_def)

theorem node_total_request_witness:
  "\<exists>rl. totalResourceRequest demo_heap (59 * second) demo_node = Inr rl \<and> rl_val rl ''cpu'' = 2"
proof -
  have "IsRunning node_store (59 * second) demo_sim_pod" by code_simp
  moreover have "rl_val (demo_rl 2) ''cpu'' = 2"
    by (simp add: rl_val_def demo_rl_def qval_def NewQuantity_def amount_val_def)
  moreover have "hp_sims demo_heap 0 = demo_sim_pod" "hp_pods demo_heap = node_store"
    "map snd (sn_pods demo_node) = [0]" "sp_v1 demo_sim_pod = 0"
    "map ct_Requests (pod_Containers (node_store 0)) = [demo_rl 2]"
    by (simp_all add: demo_heap_def demo_node_def demo_sim_pod_def node_store_def)
  ultimately show ?thesis
    using node_total_request [OF demo_node_ok demo_requests_ok, of "59 * second"]
    by (auto simp flip: map_map simp: comp_def node_store_def)
qed

theorem scheduler_view_witness:
  "\<exists>h' ni. ToNodeInfo (59 * second) demo_node demo_heap = Inr (h', ni) \<and> ni_pods ni = [0]"
proof -
  have "IsRunning (hp_pods demo_heap) (59 * second) (hp_sims demo_heap 0)" by code_simp
  moreover have "map snd (sn_pods demo_node) = [0]" "sp_v1 (hp_sims demo_heap 0) = 0"
    by (simp_all add: demo_node_def demo_heap_def demo_sim_pod_def)
  ultimately show ?thesis using scheduler_view [OF demo_node_ok, of "59 * second"] by auto
qed

end
