(* ===== verification/Plugin.thy ===== *)
theory Plugin
  imports PodQueue NodeInfo
begin

text \<open>
  pkg/scheduler/plugin.go and the part of generic_scheduler_k8s.go it calls: filtering nodes with
  predicate plugins and scoring them with prioritizer plugins.

  A plugin is code from outside (vendored, or the user's): a \<open>fit_predicate\<close> or the functions of a
  \<open>priority_config\<close>, arguments of the model. The dummy metadata the simulator hands them is dropped.

  \<open>workqueue.ParallelizeUntil\<close> runs one piece per node on 32 workers. A piece reads shared data and then
  commits its result in one critical section (or one atomic step), so a run is the sequence of its
  pieces in the order in which they commit: the argument \<open>order\<close>, any list of the indexes of the
  nodes. What depends on \<open>order\<close> and what does not is proved in SchedulerProperties.thy. A panic in
  a piece ends the process.
\<close>

type_synonym node_infos = "(string \<times> node_info) list"
type_synonym fit_predicate = "pods \<Rightarrow> pod_ptr \<Rightarrow> node_info \<Rightarrow> (bool \<times> failure_reason list) res"
type_synonym predicates = "(string \<times> fit_predicate) list"

section \<open>Predicates\<close>

fun add_nominated :: "pods \<Rightarrow> pod_ptr \<Rightarrow> node_info \<Rightarrow> pod_ptr list \<Rightarrow> node_info" where
  "add_nominated ps pod n [] = n"
| "add_nominated ps pod n (p # rest) =
     add_nominated ps pod
       (if PodPriority (ps p) \<ge> PodPriority (ps pod) \<and> pod_UID (ps p) \<noteq> pod_UID (ps pod)
        then NodeInfo_AddPod ps n p else n) rest"

definition addNominatedPods ::
  "pods \<Rightarrow> pod_ptr \<Rightarrow> node_info \<Rightarrow> pod_queue \<Rightarrow> (bool \<times> node_info) res" where
  "addNominatedPods ps pod nodeInfo podQueue =
     (case ni_node nodeInfo of
        None \<Rightarrow> Inl (Panic ''nil pointer dereference'')
      | Some node \<Rightarrow>
          let nominatedPods = Queue_NominatedPods podQueue (node_Name node)
          in if nominatedPods = [] then Inr (False, nodeInfo)
             else Inr (True, add_nominated ps pod (NodeInfo_Clone nodeInfo) nominatedPods))"

text \<open>The loop over the predicates: the reasons of the first one that fails.\<close>

fun run_predicates :: "pods \<Rightarrow> pod_ptr \<Rightarrow> node_info \<Rightarrow> predicates \<Rightarrow> failure_reason list res" where
  "run_predicates ps pod n [] = Inr []"
| "run_predicates ps pod n ((name, pred) # preds) =
     res_bind (pred ps pod n) (\<lambda>(fit, reasons).
       if \<not> fit then Inr reasons else run_predicates ps pod n preds)"

text \<open>
  Two rounds: with the pods nominated to the node added, and, when there were some and no predicate
  failed, without them.
\<close>

definition podFitsOnNode ::
  "pods \<Rightarrow> pod_ptr \<Rightarrow> predicates \<Rightarrow> node_info \<Rightarrow> pod_queue \<Rightarrow> (bool \<times> failure_reason list) res" where
  "podFitsOnNode ps pod preds nodeInfo podQueue =
     res_bind (addNominatedPods ps pod nodeInfo podQueue) (\<lambda>(podsAdded, nodeInfoToUse).
     res_bind (run_predicates ps pod nodeInfoToUse preds) (\<lambda>failedPredicates.
       if \<not> podsAdded \<or> failedPredicates \<noteq> [] then Inr (failedPredicates = [], failedPredicates)
       else res_bind (run_predicates ps pod nodeInfo preds) (\<lambda>failedPredicates.
              Inr (failedPredicates = [], failedPredicates))))"

record filter_state =
  fs_filtered :: "v1_node option list"
  fs_filteredLen :: nat
  fs_failed :: failed_predicate_map
  fs_errs :: "(go_error \<times> nat) list"

definition count_error :: "go_error \<Rightarrow> (go_error \<times> nat) list \<Rightarrow> (go_error \<times> nat) list" where
  "count_error e errs = AList.update e (Suc (case map_of errs e of None \<Rightarrow> 0 | Some n \<Rightarrow> n)) errs"

definition filter_piece ::
  "pods \<Rightarrow> pod_ptr \<Rightarrow> predicates \<Rightarrow> v1_node list \<Rightarrow> node_infos \<Rightarrow> pod_queue \<Rightarrow>
     nat \<Rightarrow> filter_state \<Rightarrow> filter_state res" where
  "filter_piece ps pod preds nodes nodeInfoMap podQueue i st =
     (let nodeName = node_Name (nodes ! i)
      in case map_of nodeInfoMap nodeName of
           None \<Rightarrow> Inr (st\<lparr>fs_errs := count_error (NoNodeNamed nodeName) (fs_errs st)\<rparr>)
         | Some nodeInfo \<Rightarrow>
             (case podFitsOnNode ps pod preds nodeInfo podQueue of
                Inl e \<Rightarrow> if is_panic e then Inl e else Inr (st\<lparr>fs_errs := count_error e (fs_errs st)\<rparr>)
              | Inr (fits, failedPredicates) \<Rightarrow>
                  if fits then
                    let length' = Suc (fs_filteredLen st)
                    in if length' > length nodes then Inr st
                       else Inr (st\<lparr>fs_filteredLen := length',
                                    fs_filtered := (fs_filtered st)[i := Some (nodes ! i)]\<rparr>)
                  else Inr (st\<lparr>fs_failed := AList.update nodeName failedPredicates (fs_failed st)\<rparr>)))"

text \<open>
  The loop that closes the gaps: it copies the nodes kept until the counter is reached. The counter is
  the number of nodes kept (\<open>filter_count\<close> below), so no slot of the result stays nil.
\<close>

fun compact_filtered :: "nat \<Rightarrow> v1_node option list \<Rightarrow> v1_node list" where
  "compact_filtered 0 filtered = []"
| "compact_filtered (Suc j) [] = []"
| "compact_filtered (Suc j) (None # filtered) = compact_filtered (Suc j) filtered"
| "compact_filtered (Suc j) (Some node # filtered) = node # compact_filtered j filtered"

definition filterWithPlugins ::
  "nat list \<Rightarrow> pods \<Rightarrow> pod_ptr \<Rightarrow> predicates \<Rightarrow> v1_node list \<Rightarrow> node_infos \<Rightarrow> pod_queue \<Rightarrow>
     (v1_node list \<times> failed_predicate_map) res" where
  "filterWithPlugins order ps pod preds nodes nodeInfoMap podQueue =
     (if preds = [] then Inr (nodes, [])
      else
        res_bind (fold_res (filter_piece ps pod preds nodes nodeInfoMap podQueue) order
            \<lparr>fs_filtered = replicate (length nodes) None, fs_filteredLen = 0, fs_failed = [], fs_errs = []\<rparr>)
          (\<lambda>st. if fs_errs st \<noteq> [] then Inl (AggregateErrors (fs_errs st))
                else Inr (compact_filtered (fs_filteredLen st) (fs_filtered st), fs_failed st)))"

section \<open>Prioritizers\<close>

record host_priority =
  pri_Host :: string
  pri_Score :: int

record priority_config =
  pcf_Map :: "(pods \<Rightarrow> pod_ptr \<Rightarrow> node_info \<Rightarrow> host_priority res) option"
  pcf_Reduce :: "(pods \<Rightarrow> pod_ptr \<Rightarrow> node_infos \<Rightarrow> host_priority list \<Rightarrow> host_priority list res) option"
  pcf_Function :: "(pods \<Rightarrow> pod_ptr \<Rightarrow> node_infos \<Rightarrow> v1_node list \<Rightarrow> host_priority list res) option"
  pcf_Weight :: int

record prioritize_state =
  prs_results :: "host_priority list list"
  prs_errs :: "go_error list"

definition set_result :: "nat \<Rightarrow> nat \<Rightarrow> host_priority \<Rightarrow> prioritize_state \<Rightarrow> prioritize_state" where
  "set_result prioIdx nodeIdx hp st =
     st\<lparr>prs_results := (prs_results st)[prioIdx := (prs_results st ! prioIdx)[nodeIdx := hp]]\<rparr>"

definition map_cell ::
  "pods \<Rightarrow> pod_ptr \<Rightarrow> priority_config list \<Rightarrow> string \<Rightarrow> node_info \<Rightarrow> nat \<Rightarrow> nat \<Rightarrow>
     prioritize_state \<Rightarrow> prioritize_state res" where
  "map_cell ps pod prioritizers nodeName nodeInfo nodeIdx prioIdx st =
     (if pcf_Function (prioritizers ! prioIdx) \<noteq> None then Inr st
      else case pcf_Map (prioritizers ! prioIdx) of
             None \<Rightarrow> Inl (Panic ''nil pointer dereference'')
           | Some Map \<Rightarrow>
               (case Map ps pod nodeInfo of
                  Inl e \<Rightarrow>
                    if is_panic e then Inl e
                    else Inr (set_result prioIdx nodeIdx \<lparr>pri_Host = nodeName, pri_Score = 0\<rparr>
                           (st\<lparr>prs_errs := prs_errs st @ [e]\<rparr>))
                | Inr hp \<Rightarrow> Inr (set_result prioIdx nodeIdx hp st)))"

definition map_piece ::
  "pods \<Rightarrow> pod_ptr \<Rightarrow> priority_config list \<Rightarrow> v1_node list \<Rightarrow> node_infos \<Rightarrow> nat \<Rightarrow>
     prioritize_state \<Rightarrow> prioritize_state res" where
  "map_piece ps pod prioritizers nodes nodeInfoMap nodeIdx st =
     (let nodeName = node_Name (nodes ! nodeIdx)
      in case map_of nodeInfoMap nodeName of
           None \<Rightarrow> Inr (st\<lparr>prs_errs := prs_errs st @ [NoNodeNamed nodeName]\<rparr>)
         | Some nodeInfo \<Rightarrow>
             fold_res (map_cell ps pod prioritizers nodeName nodeInfo nodeIdx) [0..<length prioritizers] st)"

text \<open>A Reduce function rewrites its prioritizer's list in place; the goroutines touch one list each.\<close>

definition reduce_piece ::
  "pods \<Rightarrow> pod_ptr \<Rightarrow> priority_config list \<Rightarrow> node_infos \<Rightarrow> nat \<Rightarrow> prioritize_state \<Rightarrow> prioritize_state res" where
  "reduce_piece ps pod prioritizers nodeInfoMap prioIdx st =
     (case pcf_Reduce (prioritizers ! prioIdx) of
        None \<Rightarrow> Inr st
      | Some Reduce \<Rightarrow>
          (case Reduce ps pod nodeInfoMap (prs_results st ! prioIdx) of
             Inl e \<Rightarrow> if is_panic e then Inl e else Inr (st\<lparr>prs_errs := prs_errs st @ [e]\<rparr>)
           | Inr result \<Rightarrow> Inr (st\<lparr>prs_results := (prs_results st)[prioIdx := result]\<rparr>)))"

fun sum_scores :: "priority_config list \<Rightarrow> host_priority list list \<Rightarrow> nat \<Rightarrow> int \<Rightarrow> nat list \<Rightarrow> int" where
  "sum_scores prioritizers results nodeIdx score [] = score"
| "sum_scores prioritizers results nodeIdx score (prioIdx # rest) =
     sum_scores prioritizers results nodeIdx
       (i64 (score + i64 (pri_Score (results ! prioIdx ! nodeIdx) * pcf_Weight (prioritizers ! prioIdx)))) rest"

definition prioritizeWithPlugins ::
  "nat list \<Rightarrow> pods \<Rightarrow> pod_ptr \<Rightarrow> priority_config list \<Rightarrow> v1_node list \<Rightarrow> node_infos \<Rightarrow>
     host_priority list res" where
  "prioritizeWithPlugins order ps pod prioritizers nodes nodeInfoMap =
     res_bind (fold_res (map_piece ps pod prioritizers nodes nodeInfoMap) order
         \<lparr>prs_results = replicate (length prioritizers)
            (replicate (length nodes) \<lparr>pri_Host = [], pri_Score = 0\<rparr>), prs_errs = []\<rparr>) (\<lambda>st.
     res_bind (fold_res (reduce_piece ps pod prioritizers nodeInfoMap) [0..<length prioritizers] st) (\<lambda>st.
       if prs_errs st \<noteq> [] then Inl (AggregateErrors (map (\<lambda>e. (e, 1)) (prs_errs st)))
       else Inr (map (\<lambda>nodeIdx. \<lparr>pri_Host = node_Name (nodes ! nodeIdx),
                   pri_Score = sum_scores prioritizers (prs_results st) nodeIdx 0 [0..<length prioritizers]\<rparr>)
                 [0..<length nodes])))"

end
