(* ===== verification/Extender.thy ===== *)
theory Extender
  imports Plugin
begin

text \<open>
  pkg/scheduler/extender.go: scheduler extenders. The two callbacks of an extender are functions from
  outside, arguments of the model, as are its results; a nil callback or pointer is \<open>None\<close>, and \<open>Inl\<close> of a
  callback is a panic in it.
\<close>

record extender_args =
  ea_Pod :: pod_ptr
  ea_Nodes :: "v1_node list"
  ea_NodeNames :: "string list"

record extender_filter_result =
  efr_Nodes :: "v1_node list option"
  efr_NodeNames :: "string list option"
  efr_FailedNodes :: "(string \<times> string) list"
  efr_Error :: string

record extender =
  ext_Name :: string
  ext_Filter :: "(pods \<Rightarrow> extender_args \<Rightarrow> extender_filter_result res) option"
  ext_Prioritize :: "(pods \<Rightarrow> extender_args \<Rightarrow> host_priority list res) option"
  ext_Weight :: int
  ext_NodeCacheCapable :: bool
  ext_Ignorable :: bool

fun buildExtenderArgs_loop :: "bool \<Rightarrow> v1_node list \<times> string list \<Rightarrow> v1_node list \<Rightarrow> v1_node list \<times> string list" where
  "buildExtenderArgs_loop capable acc [] = acc"
| "buildExtenderArgs_loop capable (items, names) (node # nodes) =
     buildExtenderArgs_loop capable
       (if capable then (items, names @ [node_Name node]) else (items @ [node], names)) nodes"

definition buildExtenderArgs :: "pod_ptr \<Rightarrow> v1_node list \<Rightarrow> bool \<Rightarrow> extender_args" where
  "buildExtenderArgs pod nodes nodeCacheCapable =
     (case buildExtenderArgs_loop nodeCacheCapable ([], []) nodes of (items, names) \<Rightarrow>
        \<lparr>ea_Pod = pod, ea_Nodes = items, ea_NodeNames = names\<rparr>)"

text \<open>The nodes of the names an extender returned; a NodeInfo without a node is a nil pointer.\<close>

fun nodes_of_names :: "node_infos \<Rightarrow> string list \<Rightarrow> v1_node list res" where
  "nodes_of_names nodeInfoMap [] = Inr []"
| "nodes_of_names nodeInfoMap (name # names) =
     (case map_of nodeInfoMap name of
        None \<Rightarrow> Inl (NoNodeNamed name)
      | Some nodeInfo \<Rightarrow>
          (case ni_node nodeInfo of
             None \<Rightarrow> Inl (Panic ''nil pointer dereference'')
           | Some node \<Rightarrow> res_bind (nodes_of_names nodeInfoMap names) (\<lambda>nodes. Inr (node # nodes))))"

text \<open>
  \<^verbatim>\<open>for _, node := range items { nodes = append(nodes, &node) }\<close>: the loop has one variable \<open>node\<close>
  (Go before 1.22), so every pointer appended is the same one and shows the last item.
\<close>

definition nodes_of_items :: "v1_node list \<Rightarrow> v1_node list" where
  "nodes_of_items items = (if items = [] then [] else replicate (length items) (last items))"

definition ext_result_nodes ::
  "extender \<Rightarrow> node_infos \<Rightarrow> extender_filter_result \<Rightarrow> v1_node list res" where
  "ext_result_nodes ext nodeInfoMap result =
     (if ext_NodeCacheCapable ext then
        (case efr_NodeNames result of
           None \<Rightarrow> Inl (Panic ''nil pointer dereference'')
         | Some names \<Rightarrow> nodes_of_names nodeInfoMap names)
      else
        (case efr_Nodes result of
           None \<Rightarrow> Inl (Panic ''nil pointer dereference'')
         | Some items \<Rightarrow> Inr (nodes_of_items items)))"

fun add_failed_nodes :: "failed_predicate_map \<Rightarrow> (string \<times> string) list \<Rightarrow> failed_predicate_map" where
  "add_failed_nodes failedMap [] = failedMap"
| "add_failed_nodes failedMap ((name, msg) # failed) =
     add_failed_nodes
       (AList.update name
          ((case map_of failedMap name of None \<Rightarrow> [] | Some reasons \<Rightarrow> reasons) @ [FailureReason msg]) failedMap)
       failed"

definition ext_filter ::
  "extender \<Rightarrow> pods \<Rightarrow> pod_ptr \<Rightarrow> v1_node list \<Rightarrow> node_infos \<Rightarrow> failed_predicate_map \<Rightarrow>
     (v1_node list \<times> failed_predicate_map) res" where
  "ext_filter ext ps pod nodes nodeInfoMap failedPredicateMap =
     (case ext_Filter ext of
        None \<Rightarrow> Inr (nodes, failedPredicateMap)
      | Some Filter \<Rightarrow>
          res_bind (Filter ps (buildExtenderArgs pod nodes (ext_NodeCacheCapable ext))) (\<lambda>result.
          res_bind (ext_result_nodes ext nodeInfoMap result) (\<lambda>nodes.
            let failedMap = add_failed_nodes failedPredicateMap (efr_FailedNodes result)
            in if efr_Error result \<noteq> [] \<and> \<not> ext_Ignorable ext then Inl (ResultError (efr_Error result))
               else Inr (nodes, failedMap))))"

fun add_scores :: "int \<Rightarrow> (string \<times> int) list \<Rightarrow> host_priority list \<Rightarrow> (string \<times> int) list" where
  "add_scores weight prioMap [] = prioMap"
| "add_scores weight prioMap (prio # prios) =
     add_scores weight
       (AList.update (pri_Host prio)
          (i64 ((case map_of prioMap (pri_Host prio) of None \<Rightarrow> 0 | Some s \<Rightarrow> s) + i64 (pri_Score prio * weight)))
          prioMap) prios"

definition ext_prioritize ::
  "extender \<Rightarrow> pods \<Rightarrow> pod_ptr \<Rightarrow> v1_node list \<Rightarrow> (string \<times> int) list \<Rightarrow> (string \<times> int) list res" where
  "ext_prioritize ext ps pod nodes prioMap =
     (case ext_Prioritize ext of
        None \<Rightarrow> Inr prioMap
      | Some Prioritize \<Rightarrow>
          res_bind (Prioritize ps (buildExtenderArgs pod nodes (ext_NodeCacheCapable ext))) (\<lambda>prios.
            Inr (add_scores (ext_Weight ext) prioMap prios)))"

section \<open>Lemmas\<close>

lemma buildExtenderArgs_loop_eq:
  "buildExtenderArgs_loop capable (items, names) nodes =
     (if capable then (items, names @ map node_Name nodes) else (items @ nodes, names))"
  by (induction nodes arbitrary: items names) auto

lemma nodes_of_names_ok:
  "nodes_of_names infos names = Inr nodes \<Longrightarrow>
     length nodes = length names \<and> (\<forall>node \<in> set nodes. \<exists>name n. map_of infos name = Some n \<and> ni_node n = Some node)"
  by (induction names arbitrary: nodes) (fastforce simp: res_bind_Inr_iff split: option.splits)+

end
