(* ===== verification/Preemption.thy ===== *)
theory Preemption
  imports Plugin
begin

text \<open>
  pkg/scheduler/generic_scheduler_k8s.go: selecting the host with the highest score, and preemption:
  which nodes preemption might help on, which pods of a node would have to go, and which node to take.

  \<open>sched_env\<close> holds what the scheduler takes from its surroundings: the order in which the pieces of a
  parallel loop over \<open>n\<close> nodes commit, Go's \<open>sort.Sort\<close> (which need not be stable) with a comparison,
  the order in which a range loop visits the map from nodes to victims, the text of an error, and the
  package variables KeepScheduling and KeepSchedulingTimeout. \<open>env_ok\<close> states what is documented of
  the first three: a permutation of the indexes, a sorted permutation, a permutation.
\<close>

type_synonym victims = "pod_ptr list"

record sched_env =
  se_order :: "nat \<Rightarrow> nat list"
  se_sort :: "(pod_ptr \<Rightarrow> pod_ptr \<Rightarrow> bool) \<Rightarrow> pod_ptr list \<Rightarrow> pod_ptr list"
  se_range :: "(v1_node \<times> victims) list \<Rightarrow> (v1_node \<times> victims) list"
  se_Error :: "go_error \<Rightarrow> string"
  se_KeepScheduling :: bool
  se_KeepSchedulingTimeout :: nat

definition env_ok :: "sched_env \<Rightarrow> bool" where
  "env_ok env \<longleftrightarrow>
     (\<forall>n. mset (se_order env n) = mset [0..<n]) \<and>
     (\<forall>before xs. asymp before \<longrightarrow> transp before \<longrightarrow> transp (\<lambda>x y. \<not> before y x) \<longrightarrow>
        mset (se_sort env before xs) = mset xs \<and> sorted_wrt (\<lambda>x y. \<not> before y x) (se_sort env before xs)) \<and>
     (\<forall>m. mset (se_range env m) = mset m)"

section \<open>Selecting the host\<close>

fun findMaxScores_loop :: "int \<Rightarrow> nat list \<Rightarrow> nat \<Rightarrow> host_priority list \<Rightarrow> nat list" where
  "findMaxScores_loop maxScore indexes idx [] = indexes"
| "findMaxScores_loop maxScore indexes idx (prio # prios) =
     (if pri_Score prio > maxScore then findMaxScores_loop (pri_Score prio) [idx] (Suc idx) prios
      else if pri_Score prio = maxScore then findMaxScores_loop maxScore (indexes @ [idx]) (Suc idx) prios
      else findMaxScores_loop maxScore indexes (Suc idx) prios)"

definition findMaxScores :: "host_priority list \<Rightarrow> nat list" where
  "findMaxScores priorities = findMaxScores_loop (pri_Score (priorities ! 0)) [] 0 priorities"

definition selectHost :: "host_priority list \<Rightarrow> string res" where
  "selectHost priorities =
     (if priorities = [] then Inl EmptyPriorities
      else let maxScores = findMaxScores priorities; idx = length maxScores - 1
           in Inr (pri_Host (priorities ! (maxScores ! idx))))"

section \<open>Where preemption might help\<close>

definition podEligibleToPreemptOthers :: "pods \<Rightarrow> pod_ptr \<Rightarrow> node_infos \<Rightarrow> bool" where
  "podEligibleToPreemptOthers ps preemptor nodeInfoMap =
     (let nomNodeName = ps_NominatedNodeName (pod_Status (ps preemptor))
      in if nomNodeName = [] then True
         else case map_of nodeInfoMap nomNodeName of
                None \<Rightarrow> True
              | Some nodeInfo \<Rightarrow>
                  \<not> list_ex (\<lambda>p. pod_DeletionTimestamp (ps p) \<noteq> None \<and>
                                PodPriority (ps p) < PodPriority (ps preemptor)) (ni_pods nodeInfo))"

fun unresolvable :: "failure_reason \<Rightarrow> bool" where
  "unresolvable (InsufficientResource _ _ _ _) = False"
| "unresolvable (FailureReason _) = False"
| "unresolvable _ = True"

definition nodesWherePreemptionMightHelp :: "v1_node list \<Rightarrow> failed_predicate_map \<Rightarrow> v1_node list" where
  "nodesWherePreemptionMightHelp nodes failedPredicatesMap =
     filter (\<lambda>node. \<not> list_ex unresolvable
       (case map_of failedPredicatesMap (node_Name node) of None \<Rightarrow> [] | Some reasons \<Rightarrow> reasons)) nodes"

section \<open>Selecting the victims on a node\<close>

definition HigherPriorityPod :: "pods \<Rightarrow> pod_ptr \<Rightarrow> pod_ptr \<Rightarrow> bool" where
  "HigherPriorityPod ps pod1 pod2 = (PodPriority (ps pod1) > PodPriority (ps pod2))"

text \<open>
  The closure removePod drops an error of RemovePod; the NodeInfo is then unchanged.
\<close>

definition removePod :: "pods \<Rightarrow> node_info \<Rightarrow> pod_ptr \<Rightarrow> node_info res" where
  "removePod ps n p =
     (case NodeInfo_RemovePod ps n p of
        Inl e \<Rightarrow> if is_panic e then Inl e else Inr n
      | Inr n' \<Rightarrow> Inr n')"

text \<open>
  The loop over \<^verbatim>\<open>nodeInfoCopy.Pods()\<close> ranges over the slice as it was, while removePod moves the last
  pod of the NodeInfo into the place of the removed one, in the same backing array. \<open>backing\<close> is that
  array: its first \<open>length (ni_pods n)\<close> elements are the NodeInfo's pods, the rest is what the shrinking
  slice left behind, and the loop reads element \<open>i\<close> of it.
\<close>

fun collect_victims ::
  "pods \<Rightarrow> int \<Rightarrow> nat list \<Rightarrow> pod_ptr list \<Rightarrow> pod_ptr list \<Rightarrow> node_info \<Rightarrow> (pod_ptr list \<times> node_info) res" where
  "collect_victims ps podPriority [] backing potentialVictims n = Inr (potentialVictims, n)"
| "collect_victims ps podPriority (i # is) backing potentialVictims n =
     (let p = backing ! i
      in if PodPriority (ps p) < podPriority then
           res_bind (removePod ps n p) (\<lambda>n'.
             let m = length (ni_pods n);
                 backing' = (case GetPodKey (ps p) of
                     Inl _ \<Rightarrow> backing
                   | Inr k \<Rightarrow> (case find_pod ps k 0 (ni_pods n) of
                                None \<Rightarrow> backing
                              | Some j \<Rightarrow> swap_out j (take m backing) @ drop m backing))
             in collect_victims ps podPriority is backing' (potentialVictims @ [p]) n')
         else collect_victims ps podPriority is backing potentialVictims n)"

text \<open>
  Here an error of podFitsOnNode only says that the pod does not fit. Reprieving: a pod is put back,
  and taken out again as a victim if the preemptor no longer fits.
\<close>

definition fits_or_error :: "pods \<Rightarrow> pod_ptr \<Rightarrow> predicates \<Rightarrow> node_info \<Rightarrow> pod_queue \<Rightarrow> bool res" where
  "fits_or_error ps pod preds n podQueue =
     (case podFitsOnNode ps pod preds n podQueue of
        Inl e \<Rightarrow> if is_panic e then Inl e else Inr False
      | Inr (fits, _) \<Rightarrow> Inr fits)"

fun reprieve_pods ::
  "pods \<Rightarrow> pod_ptr \<Rightarrow> predicates \<Rightarrow> pod_queue \<Rightarrow> pod_ptr list \<Rightarrow> pod_ptr list \<Rightarrow> node_info \<Rightarrow>
     pod_ptr list res" where
  "reprieve_pods ps preemptor preds podQueue [] victims n = Inr victims"
| "reprieve_pods ps preemptor preds podQueue (p # rest) victims n =
     (let added = NodeInfo_AddPod ps n p
      in res_bind (fits_or_error ps preemptor preds added podQueue) (\<lambda>fits.
           if fits then reprieve_pods ps preemptor preds podQueue rest victims added
           else res_bind (removePod ps added p) (\<lambda>removed.
                  reprieve_pods ps preemptor preds podQueue rest (victims @ [p]) removed)))"

definition selectVictimsOnNode ::
  "sched_env \<Rightarrow> pods \<Rightarrow> pod_ptr \<Rightarrow> predicates \<Rightarrow> node_info option \<Rightarrow> pod_queue \<Rightarrow> victims option res" where
  "selectVictimsOnNode env ps preemptor preds nodeInfo podQueue =
     (case nodeInfo of
        None \<Rightarrow> Inr None
      | Some nodeInfo \<Rightarrow>
          let nodeInfoCopy = NodeInfo_Clone nodeInfo; pods = ni_pods nodeInfoCopy
          in res_bind (collect_victims ps (PodPriority (ps preemptor)) [0..<length pods] pods [] nodeInfoCopy)
               (\<lambda>(potentialVictims, nodeInfoCopy).
             let sorted' = se_sort env (HigherPriorityPod ps) potentialVictims
             in res_bind (fits_or_error ps preemptor preds nodeInfoCopy podQueue) (\<lambda>fits.
                  if \<not> fits then Inr None
                  else res_bind (reprieve_pods ps preemptor preds podQueue sorted' [] nodeInfoCopy)
                         (\<lambda>victims. Inr (Some victims)))))"

fun selectNodesForPreemption ::
  "sched_env \<Rightarrow> pods \<Rightarrow> pod_ptr \<Rightarrow> predicates \<Rightarrow> node_infos \<Rightarrow> pod_queue \<Rightarrow>
     (v1_node \<times> victims) list \<Rightarrow> v1_node list \<Rightarrow> (v1_node \<times> victims) list res" where
  "selectNodesForPreemption env ps preemptor preds nodeInfoMap podQueue nodeToVictims [] = Inr nodeToVictims"
| "selectNodesForPreemption env ps preemptor preds nodeInfoMap podQueue nodeToVictims (node # nodes) =
     res_bind (selectVictimsOnNode env ps preemptor preds (map_of nodeInfoMap (node_Name node)) podQueue)
       (\<lambda>found. selectNodesForPreemption env ps preemptor preds nodeInfoMap podQueue
          (case found of None \<Rightarrow> nodeToVictims | Some pods \<Rightarrow> AList.update node pods nodeToVictims) nodes)"

section \<open>Picking the node\<close>

text \<open>
  The three loops of pickOneNodeForPreemption are the same one: the nodes whose value is the least seen
  so far, in order, starting from the largest value of the type.
\<close>

fun min_nodes :: "('a \<Rightarrow> int) \<Rightarrow> int \<Rightarrow> 'a list \<Rightarrow> 'a list \<Rightarrow> 'a list" where
  "min_nodes val least acc [] = acc"
| "min_nodes val least acc (node # nodes) =
     (if val node < least then min_nodes val (val node) [node] nodes
      else if val node = least then min_nodes val least (acc @ [node]) nodes
      else min_nodes val least acc nodes)"

definition highest_priority :: "pods \<Rightarrow> v1_node \<times> victims \<Rightarrow> int" where
  "highest_priority ps nv = PodPriority (ps (hd (snd nv)))"

fun sum_priorities :: "pods \<Rightarrow> int \<Rightarrow> pod_ptr list \<Rightarrow> int" where
  "sum_priorities ps acc [] = acc"
| "sum_priorities ps acc (p # pods) =
     sum_priorities ps (i64 (acc + (PodPriority (ps p) + (max_int32 + 1)))) pods"

definition pickOneNodeForPreemption :: "pods \<Rightarrow> (v1_node \<times> victims) list \<Rightarrow> v1_node option res" where
  "pickOneNodeForPreemption ps nodesToVictims =
     (case nodesToVictims of
        [] \<Rightarrow> Inr None
      | [(node, _)] \<Rightarrow> Inr (Some node)
      | _ \<Rightarrow>
          if \<exists>nv \<in> set nodesToVictims. snd nv = [] then Inl (Panic ''index out of range'')
          else let minNodes2 = min_nodes (highest_priority ps) max_int32 [] nodesToVictims
               in if length minNodes2 = 1 then Inr (Some (fst (minNodes2 ! 0)))
                  else let minNodes1 = min_nodes (\<lambda>nv. sum_priorities ps 0 (snd nv)) max_int64 [] minNodes2
                       in if length minNodes1 = 1 then Inr (Some (fst (minNodes1 ! 0)))
                          else let minNodes2 = min_nodes (\<lambda>nv. int (length (snd nv))) max_int32 [] minNodes1
                               in if minNodes2 \<noteq> [] then Inr (Some (fst (minNodes2 ! 0))) else Inr None)"

definition getLowerPriorityNominatedPods :: "pods \<Rightarrow> pod_ptr \<Rightarrow> string \<Rightarrow> pod_queue \<Rightarrow> pod_ptr list" where
  "getLowerPriorityNominatedPods ps pod nodeName podQueue =
     filter (\<lambda>p. PodPriority (ps p) < PodPriority (ps pod)) (Queue_NominatedPods podQueue nodeName)"

end
