(* ===== verification/GenericScheduler.thy ===== *)
theory GenericScheduler
  imports Extender Preemption
begin

text \<open>
  pkg/scheduler/generic_scheduler.go: the scheduler. Schedule takes pods from the front of the queue and
  tries to place each: filter, prioritize, select. A placed pod leaves the queue and is added to the
  NodeInfo of its node; what happens to a pod that does not fit depends on KeepScheduling: either it
  waits in the scheduler's fail queue until the others have been tried, or the loop stops, after
  looking for pods to preempt.

  The state a run of Schedule changes is \<open>sched_state\<close>: the pods, the pending queue, the NodeInfos, the
  scheduler's fail queue and the package variable NodeMetricsCache. The time measurements in
  TimingMap and the log are not modelled. The loop is \<open>Schedule_loop\<close>, a partial function whose value
  is None if it runs forever; each iteration is \<open>Schedule_step\<close>.
\<close>

record schedule_result =
  sr_SuggestedHost :: string
  sr_EvaluatedNodes :: nat
  sr_FeasibleNodes :: nat

datatype event = BindEvent pod_ptr schedule_result | DeleteEvent string string string

record cached_metrics =
  cm_Usage :: resource
  cm_Allocatable :: resource

record generic_scheduler =
  gs_extenders :: "extender list"
  gs_predicates :: predicates
  gs_prioritizers :: "priority_config list"
  gs_preemptionEnabled :: bool

record sched_state =
  ss_pods :: pods
  ss_queue :: pod_queue
  ss_infos :: node_infos
  ss_failQueue :: fifo_queue
  ss_cache :: "(string \<times> cached_metrics) list"

definition NewGenericScheduler :: "bool \<Rightarrow> generic_scheduler" where
  "NewGenericScheduler preemptionEnabled =
     \<lparr>gs_extenders = [], gs_predicates = [], gs_prioritizers = [], gs_preemptionEnabled = preemptionEnabled\<rparr>"

definition AddExtender :: "generic_scheduler \<Rightarrow> extender \<Rightarrow> generic_scheduler" where
  "AddExtender sched ext = sched\<lparr>gs_extenders := gs_extenders sched @ [ext]\<rparr>"

definition AddPredicate :: "generic_scheduler \<Rightarrow> string \<Rightarrow> fit_predicate \<Rightarrow> generic_scheduler" where
  "AddPredicate sched name pred = sched\<lparr>gs_predicates := AList.update name pred (gs_predicates sched)\<rparr>"

definition AddPrioritizer :: "generic_scheduler \<Rightarrow> priority_config \<Rightarrow> generic_scheduler" where
  "AddPrioritizer sched prioritizer = sched\<lparr>gs_prioritizers := gs_prioritizers sched @ [prioritizer]\<rparr>"

section \<open>Filtering and prioritizing\<close>

fun run_extender_filters ::
  "extender list \<Rightarrow> pods \<Rightarrow> pod_ptr \<Rightarrow> node_infos \<Rightarrow> v1_node list \<Rightarrow> failed_predicate_map \<Rightarrow>
     (v1_node list \<times> failed_predicate_map) res" where
  "run_extender_filters [] ps pod nodeInfoMap filtered failedMap = Inr (filtered, failedMap)"
| "run_extender_filters (ext # exts) ps pod nodeInfoMap filtered failedMap =
     res_bind (ext_filter ext ps pod filtered nodeInfoMap failedMap) (\<lambda>(filtered, failedMap).
       if filtered = [] then Inr (filtered, failedMap)
       else run_extender_filters exts ps pod nodeInfoMap filtered failedMap)"

definition sched_filter ::
  "sched_env \<Rightarrow> generic_scheduler \<Rightarrow> pods \<Rightarrow> pod_ptr \<Rightarrow> v1_node list \<Rightarrow> node_infos \<Rightarrow> pod_queue \<Rightarrow>
     (v1_node list \<times> failed_predicate_map) res" where
  "sched_filter env sched ps pod nodes nodeInfoMap podQueue =
     res_bind (filterWithPlugins (se_order env (length nodes)) ps pod (gs_predicates sched) nodes
         nodeInfoMap podQueue) (\<lambda>(filtered, failedPredicateMap).
       if filtered \<noteq> [] \<and> gs_extenders sched \<noteq> []
       then run_extender_filters (gs_extenders sched) ps pod nodeInfoMap filtered failedPredicateMap
       else Inr (filtered, failedPredicateMap))"

definition EqualPriorityMap :: "node_info \<Rightarrow> host_priority res" where
  "EqualPriorityMap nodeInfo =
     (case ni_node nodeInfo of
        None \<Rightarrow> Inl (ResultError ''node not found'')
      | Some node \<Rightarrow> Inr \<lparr>pri_Host = node_Name node, pri_Score = 1\<rparr>)"

fun equal_priorities :: "node_infos \<Rightarrow> v1_node list \<Rightarrow> host_priority list res" where
  "equal_priorities nodeInfoMap [] = Inr []"
| "equal_priorities nodeInfoMap (node # nodes) =
     (case map_of nodeInfoMap (node_Name node) of
        None \<Rightarrow> Inl (NoNodeNamed (node_Name node))
      | Some nodeInfo \<Rightarrow>
          res_bind (EqualPriorityMap nodeInfo) (\<lambda>prio.
          res_bind (equal_priorities nodeInfoMap nodes) (\<lambda>prioList. Inr (prio # prioList))))"

definition sched_prioritize ::
  "sched_env \<Rightarrow> generic_scheduler \<Rightarrow> pods \<Rightarrow> pod_ptr \<Rightarrow> v1_node list \<Rightarrow> node_infos \<Rightarrow>
     host_priority list res" where
  "sched_prioritize env sched ps pod filteredNodes nodeInfoMap =
     (if gs_prioritizers sched = [] \<and> gs_extenders sched = []
      then equal_priorities nodeInfoMap filteredNodes
      else
        res_bind (prioritizeWithPlugins (se_order env (length filteredNodes)) ps pod (gs_prioritizers sched)
            filteredNodes nodeInfoMap) (\<lambda>prioList.
          if gs_extenders sched = [] then Inr prioList
          else res_bind (fold_res (\<lambda>ext. ext_prioritize ext ps pod filteredNodes) (gs_extenders sched) []) (\<lambda>prioMap.
                 Inr (map (\<lambda>prio. prio\<lparr>pri_Score := i64 (pri_Score prio +
                     (case map_of prioMap (pri_Host prio) of None \<Rightarrow> 0 | Some s \<Rightarrow> s))\<rparr>) prioList))))"

definition scheduleOne ::
  "sched_env \<Rightarrow> generic_scheduler \<Rightarrow> pods \<Rightarrow> pod_ptr \<Rightarrow> v1_node list res \<Rightarrow> node_infos \<Rightarrow> pod_queue \<Rightarrow>
     schedule_result res" where
  "scheduleOne env sched ps pod nodeLister nodeInfoMap podQueue =
     res_bind nodeLister (\<lambda>nodes.
       if nodes = [] then Inl ErrNoNodesAvailable
       else
         res_bind (sched_filter env sched ps pod nodes nodeInfoMap podQueue)
           (\<lambda>(nodesFiltered, failedPredicateMap).
             if nodesFiltered = [] then Inl (FitError pod (length nodes) failedPredicateMap)
             else if length nodesFiltered = 1 then
               Inr \<lparr>sr_SuggestedHost = node_Name (nodesFiltered ! 0),
                    sr_EvaluatedNodes = 1 + length failedPredicateMap, sr_FeasibleNodes = 1\<rparr>
             else
               res_bind (sched_prioritize env sched ps pod nodesFiltered nodeInfoMap) (\<lambda>prios.
               res_bind (selectHost prios) (\<lambda>host.
                 Inr \<lparr>sr_SuggestedHost = host,
                      sr_EvaluatedNodes = length nodesFiltered + length failedPredicateMap,
                      sr_FeasibleNodes = length nodesFiltered\<rparr>))))"

section \<open>Preempting\<close>

definition findPreemption ::
  "sched_env \<Rightarrow> generic_scheduler \<Rightarrow> pods \<Rightarrow> pod_ptr \<Rightarrow> pod_queue \<Rightarrow> v1_node list res \<Rightarrow> node_infos \<Rightarrow>
     failed_predicate_map \<Rightarrow> (v1_node option \<times> pod_ptr list \<times> pod_ptr list) res" where
  "findPreemption env sched ps preemptor podQueue nodeLister nodeInfoMap failedPredicates =
     res_bind (PodKey (ps preemptor)) (\<lambda>preemptorKey.
       if \<not> podEligibleToPreemptOthers ps preemptor nodeInfoMap then Inr (None, [], [])
       else
         res_bind nodeLister (\<lambda>allNodes.
           if allNodes = [] then Inl ErrNoNodesAvailable
           else let potentialNodes = nodesWherePreemptionMightHelp allNodes failedPredicates
                in if potentialNodes = [] then Inr (None, [], [preemptor])
                   else
                     res_bind (selectNodesForPreemption env ps preemptor (gs_predicates sched) nodeInfoMap
                         podQueue [] potentialNodes) (\<lambda>nodeToVictims.
                     res_bind (pickOneNodeForPreemption ps (se_range env nodeToVictims)) (\<lambda>candidate.
                       case candidate of
                         None \<Rightarrow> Inr (None, [], [])
                       | Some node \<Rightarrow>
                           let nominatedPods = getLowerPriorityNominatedPods ps preemptor (node_Name node) podQueue
                           in case map_of nodeInfoMap (node_Name node) of
                                None \<Rightarrow> Inl (NoNodeNamed (node_Name node))
                              | Some nodeInfo \<Rightarrow>
                                  Inr (ni_node nodeInfo,
                                       (case map_of nodeToVictims node of None \<Rightarrow> [] | Some pods \<Rightarrow> pods),
                                       nominatedPods)))))"

fun clear_nominations :: "pods \<Rightarrow> pod_queue \<Rightarrow> pod_ptr list \<Rightarrow> (pods \<times> pod_queue) res" where
  "clear_nominations ps podQueue [] = Inr (ps, podQueue)"
| "clear_nominations ps podQueue (pod # pods) =
     res_bind (Queue_RemoveNominatedNode ps podQueue pod) (\<lambda>(ps', podQueue').
       clear_nominations ps' podQueue' pods)"

definition preempt ::
  "sched_env \<Rightarrow> generic_scheduler \<Rightarrow> pods \<Rightarrow> pod_ptr \<Rightarrow> pod_queue \<Rightarrow> v1_node list res \<Rightarrow> node_infos \<Rightarrow>
     failed_predicate_map \<Rightarrow> (event list \<times> pods \<times> pod_queue) res" where
  "preempt env sched ps preemptor podQueue nodeLister nodeInfoMap failedPredicates =
     res_bind (findPreemption env sched ps preemptor podQueue nodeLister nodeInfoMap failedPredicates)
       (\<lambda>(node, victims, nominatedPodsToClear).
         case node of
           None \<Rightarrow>
             res_bind (clear_nominations ps podQueue nominatedPodsToClear) (\<lambda>(ps', podQueue').
               Inr ([], ps', podQueue'))
         | Some node \<Rightarrow>
             (case Queue_UpdateNominatedNode ps podQueue preemptor (node_Name node) of
                (ps1, r) \<Rightarrow>
                  res_bind r (\<lambda>podQueue1.
                  res_bind (clear_nominations ps1 podQueue1 nominatedPodsToClear) (\<lambda>(ps', podQueue').
                    Inr (map (\<lambda>victim. DeleteEvent (pod_Namespace (ps1 victim)) (pod_Name (ps1 victim))
                           (node_Name node)) victims,
                         ps', podQueue')))))"

section \<open>The scheduling loop\<close>

definition scheduled_condition :: "condition_status \<Rightarrow> clock \<Rightarrow> string \<Rightarrow> string \<Rightarrow> pod_condition" where
  "scheduled_condition st clk reason message =
     \<lparr>pc_Type = PodScheduled, pc_Status = st, pc_LastProbeTime = clk, pc_LastTransitionTime = time_zero,
      pc_Reason = reason, pc_Message = message\<rparr>"

definition updatePodStatusSchedulingSuccess :: "clock \<Rightarrow> pods \<Rightarrow> pod_ptr \<Rightarrow> pods" where
  "updatePodStatusSchedulingSuccess clk ps pod =
     set_status ps pod (fst (UpdatePodCondition clk (pod_Status (ps pod))
       (scheduled_condition ConditionTrue clk [] [])))"

definition updatePodStatusSchedulingFailure :: "sched_env \<Rightarrow> clock \<Rightarrow> pods \<Rightarrow> pod_ptr \<Rightarrow> go_error \<Rightarrow> pods" where
  "updatePodStatusSchedulingFailure env clk ps pod err =
     set_status ps pod (fst (UpdatePodCondition clk (pod_Status (ps pod))
       (scheduled_condition ConditionFalse clk ''Unschedulable'' (se_Error env err))))"

text \<open>What the package variable NodeMetricsCache records of a placement.\<close>

definition cache_placement ::
  "pods \<Rightarrow> pod_ptr \<Rightarrow> string \<Rightarrow> node_infos \<Rightarrow> (string \<times> cached_metrics) list \<Rightarrow> (string \<times> cached_metrics) list" where
  "cache_placement ps pod host nodeInfoMap cache =
     (let request = GetResourceRequest (ps pod)
      in case map_of cache host of
           Some m \<Rightarrow>
             let u = cm_Usage m
             in AList.update host (m\<lparr>cm_Usage := u\<lparr>r_MilliCPU := i64 (r_MilliCPU u + r_MilliCPU request),
                                                 r_Memory := i64 (r_Memory u + r_Memory request)\<rparr>\<rparr>) cache
         | None \<Rightarrow>
             AList.update host \<lparr>cm_Usage = request,
               cm_Allocatable = (case map_of nodeInfoMap host of
                  None \<Rightarrow> empty_resource | Some nodeInfo \<Rightarrow> ni_allocatableResource nodeInfo)\<rparr> cache)"

text \<open>The type test \<^verbatim>\<open>err.( *core.FitError)\<close>, with the failed predicates.\<close>

definition err_FitError :: "go_error \<Rightarrow> failed_predicate_map option" where
  "err_FitError err = (case err of FitError _ _ failedPredicates \<Rightarrow> Some failedPredicates | _ \<Rightarrow> None)"

definition is_panic_res :: "'a res \<Rightarrow> bool" where
  "is_panic_res r = (case r of Inl e \<Rightarrow> is_panic e | Inr _ \<Rightarrow> False)"

datatype 'a outcome = Continue 'a | Break 'a | Return 'a | Fail go_error

text \<open>The branch of an error: the pod waits in the fail queue, or the loop ends.\<close>

definition Schedule_failed ::
  "sched_env \<Rightarrow> generic_scheduler \<Rightarrow> clock \<Rightarrow> v1_node list res \<Rightarrow> pod_ptr \<Rightarrow> go_error \<Rightarrow>
     sched_state \<times> event list \<Rightarrow> (sched_state \<times> event list) outcome" where
  "Schedule_failed env sched clk nodeLister pod err = (\<lambda>(st, results).
     if se_KeepScheduling env then
       let failQueue = (case FIFOQueue_Push (ss_pods st) (ss_failQueue st) pod of
              Inl _ \<Rightarrow> ss_failQueue st | Inr f \<Rightarrow> f)
       in (case Queue_Pop (ss_pods st) (ss_queue st) of
             (podQueue, r) \<Rightarrow>
               let st' = st\<lparr>ss_failQueue := failQueue, ss_queue := podQueue\<rparr>
               in if is_panic_res r then Fail (projl r)
                  else if FIFOQueue_Len failQueue > se_KeepSchedulingTimeout env
                  then Break (st', results) else Continue (st', results))
     else
       let st' = st\<lparr>ss_pods := updatePodStatusSchedulingFailure env clk (ss_pods st) pod err\<rparr>
       in case err_FitError err of
            Some failedPredicates \<Rightarrow>
              if gs_preemptionEnabled sched then
                (case preempt env sched (ss_pods st') pod (ss_queue st') nodeLister (ss_infos st')
                        failedPredicates of
                   Inl e \<Rightarrow> Fail e
                 | Inr (delEvents, ps, podQueue) \<Rightarrow>
                     Break (st'\<lparr>ss_pods := ps, ss_queue := podQueue\<rparr>, results @ delEvents))
              else Break (st', results)
          | None \<Rightarrow> Return (st', []))"

definition Schedule_placed ::
  "clock \<Rightarrow> pod_ptr \<Rightarrow> schedule_result \<Rightarrow> sched_state \<times> event list \<Rightarrow> (sched_state \<times> event list) outcome" where
  "Schedule_placed clk pod result = (\<lambda>(st, results).
     let host = sr_SuggestedHost result;
         cache = cache_placement (ss_pods st) pod host (ss_infos st) (ss_cache st)
     in case Queue_Pop (ss_pods st) (ss_queue st) of
          (_, Inl e) \<Rightarrow> Fail (if is_panic e then e else Panic ''nil pointer dereference'')
        | (podQueue, Inr pod) \<Rightarrow>
            let ps = updatePodStatusSchedulingSuccess clk (ss_pods st) pod
            in (case Queue_RemoveNominatedNode ps podQueue pod of
                  Inl e \<Rightarrow> Fail e
                | Inr (ps, podQueue) \<Rightarrow>
                    (case map_of (ss_infos st) host of
                       None \<Rightarrow> Fail (NoNodeNamed host)
                     | Some nodeInfo \<Rightarrow>
                         Continue (st\<lparr>ss_pods := ps, ss_queue := podQueue, ss_cache := cache,
                             ss_infos := AList.update host (NodeInfo_AddPod ps nodeInfo pod) (ss_infos st)\<rparr>,
                           results @ [BindEvent pod result]))))"

text \<open>
  The functions a scheduler is configured with may read the package variable NodeMetricsCache, which each
  placement changes: a scheduler is what it is configured with, given the cache.
\<close>

type_synonym plugged_scheduler = "(string \<times> cached_metrics) list \<Rightarrow> generic_scheduler"

definition Schedule_step ::
  "sched_env \<Rightarrow> plugged_scheduler \<Rightarrow> clock \<Rightarrow> v1_node list res \<Rightarrow>
     sched_state \<times> event list \<Rightarrow> (sched_state \<times> event list) outcome" where
  "Schedule_step env sched clk nodeLister = (\<lambda>(st, results).
     case Queue_Front (ss_queue st) of
       (podQueue, Inl e) \<Rightarrow>
         if e = ErrEmptyQueue then Break (st\<lparr>ss_queue := podQueue\<rparr>, results)
         else Fail (if is_panic e then e else ResultError ''Unexpected error raised by Queueu.Pop()'')
     | (podQueue, Inr pod) \<Rightarrow>
         let st = st\<lparr>ss_queue := podQueue\<rparr>
         in case PodKey (ss_pods st pod) of
              Inl e \<Rightarrow> Fail e
            | Inr podKey \<Rightarrow>
                (case scheduleOne env (sched (ss_cache st)) (ss_pods st) pod nodeLister (ss_infos st) (ss_queue st) of
                   Inl err \<Rightarrow>
                     if is_panic err then Fail err
                     else Schedule_failed env (sched (ss_cache st)) clk nodeLister pod err (st, results)
                 | Inr result \<Rightarrow> Schedule_placed clk pod result (st, results)))"

text \<open>After the loop the pods of the fail queue go back to the pending queue.\<close>

lemma FIFOQueue_Pop_shorter:
  "FIFOQueue_Pop f = (f', Inr p) \<Longrightarrow> length (fq_queue f') < length (fq_queue f)"
proof -
  have "FIFOQueue_Pop_loop pods ks = (f', Inr p) \<Longrightarrow> length (fq_queue f') < length ks" for pods ks
    by (induction pods ks rule: FIFOQueue_Pop_loop.induct) (auto split: option.splits)
  then show "FIFOQueue_Pop f = (f', Inr p) \<Longrightarrow> length (fq_queue f') < length (fq_queue f)"
    by (simp add: FIFOQueue_Pop_def)
qed

function drain_failQueue :: "pods \<Rightarrow> fifo_queue \<Rightarrow> pod_queue \<Rightarrow> (fifo_queue \<times> pod_queue) res" where
  "drain_failQueue ps failQueue podQueue =
     (case FIFOQueue_Pop failQueue of
        (failQueue', Inl e) \<Rightarrow>
          if e = ErrEmptyQueue then Inr (failQueue', podQueue)
          else Inl (ResultError ''Unexpected error raised by Queueu.Pop()'')
      | (failQueue', Inr pod) \<Rightarrow>
          (case Queue_Push ps podQueue pod of
             Inl e \<Rightarrow> if is_panic e then Inl e else drain_failQueue ps failQueue' podQueue
           | Inr podQueue' \<Rightarrow> drain_failQueue ps failQueue' podQueue'))"
  by pat_completeness auto
termination
  by (relation "measure (\<lambda>(ps, f, q). length (fq_queue f))") (auto simp: FIFOQueue_Pop_shorter [OF sym])

declare drain_failQueue.simps [simp del]

definition Schedule_finish :: "sched_env \<Rightarrow> sched_state \<times> event list \<Rightarrow> (sched_state \<times> event list) res" where
  "Schedule_finish env = (\<lambda>(st, results).
     if se_KeepScheduling env then
       res_bind (drain_failQueue (ss_pods st) (ss_failQueue st) (ss_queue st)) (\<lambda>(failQueue, podQueue).
         Inr (st\<lparr>ss_failQueue := failQueue, ss_queue := podQueue\<rparr>, results))
     else Inr (st, results))"

partial_function (option) Schedule_loop ::
  "sched_env \<Rightarrow> plugged_scheduler \<Rightarrow> clock \<Rightarrow> v1_node list res \<Rightarrow>
     sched_state \<times> event list \<Rightarrow> (sched_state \<times> event list) res option" where
  "Schedule_loop env sched clk nodeLister s =
     (case Schedule_step env sched clk nodeLister s of
        Continue s' \<Rightarrow> Schedule_loop env sched clk nodeLister s'
      | Break s' \<Rightarrow> Some (Schedule_finish env s')
      | Return s' \<Rightarrow> Some (Inr s')
      | Fail e \<Rightarrow> Some (Inl e))"

declare Schedule_loop.simps [code]

definition Schedule ::
  "sched_env \<Rightarrow> plugged_scheduler \<Rightarrow> clock \<Rightarrow> v1_node list res \<Rightarrow> sched_state \<Rightarrow>
     (sched_state \<times> event list) res option" where
  "Schedule env sched clk nodeLister st = Schedule_loop env sched clk nodeLister (st, [])"

end
