(* ===== verification/FilterProperties.thy ===== *)
theory FilterProperties
  imports GenericScheduler
begin

text \<open>
  What placing one pod guarantees: filtering keeps exactly the nodes every predicate accepts, whatever
  the order in which the workers commit, scores are the weighted sums of the plugins' scores, and the
  node chosen is a feasible one of the highest score.
\<close>

section \<open>Filtering\<close>

text \<open>What the predicates say of a node: the result of its piece.\<close>

definition fits_node ::
  "pods \<Rightarrow> pod_ptr \<Rightarrow> predicates \<Rightarrow> node_infos \<Rightarrow> pod_queue \<Rightarrow> v1_node \<Rightarrow> (bool \<times> failure_reason list) res" where
  "fits_node ps pod preds infos q node =
     (case map_of infos (node_Name node) of
        None \<Rightarrow> Inl (NoNodeNamed (node_Name node))
      | Some n \<Rightarrow> podFitsOnNode ps pod preds n q)"

definition fitting :: "(bool \<times> failure_reason list) res \<Rightarrow> bool" where
  "fitting r \<longleftrightarrow> (case r of Inl _ \<Rightarrow> False | Inr (fits, _) \<Rightarrow> fits)"

definition refusal :: "(bool \<times> failure_reason list) res \<Rightarrow> failure_reason list option" where
  "refusal r = (case r of Inr (False, reasons) \<Rightarrow> Some reasons | _ \<Rightarrow> None)"

lemma fits_node_name: "node_Name a = node_Name b \<Longrightarrow> fits_node ps pod preds infos q a = fits_node ps pod preds infos q b"
  by (cases "map_of infos (node_Name b)") (simp_all add: fits_node_def)

text \<open>
  The state after the pieces of the indexes \<open>D\<close>, where \<open>r i\<close> is the result of piece \<open>i\<close>.
\<close>

definition filter_inv ::
  "(nat \<Rightarrow> (bool \<times> failure_reason list) res) \<Rightarrow> v1_node list \<Rightarrow> nat set \<Rightarrow> filter_state \<Rightarrow> bool" where
  "filter_inv r nodes D st \<longleftrightarrow>
     length (fs_filtered st) = length nodes \<and>
     (\<forall>i < length nodes. fs_filtered st ! i = (if i \<in> D \<and> fitting (r i) then Some (nodes ! i) else None)) \<and>
     fs_filteredLen st = card {i \<in> D. fitting (r i)} \<and>
     (\<forall>name reasons. map_of (fs_failed st) name = Some reasons \<longleftrightarrow>
        (\<exists>i \<in> D. node_Name (nodes ! i) = name \<and> refusal (r i) = Some reasons)) \<and>
     (fs_errs st = [] \<longleftrightarrow> (\<forall>i \<in> D. \<not> isl (r i))) \<and>
     (\<forall>i \<in> D. \<forall>e. r i = Inl e \<longrightarrow> \<not> is_panic e)"

lemma filter_inv_init:
  "filter_inv r nodes {} \<lparr>fs_filtered = replicate (length nodes) None, fs_filteredLen = 0, fs_failed = [], fs_errs = []\<rparr>"
  by (simp add: filter_inv_def)

lemma count_error_not_Nil [simp]: "count_error e errs \<noteq> []"
  by (cases errs) (auto simp: count_error_def)

lemma filter_piece_eq:
  "filter_piece ps pod preds nodes infos q i st =
     (case fits_node ps pod preds infos q (nodes ! i) of
        Inl e \<Rightarrow> if is_panic e then Inl e else Inr (st\<lparr>fs_errs := count_error e (fs_errs st)\<rparr>)
      | Inr (fits, reasons) \<Rightarrow>
          if fits then
            if Suc (fs_filteredLen st) > length nodes then Inr st
            else Inr (st\<lparr>fs_filteredLen := Suc (fs_filteredLen st),
                         fs_filtered := (fs_filtered st)[i := Some (nodes ! i)]\<rparr>)
          else Inr (st\<lparr>fs_failed := AList.update (node_Name (nodes ! i)) reasons (fs_failed st)\<rparr>))"
  by (auto simp: filter_piece_def fits_node_def Let_def is_panic_def split: option.splits sum.splits)

lemma filter_inv_step:
  assumes inv: "filter_inv r nodes D st" and D: "D \<subseteq> {..<length nodes}" "i \<notin> D" "i < length nodes"
    and r: "\<And>j. r j = fits_node ps pod preds infos q (nodes ! j)"
    and step: "filter_piece ps pod preds nodes infos q i st = Inr st'"
  shows "filter_inv r nodes (insert i D) st'"
proof (cases "r i")
  case (Inl e)
  then have st': "st' = st\<lparr>fs_errs := count_error e (fs_errs st)\<rparr>"
    and np: "\<not> is_panic e"
    using step by (auto simp: filter_piece_eq r [symmetric] split: if_splits)
  have "{j \<in> insert i D. fitting (r j)} = {j \<in> D. fitting (r j)}" by (auto simp: Inl fitting_def)
  with inv Inl np show ?thesis by (auto simp: filter_inv_def st' fitting_def refusal_def)
next
  case (Inr p)
  obtain fits reasons where p: "p = (fits, reasons)" by force
  show ?thesis
  proof (cases fits)
    case True
    have fin: "finite {j \<in> D. fitting (r j)}" using D(1) finite_subset by fastforce
    have new: "{j \<in> insert i D. fitting (r j)} = insert i {j \<in> D. fitting (r j)}"
      using Inr p True by (auto simp: fitting_def)
    have "card {j \<in> D. fitting (r j)} < length nodes"
    proof -
      have "{j \<in> D. fitting (r j)} \<subset> {..<length nodes}" using D by auto
      then show ?thesis using psubset_card_mono [of "{..<length nodes}"] by simp
    qed
    then have st': "st' = st\<lparr>fs_filteredLen := Suc (fs_filteredLen st), fs_filtered := (fs_filtered st)[i := Some (nodes ! i)]\<rparr>"
      using step Inr p True inv by (auto simp: filter_piece_eq r [symmetric] filter_inv_def)
    have ri: "refusal (r i) = None" "fitting (r i)" "\<not> isl (r i)"
      using Inr p True by (simp_all add: refusal_def fitting_def)
    have "\<forall>j < length nodes. (fs_filtered st)[i := Some (nodes ! i)] ! j =
        (if j \<in> insert i D \<and> fitting (r j) then Some (nodes ! j) else None)"
      using inv ri(2) D(3) by (auto simp: filter_inv_def nth_list_update)
    with inv Inr ri fin D(2) show ?thesis
      unfolding filter_inv_def new by (auto simp: st')
  next
    case False
    then have st': "st' = st\<lparr>fs_failed := AList.update (node_Name (nodes ! i)) reasons (fs_failed st)\<rparr>"
      using step Inr p by (simp add: filter_piece_eq r [symmetric])
    have new: "{j \<in> insert i D. fitting (r j)} = {j \<in> D. fitting (r j)}"
      using Inr p False by (auto simp: fitting_def)
    have ref: "refusal (r i) = Some reasons" using Inr p False by (simp add: refusal_def)
    have same: "refusal (r j) = Some reasons" if "node_Name (nodes ! j) = node_Name (nodes ! i)" for j
      using ref fits_node_name [OF that, of ps pod preds infos q] by (simp add: r)
    have failed: "map_of (fs_failed st') name = Some rs \<longleftrightarrow>
        (\<exists>j \<in> insert i D. node_Name (nodes ! j) = name \<and> refusal (r j) = Some rs)" for name rs
    proof (cases "name = node_Name (nodes ! i)")
      case True
      with ref same show ?thesis by (auto simp: st' update_conv')
    next
      case False
      with inv show ?thesis by (auto simp: st' update_conv' filter_inv_def)
    qed
    have "\<not> fitting (r i)" "\<not> isl (r i)" using Inr p False by (simp_all add: fitting_def)
    with inv failed show ?thesis
      unfolding filter_inv_def new by (auto simp: st')
  qed
qed

lemma filter_fold:
  assumes "filter_inv r nodes D st" "D \<inter> set is = {}" "distinct is" "D \<union> set is \<subseteq> {..<length nodes}"
    and r: "\<And>j. r j = fits_node ps pod preds infos q (nodes ! j)"
  shows "case fold_res (filter_piece ps pod preds nodes infos q) is st of
      Inr st' \<Rightarrow> filter_inv r nodes (D \<union> set is) st'
    | Inl e \<Rightarrow> \<exists>i \<in> set is. r i = Inl e \<and> is_panic e"
  using assms(1-4)
proof (induction "is" arbitrary: D st)
  case (Cons i "is")
  show ?case
  proof (cases "filter_piece ps pod preds nodes infos q i st")
    case (Inl e)
    then have "r i = Inl e \<and> is_panic e"
      by (auto simp: filter_piece_eq r [symmetric] split: sum.splits if_splits prod.splits)
    with Inl show ?thesis by simp
  next
    case (Inr st')
    have "filter_inv r nodes (insert i D) st'"
      by (rule filter_inv_step [OF Cons.prems(1) _ _ _ r Inr]) (use Cons.prems in auto)
    from Cons.IH [OF this] Cons.prems Inr show ?thesis
      by (auto split: sum.splits)
  qed
qed simp

text \<open>The compacting loop keeps the nodes in order.\<close>

lemma compact_filtered_None: "compact_filtered n (None # xs) = compact_filtered n xs"
  by (cases n) (cases xs; simp)+

lemma compact_filtered_eq:
  "compact_filtered (length (filter (\<lambda>x. x \<noteq> None) xs)) xs = map the (filter (\<lambda>x. x \<noteq> None) xs)"
  by (induction xs) (auto simp: compact_filtered_None)

lemma filter_count:
  assumes "filter_inv r nodes {..<length nodes} st"
  shows "compact_filtered (fs_filteredLen st) (fs_filtered st) =
    map (\<lambda>i. nodes ! i) (filter (\<lambda>i. fitting (r i)) [0..<length nodes])"
proof -
  have list: "fs_filtered st = map (\<lambda>i. if fitting (r i) then Some (nodes ! i) else None) [0..<length nodes]"
    using assms by (intro nth_equalityI) (auto simp: filter_inv_def)
  have "length (filter (\<lambda>x. x \<noteq> None) (fs_filtered st)) = length (filter (\<lambda>i. fitting (r i)) [0..<length nodes])"
    by (simp add: list filter_map comp_def)
  also have "\<dots> = card {i. i < length nodes \<and> fitting (r i)}"
    by (subst length_filter_conv_card) (auto intro: arg_cong [of _ _ card])
  also have "\<dots> = fs_filteredLen st" using assms by (simp add: filter_inv_def)
  finally have "compact_filtered (fs_filteredLen st) (fs_filtered st) =
      map the (filter (\<lambda>x. x \<noteq> None) (fs_filtered st))"
    using compact_filtered_eq [of "fs_filtered st"] by simp
  also have "\<dots> = map (\<lambda>i. nodes ! i) (filter (\<lambda>i. fitting (r i)) [0..<length nodes])"
    by (simp add: list filter_map comp_def)
  finally show ?thesis .
qed

lemma filter_nth: "map (\<lambda>i. nodes ! i) (filter (\<lambda>i. P (nodes ! i)) [0..<length nodes]) = filter P nodes"
proof -
  have "filter P nodes = filter P (map (\<lambda>i. nodes ! i) [0..<length nodes])" by (simp add: map_nth)
  then show ?thesis by (simp add: filter_map comp_def)
qed

lemma filterWithPlugins_cases:
  assumes "preds \<noteq> []" "mset order = mset [0..<length nodes]"
  shows "case filterWithPlugins order ps pod preds nodes infos q of
      Inr (filtered, failed) \<Rightarrow>
        (\<forall>node \<in> set nodes. \<not> isl (fits_node ps pod preds infos q node)) \<and>
        filtered = filter (\<lambda>node. fitting (fits_node ps pod preds infos q node)) nodes \<and>
        (\<forall>name reasons. map_of failed name = Some reasons \<longleftrightarrow>
           (\<exists>node \<in> set nodes. node_Name node = name \<and>
              refusal (fits_node ps pod preds infos q node) = Some reasons))
    | Inl e \<Rightarrow>
        (\<exists>node \<in> set nodes. \<exists>e'. fits_node ps pod preds infos q node = Inl e' \<and>
           (is_panic e' \<longrightarrow> e = e') \<and> (\<not> is_panic e' \<longrightarrow> (\<exists>es. e = AggregateErrors es)))"
proof -
  let ?r = "\<lambda>j. fits_node ps pod preds infos q (nodes ! j)"
  let ?init = "\<lparr>fs_filtered = replicate (length nodes) None, fs_filteredLen = 0, fs_failed = [], fs_errs = []\<rparr>"
  let ?run = "fold_res (filter_piece ps pod preds nodes infos q) order ?init"
  have order: "set order = {..<length nodes}" "distinct order"
    using mset_eq_setD [OF assms(2)] mset_eq_imp_distinct_iff [OF assms(2)]
    by (simp_all add: atLeast0LessThan)
  have fold: "case ?run of Inr st' \<Rightarrow> filter_inv ?r nodes ({} \<union> set order) st'
      | Inl e \<Rightarrow> \<exists>i \<in> set order. ?r i = Inl e \<and> is_panic e"
    by (rule filter_fold [where r = ?r, OF filter_inv_init _ order(2) _ refl]) (simp_all add: order(1))
  have set_nodes: "set nodes = (\<lambda>i. nodes ! i) ` {..<length nodes}"
    using set_map [of "\<lambda>i. nodes ! i" "[0..<length nodes]"] by (simp add: map_nth atLeast0LessThan)
  consider (panic) e i where "?run = Inl e" "i < length nodes" "?r i = Inl e" "is_panic e"
    | (errs) st i e' where "?run = Inr st" "fs_errs st \<noteq> []" "i < length nodes" "?r i = Inl e'" "\<not> is_panic e'"
    | (ok) st where "?run = Inr st" "fs_errs st = []" "filter_inv ?r nodes {..<length nodes} st"
      "\<forall>i < length nodes. \<not> isl (?r i)"
  proof (cases ?run)
    case (Inl e)
    with fold order(1) show thesis by (auto intro: panic)
  next
    case (Inr st)
    with fold order(1) have inv: "filter_inv ?r nodes {..<length nodes} st" by simp
    show thesis
    proof (cases "fs_errs st = []")
      case True
      with inv Inr show thesis by (intro ok) (auto simp: filter_inv_def)
    next
      case False
      with inv obtain i where i: "i < length nodes" "isl (?r i)" by (auto simp: filter_inv_def)
      then obtain e' where "?r i = Inl e'" by (auto simp: isl_def)
      moreover from this inv i have "\<not> is_panic e'" by (auto simp: filter_inv_def)
      ultimately show thesis using errs Inr False i(1) by blast
    qed
  qed
  then show ?thesis
  proof cases
    case panic
    then have "filterWithPlugins order ps pod preds nodes infos q = Inl e"
      using assms(1) by (simp add: filterWithPlugins_def)
    with panic show ?thesis by (auto intro!: bexI [of _ "nodes ! i"] exI [of _ e])
  next
    case errs
    then have "filterWithPlugins order ps pod preds nodes infos q = Inl (AggregateErrors (fs_errs st))"
      using assms(1) by (simp add: filterWithPlugins_def)
    with errs show ?thesis by (auto intro!: bexI [of _ "nodes ! i"] exI [of _ e'])
  next
    case ok
    have filtered: "compact_filtered (fs_filteredLen st) (fs_filtered st) =
        filter (\<lambda>node. fitting (fits_node ps pod preds infos q node)) nodes"
      using filter_count [OF ok(3)] filter_nth [of nodes "\<lambda>node. fitting (fits_node ps pod preds infos q node)"]
      by simp
    have "\<forall>node \<in> set nodes. \<not> isl (fits_node ps pod preds infos q node)"
      using ok(4) by (auto simp: set_nodes)
    moreover have "map_of (fs_failed st) name = Some reasons \<longleftrightarrow>
         (\<exists>node \<in> set nodes. node_Name node = name \<and>
            refusal (fits_node ps pod preds infos q node) = Some reasons)" for name reasons
      using ok(3) by (simp add: filter_inv_def set_nodes)
    moreover have "filterWithPlugins order ps pod preds nodes infos q =
        Inr (filter (\<lambda>node. fitting (fits_node ps pod preds infos q node)) nodes, fs_failed st)"
      using ok(1,2) assms(1) filtered by (simp add: filterWithPlugins_def)
    ultimately show ?thesis by simp
  qed
qed

section \<open>Selecting the host\<close>

lemma findMaxScores_loop_spec:
  assumes "\<forall>p \<in> set pre. pri_Score p \<le> m"
    "indexes = filter (\<lambda>i. pri_Score ((pre @ rest) ! i) = m) [0..<length pre]"
  shows "\<exists>M. findMaxScores_loop m indexes (length pre) rest =
      filter (\<lambda>i. pri_Score ((pre @ rest) ! i) = M) [0..<length (pre @ rest)] \<and>
    (\<forall>p \<in> set (pre @ rest). pri_Score p \<le> M) \<and> (M = m \<or> (\<exists>p \<in> set rest. pri_Score p = M))"
  using assms
proof (induction rest arbitrary: pre m indexes)
  case Nil
  then show ?case by (intro exI [of _ m]) simp
next
  case (Cons a rest)
  let ?pre = "pre @ [a]"
  have nth: "i < length pre \<Longrightarrow> (?pre @ rest) ! i = (pre @ a # rest) ! i" for i by simp
  have a: "(?pre @ rest) ! length pre = a" by simp
  consider (more) "pri_Score a > m" | (same) "pri_Score a = m" | (fewer) "pri_Score a < m" by linarith
  then show ?case
  proof cases
    case more
    have idx: "filter (\<lambda>i. pri_Score ((?pre @ rest) ! i) = pri_Score a) [0..<length pre] = []"
    proof -
      have "pri_Score ((?pre @ rest) ! i) \<noteq> pri_Score a" if "i < length pre" for i
      proof -
        have "pri_Score (pre ! i) \<le> m" using Cons.prems(1) that by simp
        with that more show ?thesis by (simp add: nth_append)
      qed
      then show ?thesis by (simp add: filter_empty_conv)
    qed
    have "\<exists>M. findMaxScores_loop (pri_Score a) [length pre] (length ?pre) rest =
        filter (\<lambda>i. pri_Score ((?pre @ rest) ! i) = M) [0..<length (?pre @ rest)] \<and>
      (\<forall>p \<in> set (?pre @ rest). pri_Score p \<le> M) \<and> (M = pri_Score a \<or> (\<exists>p \<in> set rest. pri_Score p = M))"
      by (rule Cons.IH) (use Cons.prems(1) more idx a in auto)
    then show ?thesis
      by (rule ex_forward) (use more in \<open>auto simp del: upt_Suc\<close>)
  next
    case same
    have "\<exists>M. findMaxScores_loop m (indexes @ [length pre]) (length ?pre) rest =
        filter (\<lambda>i. pri_Score ((?pre @ rest) ! i) = M) [0..<length (?pre @ rest)] \<and>
      (\<forall>p \<in> set (?pre @ rest). pri_Score p \<le> M) \<and> (M = m \<or> (\<exists>p \<in> set rest. pri_Score p = M))"
      by (rule Cons.IH) (use Cons.prems same in \<open>auto simp: nth_append\<close>)
    then show ?thesis
      by (rule ex_forward) (use same in \<open>auto simp del: upt_Suc\<close>)
  next
    case fewer
    have "\<exists>M. findMaxScores_loop m indexes (length ?pre) rest =
        filter (\<lambda>i. pri_Score ((?pre @ rest) ! i) = M) [0..<length (?pre @ rest)] \<and>
      (\<forall>p \<in> set (?pre @ rest). pri_Score p \<le> M) \<and> (M = m \<or> (\<exists>p \<in> set rest. pri_Score p = M))"
      by (rule Cons.IH) (use Cons.prems fewer in \<open>auto simp: nth_append\<close>)
    then show ?thesis
      by (rule ex_forward) (use fewer in \<open>auto simp del: upt_Suc\<close>)
  qed
qed

lemma selectHost_spec:
  assumes "prios \<noteq> []"
  shows "\<exists>i < length prios. selectHost prios = Inr (pri_Host (prios ! i)) \<and>
    (\<forall>p \<in> set prios. pri_Score p \<le> pri_Score (prios ! i)) \<and>
    (\<forall>j. i < j \<longrightarrow> j < length prios \<longrightarrow> pri_Score (prios ! j) < pri_Score (prios ! i))"
proof -
  obtain M where M: "findMaxScores prios = filter (\<lambda>i. pri_Score (prios ! i) = M) [0..<length prios]"
    "\<forall>p \<in> set prios. pri_Score p \<le> M" "M = pri_Score (prios ! 0) \<or> (\<exists>p \<in> set prios. pri_Score p = M)"
    using findMaxScores_loop_spec [of "[]" "pri_Score (prios ! 0)" "[]" prios] by (auto simp: findMaxScores_def)
  have "\<exists>i < length prios. pri_Score (prios ! i) = M"
    using M(3) assms by (metis in_set_conv_nth length_greater_0_conv)
  then have ne: "findMaxScores prios \<noteq> []" by (auto simp: M(1) filter_empty_conv)
  let ?i = "last (findMaxScores prios)"
  have mem: "?i \<in> set (findMaxScores prios)" using ne by (rule last_in_set)
  then have i: "?i < length prios" "pri_Score (prios ! ?i) = M" by (auto simp: M(1))
  have sorted: "sorted_wrt (<) (findMaxScores prios)" by (simp add: M(1) sorted_wrt_filter)
  have "pri_Score (prios ! j) < M" if "?i < j" "j < length prios" for j
  proof (rule ccontr)
    assume "\<not> ?thesis"
    with M(2) that(2) have "pri_Score (prios ! j) = M" by (meson antisym_conv2 nth_mem)
    with that(2) have "j \<in> set (findMaxScores prios)" by (simp add: M(1))
    then obtain k where k: "k < length (findMaxScores prios)" "findMaxScores prios ! k = j" by (metis in_set_conv_nth)
    have "j \<le> ?i"
    proof (cases "k = length (findMaxScores prios) - Suc 0")
      case False
      with k(1) have "k < length (findMaxScores prios) - Suc 0" by linarith
      with k(1) have "findMaxScores prios ! k < findMaxScores prios ! (length (findMaxScores prios) - Suc 0)"
        by (intro sorted_wrt_nth_less [OF sorted]) auto
      with k(2) ne show ?thesis by (simp add: last_conv_nth)
    qed (use k(2) ne in \<open>simp add: last_conv_nth\<close>)
    with that(1) show False by simp
  qed
  with i M(2) ne show ?thesis
    by (intro exI [of _ ?i]) (simp add: selectHost_def assms Let_def last_conv_nth)
qed

section \<open>Scores\<close>

definition default_priority :: host_priority where
  "default_priority = \<lparr>pri_Host = [], pri_Score = 0\<rparr>"

text \<open>The priority a prioritizer gives a node: one with a Function is skipped by the map phase.\<close>

definition map_value :: "pods \<Rightarrow> pod_ptr \<Rightarrow> node_infos \<Rightarrow> priority_config \<Rightarrow> v1_node \<Rightarrow> host_priority" where
  "map_value ps pod infos cfg node =
     (if pcf_Function cfg \<noteq> None then default_priority
      else projr (the (pcf_Map cfg) ps pod (the (map_of infos (node_Name node)))))"

definition map_ok :: "pods \<Rightarrow> pod_ptr \<Rightarrow> node_infos \<Rightarrow> priority_config list \<Rightarrow> v1_node list \<Rightarrow> bool" where
  "map_ok ps pod infos cfgs nodes \<longleftrightarrow>
     (\<forall>node \<in> set nodes. \<exists>n. map_of infos (node_Name node) = Some n \<and>
        (\<forall>cfg \<in> set cfgs. pcf_Function cfg = None \<longrightarrow>
           (\<exists>Map hp. pcf_Map cfg = Some Map \<and> Map ps pod n = Inr hp)))"

definition results_inv ::
  "pods \<Rightarrow> pod_ptr \<Rightarrow> node_infos \<Rightarrow> priority_config list \<Rightarrow> v1_node list \<Rightarrow> nat set \<Rightarrow> prioritize_state \<Rightarrow> bool" where
  "results_inv ps pod infos cfgs nodes D st \<longleftrightarrow> prs_errs st = [] \<and> length (prs_results st) = length cfgs \<and>
     (\<forall>k < length cfgs. length (prs_results st ! k) = length nodes \<and>
        (\<forall>i < length nodes. prs_results st ! k ! i =
           (if i \<in> D then map_value ps pod infos (cfgs ! k) (nodes ! i) else default_priority)))"

lemma map_cells:
  assumes ok: "map_ok ps pod infos cfgs nodes" and i: "i < length nodes"
    and n: "map_of infos (node_Name (nodes ! i)) = Some n"
  shows "\<forall>k \<in> set ks. k < length cfgs \<Longrightarrow> length (prs_results st) = length cfgs \<Longrightarrow>
    \<exists>st'. fold_res (map_cell ps pod cfgs (node_Name (nodes ! i)) n i) ks st = Inr st' \<and>
      prs_errs st' = prs_errs st \<and> length (prs_results st') = length cfgs \<and>
      (\<forall>k < length cfgs. prs_results st' ! k =
         (if k \<in> set ks \<and> pcf_Function (cfgs ! k) = None
          then (prs_results st ! k)[i := map_value ps pod infos (cfgs ! k) (nodes ! i)]
          else prs_results st ! k))"
proof (induction ks arbitrary: st)
  case (Cons k ks)
  have k: "k < length cfgs" using Cons.prems by simp
  show ?case
  proof (cases "pcf_Function (cfgs ! k) = None")
    case False
    with Cons.IH [of st] Cons.prems show ?thesis by (force simp: map_cell_def)
  next
    case True
    have "\<exists>Map hp. pcf_Map cfg = Some Map \<and> Map ps pod n = Inr hp"
      if "cfg \<in> set cfgs" "pcf_Function cfg = None" for cfg
      using ok nth_mem [OF i] n that unfolding map_ok_def by fastforce
    from this [OF nth_mem [OF k] True]
    obtain Map hp where m: "pcf_Map (cfgs ! k) = Some Map" "Map ps pod n = Inr hp" by blast
    have hp: "map_value ps pod infos (cfgs ! k) (nodes ! i) = hp" using True m n by (simp add: map_value_def)
    let ?st = "set_result k i hp st"
    have len: "length (prs_results ?st) = length cfgs" using Cons.prems by (simp add: set_result_def)
    from Cons.IH [OF _ len] Cons.prems obtain st' where st':
      "fold_res (map_cell ps pod cfgs (node_Name (nodes ! i)) n i) ks ?st = Inr st'"
      "prs_errs st' = prs_errs ?st" "length (prs_results st') = length cfgs"
      "\<forall>j < length cfgs. prs_results st' ! j =
         (if j \<in> set ks \<and> pcf_Function (cfgs ! j) = None
          then (prs_results ?st ! j)[i := map_value ps pod infos (cfgs ! j) (nodes ! i)]
          else prs_results ?st ! j)" by auto
    have "map_cell ps pod cfgs (node_Name (nodes ! i)) n i k st = Inr ?st"
      using True m by (simp add: map_cell_def)
    with st' Cons.prems k True hp show ?thesis
      by (intro exI [of _ st']) (auto simp: set_result_def nth_list_update)
  qed
qed simp

lemma map_pieces:
  assumes ok: "map_ok ps pod infos cfgs nodes"
  shows "results_inv ps pod infos cfgs nodes D st \<Longrightarrow> set is \<subseteq> {..<length nodes} \<Longrightarrow>
    \<exists>st'. fold_res (map_piece ps pod cfgs nodes infos) is st = Inr st' \<and>
      results_inv ps pod infos cfgs nodes (D \<union> set is) st'"
proof (induction "is" arbitrary: D st)
  case (Cons i "is")
  have i: "i < length nodes" using Cons.prems by simp
  then obtain n where n: "map_of infos (node_Name (nodes ! i)) = Some n" using ok by (fastforce simp: map_ok_def)
  have len: "length (prs_results st) = length cfgs" using Cons.prems by (simp add: results_inv_def)
  obtain st1 where st1: "fold_res (map_cell ps pod cfgs (node_Name (nodes ! i)) n i) [0..<length cfgs] st = Inr st1"
    "prs_errs st1 = prs_errs st" "length (prs_results st1) = length cfgs"
    "\<forall>k < length cfgs. prs_results st1 ! k = (if pcf_Function (cfgs ! k) = None
       then (prs_results st ! k)[i := map_value ps pod infos (cfgs ! k) (nodes ! i)] else prs_results st ! k)"
    using map_cells [OF ok i n, of "[0..<length cfgs]" st] len by auto
  have "results_inv ps pod infos cfgs nodes (insert i D) st1"
    unfolding results_inv_def
  proof (intro conjI allI impI)
    fix k assume k: "k < length cfgs"
    then show "length (prs_results st1 ! k) = length nodes"
      using Cons.prems(1) st1(4) by (simp add: results_inv_def)
    fix j assume j: "j < length nodes"
    show "prs_results st1 ! k ! j =
        (if j \<in> insert i D then map_value ps pod infos (cfgs ! k) (nodes ! j) else default_priority)"
    proof (cases "pcf_Function (cfgs ! k) = None")
      case True
      with st1(4) k j Cons.prems(1) i show ?thesis by (auto simp: results_inv_def nth_list_update)
    next
      case False
      then have "map_value ps pod infos (cfgs ! k) (nodes ! j) = default_priority" by (simp add: map_value_def)
      with False st1(4) k j Cons.prems(1) show ?thesis by (auto simp: results_inv_def)
    qed
  qed (use Cons.prems(1) st1 in \<open>auto simp: results_inv_def\<close>)
  from Cons.IH [OF this] Cons.prems(2) st1(1) n show ?case by (simp add: map_piece_def)
qed simp

text \<open>The list of a prioritizer after the reduce phase.\<close>

definition final_list :: "pods \<Rightarrow> pod_ptr \<Rightarrow> node_infos \<Rightarrow> v1_node list \<Rightarrow> priority_config \<Rightarrow> host_priority list" where
  "final_list ps pod infos nodes cfg =
     (let mapped = map (map_value ps pod infos cfg) nodes
      in case pcf_Reduce cfg of None \<Rightarrow> mapped | Some Reduce \<Rightarrow> projr (Reduce ps pod infos mapped))"

definition reduce_ok :: "pods \<Rightarrow> pod_ptr \<Rightarrow> node_infos \<Rightarrow> priority_config list \<Rightarrow> v1_node list \<Rightarrow> bool" where
  "reduce_ok ps pod infos cfgs nodes \<longleftrightarrow>
     (\<forall>cfg \<in> set cfgs. \<forall>Reduce. pcf_Reduce cfg = Some Reduce \<longrightarrow>
        (\<exists>l. Reduce ps pod infos (map (map_value ps pod infos cfg) nodes) = Inr l))"

lemma reduce_pieces:
  assumes ok: "reduce_ok ps pod infos cfgs nodes"
  shows "distinct ks \<Longrightarrow> \<forall>k \<in> set ks. k < length cfgs \<Longrightarrow> length (prs_results st) = length cfgs \<Longrightarrow>
    \<forall>k \<in> set ks. prs_results st ! k = map (map_value ps pod infos (cfgs ! k)) nodes \<Longrightarrow>
    \<exists>st'. fold_res (reduce_piece ps pod cfgs infos) ks st = Inr st' \<and> prs_errs st' = prs_errs st \<and>
      length (prs_results st') = length cfgs \<and>
      (\<forall>k < length cfgs. prs_results st' ! k =
         (if k \<in> set ks then final_list ps pod infos nodes (cfgs ! k) else prs_results st ! k))"
proof (induction ks arbitrary: st)
  case (Cons k ks)
  have k: "k < length cfgs" and cur: "prs_results st ! k = map (map_value ps pod infos (cfgs ! k)) nodes"
    using Cons.prems by simp_all
  have "cfgs ! k \<in> set cfgs" using k by simp
  then have "\<exists>st1. reduce_piece ps pod cfgs infos k st = Inr st1 \<and> prs_errs st1 = prs_errs st \<and>
      prs_results st1 = (prs_results st)[k := final_list ps pod infos nodes (cfgs ! k)]"
  proof (cases "pcf_Reduce (cfgs ! k)")
    case None
    have "(prs_results st)[k := map (map_value ps pod infos (cfgs ! k)) nodes] = prs_results st"
      using list_update_id [of "prs_results st" k] by (simp only: cur)
    with None show ?thesis by (simp add: reduce_piece_def final_list_def)
  next
    case (Some Reduce)
    with ok \<open>cfgs ! k \<in> set cfgs\<close> obtain l
      where "Reduce ps pod infos (map (map_value ps pod infos (cfgs ! k)) nodes) = Inr l"
      unfolding reduce_ok_def by blast
    with Some cur show ?thesis by (simp add: reduce_piece_def final_list_def)
  qed
  then obtain st1 where st1: "reduce_piece ps pod cfgs infos k st = Inr st1" "prs_errs st1 = prs_errs st"
    "prs_results st1 = (prs_results st)[k := final_list ps pod infos nodes (cfgs ! k)]" by blast
  have "\<exists>st'. fold_res (reduce_piece ps pod cfgs infos) ks st1 = Inr st' \<and> prs_errs st' = prs_errs st1 \<and>
      length (prs_results st') = length cfgs \<and>
      (\<forall>j < length cfgs. prs_results st' ! j =
         (if j \<in> set ks then final_list ps pod infos nodes (cfgs ! j) else prs_results st1 ! j))"
    by (rule Cons.IH) (use Cons.prems st1 in \<open>auto simp: nth_list_update\<close>)
  with st1 Cons.prems(3) k show ?case by (auto simp: nth_list_update)
qed simp

lemma sum_scores_eq:
  "sum_scores cfgs results i score ks =
     (if ks = [] then score
      else i64 (score + (\<Sum>k\<leftarrow>ks. pri_Score (results ! k ! i) * pcf_Weight (cfgs ! k))))"
proof (induction ks arbitrary: score)
  case (Cons k ks)
  let ?v = "pri_Score (results ! k ! i) * pcf_Weight (cfgs ! k)"
  have "i64 (score + i64 ?v) = i64 (score + ?v)"
    using i64_add_left [of ?v score] by (simp add: add.commute)
  with Cons.IH show ?case by (simp add: i64_add_left add.assoc)
qed simp

lemma prioritizeWithPlugins_eq:
  assumes "mset order = mset [0..<length nodes]" "map_ok ps pod infos cfgs nodes" "reduce_ok ps pod infos cfgs nodes"
  shows "prioritizeWithPlugins order ps pod cfgs nodes infos =
    Inr (map (\<lambda>i. \<lparr>pri_Host = node_Name (nodes ! i), pri_Score =
           i64 (\<Sum>cfg\<leftarrow>cfgs. pri_Score (final_list ps pod infos nodes cfg ! i) * pcf_Weight cfg)\<rparr>)
         [0..<length nodes])"
proof -
  let ?init = "\<lparr>prs_results = replicate (length cfgs) (replicate (length nodes) \<lparr>pri_Host = [], pri_Score = 0\<rparr>),
      prs_errs = []\<rparr>"
  have order: "set order = {..<length nodes}" using mset_eq_setD [OF assms(1)] by (simp add: atLeast0LessThan)
  have "results_inv ps pod infos cfgs nodes {} ?init" by (simp add: results_inv_def default_priority_def)
  from map_pieces [OF assms(2) this, of order] order obtain st where
    st: "fold_res (map_piece ps pod cfgs nodes infos) order ?init = Inr st"
      "results_inv ps pod infos cfgs nodes {..<length nodes} st" by auto
  have cur: "prs_results st ! k = map (map_value ps pod infos (cfgs ! k)) nodes" if "k < length cfgs" for k
    using st(2) that by (intro nth_equalityI) (auto simp: results_inv_def)
  have len: "length (prs_results st) = length cfgs" "prs_errs st = []" using st(2) by (simp_all add: results_inv_def)
  obtain st' where st': "fold_res (reduce_piece ps pod cfgs infos) [0..<length cfgs] st = Inr st'"
    "prs_errs st' = []" "\<forall>k < length cfgs. prs_results st' ! k = final_list ps pod infos nodes (cfgs ! k)"
    using reduce_pieces [OF assms(3), of "[0..<length cfgs]" st] cur len by auto
  have "sum_scores cfgs (prs_results st') i 0 [0..<length cfgs] =
      i64 (\<Sum>cfg\<leftarrow>cfgs. pri_Score (final_list ps pod infos nodes cfg ! i) * pcf_Weight cfg)" for i
  proof -
    have "(\<Sum>k\<leftarrow>[0..<length cfgs]. pri_Score (prs_results st' ! k ! i) * pcf_Weight (cfgs ! k)) =
        (\<Sum>k\<leftarrow>[0..<length cfgs]. pri_Score (final_list ps pod infos nodes (cfgs ! k) ! i) * pcf_Weight (cfgs ! k))"
      using st'(3) by (intro arg_cong [of _ _ sum_list] map_cong) auto
    also have "\<dots> = (\<Sum>cfg\<leftarrow>map (\<lambda>k. cfgs ! k) [0..<length cfgs].
        pri_Score (final_list ps pod infos nodes cfg ! i) * pcf_Weight cfg)" by (simp add: comp_def)
    finally show ?thesis by (auto simp: sum_scores_eq map_nth i64_id in64_def)
  qed
  with st st' show ?thesis by (simp add: prioritizeWithPlugins_def)
qed

end
