(* ===== verification/SchedulerProperties.thy ===== *)
theory SchedulerProperties
  imports FilterProperties
begin

text \<open>
  Properties of placing one pod: what a node must pass to be kept, which nodes are kept, which is chosen,
  and when the answer is that the pod fits nowhere. The witnesses use the surroundings \<open>demo_sched_env\<close>,
  a scheduler with one predicate and one prioritizer, and three nodes.
\<close>

section \<open>Predicates of a node\<close>

definition accepts :: "predicates \<Rightarrow> pods \<Rightarrow> pod_ptr \<Rightarrow> node_info \<Rightarrow> bool" where
  "accepts preds ps pod n \<longleftrightarrow> (\<forall>p \<in> set preds. \<exists>reasons. snd p ps pod n = Inr (True, reasons))"

definition gives_reasons :: "predicates \<Rightarrow> pods \<Rightarrow> pod_ptr \<Rightarrow> bool" where
  "gives_reasons preds ps pod \<longleftrightarrow> (\<forall>p \<in> set preds. \<forall>n. snd p ps pod n \<noteq> Inr (False, []))"

lemma run_predicates_accepts:
  "gives_reasons preds ps pod \<Longrightarrow> run_predicates ps pod n preds = Inr [] \<longleftrightarrow> accepts preds ps pod n"
proof (induction preds)
  case (Cons p preds)
  obtain name pred where p: "p = (name, pred)" by force
  have IH: "run_predicates ps pod n preds = Inr [] \<longleftrightarrow> accepts preds ps pod n"
    using Cons by (simp add: gives_reasons_def)
  show ?case
  proof (cases "pred ps pod n")
    case (Inr r)
    obtain fit reasons where r: "r = (fit, reasons)" by force
    have "fit \<or> reasons \<noteq> []" using Cons.prems Inr r by (auto simp: gives_reasons_def p)
    with IH Inr r show ?thesis by (cases fit) (simp_all add: p accepts_def)
  qed (simp add: p accepts_def)
qed (simp add: accepts_def)

definition with_nominated :: "pods \<Rightarrow> pod_ptr \<Rightarrow> node_info \<Rightarrow> pod_queue \<Rightarrow> string \<Rightarrow> node_info" where
  "with_nominated ps pod n q name = add_nominated ps pod n (Queue_NominatedPods q name)"

lemma podFitsOnNode_cases:
  assumes "ni_node n = Some node" "gives_reasons preds ps pod"
  shows "(\<exists>reasons. podFitsOnNode ps pod preds n q = Inr (True, reasons)) \<longleftrightarrow>
    accepts preds ps pod (with_nominated ps pod n q (node_Name node)) \<and> accepts preds ps pod n"
proof (cases "Queue_NominatedPods q (node_Name node) = []")
  case True
  with assms show ?thesis
    using run_predicates_accepts [OF assms(2), of n]
    by (cases "run_predicates ps pod n preds")
      (auto simp: podFitsOnNode_def addNominatedPods_def with_nominated_def)
next
  case False
  let ?m = "with_nominated ps pod n q (node_Name node)"
  have added: "addNominatedPods ps pod n q = Inr (True, ?m)"
    using assms(1) False by (simp add: addNominatedPods_def with_nominated_def NodeInfo_Clone_def Let_def)
  show ?thesis
    using run_predicates_accepts [OF assms(2), of n] run_predicates_accepts [OF assms(2), of ?m]
    by (cases "run_predicates ps pod ?m preds"; cases "run_predicates ps pod n preds")
      (auto simp: podFitsOnNode_def added)
qed

section \<open>Surroundings for the witnesses\<close>

fun insert_before :: "('a \<Rightarrow> 'a \<Rightarrow> bool) \<Rightarrow> 'a \<Rightarrow> 'a list \<Rightarrow> 'a list" where
  "insert_before before x [] = [x]"
| "insert_before before x (y # ys) = (if before y x then y # insert_before before x ys else x # y # ys)"

definition sort_before :: "('a \<Rightarrow> 'a \<Rightarrow> bool) \<Rightarrow> 'a list \<Rightarrow> 'a list" where
  "sort_before before xs = foldr (insert_before before) xs []"

lemma insert_before_mset [simp]: "mset (insert_before before x xs) = add_mset x (mset xs)"
  by (induction xs) auto

lemma insert_before_sorted:
  assumes "asymp before" "transp (\<lambda>x y. \<not> before y x)" "sorted_wrt (\<lambda>x y. \<not> before y x) xs"
  shows "sorted_wrt (\<lambda>x y. \<not> before y x) (insert_before before x xs)"
  using assms(3)
proof (induction xs)
  case (Cons y ys)
  show ?case
  proof (cases "before y x")
    case True
    have "set (insert_before before x ys) = insert x (set ys)"
      using insert_before_mset [of before x ys] by (metis set_mset_add_mset_insert set_mset_mset)
    moreover have "\<not> before x y" using True assms(1) by (auto dest: asympD)
    ultimately show ?thesis using True Cons by auto
  next
    case False
    with Cons.prems assms(2) show ?thesis by (auto dest: transpD)
  qed
qed simp

lemma sort_before_spec:
  assumes "asymp before" "transp (\<lambda>x y. \<not> before y x)"
  shows "mset (sort_before before xs) = mset xs \<and> sorted_wrt (\<lambda>x y. \<not> before y x) (sort_before before xs)"
proof -
  have "mset (foldr (insert_before before) xs []) = mset xs \<and>
      sorted_wrt (\<lambda>x y. \<not> before y x) (foldr (insert_before before) xs [])"
    by (induction xs) (auto intro: insert_before_sorted [OF assms])
  then show ?thesis by (simp add: sort_before_def)
qed

definition demo_sched_env :: sched_env where
  "demo_sched_env = \<lparr>se_order = (\<lambda>n. rev [0..<n]), se_sort = sort_before, se_range = (\<lambda>m. m),
     se_Error = (\<lambda>_. ''error''), se_KeepScheduling = False, se_KeepSchedulingTimeout = 10\<rparr>"

lemma demo_sched_env_ok: "env_ok demo_sched_env"
  using sort_before_spec by (auto simp: env_ok_def demo_sched_env_def)

text \<open>A predicate on the number of pods, and a prioritizer that prefers empty nodes.\<close>

definition max_pods_pred :: "nat \<Rightarrow> fit_predicate" where
  "max_pods_pred m ps pod n =
     (if length (ni_pods n) < m then Inr (True, [])
      else Inr (False, [InsufficientResource ''pods'' 1 (int (length (ni_pods n))) (int m)]))"

definition fewest_pods_map :: "pods \<Rightarrow> pod_ptr \<Rightarrow> node_info \<Rightarrow> host_priority res" where
  "fewest_pods_map ps pod n =
     Inr \<lparr>pri_Host = (case ni_node n of None \<Rightarrow> [] | Some node \<Rightarrow> node_Name node),
          pri_Score = 10 - int (length (ni_pods n))\<rparr>"

definition fewest_pods :: priority_config where
  "fewest_pods = \<lparr>pcf_Map = Some fewest_pods_map, pcf_Reduce = None, pcf_Function = None, pcf_Weight = 2\<rparr>"

definition demo_scheduler :: generic_scheduler where
  "demo_scheduler = AddPrioritizer (AddPredicate (NewGenericScheduler True) ''pods'' (max_pods_pred 2)) fewest_pods"

definition node0 :: v1_node where "node0 = \<lparr>node_Name = ''n0'', node_Allocatable = []\<rparr>"
definition node1 :: v1_node where "node1 = \<lparr>node_Name = ''n1'', node_Allocatable = []\<rparr>"
definition node2 :: v1_node where "node2 = \<lparr>node_Name = ''n2'', node_Allocatable = []\<rparr>"

definition three_nodes :: "v1_node list" where
  "three_nodes = [node0, node1, node2]"

definition node_with_pods :: "v1_node \<Rightarrow> pod_ptr list \<Rightarrow> node_info" where
  "node_with_pods node pods = empty_node_info\<lparr>ni_node := Some node, ni_pods := pods\<rparr>"

definition three_infos :: node_infos where
  "three_infos = [(''n0'', node_with_pods node0 [7]), (''n1'', node_with_pods node1 []),
     (''n2'', node_with_pods node2 [8, 9])]"

abbreviation no_pods :: pods where "no_pods \<equiv> \<lambda>_. empty_pod"

abbreviation empty_queue :: pod_queue where "empty_queue \<equiv> Fifo NewFIFOQueue"

section \<open>Properties\<close>

text \<open>
  A node fits a pod exactly if every predicate accepts it both as it is and with the pods nominated
  to it (of no lower priority) added, so the order in which the predicates run does not matter; for
  predicates that give a reason when they refuse and a NodeInfo with its node.
\<close>

theorem pod_fits_iff:
  assumes "ni_node n = Some node" "gives_reasons preds ps pod"
  shows "(\<exists>reasons. podFitsOnNode ps pod preds n q = Inr (True, reasons)) \<longleftrightarrow>
    accepts preds ps pod (with_nominated ps pod n q (node_Name node)) \<and> accepts preds ps pod n"
  by (rule podFitsOnNode_cases [OF assms])

theorem pod_fits_iff_witness:
  "(\<exists>reasons. podFitsOnNode no_pods 5 [(''pods'', max_pods_pred 2)] (node_with_pods node0 [7])
      empty_queue = Inr (True, reasons)) \<and>
   \<not> (\<exists>reasons. podFitsOnNode no_pods 5 [(''pods'', max_pods_pred 2)] (node_with_pods node2 [8, 9])
      empty_queue = Inr (True, reasons))"
proof -
  have g: "gives_reasons [(''pods'', max_pods_pred 2)] no_pods 5"
    by (auto simp: gives_reasons_def max_pods_pred_def)
  have n: "ni_node (node_with_pods v pods) = Some v" "ni_pods (node_with_pods v pods) = pods" for v pods
    by (simp_all add: node_with_pods_def)
  have w: "with_nominated no_pods p m empty_queue name = m" for p m name
    by (simp add: with_nominated_def Queue_NominatedPods_def FIFOQueue_NominatedPods_def NewFIFOQueue_def)
  show ?thesis
    using pod_fits_iff [OF n(1) g, of node0 "[7]" empty_queue] pod_fits_iff [OF n(1) g, of node2 "[8, 9]" empty_queue]
    by (simp add: w n accepts_def max_pods_pred_def)
qed

text \<open>
  A predicate that refuses a node without giving a reason counts as if it had accepted it, and the
  predicates after it are not asked: the verdict is read off the list of reasons.
\<close>

theorem refusal_without_reason_fits:
  "podFitsOnNode ps pod [(''mute'', \<lambda>ps pod n. Inr (False, [])), (''pods'', max_pods_pred 0)]
     (node_with_pods node pods) empty_queue = Inr (True, [])"
  by (simp add: podFitsOnNode_def addNominatedPods_def node_with_pods_def Queue_NominatedPods_def
      FIFOQueue_NominatedPods_def NewFIFOQueue_def Let_def)

text \<open>
  C17: Filtering returns, in the order of the node list, exactly the nodes that fit, and the map of failed
  predicates holds exactly the reasons of the others; it fails only if some node has no NodeInfo or a
  predicate fails on it. This holds for every order in which the workers commit their results.
\<close>

theorem filter_exact:
  assumes "preds \<noteq> []" "mset order = mset [0..<length nodes]"
  shows "case filterWithPlugins order ps pod preds nodes infos q of
      Inr (filtered, failed) \<Rightarrow>
        (\<forall>node \<in> set nodes. \<not> isl (fits_node ps pod preds infos q node)) \<and>
        filtered = filter (\<lambda>node. fitting (fits_node ps pod preds infos q node)) nodes \<and>
        (\<forall>name reasons. map_of failed name = Some reasons \<longleftrightarrow>
           (\<exists>node \<in> set nodes. node_Name node = name \<and>
              refusal (fits_node ps pod preds infos q node) = Some reasons))
    | Inl e \<Rightarrow>
        (\<exists>node \<in> set nodes. \<exists>e'. fits_node ps pod preds infos q node = Inl e' \<and>
           (is_panic e' \<longrightarrow> e = e') \<and> (\<not> is_panic e' \<longrightarrow> (\<exists>es. e = AggregateErrors es)))"
  by (rule filterWithPlugins_cases [OF assms])

lemma demo_fits:
  "fits_node no_pods 5 [(''pods'', max_pods_pred 2)] three_infos empty_queue node0 = Inr (True, [])"
  "fits_node no_pods 5 [(''pods'', max_pods_pred 2)] three_infos empty_queue node1 = Inr (True, [])"
  "fits_node no_pods 5 [(''pods'', max_pods_pred 2)] three_infos empty_queue node2 =
     Inr (False, [InsufficientResource ''pods'' 1 2 2])"
  by (simp_all add: fits_node_def three_infos_def node0_def node1_def node2_def podFitsOnNode_def addNominatedPods_def
      node_with_pods_def Queue_NominatedPods_def FIFOQueue_NominatedPods_def NewFIFOQueue_def Let_def
      max_pods_pred_def)

lemma demo_filter:
  "filter (\<lambda>node. fitting (fits_node no_pods 5 [(''pods'', max_pods_pred 2)] three_infos empty_queue node))
     three_nodes = [node0, node1]"
  by (simp add: three_nodes_def demo_fits fitting_def)

theorem filter_exact_witness:
  "\<exists>failed. filterWithPlugins [1, 2, 0] no_pods 5 [(''pods'', max_pods_pred 2)] three_nodes three_infos
     empty_queue = Inr ([node0, node1], failed)"
proof -
  let ?preds = "[(''pods'', max_pods_pred 2)]"
  have "mset [1, 2, 0] = mset [0..<length three_nodes]" by (simp add: three_nodes_def upt_rec)
  from filter_exact [OF _ this, of ?preds no_pods 5 three_infos empty_queue]
  have c: "case filterWithPlugins [1, 2, 0] no_pods 5 ?preds three_nodes three_infos empty_queue of
      Inr (filtered, failed) \<Rightarrow> filtered = [node0, node1]
    | Inl e \<Rightarrow> \<exists>node \<in> set three_nodes. \<exists>e'. fits_node no_pods 5 ?preds three_infos empty_queue node = Inl e'"
    by (auto simp: demo_filter split: sum.splits prod.splits)
  have "\<forall>node \<in> set three_nodes. \<not> isl (fits_node no_pods 5 ?preds three_infos empty_queue node)"
    by (simp add: three_nodes_def demo_fits)
  with c show ?thesis by (auto split: sum.splits prod.splits)
qed

text \<open>
  The order in which the workers commit does not matter: if filtering succeeds in one order it
  succeeds in every other, with the same nodes and the same map of failed predicates.
\<close>

theorem filter_order_irrelevant:
  assumes "mset order = mset [0..<length nodes]" "mset order' = mset [0..<length nodes]"
    "filterWithPlugins order ps pod preds nodes infos q = Inr (filtered, failed)"
  shows "\<exists>failed'. filterWithPlugins order' ps pod preds nodes infos q = Inr (filtered, failed') \<and>
    map_of failed' = map_of failed"
proof (cases "preds = []")
  case True
  with assms(3) show ?thesis by (simp add: filterWithPlugins_def)
next
  case False
  note c = filterWithPlugins_cases [OF False assms(1), of ps pod infos q]
  note c' = filterWithPlugins_cases [OF False assms(2), of ps pod infos q]
  have ok: "\<forall>node \<in> set nodes. \<not> isl (fits_node ps pod preds infos q node)" using c assms(3) by simp
  show ?thesis
  proof (cases "filterWithPlugins order' ps pod preds nodes infos q")
    case (Inl e)
    with c' ok show ?thesis by (auto simp: isl_def)
  next
    case (Inr r)
    obtain filtered' failed' where r: "r = (filtered', failed')" by force
    have "map_of failed' name = Some rs \<longleftrightarrow> map_of failed name = Some rs" for name rs
      using c c' assms(3) Inr r by simp
    then have "map_of failed' = map_of failed" by (metis (no_types) not_None_eq ext)
    with c c' assms(3) Inr r show ?thesis by simp
  qed
qed

theorem filter_order_irrelevant_witness:
  "\<exists>failed failed'. filterWithPlugins [1, 2, 0] no_pods 5 [(''pods'', max_pods_pred 2)] three_nodes three_infos
       empty_queue = Inr ([node0, node1], failed) \<and>
     filterWithPlugins [2, 1, 0] no_pods 5 [(''pods'', max_pods_pred 2)] three_nodes three_infos
       empty_queue = Inr ([node0, node1], failed') \<and> map_of failed' = map_of failed"
proof -
  have perm: "mset [1, 2, 0] = mset [0..<length three_nodes]" "mset [2, 1, 0] = mset [0..<length three_nodes]"
    by (simp_all add: three_nodes_def upt_rec)
  have "filterWithPlugins [1, 2, 0] no_pods 5 [(''pods'', max_pods_pred 2)] three_nodes three_infos
      empty_queue = Inr ([node0, node1], [(''n2'', [InsufficientResource ''pods'' 1 2 2])])"
    by code_simp
  from this filter_order_irrelevant [OF perm this] show ?thesis by blast
qed

section \<open>Choosing a node\<close>

text \<open>The feasible nodes, and the weighted score of the i-th of them.\<close>

definition feasible :: "generic_scheduler \<Rightarrow> pods \<Rightarrow> pod_ptr \<Rightarrow> node_infos \<Rightarrow> pod_queue \<Rightarrow> v1_node list \<Rightarrow> v1_node list" where
  "feasible sched ps pod infos q nodes =
     filter (\<lambda>node. fitting (fits_node ps pod (gs_predicates sched) infos q node)) nodes"

definition node_score :: "generic_scheduler \<Rightarrow> pods \<Rightarrow> pod_ptr \<Rightarrow> node_infos \<Rightarrow> v1_node list \<Rightarrow> nat \<Rightarrow> int" where
  "node_score sched ps pod infos nodes i =
     i64 (\<Sum>cfg\<leftarrow>gs_prioritizers sched. pri_Score (final_list ps pod infos nodes cfg ! i) * pcf_Weight cfg)"

definition scores_ok :: "generic_scheduler \<Rightarrow> pods \<Rightarrow> pod_ptr \<Rightarrow> node_infos \<Rightarrow> v1_node list \<Rightarrow> bool" where
  "scores_ok sched ps pod infos nodes \<longleftrightarrow> map_ok ps pod infos (gs_prioritizers sched) nodes \<and>
     reduce_ok ps pod infos (gs_prioritizers sched) nodes"

text \<open>The host is a node that was kept, whatever the prioritizers do.\<close>

lemma prioritizeWithPlugins_hosts:
  "prioritizeWithPlugins order ps pod cfgs nodes infos = Inr prios \<Longrightarrow>
     length prios = length nodes \<and> (\<forall>i < length nodes. pri_Host (prios ! i) = node_Name (nodes ! i))"
  unfolding prioritizeWithPlugins_def res_bind_Inr_iff
  by (elim exE conjE) (simp split: if_split_asm, clarsimp)

lemma fold_res_Inl: "fold_res f xs s = Inl e \<Longrightarrow> \<exists>x \<in> set xs. \<exists>s. f x s = Inl e"
  by (induction xs arbitrary: s) (auto simp: res_bind_Inl_iff)

text \<open>Only a panic or an aggregate of errors comes out of the prioritizers.\<close>

lemma map_cell_Inl: "map_cell ps pod cfgs name n i k st = Inl e \<Longrightarrow> is_panic e"
  by (auto simp: map_cell_def split: if_splits option.splits sum.splits)

lemma map_piece_Inl: "map_piece ps pod cfgs nodes infos i st = Inl e \<Longrightarrow> is_panic e"
  by (auto simp: map_piece_def Let_def split: option.splits dest!: fold_res_Inl map_cell_Inl)

lemma reduce_piece_Inl: "reduce_piece ps pod cfgs infos k st = Inl e \<Longrightarrow> is_panic e"
  by (auto simp: reduce_piece_def split: if_splits option.splits sum.splits)

lemma prioritizeWithPlugins_Inl:
  "prioritizeWithPlugins order ps pod cfgs nodes infos = Inl e \<Longrightarrow> is_panic e \<or> (\<exists>es. e = AggregateErrors es)"
  unfolding prioritizeWithPlugins_def res_bind_Inl_iff
proof (elim disjE exE conjE)
  fix st
  assume "fold_res (map_piece ps pod cfgs nodes infos) order st = Inl e"
  then show ?thesis using fold_res_Inl map_piece_Inl by metis
next
  fix st
  assume "fold_res (reduce_piece ps pod cfgs infos) [0..<length cfgs] st = Inl e"
  then show ?thesis using fold_res_Inl reduce_piece_Inl by metis
next
  fix st
  show "(if prs_errs st \<noteq> [] then Inl (AggregateErrors (map (\<lambda>e. (e, 1)) (prs_errs st)))
      else Inr (map (\<lambda>nodeIdx. \<lparr>pri_Host = node_Name (nodes ! nodeIdx), pri_Score =
        sum_scores cfgs (prs_results st) nodeIdx 0 [0..<length cfgs]\<rparr>) [0..<length nodes])) = Inl e \<Longrightarrow> ?thesis"
    by (cases "prs_errs st = []") auto
qed

lemma equal_priorities_Inl:
  "equal_priorities infos nodes = Inl e \<Longrightarrow> \<exists>s. e = NoNodeNamed s \<or> e = ResultError s"
  by (induction nodes) (auto simp: res_bind_Inl_iff EqualPriorityMap_def split: option.splits)

lemma sched_prioritize_no_FitError:
  "gs_extenders sched = [] \<Longrightarrow> sched_prioritize env sched ps pod nodes infos \<noteq> Inl (FitError p n failed)"
  using equal_priorities_Inl [of infos nodes "FitError p n failed"]
    prioritizeWithPlugins_Inl [of "se_order env (length nodes)" ps pod "gs_prioritizers sched" nodes infos
      "FitError p n failed"]
  by (cases "gs_prioritizers sched = []") (auto simp: sched_prioritize_def res_bind_Inl_iff)

text \<open>Names in the map of NodeInfos agree with the nodes in it.\<close>

definition infos_ok :: "node_infos \<Rightarrow> bool" where
  "infos_ok infos \<longleftrightarrow> (\<forall>name n node. map_of infos name = Some n \<longrightarrow> ni_node n = Some node \<longrightarrow> node_Name node = name)"

lemma equal_priorities_hosts:
  assumes "infos_ok infos"
  shows "equal_priorities infos nodes = Inr prios \<Longrightarrow>
   length prios = length nodes \<and> (\<forall>i < length nodes. pri_Host (prios ! i) = node_Name (nodes ! i))"
proof (induction nodes arbitrary: prios)
  case (Cons node nodes)
  then obtain n node' rest where n: "map_of infos (node_Name node) = Some n" "ni_node n = Some node'"
    "equal_priorities infos nodes = Inr rest" "prios = \<lparr>pri_Host = node_Name node', pri_Score = 1\<rparr> # rest"
    by (auto simp: res_bind_Inr_iff EqualPriorityMap_def split: option.splits)
  have "node_Name node' = node_Name node" using assms n(1,2) unfolding infos_ok_def by blast
  with Cons.IH [OF n(3)] n(4) show ?case by (auto simp: nth_Cons split: nat.splits)
qed simp

lemma sched_prioritize_hosts:
  assumes "gs_extenders sched = []" "infos_ok infos" "sched_prioritize env sched ps pod nodes infos = Inr prios"
  shows "length prios = length nodes \<and> (\<forall>i < length nodes. pri_Host (prios ! i) = node_Name (nodes ! i))"
proof (cases "gs_prioritizers sched = []")
  case True
  with assms(1,3) have "equal_priorities infos nodes = Inr prios" by (simp add: sched_prioritize_def)
  then show ?thesis by (rule equal_priorities_hosts [OF assms(2)])
next
  case False
  with assms(1,3) have "prioritizeWithPlugins (se_order env (length nodes)) ps pod (gs_prioritizers sched) nodes infos = Inr prios"
    by (auto simp: sched_prioritize_def res_bind_Inr_iff)
  then show ?thesis by (rule prioritizeWithPlugins_hosts)
qed

lemma env_ok_order: "env_ok env \<Longrightarrow> mset (se_order env n) = mset [0..<n]"
  by (simp add: env_ok_def)

lemma sched_filter_feasible:
  assumes "env_ok env" "gs_extenders sched = []" "gs_predicates sched \<noteq> []"
    "sched_filter env sched ps pod nodes infos q = Inr (filtered, failed)"
  shows "filtered = feasible sched ps pod infos q nodes"
  using filterWithPlugins_cases [OF assms(3) env_ok_order [OF assms(1), of "length nodes"], of ps pod infos q] assms(2,4)
  by (auto simp: sched_filter_def res_bind_Inr_iff feasible_def)

lemma scheduleOne_host:
  assumes "env_ok env" "gs_extenders sched = []" "gs_predicates sched \<noteq> []" "infos_ok infos"
    "scheduleOne env sched ps pod (Inr nodes) infos q = Inr result"
  defines "kept \<equiv> feasible sched ps pod infos q nodes"
  shows "sr_FeasibleNodes result = length kept \<and>
    (\<exists>i < length kept. sr_SuggestedHost result = node_Name (kept ! i) \<and>
      (1 < length kept \<longrightarrow> (\<exists>prios. sched_prioritize env sched ps pod kept infos = Inr prios \<and>
        (\<forall>p \<in> set prios. pri_Score p \<le> pri_Score (prios ! i)) \<and>
        (\<forall>j. i < j \<longrightarrow> j < length prios \<longrightarrow> pri_Score (prios ! j) < pri_Score (prios ! i)))))"
proof -
  from assms(5) obtain filtered failed where
    filter: "sched_filter env sched ps pod nodes infos q = Inr (filtered, failed)"
    by (auto simp: scheduleOne_def res_bind_Inr_iff split: if_splits)
  have kept: "filtered = kept" unfolding kept_def by (rule sched_filter_feasible [OF assms(1-3) filter])
  consider (one) "length kept = 1" "result = \<lparr>sr_SuggestedHost = node_Name (kept ! 0),
      sr_EvaluatedNodes = 1 + length failed, sr_FeasibleNodes = 1\<rparr>"
    | (many) prios host where "length kept > 1" "sched_prioritize env sched ps pod kept infos = Inr prios"
      "selectHost prios = Inr host" "result = \<lparr>sr_SuggestedHost = host,
        sr_EvaluatedNodes = length kept + length failed, sr_FeasibleNodes = length kept\<rparr>"
  proof (cases "length kept = 1")
    case True
    with assms(5) filter show thesis
      by (intro one) (auto simp: scheduleOne_def kept split: if_splits)
  next
    case False
    with assms(5) filter obtain prios host where "sched_prioritize env sched ps pod kept infos = Inr prios"
      "selectHost prios = Inr host" "kept \<noteq> []" "result = \<lparr>sr_SuggestedHost = host,
        sr_EvaluatedNodes = length kept + length failed, sr_FeasibleNodes = length kept\<rparr>"
      by (auto simp: scheduleOne_def res_bind_Inr_iff kept split: if_splits)
    moreover from this False have "length kept > 1" by (cases kept) auto
    ultimately show thesis by (intro many)
  qed
  then show ?thesis
  proof cases
    case one
    then show ?thesis by (intro conjI exI [of _ 0]) simp_all
  next
    case many
    have hosts: "length prios = length kept" "\<forall>i < length kept. pri_Host (prios ! i) = node_Name (kept ! i)"
      using sched_prioritize_hosts [OF assms(2,4) many(2)] by auto
    have "prios \<noteq> []" using hosts(1) many(1) by auto
    from selectHost_spec [OF this] obtain i where i: "i < length prios" "selectHost prios = Inr (pri_Host (prios ! i))"
      "\<forall>p \<in> set prios. pri_Score p \<le> pri_Score (prios ! i)"
      "\<forall>j. i < j \<longrightarrow> j < length prios \<longrightarrow> pri_Score (prios ! j) < pri_Score (prios ! i)" by blast
    with many hosts show ?thesis by (intro conjI exI [of _ i]) simp_all
  qed
qed

text \<open>
  Without extenders, a pod that is placed is placed on a node every predicate accepts, and the number
  of feasible nodes reported is the number of nodes that fit.
\<close>

theorem scheduleOne_feasible:
  assumes "env_ok env" "gs_extenders sched = []" "gs_predicates sched \<noteq> []" "infos_ok infos"
    "scheduleOne env sched ps pod (Inr nodes) infos q = Inr result"
  shows "\<exists>node \<in> set nodes. node_Name node = sr_SuggestedHost result \<and>
      (\<exists>reasons. fits_node ps pod (gs_predicates sched) infos q node = Inr (True, reasons)) \<and>
      sr_FeasibleNodes result = length (feasible sched ps pod infos q nodes)"
proof -
  obtain i where i: "i < length (feasible sched ps pod infos q nodes)"
    "sr_SuggestedHost result = node_Name (feasible sched ps pod infos q nodes ! i)"
    "sr_FeasibleNodes result = length (feasible sched ps pod infos q nodes)"
    using scheduleOne_host [OF assms] by blast
  let ?node = "feasible sched ps pod infos q nodes ! i"
  have "?node \<in> set (feasible sched ps pod infos q nodes)" using i(1) by simp
  then have "?node \<in> set nodes" "fitting (fits_node ps pod (gs_predicates sched) infos q ?node)"
    by (simp_all add: feasible_def)
  with i show ?thesis by (intro bexI [of _ ?node]) (auto simp: fitting_def split: sum.splits prod.splits)
qed

lemma demo_scheduler_fields:
  "gs_extenders demo_scheduler = []" "gs_predicates demo_scheduler = [(''pods'', max_pods_pred 2)]"
  "gs_prioritizers demo_scheduler = [fewest_pods]"
  by (simp_all add: demo_scheduler_def AddPrioritizer_def AddPredicate_def NewGenericScheduler_def)

lemma demo_infos_ok: "infos_ok three_infos"
  by (auto simp: infos_ok_def three_infos_def node_with_pods_def node0_def node1_def node2_def split: if_splits)

lemma demo_feasible: "feasible demo_scheduler no_pods 5 three_infos empty_queue three_nodes = [node0, node1]"
  using demo_filter by (simp add: feasible_def demo_scheduler_fields)

definition demo_result :: schedule_result where
  "demo_result = \<lparr>sr_SuggestedHost = ''n1'', sr_EvaluatedNodes = 3, sr_FeasibleNodes = 2\<rparr>"

lemma demo_scheduleOne:
  "scheduleOne demo_sched_env demo_scheduler no_pods 5 (Inr three_nodes) three_infos empty_queue = Inr demo_result"
  by code_simp

theorem scheduleOne_feasible_witness:
  "\<exists>node \<in> set three_nodes. node_Name node = ''n1'' \<and>
     (\<exists>reasons. fits_node no_pods 5 (gs_predicates demo_scheduler) three_infos empty_queue node = Inr (True, reasons))"
proof -
  have "gs_predicates demo_scheduler \<noteq> []" by (simp add: demo_scheduler_fields)
  from scheduleOne_feasible [OF demo_sched_env_ok demo_scheduler_fields(1) this demo_infos_ok demo_scheduleOne]
  show ?thesis by (auto simp: demo_result_def)
qed



text \<open>
  C19: Without extenders, the answer that a pod fits nowhere is given exactly if there are nodes and the
  predicates refuse every one of them; it reports the number of nodes and the reasons of each.
\<close>

theorem scheduleOne_fits_nowhere:
  assumes "env_ok env" "gs_extenders sched = []" "gs_predicates sched \<noteq> []"
  shows "(\<exists>failed. scheduleOne env sched ps pod (Inr nodes) infos q = Inl (FitError pod (length nodes) failed) \<and>
        (\<forall>name reasons. map_of failed name = Some reasons \<longleftrightarrow> (\<exists>node \<in> set nodes. node_Name node = name \<and>
           fits_node ps pod (gs_predicates sched) infos q node = Inr (False, reasons)))) \<longleftrightarrow>
    nodes \<noteq> [] \<and> (\<forall>node \<in> set nodes. \<exists>reasons. fits_node ps pod (gs_predicates sched) infos q node = Inr (False, reasons))"
    (is "?L \<longleftrightarrow> ?R")
proof -
  let ?fits = "fits_node ps pod (gs_predicates sched) infos q"
  note c = filterWithPlugins_cases [OF assms(3) env_ok_order [OF assms(1), of "length nodes"], of ps pod infos q]
  have refusal: "refusal r = Some reasons \<longleftrightarrow> r = Inr (False, reasons)" for r reasons
    by (auto simp: refusal_def split: sum.splits prod.splits bool.splits)
  have none: "\<not> isl r \<and> \<not> fitting r \<longleftrightarrow> (\<exists>reasons. r = Inr (False, reasons))" for r
    by (cases r) (auto simp: fitting_def)
  have sf: "sched_filter env sched ps pod nodes infos q =
      filterWithPlugins (se_order env (length nodes)) ps pod (gs_predicates sched) nodes infos q"
    using assms(2) by (cases "filterWithPlugins (se_order env (length nodes)) ps pod (gs_predicates sched) nodes infos q")
      (auto simp: sched_filter_def)
  define f where "f = filterWithPlugins (se_order env (length nodes)) ps pod (gs_predicates sched) nodes infos q"
  note sf = sf [folded f_def] and c = c [folded f_def]
  show ?thesis
  proof
    assume ?L
    then obtain failed where sch: "scheduleOne env sched ps pod (Inr nodes) infos q = Inl (FitError pod (length nodes) failed)"
      by blast
    then have ne: "nodes \<noteq> []" by (auto simp: scheduleOne_def)
    show ?R
    proof (cases f)
      case (Inl e)
      with sch ne sf have "e = FitError pod (length nodes) failed" by (simp add: scheduleOne_def)
      with c Inl show ?thesis by fastforce
    next
      case (Inr r)
      obtain filtered failed' where r: "r = (filtered, failed')" by force
      have "filtered = []"
      proof (rule ccontr)
        assume n: "filtered \<noteq> []"
        show False
        proof (cases "length filtered = 1")
          case True
          with sch Inr r ne sf n show ?thesis by (simp add: scheduleOne_def)
        next
          case False
          with sch Inr r ne sf n have "sched_prioritize env sched ps pod filtered infos = Inl (FitError pod (length nodes) failed) \<or>
              (\<exists>prios. selectHost prios = Inl (FitError pod (length nodes) failed))"
            by (auto simp: scheduleOne_def res_bind_Inl_iff)
          then show ?thesis
            using sched_prioritize_no_FitError [OF assms(2)] by (auto simp: selectHost_def Let_def split: if_splits)
        qed
      qed
      with c Inr r have "\<forall>node \<in> set nodes. \<not> isl (?fits node) \<and> \<not> fitting (?fits node)"
        by (simp add: empty_filter_conv)
      with ne none show ?thesis by blast
    qed
  next
    assume R: ?R
    then have isr: "\<forall>node \<in> set nodes. \<not> isl (?fits node) \<and> \<not> fitting (?fits node)" using none by blast
    obtain filtered failed where f: "f = Inr (filtered, failed)"
    proof (cases f)
      case (Inl e)
      with c isr show thesis by auto
    qed force
    with c isr have "filtered = []" by (simp add: empty_filter_conv)
    with f R sf have sch: "scheduleOne env sched ps pod (Inr nodes) infos q = Inl (FitError pod (length nodes) failed)"
      by (simp add: scheduleOne_def)
    have "\<forall>name reasons. map_of failed name = Some reasons \<longleftrightarrow>
        (\<exists>node \<in> set nodes. node_Name node = name \<and> ?fits node = Inr (False, reasons))"
      using c f by (simp add: refusal)
    with sch show ?L by blast
  qed
qed

theorem scheduleOne_fits_nowhere_witness:
  "\<exists>failed. scheduleOne demo_sched_env demo_scheduler no_pods 5 (Inr [node2]) three_infos empty_queue =
     Inl (FitError 5 1 failed)"
proof -
  have ne: "gs_predicates demo_scheduler \<noteq> []" by (simp add: demo_scheduler_fields)
  show ?thesis
    using scheduleOne_fits_nowhere [OF demo_sched_env_ok demo_scheduler_fields(1) ne, of no_pods 5 "[node2]"
        three_infos empty_queue]
    by (auto simp: demo_scheduler_fields demo_fits)
qed

section \<open>Extenders\<close>

text \<open>
  An extender that is not NodeCacheCapable and returns the nodes it was given leaves the scheduler
  with as many copies of the last node: the loop over the returned nodes appends the address of its loop
  variable.
\<close>

theorem extender_keeps_only_last_node:
  assumes "ext_Filter ext = Some (\<lambda>ps args. Inr \<lparr>efr_Nodes = Some (ea_Nodes args), efr_NodeNames = None,
      efr_FailedNodes = [], efr_Error = []\<rparr>)" "\<not> ext_NodeCacheCapable ext" "nodes \<noteq> []"
  shows "ext_filter ext ps pod nodes infos failed = Inr (replicate (length nodes) (last nodes), failed)"
  using assms
  by (simp add: ext_filter_def ext_result_nodes_def buildExtenderArgs_def buildExtenderArgs_loop_eq
      nodes_of_items_def Let_def)

definition echo_extender :: extender where
  "echo_extender = \<lparr>ext_Name = ''echo'', ext_Filter = Some (\<lambda>ps args. Inr \<lparr>efr_Nodes = Some (ea_Nodes args),
       efr_NodeNames = None, efr_FailedNodes = [], efr_Error = []\<rparr>), ext_Prioritize = None, ext_Weight = 1,
     ext_NodeCacheCapable = False, ext_Ignorable = False\<rparr>"

theorem extender_keeps_only_last_node_witness:
  "ext_filter echo_extender no_pods 5 [node0, node1] three_infos [] = Inr ([node1, node1], [])"
  using extender_keeps_only_last_node [of echo_extender "[node0, node1]" no_pods 5 three_infos "[]"]
  by (simp add: echo_extender_def)

end
