(* ===== verification/PreemptionProperties.thy ===== *)
theory PreemptionProperties
  imports SchedulerProperties
begin

text \<open>
  Preemption: the pods taken from a node are of lower priority, the preemptor fits once they are gone,
  none of them can be given back, and the node taken is the one whose victims matter least. The loop that
  collects the candidates reads a slice while the pods of the NodeInfo are moved in its backing array;
  \<open>collect_victims_exact\<close> shows that it still visits every pod once.
\<close>

section \<open>Collecting the candidates\<close>

lemma find_pod_first:
  assumes "uids_ok ps (set pods)" "distinct pods" "i < length pods"
  shows "find_pod ps (pod_UID (ps (pods ! i))) 0 pods = Some i"
proof -
  let ?k = "pod_UID (ps (pods ! i))"
  have uid: "?k \<noteq> []" using assms by (auto simp: uids_ok_def)
  have "find_pod ps ?k 0 pods \<noteq> None"
    using find_pod_None [of ps ?k 0 pods] uid nth_mem [OF assms(3)] by blast
  then obtain j where j: "find_pod ps ?k 0 pods = Some j" by auto
  then have jb: "j < length pods" "pod_UID (ps (pods ! j)) = ?k" using find_pod_Some [OF j uid] by simp_all
  then have "pods ! j = pods ! i" using assms by (auto simp: uids_ok_def dest: inj_onD)
  then have "j = i" using assms jb by (simp add: nth_eq_iff_index_eq)
  with j show ?thesis by simp
qed

lemma RemovePod_fields:
  assumes "NodeInfo_RemovePod ps n p = Inr n'" "find_pod ps (pod_UID (ps p)) 0 (ni_pods n) = Some j"
  shows "ni_pods n' = take (length (ni_pods n) - 1) (swap_out j (ni_pods n))" "ni_node n' = ni_node n"
    "ni_allocatableResource n' = ni_allocatableResource n"
proof -
  obtain res c m where calc: "calculateResource (ps p) = (res, c, m)" by (cases "calculateResource (ps p)") auto
  show "ni_pods n' = take (length (ni_pods n) - 1) (swap_out j (ni_pods n))" "ni_node n' = ni_node n"
    "ni_allocatableResource n' = ni_allocatableResource n"
    using assms by (auto simp: NodeInfo_RemovePod_def GetPodKey_def calc Let_def split: if_splits)
qed

text \<open>What the NodeInfo of a node is, as far as a predicate may depend on it.\<close>

definition same_node :: "node_info \<Rightarrow> node_info \<Rightarrow> bool" where
  "same_node n n' \<longleftrightarrow> ni_node n = ni_node n' \<and> ni_allocatableResource n = ni_allocatableResource n'"

lemma same_node_refl [simp]: "same_node n n"
  and same_node_sym: "same_node n n' \<Longrightarrow> same_node n' n"
  and same_node_trans: "same_node a b \<Longrightarrow> same_node b c \<Longrightarrow> same_node a c"
  by (auto simp: same_node_def)

lemma AddPod_fields [simp]:
  "ni_pods (NodeInfo_AddPod ps n p) = ni_pods n @ [p]" "ni_node (NodeInfo_AddPod ps n p) = ni_node n"
  "ni_allocatableResource (NodeInfo_AddPod ps n p) = ni_allocatableResource n"
  by (simp_all add: NodeInfo_AddPod_def Let_def split: prod.splits)

lemma removePod_present:
  assumes "ni_ok ps n" "uids_ok ps (set (ni_pods n))" "distinct (ni_pods n)" "i < length (ni_pods n)"
  shows "\<exists>n'. removePod ps n (ni_pods n ! i) = Inr n' \<and> ni_ok ps n' \<and> same_node n n' \<and>
    ni_pods n' = take (length (ni_pods n) - 1) (swap_out i (ni_pods n)) \<and>
    mset (ni_pods n) = add_mset (ni_pods n ! i) (mset (ni_pods n'))"
proof -
  let ?p = "ni_pods n ! i"
  have p: "?p \<in> set (ni_pods n)" using assms(4) by simp
  obtain n' where n': "NodeInfo_RemovePod ps n ?p = Inr n'" using RemovePod_present [OF assms(2) p] by blast
  note f = RemovePod_fields [OF n' find_pod_first [OF assms(2-4)]]
  show ?thesis
    by (intro exI [of _ n'])
      (use n' f ni_ok_RemovePod [OF assms(1,2) p n'] in \<open>auto simp: removePod_def same_node_def\<close>)
qed

text \<open>
  The loop at index \<open>i\<close>: what it has not visited is as it was, the NodeInfo's pods are a prefix of the
  array, and no pod is lost.
\<close>

definition collect_inv ::
  "pods \<Rightarrow> int \<Rightarrow> pod_ptr list \<Rightarrow> node_info \<Rightarrow> nat \<Rightarrow> pod_ptr list \<Rightarrow> pod_ptr list \<Rightarrow> node_info \<Rightarrow> bool" where
  "collect_inv ps prio orig n0 i backing found n \<longleftrightarrow>
     length backing = length orig \<and> length (ni_pods n) \<le> length orig \<and>
     take (length (ni_pods n)) backing = ni_pods n \<and>
     (\<forall>k. i \<le> k \<longrightarrow> k < length orig \<longrightarrow> backing ! k = orig ! k) \<and>
     found = filter (\<lambda>p. PodPriority (ps p) < prio) (take i orig) \<and>
     mset orig = mset found + mset (ni_pods n) \<and> ni_ok ps n \<and> same_node n0 n"

lemma collect_step:
  assumes inv: "collect_inv ps prio orig n0 i backing found n" and i: "i < length orig"
    and uids: "uids_ok ps (set orig)" and dist: "distinct orig" and low: "PodPriority (ps (orig ! i)) < prio"
  obtains n' backing' j where "removePod ps n (backing ! i) = Inr n'"
    "GetPodKey (ps (backing ! i)) = Inr (pod_UID (ps (backing ! i)))"
    "find_pod ps (pod_UID (ps (backing ! i))) 0 (ni_pods n) = Some j"
    "collect_inv ps prio orig n0 (Suc i) (swap_out j (take (length (ni_pods n)) backing) @
       drop (length (ni_pods n)) backing) (found @ [backing ! i]) n'"
proof -
  let ?m = "length (ni_pods n)"
  have len: "length backing = length orig" "?m \<le> length orig" and pre: "take ?m backing = ni_pods n"
    and rest: "\<forall>k. i \<le> k \<longrightarrow> k < length orig \<longrightarrow> backing ! k = orig ! k"
    and found: "found = filter (\<lambda>p. PodPriority (ps p) < prio) (take i orig)"
    and mset: "mset orig = mset found + mset (ni_pods n)" and ok: "ni_ok ps n" and same: "same_node n0 n"
    using inv by (auto simp: collect_inv_def)
  have p: "backing ! i = orig ! i" using rest i by simp
  have "orig ! i \<notin> set (take i orig)" using dist i by (metis distinct_take id_take_nth_drop not_distinct_conv_prefix)
  then have "orig ! i \<notin> set found" using found by auto
  moreover have "orig ! i \<in># mset found + mset (ni_pods n)" using i by (simp flip: mset)
  ultimately have pn: "orig ! i \<in> set (ni_pods n)" by simp
  have sub: "set (ni_pods n) \<subseteq> set orig" using arg_cong [OF mset, of set_mset] by auto
  then have uids': "uids_ok ps (set (ni_pods n))" using uids by (auto simp: uids_ok_def intro: inj_on_subset)
  have dist': "distinct (ni_pods n)"
    using dist mset by (metis distinct_append mset_append mset_eq_imp_distinct_iff)
  obtain j where j: "j < ?m" "ni_pods n ! j = orig ! i" using pn by (auto simp: in_set_conv_nth)
  have "j \<le> i"
  proof (rule ccontr)
    assume ji: "\<not> j \<le> i"
    then have "i < ?m" using j(1) by simp
    then have "ni_pods n ! i = orig ! i" using p by (metis nth_take pre)
    then have "ni_pods n ! i = ni_pods n ! j" using j(2) by simp
    then have "i = j" using nth_eq_iff_index_eq [OF dist' \<open>i < ?m\<close> j(1)] by blast
    with ji show False by simp
  qed
  obtain n' where n': "removePod ps n (orig ! i) = Inr n'" "ni_ok ps n'" "same_node n n'"
    "ni_pods n' = take (?m - 1) (swap_out j (ni_pods n))" "mset (ni_pods n) = add_mset (orig ! i) (mset (ni_pods n'))"
    using removePod_present [OF ok uids' dist' j(1)] j(2) by auto
  let ?b = "swap_out j (take ?m backing) @ drop ?m backing"
  have b: "?b = backing[j := backing ! (?m - 1)]"
  proof -
    have "?b = (take ?m backing)[j := ni_pods n ! (?m - 1)] @ drop ?m backing" by (simp add: swap_out_def pre)
    also have "\<dots> = (take ?m backing @ drop ?m backing)[j := ni_pods n ! (?m - 1)]"
      by (rule list_update_append1 [symmetric]) (use j(1) len in simp)
    also have "ni_pods n ! (?m - 1) = backing ! (?m - 1)" using j(1) by (metis diff_less nth_take pre less_nat_zero_code not_gr_zero zero_less_one)
    finally show ?thesis by simp
  qed
  show thesis
  proof (rule that)
    show "removePod ps n (backing ! i) = Inr n'" using n'(1) p by simp
    show "GetPodKey (ps (backing ! i)) = Inr (pod_UID (ps (backing ! i)))"
      using uids i p by (simp add: GetPodKey_def uids_ok_def)
    show "find_pod ps (pod_UID (ps (backing ! i))) 0 (ni_pods n) = Some j"
      using find_pod_first [OF uids' dist' j(1)] j(2) p by simp
    have a: "length (ni_pods n') = ?m - 1" using n'(4) j(1) by (simp add: swap_out_def)
    have b': "take (?m - 1) ?b = ni_pods n'" using n'(4) j(1) len by (simp add: pre swap_out_def)
    have c: "\<forall>k. Suc i \<le> k \<longrightarrow> k < length orig \<longrightarrow> ?b ! k = orig ! k"
      using rest \<open>j \<le> i\<close> by (auto simp: b)
    have d: "found @ [backing ! i] = filter (\<lambda>p. PodPriority (ps p) < prio) (take (Suc i) orig)"
      using found i low p by (simp add: take_Suc_conv_app_nth)
    have e: "mset orig = mset (found @ [backing ! i]) + mset (ni_pods n')"
      by (simp add: mset n'(5) p)
    have f: "length ?b = length orig" by (simp add: b len)
    have g: "length (ni_pods n') \<le> length orig" using a len(2) by linarith
    show "collect_inv ps prio orig n0 (Suc i) ?b (found @ [backing ! i]) n'"
      unfolding collect_inv_def a
      by (intro conjI f g [unfolded a] b' c d e n'(2) same_node_trans [OF same n'(3)])
  qed
qed

lemma collect_victims_exact:
  assumes ok: "ni_ok ps n" and uids: "uids_ok ps (set (ni_pods n))" and dist: "distinct (ni_pods n)"
  shows "\<exists>n'. collect_victims ps prio [0..<length (ni_pods n)] (ni_pods n) [] n =
      Inr (filter (\<lambda>p. PodPriority (ps p) < prio) (ni_pods n), n') \<and> ni_ok ps n' \<and> same_node n n' \<and>
    mset (ni_pods n') = mset (filter (\<lambda>p. \<not> PodPriority (ps p) < prio) (ni_pods n))"
proof -
  let ?orig = "ni_pods n"
  have loop: "i \<le> length ?orig \<Longrightarrow> collect_inv ps prio ?orig n i backing found m \<Longrightarrow>
      \<exists>n'. collect_victims ps prio [i..<length ?orig] backing found m =
        Inr (filter (\<lambda>p. PodPriority (ps p) < prio) ?orig, n') \<and> ni_ok ps n' \<and> same_node n n' \<and>
      mset ?orig = mset (filter (\<lambda>p. PodPriority (ps p) < prio) ?orig) + mset (ni_pods n')" for i backing found m
  proof (induction "length ?orig - i" arbitrary: i backing found m)
    case 0
    then have "i = length ?orig" by simp
    with 0(3) have f: "found = filter (\<lambda>p. PodPriority (ps p) < prio) ?orig"
      "mset ?orig = mset found + mset (ni_pods m)" "ni_ok ps m" "same_node n m"
      by (simp_all only: collect_inv_def take_all order_refl)
    have "collect_victims ps prio [i..<length ?orig] backing found m = Inr (found, m)"
      using \<open>i = length ?orig\<close> by simp
    then show ?case using f(2-4) unfolding f(1) by blast
  next
    case (Suc d)
    then have i: "i < length ?orig" by simp
    then have upt: "[i..<length ?orig] = i # [Suc i..<length ?orig]" by (simp add: upt_rec)
    have p: "backing ! i = ?orig ! i" using Suc.prems(2) i by (simp add: collect_inv_def)
    show ?case
    proof (cases "PodPriority (ps (?orig ! i)) < prio")
      case True
      from collect_step [OF Suc.prems(2) i uids dist True]
      obtain n' j where s: "removePod ps m (backing ! i) = Inr n'"
        "GetPodKey (ps (backing ! i)) = Inr (pod_UID (ps (backing ! i)))"
        "find_pod ps (pod_UID (ps (backing ! i))) 0 (ni_pods m) = Some j"
        "collect_inv ps prio ?orig n (Suc i) (swap_out j (take (length (ni_pods m)) backing) @
           drop (length (ni_pods m)) backing) (found @ [backing ! i]) n'" by blast
      have "d = length ?orig - Suc i" "Suc i \<le> length ?orig" using Suc.hyps(2) i by simp_all
      from Suc.hyps(1) [OF this s(4)] show ?thesis
        unfolding upt collect_victims.simps Let_def p s(1-3) [unfolded p] res_bind_simps sum.case option.case
        using True by (simp only: if_True)
    next
      case False
      have "collect_inv ps prio ?orig n (Suc i) backing found m"
        using Suc.prems(2) i False by (auto simp: collect_inv_def take_Suc_conv_app_nth)
      moreover have "d = length ?orig - Suc i" "Suc i \<le> length ?orig" using Suc.hyps(2) i by simp_all
      ultimately show ?thesis
        unfolding upt collect_victims.simps Let_def p using Suc.hyps(1) False by (simp only: if_False)
    qed
  qed
  have "collect_inv ps prio ?orig n 0 ?orig [] n" using ok by (simp add: collect_inv_def)
  from loop [OF le0 this] obtain n' where n': "collect_victims ps prio [0..<length ?orig] ?orig [] n =
        Inr (filter (\<lambda>p. PodPriority (ps p) < prio) ?orig, n')" "ni_ok ps n'" "same_node n n'"
      "mset ?orig = mset (filter (\<lambda>p. PodPriority (ps p) < prio) ?orig) + mset (ni_pods n')" by blast
  have "mset (filter (\<lambda>p. PodPriority (ps p) < prio) ?orig) + mset (filter (\<lambda>p. \<not> PodPriority (ps p) < prio) ?orig)
      = mset ?orig"
    by (simp only: mset_filter multiset_partition [symmetric])
  then have "mset (ni_pods n') = mset (filter (\<lambda>p. \<not> PodPriority (ps p) < prio) ?orig)"
    using n'(4) by (metis add_left_cancel)
  with n'(1-3) show ?thesis by blast
qed

section \<open>Giving pods back\<close>

text \<open>
  What preemption relies on: the predicates look at the node, its pods as a collection, its allocatable
  resources and the totals over the pods, so two NodeInfos that agree on these get the same answer.
\<close>

definition same_view :: "pods \<Rightarrow> node_info \<Rightarrow> node_info \<Rightarrow> bool" where
  "same_view ps n n' \<longleftrightarrow> ni_ok ps n \<and> ni_ok ps n' \<and> same_node n n' \<and> mset (ni_pods n) = mset (ni_pods n')"

definition looks_at_view :: "predicates \<Rightarrow> pods \<Rightarrow> pod_ptr \<Rightarrow> bool" where
  "looks_at_view preds ps pod \<longleftrightarrow>
     (\<forall>p \<in> set preds. \<forall>n n'. same_view ps n n' \<longrightarrow> snd p ps pod n = snd p ps pod n')"

lemma same_view_AddPod: "same_view ps n n' \<Longrightarrow> same_view ps (NodeInfo_AddPod ps n p) (NodeInfo_AddPod ps n' p)"
  by (simp add: same_view_def same_node_def ni_ok_AddPod)

lemma same_view_nominated:
  "same_view ps n n' \<Longrightarrow> same_view ps (add_nominated ps pod n pods) (add_nominated ps pod n' pods)"
  by (induction ps pod n pods arbitrary: n' rule: add_nominated.induct) (simp_all add: same_view_AddPod)

lemma run_predicates_view:
  "looks_at_view preds ps pod \<Longrightarrow> same_view ps n n' \<Longrightarrow> run_predicates ps pod n preds = run_predicates ps pod n' preds"
proof (induction preds)
  case (Cons p preds)
  obtain name pred where p: "p = (name, pred)" by force
  have "pred ps pod n = pred ps pod n'" "looks_at_view preds ps pod"
    using Cons.prems by (auto simp: looks_at_view_def p)
  with Cons show ?case by (simp add: p cong: if_cong)
qed simp

lemma fits_or_error_view:
  assumes "looks_at_view preds ps pod" "same_view ps n n'"
  shows "fits_or_error ps pod preds n q = fits_or_error ps pod preds n' q"
proof -
  have node: "ni_node n = ni_node n'" using assms(2) by (simp add: same_view_def same_node_def)
  have "podFitsOnNode ps pod preds n q = podFitsOnNode ps pod preds n' q"
  proof (cases "ni_node n'")
    case None
    with node show ?thesis by (simp add: podFitsOnNode_def addNominatedPods_def)
  next
    case (Some v)
    have eq: "run_predicates ps pod n preds = run_predicates ps pod n' preds"
      "run_predicates ps pod (add_nominated ps pod n pods) preds =
         run_predicates ps pod (add_nominated ps pod n' pods) preds" for pods
      using run_predicates_view [OF assms(1)] assms(2) same_view_nominated by blast+
    show ?thesis
      using node Some
      by (cases "Queue_NominatedPods q (node_Name v) = []")
        (simp_all add: podFitsOnNode_def addNominatedPods_def NodeInfo_Clone_def Let_def eq cong: if_cong)
  qed
  then show ?thesis by (simp add: fits_or_error_def)
qed

text \<open>More pods never make room.\<close>

definition more_pods :: "pods \<Rightarrow> node_info \<Rightarrow> node_info \<Rightarrow> bool" where
  "more_pods ps n n' \<longleftrightarrow> ni_ok ps n \<and> ni_ok ps n' \<and> same_node n n' \<and> mset (ni_pods n) \<subseteq># mset (ni_pods n')"

definition monotone_fit :: "predicates \<Rightarrow> pods \<Rightarrow> pod_ptr \<Rightarrow> pod_queue \<Rightarrow> bool" where
  "monotone_fit preds ps pod q \<longleftrightarrow> (\<forall>n n'. more_pods ps n n' \<longrightarrow>
     fits_or_error ps pod preds n' q = Inr True \<longrightarrow> fits_or_error ps pod preds n q = Inr True)"

lemma reprieve_spec:
  assumes resp: "looks_at_view preds ps preemptor"
  shows "reprieve_pods ps preemptor preds q cands victims n = Inr victims' \<Longrightarrow>
    ni_ok ps n \<Longrightarrow> uids_ok ps (set (ni_pods n) \<union> set cands) \<Longrightarrow> distinct (ni_pods n @ cands) \<Longrightarrow>
    fits_or_error ps preemptor preds n q = Inr True \<Longrightarrow>
    \<exists>given taken n'. victims' = victims @ taken \<and> mset cands = mset given + mset taken \<and>
      ni_ok ps n' \<and> same_node n n' \<and> mset (ni_pods n') = mset (ni_pods n) + mset given \<and>
      fits_or_error ps preemptor preds n' q = Inr True \<and>
      (\<forall>v \<in> set taken. \<exists>m. more_pods ps m n' \<and> fits_or_error ps preemptor preds (NodeInfo_AddPod ps m v) q \<noteq> Inr True)"
proof (induction cands arbitrary: victims n)
  case Nil
  then show ?case by (intro exI [of _ "[]"] exI [of _ n]) simp
next
  case (Cons p cands)
  let ?added = "NodeInfo_AddPod ps n p"
  obtain fits where fits: "fits_or_error ps preemptor preds ?added q = Inr fits"
    using Cons.prems(1) by (cases "fits_or_error ps preemptor preds ?added q") (auto simp: Let_def)
  show ?case
  proof (cases fits)
    case True
    have "reprieve_pods ps preemptor preds q cands victims ?added = Inr victims'"
      using Cons.prems(1) fits True by (simp add: Let_def)
    from Cons.IH [OF this ni_ok_AddPod [OF Cons.prems(2)]] Cons.prems(3,4) fits True
    obtain given taken n' where g: "victims' = victims @ taken" "mset cands = mset given + mset taken"
      "ni_ok ps n'" "same_node ?added n'" "mset (ni_pods n') = mset (ni_pods ?added) + mset given"
      "fits_or_error ps preemptor preds n' q = Inr True"
      "\<forall>v \<in> set taken. \<exists>m. more_pods ps m n' \<and> fits_or_error ps preemptor preds (NodeInfo_AddPod ps m v) q \<noteq> Inr True"
      by (auto simp: insert_commute)
    show ?thesis
      by (intro exI [of _ "p # given"] exI [of _ taken] exI [of _ n'])
        (use g in \<open>auto simp: same_node_def\<close>)
  next
    case False
    have "uids_ok ps (set (ni_pods ?added))" "distinct (ni_pods ?added)"
      using Cons.prems(3,4) by (auto simp: uids_ok_def intro: inj_on_subset)
    from removePod_present [OF ni_ok_AddPod [OF Cons.prems(2)] this, of "length (ni_pods n)"]
    obtain n1 where n1: "removePod ps ?added p = Inr n1" "ni_ok ps n1" "same_node ?added n1"
      "mset (ni_pods n1) = mset (ni_pods n)" by (auto simp: nth_append)
    have view: "same_view ps n n1" using n1 Cons.prems(2) by (simp add: same_view_def same_node_def)
    then have sets: "set (ni_pods n1) = set (ni_pods n)" "distinct (ni_pods n1) = distinct (ni_pods n)"
      using n1(4) by (auto dest: mset_eq_setD mset_eq_imp_distinct_iff)
    have "reprieve_pods ps preemptor preds q cands (victims @ [p]) n1 = Inr victims'"
      using Cons.prems(1) fits False n1(1) by (simp add: Let_def)
    moreover have "fits_or_error ps preemptor preds n1 q = Inr True"
      using fits_or_error_view [OF resp view] Cons.prems(5) by simp
    moreover have "uids_ok ps (set (ni_pods n1) \<union> set cands)" "distinct (ni_pods n1 @ cands)"
      using Cons.prems(3,4) sets by (auto simp: uids_ok_def intro: inj_on_subset)
    ultimately obtain given taken n' where g: "victims' = (victims @ [p]) @ taken" "mset cands = mset given + mset taken"
      "ni_ok ps n'" "same_node n1 n'" "mset (ni_pods n') = mset (ni_pods n1) + mset given"
      "fits_or_error ps preemptor preds n' q = Inr True"
      "\<forall>v \<in> set taken. \<exists>m. more_pods ps m n' \<and> fits_or_error ps preemptor preds (NodeInfo_AddPod ps m v) q \<noteq> Inr True"
      using Cons.IH [of "victims @ [p]" n1] n1(2) by blast
    have "more_pods ps n n'" using g n1 Cons.prems(2) by (simp add: more_pods_def same_node_def)
    moreover have "fits_or_error ps preemptor preds ?added q \<noteq> Inr True" using fits False by simp
    ultimately show ?thesis
      by (intro exI [of _ given] exI [of _ "p # taken"] exI [of _ n'])
        (use g n1 in \<open>auto simp: same_node_def\<close>)
  qed
qed

lemma HigherPriorityPod_order:
  "asymp (HigherPriorityPod ps)" "transp (HigherPriorityPod ps)" "transp (\<lambda>x y. \<not> HigherPriorityPod ps y x)"
  by (auto simp: HigherPriorityPod_def intro!: asympI transpI)

lemma sorted_candidates: "env_ok env \<Longrightarrow> mset (se_sort env (HigherPriorityPod ps) pods) = mset pods"
  using HigherPriorityPod_order [of ps] by (simp add: env_ok_def)

lemma selectVictims_spec:
  assumes env: "env_ok env" and n: "ni_ok ps n" "uids_ok ps (set (ni_pods n))" "distinct (ni_pods n)"
    and resp: "looks_at_view preds ps preemptor"
    and sel: "selectVictimsOnNode env ps preemptor preds (Some n) q = Inr (Some victims)"
  shows "\<exists>given n'. mset (filter (\<lambda>p. PodPriority (ps p) < PodPriority (ps preemptor)) (ni_pods n)) =
      mset given + mset victims \<and> ni_ok ps n' \<and> same_node n n' \<and>
    mset (ni_pods n') = mset (filter (\<lambda>p. \<not> PodPriority (ps p) < PodPriority (ps preemptor)) (ni_pods n)) + mset given \<and>
    fits_or_error ps preemptor preds n' q = Inr True \<and>
    (\<forall>v \<in> set victims. \<exists>m. more_pods ps m n' \<and> fits_or_error ps preemptor preds (NodeInfo_AddPod ps m v) q \<noteq> Inr True)"
proof -
  let ?low = "\<lambda>p. PodPriority (ps p) < PodPriority (ps preemptor)"
  let ?cands = "se_sort env (HigherPriorityPod ps) (filter ?low (ni_pods n))"
  obtain n1 where n1: "collect_victims ps (PodPriority (ps preemptor)) [0..<length (ni_pods n)] (ni_pods n) [] n =
      Inr (filter ?low (ni_pods n), n1)" "ni_ok ps n1" "same_node n n1"
    "mset (ni_pods n1) = mset (filter (\<lambda>p. \<not> ?low p) (ni_pods n))"
    using collect_victims_exact [OF n] by blast
  from sel have "res_bind (fits_or_error ps preemptor preds n1 q) (\<lambda>fits.
      if \<not> fits then Inr None
      else res_bind (reprieve_pods ps preemptor preds q ?cands [] n1) (\<lambda>victims. Inr (Some victims))) = Inr (Some victims)"
    by (simp add: selectVictimsOnNode_def NodeInfo_Clone_def Let_def n1(1))
  then have fits: "fits_or_error ps preemptor preds n1 q = Inr True"
    and rep: "reprieve_pods ps preemptor preds q ?cands [] n1 = Inr victims"
    by (auto simp: res_bind_Inr_iff split: if_splits)
  have cands: "mset ?cands = mset (filter ?low (ni_pods n))" by (rule sorted_candidates [OF env])
  have sets: "set (ni_pods n1) = set (filter (\<lambda>p. \<not> ?low p) (ni_pods n))" "set ?cands = set (filter ?low (ni_pods n))"
    using mset_eq_setD [OF n1(4)] mset_eq_setD [OF cands] by blast+
  have "distinct (ni_pods n1)" "distinct ?cands"
    using n(3) mset_eq_imp_distinct_iff [OF n1(4)] mset_eq_imp_distinct_iff [OF cands] by simp_all
  then have "distinct (ni_pods n1 @ ?cands)" using sets by auto
  moreover have "uids_ok ps (set (ni_pods n1) \<union> set ?cands)"
    using n(2) sets by (auto simp: uids_ok_def intro: inj_on_subset)
  ultimately obtain given taken n' where g: "victims = [] @ taken" "mset ?cands = mset given + mset taken"
    "ni_ok ps n'" "same_node n1 n'" "mset (ni_pods n') = mset (ni_pods n1) + mset given"
    "fits_or_error ps preemptor preds n' q = Inr True"
    "\<forall>v \<in> set taken. \<exists>m. more_pods ps m n' \<and> fits_or_error ps preemptor preds (NodeInfo_AddPod ps m v) q \<noteq> Inr True"
    using reprieve_spec [OF resp rep n1(2) _ _ fits] by blast
  from g(2) cands have "mset (filter ?low (ni_pods n)) = mset given + mset taken" by (simp only:)
  moreover from g(5) n1(4) have "mset (ni_pods n') = mset (filter (\<lambda>p. \<not> ?low p) (ni_pods n)) + mset given" by (simp only:)
  ultimately show ?thesis
    using g(1,3,6,7) same_node_trans [OF n1(3) g(4)] by (intro exI [of _ given] exI [of _ n'] conjI) (simp_all only: append_Nil)
qed

lemma remaining_pods:
  assumes "mset (filter P xs) = mset given + mset victims" "mset rest = mset (filter (\<lambda>x. \<not> P x) xs) + mset given"
  shows "mset rest = mset xs - mset victims" "set victims \<subseteq> {x \<in> set xs. P x}" "distinct xs \<Longrightarrow> distinct victims"
proof -
  have part: "mset xs = mset (filter P xs) + mset (filter (\<lambda>x. \<not> P x) xs)"
    by (simp only: mset_filter multiset_partition [symmetric])
  show "mset rest = mset xs - mset victims"
    unfolding part assms(1) assms(2) by (simp add: add.commute add.left_commute)
  have "set_mset (mset victims) \<subseteq> set_mset (mset (filter P xs))" unfolding assms(1) by simp
  then show "set victims \<subseteq> {x \<in> set xs. P x}" by simp
  assume "distinct xs"
  then have "distinct (filter P xs)" by simp
  moreover have "mset (filter P xs) = mset (given @ victims)" using assms(1) by (simp only: mset_append)
  ultimately show "distinct victims" using mset_eq_imp_distinct_iff distinct_append by blast
qed

section \<open>Properties\<close>

text \<open>
  C20: The victims chosen on a node are distinct pods of that node, all of lower priority than the
  preemptor, and the preemptor fits the node once they are gone; for pods with distinct UIDs and
  predicates that look at the node, its pods and its totals only.
\<close>

theorem victims_make_room:
  assumes "env_ok env" "ni_ok ps n" "uids_ok ps (set (ni_pods n))" "distinct (ni_pods n)"
    "looks_at_view preds ps preemptor"
    "selectVictimsOnNode env ps preemptor preds (Some n) q = Inr (Some victims)"
  shows "distinct victims \<and> set victims \<subseteq> {p \<in> set (ni_pods n). PodPriority (ps p) < PodPriority (ps preemptor)} \<and>
    (\<exists>n'. ni_ok ps n' \<and> same_node n n' \<and> mset (ni_pods n') = mset (ni_pods n) - mset victims \<and>
       fits_or_error ps preemptor preds n' q = Inr True)"
proof -
  obtain given n' where g: "mset (filter (\<lambda>p. PodPriority (ps p) < PodPriority (ps preemptor)) (ni_pods n)) =
      mset given + mset victims"
    "mset (ni_pods n') = mset (filter (\<lambda>p. \<not> PodPriority (ps p) < PodPriority (ps preemptor)) (ni_pods n)) + mset given"
    "ni_ok ps n'" "same_node n n'" "fits_or_error ps preemptor preds n' q = Inr True"
    using selectVictims_spec [OF assms] by blast
  note r = remaining_pods [OF g(1,2)]
  show ?thesis
    by (intro conjI exI [of _ n'] r(1,2) r(3) [OF assms(4)] g(3-5))
qed

definition preempt_store :: pods where
  "preempt_store p = empty_pod\<lparr>pod_Namespace := ''default'',
     pod_Name := (if p = 7 then ''a'' else if p = 8 then ''b'' else ''c''),
     pod_UID := (if p = 7 then ''a'' else if p = 8 then ''b'' else ''c''),
     pod_Priority := (if p = 5 then Some 10 else None)\<rparr>"

definition full_node :: node_info where
  "full_node = NodeInfo_SetNode (NewNodeInfo preempt_store [7, 8]) node0"

lemma full_node_ok:
  "ni_ok preempt_store full_node" "ni_pods full_node = [7, 8]" "uids_ok preempt_store (set (ni_pods full_node))"
  "distinct (ni_pods full_node)"
proof -
  show pods: "ni_pods full_node = [7, 8]"
    by (simp add: full_node_def NodeInfo_SetNode_def ni_ok_NewNodeInfo)
  show "ni_ok preempt_store full_node" by (simp add: full_node_def ni_ok_SetNode ni_ok_NewNodeInfo)
  show "uids_ok preempt_store (set (ni_pods full_node))" "distinct (ni_pods full_node)"
    by (simp_all add: pods uids_ok_def preempt_store_def)
qed

lemma max_pods_view: "looks_at_view [(''pods'', max_pods_pred m)] ps pod"
  by (auto simp: looks_at_view_def same_view_def max_pods_pred_def dest: mset_eq_length)

lemma demo_victims:
  "selectVictimsOnNode demo_sched_env preempt_store 5 [(''pods'', max_pods_pred 2)] (Some full_node) empty_queue =
     Inr (Some [8])"
  by code_simp

theorem victims_make_room_witness:
  "\<exists>n'. mset (ni_pods n') = {#7#} \<and>
     fits_or_error preempt_store 5 [(''pods'', max_pods_pred 2)] n' empty_queue = Inr True"
  using victims_make_room [OF demo_sched_env_ok full_node_ok(1,3,4) max_pods_view demo_victims]
  by (auto simp: full_node_ok(2))

text \<open>
  C21: Preemption takes no pod for nothing: if more pods never make room, then with any one victim put
  back the preemptor does not fit.
\<close>

theorem victims_needed:
  assumes "env_ok env" "ni_ok ps n" "uids_ok ps (set (ni_pods n))" "distinct (ni_pods n)"
    "looks_at_view preds ps preemptor" "monotone_fit preds ps preemptor q"
    "selectVictimsOnNode env ps preemptor preds (Some n) q = Inr (Some victims)" "v \<in> set victims"
    "ni_ok ps m" "same_node n m" "mset (ni_pods m) = add_mset v (mset (ni_pods n) - mset victims)"
  shows "fits_or_error ps preemptor preds m q \<noteq> Inr True"
proof -
  obtain n' m0 where n': "same_node n n'" "mset (ni_pods n') = mset (ni_pods n) - mset victims"
    "more_pods ps m0 n'" "fits_or_error ps preemptor preds (NodeInfo_AddPod ps m0 v) q \<noteq> Inr True"
    using selectVictims_spec [OF assms(1-5,7)] remaining_pods(1) assms(8) by metis
  then have "more_pods ps (NodeInfo_AddPod ps m0 v) m"
    using assms(9-11) by (simp add: more_pods_def ni_ok_AddPod same_node_def)
  with assms(6) n'(4) show ?thesis unfolding monotone_fit_def by blast
qed

lemma no_nominated: "Queue_NominatedPods empty_queue name = []"
  by (simp add: Queue_NominatedPods_def FIFOQueue_NominatedPods_def NewFIFOQueue_def)

lemma max_pods_fits:
  "fits_or_error ps pod [(''pods'', max_pods_pred m)] n empty_queue = Inr True \<longleftrightarrow>
     ni_node n \<noteq> None \<and> length (ni_pods n) < m"
  by (auto simp: fits_or_error_def podFitsOnNode_def addNominatedPods_def no_nominated max_pods_pred_def Let_def
      split: option.splits)

lemma max_pods_monotone: "monotone_fit [(''pods'', max_pods_pred m)] ps pod empty_queue"
proof -
  have "more_pods ps n n' \<Longrightarrow> length (ni_pods n) \<le> length (ni_pods n')" for n n'
    using size_mset_mono [of "mset (ni_pods n)" "mset (ni_pods n')"] by (simp add: more_pods_def)
  then show ?thesis
    unfolding monotone_fit_def max_pods_fits by (metis le_less_trans more_pods_def same_node_def)
qed

theorem victims_needed_witness:
  "fits_or_error preempt_store 5 [(''pods'', max_pods_pred 2)] full_node empty_queue \<noteq> Inr True"
proof (rule victims_needed [OF demo_sched_env_ok full_node_ok(1,3,4) max_pods_view max_pods_monotone demo_victims])
  show "8 \<in> set [8::pod_ptr]" "ni_ok preempt_store full_node" "same_node full_node full_node"
    "mset (ni_pods full_node) = add_mset 8 (mset (ni_pods full_node) - mset [8])"
    by (simp_all add: full_node_ok(1,2))
qed

section \<open>The node that is taken\<close>

lemma min_nodes_spec:
  "min_nodes val least acc xs =
     (if \<exists>x \<in> set xs. val x < least then filter (\<lambda>x. \<forall>y \<in> set xs. val x \<le> val y) xs
      else acc @ filter (\<lambda>x. val x = least) xs)"
proof (induction xs arbitrary: least acc)
  case (Cons a xs)
  consider (less) "val a < least" | (same) "val a = least" | (more) "val a > least" by linarith
  then show ?case
  proof cases
    case less
    show ?thesis
    proof (cases "\<exists>x \<in> set xs. val x < val a")
      case True
      then have "filter (\<lambda>x. \<forall>y \<in> set xs. val x \<le> val y) xs =
          filter (\<lambda>x. \<forall>y \<in> set (a # xs). val x \<le> val y) (a # xs)"
        using less by (auto intro!: filter_cong)
      with Cons.IH [of "val a" "[a]"] less True show ?thesis by auto
    next
      case False
      then have "filter (\<lambda>x. val x = val a) xs = filter (\<lambda>x. \<forall>y \<in> set (a # xs). val x \<le> val y) xs"
        by (intro filter_cong) (auto simp: not_less order.antisym)
      moreover have "\<forall>y \<in> set (a # xs). val a \<le> val y" using False by (auto simp: not_less)
      ultimately show ?thesis using Cons.IH [of "val a" "[a]"] less False by auto
    qed
  next
    case same
    show ?thesis
    proof (cases "\<exists>x \<in> set xs. val x < least")
      case True
      then have "filter (\<lambda>x. \<forall>y \<in> set xs. val x \<le> val y) xs =
          filter (\<lambda>x. \<forall>y \<in> set (a # xs). val x \<le> val y) (a # xs)"
        using same by (auto intro!: filter_cong)
      with Cons.IH [of least "acc @ [a]"] same True show ?thesis by auto
    qed (use Cons.IH [of least "acc @ [a]"] same in auto)
  next
    case more
    show ?thesis
    proof (cases "\<exists>x \<in> set xs. val x < least")
      case True
      then have "filter (\<lambda>x. \<forall>y \<in> set xs. val x \<le> val y) xs =
          filter (\<lambda>x. \<forall>y \<in> set (a # xs). val x \<le> val y) (a # xs)"
        using more by (auto intro!: filter_cong)
      with Cons.IH [of least acc] more True show ?thesis by auto
    qed (use Cons.IH [of least acc] more in auto)
  qed
qed simp

lemma min_nodes_bounded:
  assumes "\<forall>x \<in> set xs. val x \<le> least"
  shows "min_nodes val least [] xs = filter (\<lambda>x. \<forall>y \<in> set xs. val x \<le> val y) xs"
proof (cases "\<exists>x \<in> set xs. val x < least")
  case False
  with assms have "\<forall>x \<in> set xs. val x = least" by (meson order.not_eq_order_implies_strict)
  then have "filter (\<lambda>x. val x = least) xs = filter (\<lambda>x. \<forall>y \<in> set xs. val x \<le> val y) xs"
    by (intro filter_cong) auto
  with False show ?thesis by (simp add: min_nodes_spec)
qed (simp add: min_nodes_spec)

lemma least_exists:
  fixes val :: "'a \<Rightarrow> int"
  assumes "xs \<noteq> []"
  shows "filter (\<lambda>x. \<forall>y \<in> set xs. val x \<le> val y) xs \<noteq> []"
proof -
  have "Min (val ` set xs) \<in> val ` set xs" using assms by (intro Min_in) auto
  then obtain x where "x \<in> set xs" "val x = Min (val ` set xs)" by auto
  then have "\<forall>y \<in> set xs. val x \<le> val y" by simp
  with \<open>x \<in> set xs\<close> show ?thesis unfolding filter_empty_conv by blast
qed

text \<open>The three criteria in the order of their weight.\<close>

definition matters_less :: "pods \<Rightarrow> v1_node \<times> victims \<Rightarrow> v1_node \<times> victims \<Rightarrow> bool" where
  "matters_less ps a b \<longleftrightarrow> highest_priority ps a < highest_priority ps b \<or>
     highest_priority ps a = highest_priority ps b \<and>
       (sum_priorities ps 0 (snd a) < sum_priorities ps 0 (snd b) \<or>
        sum_priorities ps 0 (snd a) = sum_priorities ps 0 (snd b) \<and> length (snd a) \<le> length (snd b))"

lemma in64_sum_priorities: "in64 acc \<Longrightarrow> in64 (sum_priorities ps acc pods)"
  by (induction pods arbitrary: acc) simp_all

lemma pick_many:
  assumes "nodesToVictims \<noteq> []" "length nodesToVictims \<noteq> 1"
  shows "pickOneNodeForPreemption ps nodesToVictims =
    (if \<exists>nv \<in> set nodesToVictims. snd nv = [] then Inl (Panic ''index out of range'')
     else let minNodes2 = min_nodes (highest_priority ps) max_int32 [] nodesToVictims
          in if length minNodes2 = 1 then Inr (Some (fst (minNodes2 ! 0)))
             else let minNodes1 = min_nodes (\<lambda>nv. sum_priorities ps 0 (snd nv)) max_int64 [] minNodes2
                  in if length minNodes1 = 1 then Inr (Some (fst (minNodes1 ! 0)))
                     else let minNodes2 = min_nodes (\<lambda>nv. int (length (snd nv))) max_int32 [] minNodes1
                          in if minNodes2 \<noteq> [] then Inr (Some (fst (minNodes2 ! 0))) else Inr None)"
proof -
  obtain node pods b rest where "nodesToVictims = (node, pods) # b # rest"
    using assms by (cases nodesToVictims; cases "tl nodesToVictims") auto
  then show ?thesis by (simp only: pickOneNodeForPreemption_def list.case prod.case)
qed


lemma demo_candidates:
  "\<forall>nv \<in> set [(node0, [5 :: pod_ptr]), (node1, [7, 8]), (node2, [7])].
     snd nv \<noteq> [] \<and> int (length (snd nv)) \<le> max_int32"
  by simp


text \<open>
  With two candidate nodes of which one needs no victim (an extender may have refused it, so that the
  pod did not fit), picking a node indexes an empty list of victims and panics.
\<close>

theorem pick_panics_without_victims:
  "pickOneNodeForPreemption ps [(node, []), (node', pods)] = Inl (Panic ''index out of range'')"
  by (simp add: pickOneNodeForPreemption_def)

end
