(* ===== verification/ScheduleProperties.thy ===== *)
theory ScheduleProperties
  imports SchedulerProperties QueueProperties
begin

text \<open>
  The scheduling loop: it ends, and no pod is lost or placed twice. Every pod pending before is after it
  either pending or in exactly one of the bind events. The proofs rest on the contract of the queues.
\<close>

section \<open>What a step keeps\<close>

fun placed :: "event list \<Rightarrow> pod_ptr list" where
  "placed [] = []"
| "placed (BindEvent p _ # es) = p # placed es"
| "placed (DeleteEvent _ _ _ # es) = placed es"

lemma placed_append [simp]: "placed (es @ es') = placed es @ placed es'"
  by (induction es rule: placed.induct) simp_all

lemma placed_deletes [simp]: "placed (map (\<lambda>v. DeleteEvent (f v) (g v) (h v)) vs) = []"
  by (induction vs) simp_all

definition pending :: "pod_queue \<Rightarrow> pod_ptr set" where
  "pending q = ran (queue_live q)"

definition waiting :: "fifo_queue \<Rightarrow> pod_ptr set" where
  "waiting f = ran (fifo_live f)"

text \<open>Of the pods \<open>P\<close> that were pending, each is pending, waits in the fail queue, or has been placed.\<close>

definition sched_inv :: "pod_ptr set \<Rightarrow> sched_state \<times> event list \<Rightarrow> bool" where
  "sched_inv P = (\<lambda>(st, results).
     queue_inv (ss_pods st) (ss_queue st) \<and> fifo_inv (ss_pods st) (ss_failQueue st) \<and>
     P = pending (ss_queue st) \<union> waiting (ss_failQueue st) \<union> set (placed results) \<and>
     pending (ss_queue st) \<inter> waiting (ss_failQueue st) = {} \<and>
     (pending (ss_queue st) \<union> waiting (ss_failQueue st)) \<inter> set (placed results) = {} \<and>
     distinct (placed results) \<and> inj_on (\<lambda>p. PodKey (ss_pods st p)) P)"

lemma inj_PodKey_static: "same_static ps ps' \<Longrightarrow> inj_on (\<lambda>p. PodKey (ps p)) P \<Longrightarrow> inj_on (\<lambda>p. PodKey (ps' p)) P"
  using PodKey_static [of ps ps'] by (simp add: inj_on_def)

lemma sched_inv_static:
  assumes "sched_inv P (st, results)" "same_static (ss_pods st) ps"
  shows "sched_inv P (st\<lparr>ss_pods := ps\<rparr>, results)"
  using assms q.inv_static [of "ss_pods st" "ss_queue st" ps] fq.inv_static [of "ss_pods st" "ss_failQueue st" ps]
    inj_PodKey_static [OF assms(2)]
  by (auto simp: sched_inv_def)

lemma sched_inv_queue:
  assumes "sched_inv P (st, results)" "queue_inv (ss_pods st) q'" "queue_live q' = queue_live (ss_queue st)"
  shows "sched_inv P (st\<lparr>ss_queue := q'\<rparr>, results)"
  using assms by (auto simp: sched_inv_def pending_def)

text \<open>What follows the Front of a queue that is not empty: popping gives the same pod.\<close>

lemma front_then_pop:
  assumes inv: "sched_inv P (st, results)" and front: "Queue_Front (ss_queue st) = (q1, Inr p)"
  obtains q2 k where "Queue_Pop (ss_pods st) q1 = (q2, Inr p)" "queue_inv (ss_pods st) q2"
    "queue_inv (ss_pods st) q1" "queue_live q1 = queue_live (ss_queue st)"
    "pending q2 = pending (ss_queue st) - {p}" "p \<in> pending (ss_queue st)" "PodKey (ss_pods st p) = Inr k"
    "card (dom (queue_live q2)) < card (dom (queue_live (ss_queue st)))"
proof -
  have qi: "queue_inv (ss_pods st) (ss_queue st)" using inv by (simp add: sched_inv_def)
  have q1: "queue_inv (ss_pods st) q1" "queue_live q1 = queue_live (ss_queue st)"
    using q.front_pop [OF qi front] by auto
  obtain q2 k where q2: "Queue_Pop (ss_pods st) q1 = (q2, Inr p)" "queue_inv (ss_pods st) q2"
    "queue_live (ss_queue st) k = Some p" "queue_live q2 = (queue_live (ss_queue st))(k := None)"
    "PodKey (ss_pods st p) = Inr k" using q.pop_after_front [OF qi front] by metis
  show thesis
  proof (rule that [OF q2(1,2) q1 _ _ q2(5)])
    show "pending q2 = pending (ss_queue st) - {p}" by (simp only: pending_def q2(4) q.ran_remove [OF qi q2(3)])
    show "p \<in> pending (ss_queue st)" using q2(3) by (auto simp: pending_def ran_def)
    show "card (dom (queue_live q2)) < card (dom (queue_live (ss_queue st)))"
      using q.pop_card [OF q1(1) q2(1)] q1(2) by simp
  qed
qed

lemma clear_nominations_frame:
  "clear_nominations ps q pods = Inr (ps', q') \<Longrightarrow> queue_inv ps q \<Longrightarrow>
     same_static ps ps' \<and> queue_inv ps' q' \<and> queue_live q' = queue_live q"
proof (induction ps q pods rule: clear_nominations.induct)
  case (2 ps q pod pods)
  then obtain ps1 q1 where s: "Queue_RemoveNominatedNode ps q pod = Inr (ps1, q1)"
    "clear_nominations ps1 q1 pods = Inr (ps', q')" by (auto simp: res_bind_Inr_iff)
  note f = Queue_RemoveNominatedNode_frame [OF s(1) "2.prems"(2)]
  have "same_static ps1 ps' \<and> queue_inv ps' q' \<and> queue_live q' = queue_live q1"
    using "2.IH" s f(2) by blast
  with f same_static_trans [OF f(1)] show ?case by auto
qed simp

lemma preempt_frame:
  assumes "preempt env sched ps p q lister infos failed = Inr (dels, ps', q')" "queue_inv ps q"
  shows "same_static ps ps'" "queue_inv ps' q'" "queue_live q' = queue_live q" "placed dels = []"
proof -
  have "same_static ps ps' \<and> queue_inv ps' q' \<and> queue_live q' = queue_live q \<and> placed dels = []"
  proof -
    obtain node victims clear where find: "findPreemption env sched ps p q lister infos failed = Inr (node, victims, clear)"
      using assms(1) by (auto simp: preempt_def res_bind_Inr_iff)
    show ?thesis
    proof (cases node)
      case None
      with assms(1) find have c: "clear_nominations ps q clear = Inr (ps', q')" "dels = []"
        by (auto simp: preempt_def res_bind_Inr_iff)
      with clear_nominations_frame [OF c(1) assms(2)] show ?thesis by simp
    next
      case (Some v)
      obtain ps1 r where u: "Queue_UpdateNominatedNode ps q p (node_Name v) = (ps1, r)" by force
      with assms(1) find Some obtain q1 where r: "r = Inr q1" and c: "clear_nominations ps1 q1 clear = Inr (ps', q')"
        and d: "placed dels = []" by (auto simp: preempt_def res_bind_Inr_iff)
      note f = Queue_UpdateNominatedNode_frame [OF u [unfolded r] assms(2)]
      from clear_nominations_frame [OF c f(2)] f d same_static_trans [OF f(1)] show ?thesis by auto
    qed
  qed
  then show "same_static ps ps'" "queue_inv ps' q'" "queue_live q' = queue_live q" "placed dels = []" by auto
qed

text \<open>A pod at the front joins the fail queue, or is placed.\<close>

lemma waiting_push:
  assumes inv: "sched_inv P (st, results)" and p: "p \<in> pending (ss_queue st)" "PodKey (ss_pods st p) = Inr k"
  obtains f where "FIFOQueue_Push (ss_pods st) (ss_failQueue st) p = Inr f" "fifo_inv (ss_pods st) f"
    "waiting f = insert p (waiting (ss_failQueue st))"
proof -
  have fi: "fifo_inv (ss_pods st) (ss_failQueue st)" using inv by (simp add: sched_inv_def)
  have fresh: "fifo_live (ss_failQueue st) k = None"
  proof (rule ccontr)
    assume "\<not> ?thesis"
    then obtain p' where p': "fifo_live (ss_failQueue st) k = Some p'" by auto
    then have "p' \<in> waiting (ss_failQueue st)" by (auto simp: waiting_def ran_def)
    moreover have "PodKey (ss_pods st p') = PodKey (ss_pods st p)" using fq.live_key [OF fi p'] p(2) by simp
    ultimately show False using inv p(1) by (fastforce simp: sched_inv_def dest: inj_onD)
  qed
  from fq.push_fresh [OF fi p(2) fresh] obtain f where f: "FIFOQueue_Push (ss_pods st) (ss_failQueue st) p = Inr f"
    "fifo_inv (ss_pods st) f" "fifo_live f = (fifo_live (ss_failQueue st))(k \<mapsto> p)" by blast
  with fresh that show thesis by (simp add: waiting_def)
qed

lemma sched_inv_failed:
  assumes "sched_inv P (st, results)" "p \<in> pending (ss_queue st)" "queue_inv (ss_pods st) q2"
    "pending q2 = pending (ss_queue st) - {p}" "fifo_inv (ss_pods st) f"
    "waiting f = insert p (waiting (ss_failQueue st))"
  shows "sched_inv P (st\<lparr>ss_failQueue := f, ss_queue := q2\<rparr>, results)"
  using assms unfolding sched_inv_def by auto

lemma sched_inv_placed:
  assumes "sched_inv P (st, results)" "p \<in> pending (ss_queue st)" "queue_inv ps q2"
    "pending q2 = pending (ss_queue st) - {p}" "same_static (ss_pods st) ps"
  shows "sched_inv P (st\<lparr>ss_pods := ps, ss_queue := q2, ss_cache := c, ss_infos := infos\<rparr>,
    results @ [BindEvent p r])"
proof -
  have "fifo_inv ps (ss_failQueue st)" "inj_on (\<lambda>p. PodKey (ps p)) P"
    using assms(1) fq.inv_static [OF _ assms(5)] inj_PodKey_static [OF assms(5)] by (auto simp: sched_inv_def)
  with assms(1-4) show ?thesis unfolding sched_inv_def by auto
qed

definition smaller :: "sched_state \<times> event list \<Rightarrow> sched_state \<times> event list \<Rightarrow> bool" where
  "smaller s' s \<longleftrightarrow> card (dom (queue_live (ss_queue (fst s')))) < card (dom (queue_live (ss_queue (fst s))))"

definition good_outcome ::
  "sched_env \<Rightarrow> pod_ptr set \<Rightarrow> sched_state \<times> event list \<Rightarrow> (sched_state \<times> event list) outcome \<Rightarrow> bool" where
  "good_outcome env P s r \<longleftrightarrow>
     (case r of
        Continue s' \<Rightarrow> sched_inv P s' \<and> smaller s' s \<and> same_static (ss_pods (fst s)) (ss_pods (fst s')) \<and>
          (\<not> se_KeepScheduling env \<longrightarrow> ss_failQueue (fst s') = ss_failQueue (fst s))
      | Break s' \<Rightarrow> sched_inv P s' \<and> same_static (ss_pods (fst s)) (ss_pods (fst s')) \<and>
          (\<not> se_KeepScheduling env \<longrightarrow> ss_failQueue (fst s') = ss_failQueue (fst s))
      | Return s' \<Rightarrow> \<not> se_KeepScheduling env \<and> snd s' = []
      | Fail e \<Rightarrow> True)"

lemma failed_good:
  assumes inv: "sched_inv P (st, results)" and front: "Queue_Front (ss_queue st) = (q1, Inr p)"
  shows "good_outcome env P (st, results)
    (Schedule_failed env sched clk lister p err (st\<lparr>ss_queue := q1\<rparr>, results))"
proof -
  obtain q2 k where q2: "Queue_Pop (ss_pods st) q1 = (q2, Inr p)" "queue_inv (ss_pods st) q2"
    "queue_inv (ss_pods st) q1" "queue_live q1 = queue_live (ss_queue st)"
    "pending q2 = pending (ss_queue st) - {p}" "p \<in> pending (ss_queue st)" "PodKey (ss_pods st p) = Inr k"
    "card (dom (queue_live q2)) < card (dom (queue_live (ss_queue st)))"
    by (rule front_then_pop [OF inv front])
  show ?thesis
  proof (cases "se_KeepScheduling env")
    case True
    obtain f where f: "FIFOQueue_Push (ss_pods st) (ss_failQueue st) p = Inr f" "fifo_inv (ss_pods st) f"
      "waiting f = insert p (waiting (ss_failQueue st))"
      by (rule waiting_push [OF inv q2(6,7)])
    have "sched_inv P (st\<lparr>ss_failQueue := f, ss_queue := q2\<rparr>, results)"
      by (rule sched_inv_failed [OF inv q2(6,2,5) f(2,3)])
    then show ?thesis
      using True q2(1,8)
      by (simp add: Schedule_failed_def f(1) is_panic_res_def good_outcome_def smaller_def Let_def)
  next
    case False
    define ps where "ps = updatePodStatusSchedulingFailure env clk (ss_pods st) p err"
    have ps: "same_static (ss_pods st) ps" by (simp add: ps_def updatePodStatusSchedulingFailure_def)
    have inv1: "sched_inv P (st\<lparr>ss_queue := q1\<rparr>, results)"
      by (rule sched_inv_queue [OF inv q2(3,4)])
    have inv2: "sched_inv P (st\<lparr>ss_queue := q1, ss_pods := ps\<rparr>, results)"
      using sched_inv_static [OF inv1, of ps] ps by simp
    show ?thesis
    proof (cases "err_FitError err")
      case None
      with False show ?thesis
        by (simp add: Schedule_failed_def good_outcome_def Let_def)
    next
      case (Some failed)
      show ?thesis
      proof (cases "gs_preemptionEnabled sched")
        case off: False
        with False Some inv2 ps show ?thesis
          by (simp add: Schedule_failed_def good_outcome_def Let_def flip: ps_def)
      next
        case True
        show ?thesis
        proof (cases "preempt env sched ps p q1 lister (ss_infos st) failed")
          case (Inl e)
          with False Some True show ?thesis
            by (simp add: Schedule_failed_def good_outcome_def Let_def flip: ps_def)
        next
          case (Inr r)
          obtain dels ps' q' where r: "r = (dels, ps', q')" by (cases r) auto
          have "queue_inv ps q1" by (rule q.inv_static [OF q2(3) ps])
          note f = preempt_frame [OF Inr [unfolded r] this]
          have "sched_inv P (st\<lparr>ss_queue := q1, ss_pods := ps'\<rparr>, results)"
            using sched_inv_static [OF inv2, of ps'] f(1) by simp
          then have "sched_inv P (st\<lparr>ss_pods := ps', ss_queue := q'\<rparr>, results)"
            using sched_inv_queue [of P "st\<lparr>ss_queue := q1, ss_pods := ps'\<rparr>" results q'] f(2,3) by simp
          then have "sched_inv P (st\<lparr>ss_pods := ps', ss_queue := q'\<rparr>, results @ dels)"
            using f(4) by (auto simp: sched_inv_def)
          with False Some True Inr r same_static_trans [OF ps f(1)] show ?thesis
            by (simp add: Schedule_failed_def good_outcome_def Let_def flip: ps_def)
        qed
      qed
    qed
  qed
qed

lemma placed_good:
  assumes inv: "sched_inv P (st, results)" and front: "Queue_Front (ss_queue st) = (q1, Inr p)"
  shows "good_outcome env P (st, results) (Schedule_placed clk p result (st\<lparr>ss_queue := q1\<rparr>, results))"
proof -
  obtain q2 k where q2: "Queue_Pop (ss_pods st) q1 = (q2, Inr p)" "queue_inv (ss_pods st) q2"
    "queue_inv (ss_pods st) q1" "queue_live q1 = queue_live (ss_queue st)"
    "pending q2 = pending (ss_queue st) - {p}" "p \<in> pending (ss_queue st)" "PodKey (ss_pods st p) = Inr k"
    "card (dom (queue_live q2)) < card (dom (queue_live (ss_queue st)))"
    by (rule front_then_pop [OF inv front])
  define ps where "ps = updatePodStatusSchedulingSuccess clk (ss_pods st) p"
  have ps: "same_static (ss_pods st) ps" by (simp add: ps_def updatePodStatusSchedulingSuccess_def)
  show ?thesis
  proof (cases "Queue_RemoveNominatedNode ps q2 p")
    case (Inl e)
    then show ?thesis by (simp add: Schedule_placed_def Let_def q2(1) good_outcome_def flip: ps_def)
  next
    case (Inr r)
    obtain ps' q3 where r: "r = (ps', q3)" by force
    have "queue_inv ps q2" by (rule q.inv_static [OF q2(2) ps])
    note f = Queue_RemoveNominatedNode_frame [OF Inr [unfolded r] this]
    have pend: "pending q3 = pending (ss_queue st) - {p}" using f(3) q2(5) by (simp add: pending_def)
    show ?thesis
    proof (cases "map_of (ss_infos st) (sr_SuggestedHost result)")
      case None
      then show ?thesis by (simp add: Schedule_placed_def Let_def q2(1) Inr r good_outcome_def flip: ps_def)
    next
      case (Some n)
      note s = sched_inv_placed [OF inv q2(6) f(2) pend same_static_trans [OF ps f(1)]]
      show ?thesis
        using Some s same_static_trans [OF ps f(1)] q2(8) f(3)
        by (simp add: Schedule_placed_def Let_def q2(1) Inr r good_outcome_def smaller_def flip: ps_def)
    qed
  qed
qed

lemma step_good:
  assumes inv: "sched_inv P s"
  shows "good_outcome env P s (Schedule_step env sched clk lister s)"
proof -
  obtain st results where s: "s = (st, results)" by force
  have qi: "queue_inv (ss_pods st) (ss_queue st)" using inv by (simp add: sched_inv_def s)
  obtain q1 r where front: "Queue_Front (ss_queue st) = (q1, r)" by force
  show ?thesis
  proof (rule q.front_cases [OF qi front])
    assume e: "r = Inl ErrEmptyQueue" "queue_live q1 = queue_live (ss_queue st)" "queue_inv (ss_pods st) q1"
    with sched_inv_queue [OF inv [unfolded s] e(3,2)] show ?thesis
      by (simp add: Schedule_step_def s front good_outcome_def)
  next
    fix k p
    assume r: "r = Inr p"
    note front' = front [unfolded r]
    show ?thesis
    proof (cases "PodKey (ss_pods st p)")
      case (Inl e)
      then show ?thesis by (simp add: Schedule_step_def s front' good_outcome_def)
    next
      case (Inr key)
      note f = failed_good [OF inv [unfolded s] front'] and p = placed_good [OF inv [unfolded s] front']
      show ?thesis
      proof (cases "scheduleOne env (sched (ss_cache st)) (ss_pods st) p lister (ss_infos st) q1")
        case (Inl e)
        with f Inr show ?thesis by (simp add: Schedule_step_def s front' good_outcome_def Let_def)
      next
        case (Inr result)
        with p \<open>PodKey (ss_pods st p) = Inr key\<close> show ?thesis by (simp add: Schedule_step_def s front' Let_def)
      qed
    qed
  qed
qed

section \<open>The loop\<close>

text \<open>How a run of the loop can end.\<close>

lemma loop_ends:
  "sched_inv P s \<Longrightarrow> \<exists>s'. sched_inv P s' \<and> same_static (ss_pods (fst s)) (ss_pods (fst s')) \<and>
     (Schedule_loop env sched clk lister s = Some (Schedule_finish env s') \<and>
        (\<not> se_KeepScheduling env \<longrightarrow> ss_failQueue (fst s') = ss_failQueue (fst s)) \<or>
      (\<exists>st. Schedule_loop env sched clk lister s = Some (Inr (st, []))) \<and> \<not> se_KeepScheduling env \<or>
      (\<exists>e. Schedule_loop env sched clk lister s = Some (Inl e)))"
proof (induction "card (dom (queue_live (ss_queue (fst s))))" arbitrary: s rule: less_induct)
  case less
  note good = step_good [OF less.prems, of env sched clk lister]
  show ?case
  proof (cases "Schedule_step env sched clk lister s")
    case (Continue s1)
    with good have s1: "sched_inv P s1" "smaller s1 s" "same_static (ss_pods (fst s)) (ss_pods (fst s1))"
      and keep: "\<not> se_KeepScheduling env \<Longrightarrow> ss_failQueue (fst s1) = ss_failQueue (fst s)"
      by (simp_all add: good_outcome_def)
    from less.hyps [OF s1(2) [unfolded smaller_def] s1(1)] obtain s' where
      s': "sched_inv P s'" "same_static (ss_pods (fst s1)) (ss_pods (fst s'))"
      "Schedule_loop env sched clk lister s1 = Some (Schedule_finish env s') \<and>
        (\<not> se_KeepScheduling env \<longrightarrow> ss_failQueue (fst s') = ss_failQueue (fst s1)) \<or>
      (\<exists>st. Schedule_loop env sched clk lister s1 = Some (Inr (st, []))) \<and> \<not> se_KeepScheduling env \<or>
      (\<exists>e. Schedule_loop env sched clk lister s1 = Some (Inl e))" by blast
    have "Schedule_loop env sched clk lister s = Schedule_loop env sched clk lister s1"
      by (subst Schedule_loop.simps) (simp add: Continue)
    with s' keep show ?thesis using same_static_trans [OF s1(3) s'(2)] by (intro exI [of _ s']) auto
  next
    case (Break s')
    have "Schedule_loop env sched clk lister s = Some (Schedule_finish env s')"
      by (subst Schedule_loop.simps) (simp add: Break)
    moreover have "sched_inv P s'" "same_static (ss_pods (fst s)) (ss_pods (fst s'))"
      "\<not> se_KeepScheduling env \<longrightarrow> ss_failQueue (fst s') = ss_failQueue (fst s)"
      using good Break by (simp_all add: good_outcome_def)
    ultimately show ?thesis by blast
  next
    case (Return s')
    have "Schedule_loop env sched clk lister s = Some (Inr s')"
      by (subst Schedule_loop.simps) (simp add: Return)
    moreover have "snd s' = []" "\<not> se_KeepScheduling env" using good Return by (simp_all add: good_outcome_def)
    ultimately obtain st where "Schedule_loop env sched clk lister s = Some (Inr (st, []))" by (cases s') auto
    with less.prems \<open>\<not> se_KeepScheduling env\<close> show ?thesis by (intro exI [of _ s]) auto
  next
    case (Fail e)
    have "Schedule_loop env sched clk lister s = Some (Inl e)" by (subst Schedule_loop.simps) (simp add: Fail)
    with less.prems show ?thesis by (intro exI [of _ s]) auto
  qed
qed

text \<open>Draining the fail queue gives every pod back.\<close>

lemma drain_all:
  "fifo_inv ps f \<Longrightarrow> queue_inv ps q \<Longrightarrow> pending q \<inter> waiting f = {} \<Longrightarrow>
   inj_on (\<lambda>p. PodKey (ps p)) (pending q \<union> waiting f) \<Longrightarrow>
   \<exists>f' q'. drain_failQueue ps f q = Inr (f', q') \<and> queue_inv ps q' \<and> fifo_inv ps f' \<and> waiting f' = {} \<and>
     pending q' = pending q \<union> waiting f"
proof (induction ps f q rule: drain_failQueue.induct)
  case (1 ps f q)
  obtain f1 r where pop: "FIFOQueue_Pop f = (f1, r)" by force
  then have pop': "fifo_pop ps f = (f1, r)" by (simp add: fifo_pop_def)
  show ?case
  proof (rule fq.pop_cases [OF "1.prems"(1) pop'])
    assume e: "r = Inl ErrEmptyQueue" "fifo_live f = Map.empty" "fifo_live f1 = Map.empty" "fifo_inv ps f1"
    with pop "1.prems"(2) show ?thesis
      by (subst drain_failQueue.simps) (simp add: waiting_def)
  next
    fix k p
    assume r: "r = Inr p" and p: "fifo_live f k = Some p" "fifo_live f1 = (fifo_live f)(k := None)" "fifo_inv ps f1"
      "PodKey (ps p) = Inr k"
    have w: "waiting f1 = waiting f - {p}" "p \<in> waiting f"
      using fq.ran_remove [OF "1.prems"(1) p(1)] p(1,2) by (auto simp: waiting_def ran_def)
    have fresh: "queue_live q k = None"
    proof (rule ccontr)
      assume "\<not> ?thesis"
      then obtain p' where p': "queue_live q k = Some p'" by auto
      then have "p' \<in> pending q" by (auto simp: pending_def ran_def)
      moreover have "PodKey (ps p') = PodKey (ps p)" using q.live_key [OF "1.prems"(2) p'] p(4) by simp
      ultimately show False using "1.prems"(3,4) w(2) by (auto dest: inj_onD)
    qed
    obtain q1 where q1: "Queue_Push ps q p = Inr q1" "queue_inv ps q1" "queue_live q1 = (queue_live q)(k \<mapsto> p)"
      using q.push_fresh [OF "1.prems"(2) p(4) fresh] by blast
    have pend: "pending q1 = insert p (pending q)" using q1(3) fresh by (simp add: pending_def)
    have all: "pending q1 \<union> waiting f1 = pending q \<union> waiting f" using pend w by auto
    have "\<exists>f' q'. drain_failQueue ps f1 q1 = Inr (f', q') \<and> queue_inv ps q' \<and> fifo_inv ps f' \<and> waiting f' = {} \<and>
        pending q' = pending q1 \<union> waiting f1"
    proof (rule "1.IH"(2) [OF _ r q1(1) p(3) q1(2)])
      show "(f1, r) = FIFOQueue_Pop f" using pop by simp
      show "pending q1 \<inter> waiting f1 = {}" using "1.prems"(3) pend w by auto
      show "inj_on (\<lambda>p. PodKey (ps p)) (pending q1 \<union> waiting f1)" unfolding all by (rule "1.prems"(4))
    qed
    then show ?thesis unfolding all by (subst drain_failQueue.simps) (simp add: pop r q1(1))
  qed
qed

section \<open>Properties\<close>

text \<open>A state in which Schedule may be called: two sound queues that share no pod.\<close>

definition all_pods :: "sched_state \<Rightarrow> pod_ptr set" where
  "all_pods st = pending (ss_queue st) \<union> waiting (ss_failQueue st)"

definition queues_ok :: "pods \<Rightarrow> pod_queue \<Rightarrow> fifo_queue \<Rightarrow> bool" where
  "queues_ok ps q f \<longleftrightarrow>
     queue_inv ps q \<and> fifo_inv ps f \<and> pending q \<inter> waiting f = {} \<and>
     inj_on (\<lambda>p. PodKey (ps p)) (pending q \<union> waiting f)"

definition sched_ready :: "sched_state \<Rightarrow> bool" where
  "sched_ready st \<longleftrightarrow> queues_ok (ss_pods st) (ss_queue st) (ss_failQueue st)"

lemma sched_ready_inv: "sched_ready st \<longleftrightarrow> sched_inv (all_pods st) (st, [])"
  by (auto simp: sched_ready_def queues_ok_def sched_inv_def all_pods_def)

lemma Schedule_ends:
  assumes "sched_ready st"
  obtains (Finished) s where "Schedule env sched clk lister st = Some (Schedule_finish env s)"
      "sched_inv (all_pods st) s" "same_static (ss_pods st) (ss_pods (fst s))"
      "\<not> se_KeepScheduling env \<longrightarrow> ss_failQueue (fst s) = ss_failQueue st"
    | (Stopped) st' where "Schedule env sched clk lister st = Some (Inr (st', []))" "\<not> se_KeepScheduling env"
    | (Error) e where "Schedule env sched clk lister st = Some (Inl e)"
proof -
  from loop_ends [OF assms [unfolded sched_ready_inv], of env sched clk lister] show thesis
    using that unfolding Schedule_def fst_conv by (elim exE conjE disjE) blast+
qed

lemma Schedule_finish_keep:
  assumes inv: "sched_inv P (st, results)" and keep: "se_KeepScheduling env"
  obtains st' where "Schedule_finish env (st, results) = Inr (st', results)" "sched_ready st'"
    "waiting (ss_failQueue st') = {}" "P = pending (ss_queue st') \<union> set (placed results)"
    "pending (ss_queue st') \<inter> set (placed results) = {}" "distinct (placed results)" "ss_pods st' = ss_pods st"
proof -
  have i: "queue_inv (ss_pods st) (ss_queue st)" "fifo_inv (ss_pods st) (ss_failQueue st)"
    "pending (ss_queue st) \<inter> waiting (ss_failQueue st) = {}"
    and P: "P = pending (ss_queue st) \<union> waiting (ss_failQueue st) \<union> set (placed results)"
      "(pending (ss_queue st) \<union> waiting (ss_failQueue st)) \<inter> set (placed results) = {}"
      "distinct (placed results)" "inj_on (\<lambda>p. PodKey (ss_pods st p)) P"
    using inv unfolding sched_inv_def by auto
  have inj: "inj_on (\<lambda>p. PodKey (ss_pods st p)) (pending (ss_queue st) \<union> waiting (ss_failQueue st))"
    by (rule inj_on_subset [OF P(4)]) (simp add: P(1))
  obtain f' q' where d: "drain_failQueue (ss_pods st) (ss_failQueue st) (ss_queue st) = Inr (f', q')"
    "queue_inv (ss_pods st) q'" "fifo_inv (ss_pods st) f'" "waiting f' = {}"
    "pending q' = pending (ss_queue st) \<union> waiting (ss_failQueue st)"
    using drain_all [OF i(2,1,3) inj] by blast
  show thesis
  proof (rule that [of "st\<lparr>ss_failQueue := f', ss_queue := q'\<rparr>"])
    show "Schedule_finish env (st, results) = Inr (st\<lparr>ss_failQueue := f', ss_queue := q'\<rparr>, results)"
      using keep d(1) by (simp add: Schedule_finish_def)
  qed (use d P inj in \<open>auto simp: sched_ready_def queues_ok_def\<close>)
qed

section \<open>The loop ends on every state\<close>

text \<open>
  No invariant is needed for that: an iteration that continues has popped a pod, and popping makes the
  slice of keys of either queue shorter.
\<close>

definition queue_size :: "pod_queue \<Rightarrow> nat" where
  "queue_size q = (case q of Fifo f \<Rightarrow> length (fq_queue f) | Prio p \<Rightarrow> raw_Len (pq_inner p))"

lemma heap_down_loop_len:
  fixes len :: "'s \<Rightarrow> nat"
  assumes swap: "\<And>h i j h'. hswap h i j = Inr h' \<Longrightarrow> len h' = len h"
  shows "heap_down_loop hless hswap h i n = Inr (h', i') \<Longrightarrow> len h' = len h"
proof (induction "n - i" arbitrary: h i rule: less_induct)
  case less
  show ?case
  proof (cases "n \<le> 2 * i + 1")
    case True
    with less.prems show ?thesis by (subst (asm) heap_down_loop.simps) simp
  next
    case False
    have "h' = h \<or> (\<exists>j h1. i < j \<and> hswap h i j = Inr h1 \<and> heap_down_loop hless hswap h1 j n = Inr (h', i'))"
      using less.prems False
      by (subst (asm) heap_down_loop.simps) (auto simp: Let_def res_bind_Inr_iff split: if_splits)
    then show ?thesis
    proof (elim disjE exE conjE)
      fix j h1
      assume j: "i < j" "hswap h i j = Inr h1" "heap_down_loop hless hswap h1 j n = Inr (h', i')"
      have "len h' = len h1" by (rule less.hyps [OF _ j(3)]) (use False j(1) in simp)
      with swap [OF j(2)] show ?thesis by simp
    qed simp
  qed
qed

lemma raw_Swap_len: "raw_Swap pq i j = Inr pq' \<Longrightarrow> raw_Len pq' = raw_Len pq"
  by (auto simp: raw_Swap_def raw_set_index_def raw_Len_def res_bind_Inr_iff split: if_splits option.splits)

lemma heap_down_loop_panics:
  assumes swap: "\<And>h i j e. hswap h i j = Inl e \<Longrightarrow> is_panic e" and less: "\<And>h i j e. hless h i j = Inl e \<Longrightarrow> is_panic e"
  shows "heap_down_loop hless hswap h i n = Inl e \<Longrightarrow> is_panic e"
proof (induction "n - i" arbitrary: h i rule: less_induct)
  case less
  show ?case
  proof (cases "n \<le> 2 * i + 1")
    case True
    with less.prems show ?thesis by (subst (asm) heap_down_loop.simps) simp
  next
    case False
    have "is_panic e \<or> (\<exists>j h1. i < j \<and> heap_down_loop hless hswap h1 j n = Inl e)"
      using less.prems False
      by (subst (asm) heap_down_loop.simps)
        (auto simp: Let_def res_bind_def split: if_splits sum.splits dest: swap assms(2))
    then show ?thesis
    proof (elim disjE exE conjE)
      fix j h1
      assume j: "i < j" "heap_down_loop hless hswap h1 j n = Inl e"
      show ?thesis by (rule less.hyps [OF _ j(2)]) (use False j(1) in simp)
    qed simp
  qed
qed

lemma raw_panics:
  "raw_Swap pq i j = Inl e \<Longrightarrow> is_panic e" "raw_Less ps pq i j = Inl e \<Longrightarrow> is_panic e"
  "raw_Pop pq = Inl e \<Longrightarrow> is_panic e"
  by (auto simp: raw_Swap_def raw_Less_def raw_Pop_def raw_item_def raw_set_index_def Let_def res_bind_def
      out_of_range_def nil_dereference_def split: if_splits option.splits sum.splits)

lemma heap_Pop_panics:
  assumes "heap_Pop (raw_Less ps) raw_Swap raw_Len raw_Pop pq = Inl e"
  shows "is_panic e"
proof -
  consider "raw_Swap pq 0 (raw_Len pq - 1) = Inl e"
    | h1 where "heap_down_loop (raw_Less ps) raw_Swap h1 0 (raw_Len pq - 1) = Inl e"
    | h2 where "raw_Pop h2 = Inl e"
    using assms by (auto simp: heap_Pop_def heap_down_def Let_def res_bind_def split: sum.splits)
  then show ?thesis
    using heap_down_loop_panics [of raw_Swap "raw_Less ps"] raw_panics by cases blast+
qed

lemma Queue_Pop_size:
  assumes "Queue_Pop ps q = (q', r)" "queue_size q \<noteq> 0" "\<not> is_panic_res r"
  shows "queue_size q' < queue_size q"
proof (cases q)
  case (Fifo f)
  have "FIFOQueue_Pop_loop pods ks = (f', r) \<Longrightarrow> ks \<noteq> [] \<Longrightarrow> length (fq_queue f') < length ks" for pods ks f'
    by (induction pods ks rule: FIFOQueue_Pop_loop.induct) (fastforce split: option.splits)+
  with assms Fifo show ?thesis by (auto simp: Queue_Pop_def queue_size_def FIFOQueue_Pop_def split: prod.splits)
next
  case (Prio p)
  then have ne: "raw_Len (pq_inner p) \<noteq> 0" using assms(2) by (simp add: queue_size_def)
  show ?thesis
  proof (cases "heap_Pop (raw_Less ps) raw_Swap raw_Len raw_Pop (pq_inner p)")
    case (Inl e)
    with assms Prio ne heap_Pop_panics [OF Inl] show ?thesis
      by (auto simp: Queue_Pop_def PriorityQueue_Pop_def is_panic_res_def)
  next
    case (Inr x)
    then obtain inner pod h1 h2 b where x: "x = (inner, pod)" "raw_Swap (pq_inner p) 0 (raw_Len (pq_inner p) - 1) = Inr h1"
      "heap_down (raw_Less ps) raw_Swap h1 0 (raw_Len (pq_inner p) - 1) = Inr (h2, b)" "raw_Pop h2 = Inr (inner, pod)"
      by (cases x) (auto simp: heap_Pop_def Let_def res_bind_Inr_iff)
    have "raw_Len h2 = raw_Len h1" using x(3)
      by (auto simp: heap_down_def res_bind_Inr_iff intro: heap_down_loop_len [OF raw_Swap_len])
    moreover have "raw_Len inner < raw_Len h2" using x(4)
      by (auto simp: raw_Pop_def Let_def raw_Len_def diff_less split: if_splits option.splits)
    ultimately have "raw_Len inner < raw_Len (pq_inner p)" using raw_Swap_len [OF x(2)] by simp
    with Inr x(1) assms Prio ne show ?thesis
      by (auto simp: Queue_Pop_def PriorityQueue_Pop_def queue_size_def)
  qed
qed

lemma Queue_Front_size:
  assumes "Queue_Front q = (q', Inr p)"
  shows "queue_size q' \<le> queue_size q" "queue_size q' \<noteq> 0"
proof -
  have fifo: "FIFOQueue_Front_loop pods ks = (f', Inr p) \<Longrightarrow> length (fq_queue f') \<le> length ks \<and> fq_queue f' \<noteq> []"
    for pods ks f'
    by (induction pods ks rule: FIFOQueue_Front_loop.induct) (fastforce split: option.splits)+
  show "queue_size q' \<le> queue_size q" "queue_size q' \<noteq> 0"
    using assms fifo
    by (cases q; fastforce simp: Queue_Front_def PriorityQueue_Front_def FIFOQueue_Front_def queue_size_def split: prod.splits if_splits)+
qed

lemma Queue_RemoveNominatedNode_size:
  "Queue_RemoveNominatedNode ps q p = Inr (ps', q') \<Longrightarrow> queue_size q' = queue_size q"
  by (cases q) (auto simp: Queue_RemoveNominatedNode_def FIFOQueue_RemoveNominatedNode_def res_bind_Inr_iff queue_size_def
      dest: same_static_RemoveNominatedNode)

lemma step_smaller:
  assumes "Schedule_step env sched clk lister s = Continue s'"
  shows "queue_size (ss_queue (fst s')) < queue_size (ss_queue (fst s))"
proof -
  obtain st results where s: "s = (st, results)" by force
  obtain q1 r where front: "Queue_Front (ss_queue st) = (q1, r)" by force
  with assms s obtain p where r: "r = Inr p"
    by (cases r) (auto simp: Schedule_step_def split: if_splits)
  note size = Queue_Front_size [OF front [unfolded r]]
  obtain q2 r2 where pop: "Queue_Pop (ss_pods st) q1 = (q2, r2)" by force
  note smaller = Queue_Pop_size [OF pop size(2)]
  consider (failed) e where "Schedule_failed env (sched (ss_cache st)) clk lister p e (st\<lparr>ss_queue := q1\<rparr>, results) = Continue s'"
    | (placed) result where "Schedule_placed clk p result (st\<lparr>ss_queue := q1\<rparr>, results) = Continue s'"
    using assms by (auto simp: Schedule_step_def s front r Let_def split: sum.splits if_splits)
  then show ?thesis
  proof cases
    case failed
    then have "\<not> is_panic_res r2" "ss_queue (fst s') = q2"
      by (auto simp: Schedule_failed_def Let_def pop split: if_splits option.splits sum.splits prod.splits)
    with smaller size(1) show ?thesis by (simp add: s)
  next
    case placed
    then obtain p' where r2: "r2 = Inr p'" by (cases r2) (auto simp: Schedule_placed_def Let_def pop)
    with placed obtain ps' q3 where
      rem: "Queue_RemoveNominatedNode (updatePodStatusSchedulingSuccess clk (ss_pods st) p') q2 p' = Inr (ps', q3)"
      "ss_queue (fst s') = q3"
      by (auto simp: Schedule_placed_def Let_def pop split: sum.splits option.splits)
    with Queue_RemoveNominatedNode_size [OF rem(1)] smaller size(1) r2 show ?thesis
      by (simp add: s is_panic_res_def)
  qed
qed

lemma Schedule_loop_total: "Schedule_loop env sched clk lister s \<noteq> None"
proof (induction "queue_size (ss_queue (fst s))" arbitrary: s rule: less_induct)
  case less
  show ?case
  proof (cases "Schedule_step env sched clk lister s")
    case (Continue s')
    from less.hyps [OF step_smaller [OF Continue]] show ?thesis
      by (subst Schedule_loop.simps) (simp add: Continue)
  qed (subst Schedule_loop.simps, simp)+
qed

end
