(* ===== verification/PlacementProperties.thy ===== *)
theory PlacementProperties
  imports ScheduleProperties
begin

text \<open>
  A whole pass of Schedule and the NodeInfos: every placement is entered into the NodeInfo of its node
  before the next pod is looked at, so what the predicates guarantee of one placement holds of all of
  them together. Two examples of a pass, with and without KeepScheduling, serve as witnesses.
\<close>

section \<open>Placements and NodeInfos\<close>

text \<open>The pods that the events bind to a node, in order.\<close>

fun bound_to :: "string \<Rightarrow> event list \<Rightarrow> pod_ptr list" where
  "bound_to h [] = []"
| "bound_to h (BindEvent p r # es) = (if sr_SuggestedHost r = h then p # bound_to h es else bound_to h es)"
| "bound_to h (DeleteEvent _ _ _ # es) = bound_to h es"

lemma bound_to_append [simp]: "bound_to h (es @ es') = bound_to h es @ bound_to h es'"
  by (induction h es rule: bound_to.induct) simp_all

lemma bound_to_unplaced: "placed es = [] \<Longrightarrow> bound_to h es = []"
  by (induction es rule: placed.induct) simp_all

lemma NodeInfo_AddPod_fields [simp]:
  "ni_node (NodeInfo_AddPod ps n p) = ni_node n" "ni_pods (NodeInfo_AddPod ps n p) = ni_pods n @ [p]"
  by (simp_all add: NodeInfo_AddPod_def Let_def split: prod.splits)

text \<open>Every NodeInfo has the node of its name, and is good.\<close>

definition infos_good :: "(node_info \<Rightarrow> bool) \<Rightarrow> node_infos \<Rightarrow> bool" where
  "infos_good good infos \<longleftrightarrow>
     (\<forall>name n. map_of infos name = Some n \<longrightarrow> good n \<and> (\<exists>node. ni_node n = Some node \<and> node_Name node = name))"

lemma infos_good_ok: "infos_good good infos \<Longrightarrow> infos_ok infos"
  by (fastforce simp: infos_good_def infos_ok_def)

lemma infos_good_update:
  "infos_good good infos \<Longrightarrow> map_of infos h = Some n \<Longrightarrow> good (NodeInfo_AddPod ps n p) \<Longrightarrow>
     infos_good good (AList.update h (NodeInfo_AddPod ps n p) infos)"
  by (auto simp: infos_good_def update_conv)

lemma scheduleOne_accepts:
  assumes "env_ok env" "gs_extenders sched = []" "gs_predicates sched \<noteq> []" "infos_good good infos"
    "gives_reasons (gs_predicates sched) ps p" "scheduleOne env sched ps p lister infos q = Inr result"
  obtains n where "map_of infos (sr_SuggestedHost result) = Some n" "accepts (gs_predicates sched) ps p n"
proof -
  obtain nodes where lister: "lister = Inr nodes" using assms(6) by (cases lister) (auto simp: scheduleOne_def)
  obtain i where i: "i < length (feasible sched ps p infos q nodes)"
    "sr_SuggestedHost result = node_Name (feasible sched ps p infos q nodes ! i)"
    using scheduleOne_host [OF assms(1-3) infos_good_ok [OF assms(4)] assms(6) [unfolded lister]] by blast
  then have "feasible sched ps p infos q nodes ! i \<in> set (feasible sched ps p infos q nodes)" by simp
  then have "fitting (fits_node ps p (gs_predicates sched) infos q (feasible sched ps p infos q nodes ! i))"
    by (simp add: feasible_def)
  then obtain n reasons where n: "map_of infos (sr_SuggestedHost result) = Some n"
    "podFitsOnNode ps p (gs_predicates sched) n q = Inr (True, reasons)"
    using i(2) by (auto simp: fitting_def fits_node_def split: option.splits sum.splits)
  from n(1) assms(4) obtain node where "ni_node n = Some node" by (auto simp: infos_good_def)
  with n(2) podFitsOnNode_cases [OF this assms(5), of q] n(1) that show thesis by blast
qed

section \<open>One step, and the loop\<close>

lemma failed_infos:
  assumes "queue_inv (ss_pods st) (ss_queue st)"
    "Schedule_failed env sched clk lister p err (st, results) \<in> {Continue (st', results'), Break (st', results')}"
  shows "ss_infos st' = ss_infos st \<and> ss_cache st' = ss_cache st \<and> bound_to h results' = bound_to h results"
proof (cases "se_KeepScheduling env")
  case True
  with assms(2) show ?thesis
    by (auto simp: Schedule_failed_def Let_def split: prod.splits if_splits)
next
  case False
  define ps where "ps = updatePodStatusSchedulingFailure env clk (ss_pods st) p err"
  have "queue_inv ps (ss_queue st)"
    by (rule q.inv_static [OF assms(1)]) (simp add: ps_def updatePodStatusSchedulingFailure_def)
  note frame = preempt_frame [OF _ this]
  from False assms(2) frame(4) show ?thesis
    by (auto simp: Schedule_failed_def Let_def bound_to_unplaced simp flip: ps_def
        split: prod.splits if_splits option.splits sum.splits)
qed

lemma step_infos:
  assumes inv: "sched_inv P (st, results)"
    and step: "Schedule_step env sched clk lister (st, results) \<in> {Continue (st', results'), Break (st', results')}"
  obtains (Same) "ss_infos st' = ss_infos st" "ss_cache st' = ss_cache st" "\<And>h. bound_to h results' = bound_to h results"
  | (Placed) p q result n ps where "p \<in> pending (ss_queue st)"
      "scheduleOne env (sched (ss_cache st)) (ss_pods st) p lister (ss_infos st) q = Inr result"
      "map_of (ss_infos st) (sr_SuggestedHost result) = Some n" "same_static (ss_pods st) ps"
      "ss_infos st' = AList.update (sr_SuggestedHost result) (NodeInfo_AddPod ps n p) (ss_infos st)"
      "ss_cache st' = cache_placement (ss_pods st) p (sr_SuggestedHost result) (ss_infos st) (ss_cache st)"
      "results' = results @ [BindEvent p result]"
proof -
  have qi: "queue_inv (ss_pods st) (ss_queue st)" using inv by (simp add: sched_inv_def)
  obtain q1 r where front: "Queue_Front (ss_queue st) = (q1, r)" by force
  show thesis
  proof (cases r)
    case (Inl e)
    with step front show thesis by (intro Same) (auto simp: Schedule_step_def split: if_splits)
  next
    case (Inr p)
    note front = front [unfolded Inr]
    from step front obtain key where key: "PodKey (ss_pods st p) = Inr key"
      by (cases "PodKey (ss_pods st p)") (auto simp: Schedule_step_def Let_def)
    obtain q2 k where q2: "Queue_Pop (ss_pods st) q1 = (q2, Inr p)" "queue_inv (ss_pods st) q2"
      "queue_inv (ss_pods st) q1" and p: "p \<in> pending (ss_queue st)" by (rule front_then_pop [OF inv front]) blast
    show thesis
    proof (cases "scheduleOne env (sched (ss_cache st)) (ss_pods st) p lister (ss_infos st) q1")
      case (Inl e)
      with step front key have "Schedule_failed env (sched (ss_cache st)) clk lister p e (st\<lparr>ss_queue := q1\<rparr>, results) \<in>
        {Continue (st', results'), Break (st', results')}"
        by (auto simp: Schedule_step_def Let_def split: if_splits)
      with failed_infos [of "st\<lparr>ss_queue := q1\<rparr>"] q2(3) show thesis by (intro Same) auto
    next
      case (Inr result)
      let ?ps = "updatePodStatusSchedulingSuccess clk (ss_pods st) p"
      have ps: "same_static (ss_pods st) ?ps" by (simp add: updatePodStatusSchedulingSuccess_def)
      have step': "Schedule_placed clk p result (st\<lparr>ss_queue := q1\<rparr>, results) \<in>
        {Continue (st', results'), Break (st', results')}"
        using step front key Inr by (simp add: Schedule_step_def Let_def)
      then obtain ps' q3 where rem: "Queue_RemoveNominatedNode ?ps q2 p = Inr (ps', q3)"
        by (cases "Queue_RemoveNominatedNode ?ps q2 p") (auto simp: Schedule_placed_def Let_def q2(1))
      have "same_static ?ps ps'"
        using Queue_RemoveNominatedNode_frame [OF rem q.inv_static [OF q2(2) ps]] by blast
      note ps' = same_static_trans [OF ps this]
      from step' rem obtain n where n: "map_of (ss_infos st) (sr_SuggestedHost result) = Some n"
        by (cases "map_of (ss_infos st) (sr_SuggestedHost result)") (auto simp: Schedule_placed_def Let_def q2(1))
      with step' rem Placed [OF p Inr n ps'] show thesis by (auto simp: Schedule_placed_def Let_def q2(1))
    qed
  qed
qed

text \<open>What every step keeps holds at the end of the loop.\<close>

lemma loop_rule:
  assumes step: "\<And>s s'. sched_inv P s \<Longrightarrow> I s \<Longrightarrow>
      Schedule_step env sched clk lister s \<in> {Continue s', Break s'} \<Longrightarrow> I s'"
  shows "Schedule_loop env sched clk lister s = Some (Inr r) \<Longrightarrow> sched_inv P s \<Longrightarrow> I s \<Longrightarrow>
    (\<exists>s'. I s' \<and> Schedule_finish env s' = Inr r) \<or> \<not> se_KeepScheduling env \<and> snd r = []"
proof (induction "card (dom (queue_live (ss_queue (fst s))))" arbitrary: s rule: less_induct)
  case less
  note good = step_good [OF less.prems(2), of env sched clk lister]
  note loop = less.prems(1) [unfolded Schedule_loop.simps [of env sched clk lister s]]
  show ?case
  proof (cases "Schedule_step env sched clk lister s")
    case (Continue s1)
    with good have s1: "sched_inv P s1" "smaller s1 s" by (simp_all add: good_outcome_def)
    have "I s1" by (rule step [OF less.prems(2,3)]) (simp add: Continue)
    with less.hyps [OF s1(2) [unfolded smaller_def] _ s1(1)] loop Continue show ?thesis by simp
  next
    case (Break s1)
    have "I s1" by (rule step [OF less.prems(2,3)]) (simp add: Break)
    moreover have "Schedule_finish env s1 = Inr r" using loop Break by simp
    ultimately show ?thesis by blast
  next
    case (Return s1)
    with good loop show ?thesis by (auto simp: good_outcome_def)
  qed (use loop in simp)
qed

lemma Schedule_finish_infos:
  "Schedule_finish env (st, results) = Inr (st', results') \<Longrightarrow>
     ss_infos st' = ss_infos st \<and> ss_cache st' = ss_cache st \<and> results' = results"
  by (auto simp: Schedule_finish_def res_bind_Inr_iff split: if_splits)

text \<open>The NodeInfos \<open>infos\<close> of before, with the pods bound by the events added.\<close>

definition entered :: "node_infos \<Rightarrow> sched_state \<Rightarrow> event list \<Rightarrow> bool" where
  "entered infos st events \<longleftrightarrow>
     (\<forall>h n. map_of infos h = Some n \<longrightarrow>
        (\<exists>n'. map_of (ss_infos st) h = Some n' \<and> ni_pods n' = ni_pods n @ bound_to h events))"

text \<open>
  What the predicates accept keeps the NodeInfo good, for pods of which \<open>sane\<close> holds. The pods are read
  in two stores: the one the predicates saw and the one the pod is entered with.
\<close>

definition guards_for :: "(v1_pod \<Rightarrow> bool) \<Rightarrow> predicates \<Rightarrow> (node_info \<Rightarrow> bool) \<Rightarrow> bool" where
  "guards_for sane preds good \<longleftrightarrow>
     (\<forall>ps ps' p n. same_static ps ps' \<longrightarrow> sane (pod_static (ps p)) \<longrightarrow> accepts preds ps p n \<longrightarrow> good n \<longrightarrow>
        good (NodeInfo_AddPod ps' n p))"

abbreviation guards :: "predicates \<Rightarrow> (node_info \<Rightarrow> bool) \<Rightarrow> bool" where
  "guards \<equiv> guards_for (\<lambda>_. True)"

lemmas guards_def = guards_for_def

text \<open>What holds of the pods of \<open>P\<close> does so in every store that agrees on what never changes.\<close>

definition pods_wf :: "(v1_pod \<Rightarrow> bool) \<Rightarrow> pod_ptr set \<Rightarrow> pods \<Rightarrow> bool" where
  "pods_wf sane P ps \<longleftrightarrow> (\<forall>p\<in>P. sane (pod_static (ps p)))"

lemma pods_wf_static: "same_static ps ps' \<Longrightarrow> pods_wf sane P ps \<longleftrightarrow> pods_wf sane P ps'"
  by (simp add: pods_wf_def same_static_def)

text \<open>
  A relation \<open>I\<close> between the NodeInfos and the cache of node metrics that every placement keeps holds after
  a whole pass, and the NodeInfos hold the pods of the bind events.
\<close>

lemma pass_keeps:
  assumes place: "\<And>ps ps' infos cache p q result n. same_static (ss_pods st) ps \<Longrightarrow> same_static ps ps' \<Longrightarrow> p \<in> all_pods st \<Longrightarrow>
      I infos cache \<Longrightarrow> scheduleOne env (sched cache) ps p lister infos q = Inr result \<Longrightarrow>
      map_of infos (sr_SuggestedHost result) = Some n \<Longrightarrow>
      I (AList.update (sr_SuggestedHost result) (NodeInfo_AddPod ps' n p) infos)
        (cache_placement ps p (sr_SuggestedHost result) infos cache)"
    and ready: "sched_ready st" and I: "I (ss_infos st) (ss_cache st)" and keep: "se_KeepScheduling env \<or> events \<noteq> []"
    and run: "Schedule env sched clk lister st = Some (Inr (st', events))"
  shows "I (ss_infos st') (ss_cache st') \<and> entered (ss_infos st) st' events"
proof -
  let ?J = "\<lambda>s. I (ss_infos (fst s)) (ss_cache (fst s)) \<and> entered (ss_infos st) (fst s) (snd s) \<and>
      same_static (ss_pods st) (ss_pods (fst s))"
  have "(\<exists>s'. ?J s' \<and> Schedule_finish env s' = Inr (st', events)) \<or> \<not> se_KeepScheduling env \<and> snd (st', events) = []"
  proof (rule loop_rule)
    show "sched_inv (all_pods st) (st, [])" using ready by (simp add: sched_ready_inv)
    show "Schedule_loop env sched clk lister (st, []) = Some (Inr (st', events))"
      using run by (simp add: Schedule_def)
    show "?J (st, [])" using I by (simp add: entered_def)
  next
    fix s s'
    assume inv: "sched_inv (all_pods st) s" and J: "?J s"
      and step: "Schedule_step env sched clk lister s \<in> {Continue s', Break s'}"
    have "same_static (ss_pods (fst s)) (ss_pods (fst s'))"
      using step_good [OF inv, of env sched clk lister] step by (auto simp: good_outcome_def)
    with J have static: "same_static (ss_pods st) (ss_pods (fst s'))" using same_static_trans by blast
    have inv': "sched_inv (all_pods st) (fst s, snd s)"
      and step': "Schedule_step env sched clk lister (fst s, snd s) \<in> {Continue (fst s', snd s'), Break (fst s', snd s')}"
      using inv step by simp_all
    show "?J s'"
    proof (rule step_infos [OF inv' step'])
      assume "ss_infos (fst s') = ss_infos (fst s)" "ss_cache (fst s') = ss_cache (fst s)"
        "\<And>h. bound_to h (snd s') = bound_to h (snd s)"
      with J static show ?thesis by (simp add: entered_def)
    next
      fix p q result n ps
      assume p: "p \<in> pending (ss_queue (fst s))"
        and one: "scheduleOne env (sched (ss_cache (fst s))) (ss_pods (fst s)) p lister (ss_infos (fst s)) q = Inr result"
        and n: "map_of (ss_infos (fst s)) (sr_SuggestedHost result) = Some n" and ps: "same_static (ss_pods (fst s)) ps"
        and s': "ss_infos (fst s') = AList.update (sr_SuggestedHost result) (NodeInfo_AddPod ps n p) (ss_infos (fst s))"
          "ss_cache (fst s') = cache_placement (ss_pods (fst s)) p (sr_SuggestedHost result) (ss_infos (fst s)) (ss_cache (fst s))"
          "snd s' = snd s @ [BindEvent p result]"
      have "p \<in> all_pods st" using p inv' by (auto simp: sched_inv_def)
      then have "I (ss_infos (fst s')) (ss_cache (fst s'))"
        unfolding s' using J by (intro place [OF _ ps _ _ one n]) blast+
      moreover have "entered (ss_infos st) (fst s') (snd s')"
        using J n by (fastforce simp: s' entered_def update_conv)
      ultimately show ?thesis using static by blast
    qed
  qed
  with keep obtain s' where s': "?J s'" "Schedule_finish env s' = Inr (st', events)" by auto
  then have "ss_infos st' = ss_infos (fst s')" "ss_cache st' = ss_cache (fst s')" "events = snd s'"
    using Schedule_finish_infos [of env "fst s'" "snd s'"] by auto
  with s'(1) show ?thesis unfolding entered_def by simp
qed

text \<open>Without extenders, what the predicates guard is such a relation.\<close>

lemma pass_good_infos:
  assumes "env_ok env" "\<And>c. gs_extenders (sched c) = []" "\<And>c. gs_predicates (sched c) \<noteq> []"
    "\<And>c ps p. gives_reasons (gs_predicates (sched c)) ps p"
    "\<And>c. guards_for sane (gs_predicates (sched c)) good" "pods_wf sane (all_pods st) (ss_pods st)"
    "sched_ready st" "infos_good good (ss_infos st)" "se_KeepScheduling env \<or> events \<noteq> []"
    "Schedule env sched clk lister st = Some (Inr (st', events))"
  shows "infos_good good (ss_infos st') \<and> entered (ss_infos st) st' events"
proof (rule pass_keeps [where I = "\<lambda>infos _. infos_good good infos", OF _ assms(7-10)])
  fix ps ps' infos cache p q result n
  assume ps: "same_static (ss_pods st) ps" "same_static ps ps'" and p: "p \<in> all_pods st" and good: "infos_good good infos"
    and one: "scheduleOne env (sched cache) ps p lister infos q = Inr result"
    and n: "map_of infos (sr_SuggestedHost result) = Some n"
  have sane: "sane (pod_static (ps p))" using assms(6) p pods_wf_static [OF ps(1)] by (simp add: pods_wf_def)
  have "accepts (gs_predicates (sched cache)) ps p n"
    using scheduleOne_accepts [OF assms(1-3) good assms(4) one] n by (metis option.inject)
  moreover have "good n" using good n by (auto simp: infos_good_def)
  ultimately have "good (NodeInfo_AddPod ps' n p)" using assms(5) ps(2) sane unfolding guards_def by blast
  with good n show "infos_good good (AList.update (sr_SuggestedHost result) (NodeInfo_AddPod ps' n p) infos)"
    by (rule infos_good_update)
qed

section \<open>Two example passes\<close>

text \<open>Three pods wait; each node takes two pods, so with \<open>n2\<close> full and one place left on \<open>n0\<close> and two on
  \<open>n1\<close> all three are placed. \<open>shy_pred\<close> fails on the pod named c.\<close>

definition keep_env :: sched_env where
  "keep_env = demo_sched_env\<lparr>se_KeepScheduling := True\<rparr>"

definition shy_pred :: fit_predicate where
  "shy_pred ps pod n = (if pod_Name (ps pod) = ''c'' then Inl (ResultError ''predicate failed'') else Inr (True, []))"

definition shy_scheduler :: generic_scheduler where
  "shy_scheduler = AddPredicate demo_scheduler ''shy'' shy_pred"

definition three_queue :: fifo_queue where
  "three_queue = \<lparr>fq_pods = [(''default/a'', 0), (''default/c'', 2), (''default/d'', 7)],
     fq_queue = [''default/a'', ''default/c'', ''default/d'']\<rparr>"

definition demo_state :: sched_state where
  "demo_state = \<lparr>ss_pods = demo_store, ss_queue = Fifo three_queue, ss_infos = three_infos,
     ss_failQueue = NewFIFOQueue, ss_cache = []\<rparr>"

lemma demo_ready: "sched_ready demo_state"
proof -
  have keys: "PodKey (demo_store 0) = Inr ''default/a''" "PodKey (demo_store 2) = Inr ''default/c''"
    "PodKey (demo_store 7) = Inr ''default/d''"
    by code_simp+
  have three: "queue_live (Fifo three_queue) = [''default/a'' \<mapsto> 0, ''default/c'' \<mapsto> 2, ''default/d'' \<mapsto> 7]"
    by (simp add: queue_live_def fifo_live_def three_queue_def fun_eq_iff)
  have "queue_inv demo_store (Fifo three_queue)" "fifo_inv demo_store NewFIFOQueue"
    using keys by (auto simp: queue_inv_def fifo_inv_def fifo_live_def three_queue_def NewFIFOQueue_def split: if_splits)
  moreover have "waiting NewFIFOQueue = {}" by (simp add: waiting_def fifo_live_def NewFIFOQueue_def)
  moreover have "pending (Fifo three_queue) = {0, 2, 7}" unfolding pending_def three by (simp add: insert_commute)
  ultimately show ?thesis
    using keys by (simp add: sched_ready_def queues_ok_def demo_state_def)
qed

definition demo_events :: "event list" where
  "demo_events = [BindEvent 0 \<lparr>sr_SuggestedHost = ''n1'', sr_EvaluatedNodes = 3, sr_FeasibleNodes = 2\<rparr>,
     BindEvent 2 \<lparr>sr_SuggestedHost = ''n1'', sr_EvaluatedNodes = 3, sr_FeasibleNodes = 2\<rparr>,
     BindEvent 7 \<lparr>sr_SuggestedHost = ''n0'', sr_EvaluatedNodes = 3, sr_FeasibleNodes = 1\<rparr>]"

text \<open>The pass as far as it can be compared: the pods left in the (FIFO) queue, and the events.\<close>

definition pass_result :: "(sched_state \<times> event list) res option \<Rightarrow> ((string \<times> pod_ptr) list \<times> event list) option" where
  "pass_result r =
     (case r of Some (Inr (st, events)) \<Rightarrow>
        (case ss_queue st of Fifo f \<Rightarrow> Some (fq_pods f, events) | Prio _ \<Rightarrow> None) | _ \<Rightarrow> None)"

lemma pass_resultD:
  "pass_result r = Some (pods, events) \<Longrightarrow>
     \<exists>st. r = Some (Inr (st, events)) \<and> queue_live (ss_queue st) = map_of pods"
  by (auto simp: pass_result_def queue_live_def fifo_live_def fun_eq_iff
      split: option.splits sum.splits pod_queue.splits)

lemma keep_pass:
  "pass_result (Schedule keep_env (\<lambda>_. demo_scheduler) 7 (Inr three_nodes) demo_state) = Some ([], demo_events)"
  by code_simp

lemma stopping_pass:
  "pass_result (Schedule demo_sched_env (\<lambda>_. demo_scheduler) 7 (Inr three_nodes) demo_state) = Some ([], demo_events)"
  by code_simp

lemma shy_pass:
  "pass_result (Schedule demo_sched_env (\<lambda>_. shy_scheduler) 7 (Inr three_nodes) demo_state) =
     Some ([(''default/c'', 2), (''default/d'', 7)], [])"
  by code_simp

section \<open>Properties\<close>

text \<open>
  C10: A scheduling pass returns. Whatever the predicates, prioritizers and extenders answer, and whatever
  the queues hold, the loop of Schedule comes to an end, with KeepScheduling as without.
\<close>

theorem schedule_terminates:
  "\<exists>r. Schedule env sched clk lister st = Some r"
  using Schedule_loop_total by (fastforce simp: Schedule_def)

text \<open>
  C5: No pod is lost and none is placed twice. If KeepScheduling is on, then of the pods that were
  pending or waiting in the fail queue before a pass, each is afterwards either pending again or in
  exactly one bind event; the fail queue is empty, the queues are sound, and the pass may be repeated.
\<close>

theorem schedule_conserves:
  assumes "sched_ready st" "se_KeepScheduling env" "Schedule env sched clk lister st = Some (Inr (st', events))"
  shows "all_pods st = pending (ss_queue st') \<union> set (placed events) \<and>
    pending (ss_queue st') \<inter> set (placed events) = {} \<and> distinct (placed events) \<and>
    waiting (ss_failQueue st') = {} \<and> sched_ready st'"
  using assms(1)
proof (rule Schedule_ends [of st env sched clk lister])
  fix s
  assume s: "Schedule env sched clk lister st = Some (Schedule_finish env s)" "sched_inv (all_pods st) s"
  obtain st1 results where s1: "s = (st1, results)" by force
  from Schedule_finish_keep [OF s(2) [unfolded s1] assms(2)] obtain st2 where
    "Schedule_finish env (st1, results) = Inr (st2, results)" "sched_ready st2"
    "waiting (ss_failQueue st2) = {}" "all_pods st = pending (ss_queue st2) \<union> set (placed results)"
    "pending (ss_queue st2) \<inter> set (placed results) = {}" "distinct (placed results)" by metis
  with assms(3) s(1) s1 show ?thesis by auto
qed (use assms in simp_all)

theorem schedule_conserves_witness:
  "\<exists>st'. all_pods demo_state = pending (ss_queue st') \<union> {0, 2, 7} \<and> pending (ss_queue st') = {} \<and> sched_ready st'"
proof -
  obtain st' where st': "Schedule keep_env (\<lambda>_. demo_scheduler) 7 (Inr three_nodes) demo_state = Some (Inr (st', demo_events))"
    "queue_live (ss_queue st') = map_of []"
    using pass_resultD [OF keep_pass] by blast
  have keep: "se_KeepScheduling keep_env" by (simp add: keep_env_def)
  from schedule_conserves [OF demo_ready keep st'(1)] st'(2) show ?thesis
    by (intro exI [of _ st']) (auto simp: demo_events_def pending_def)
qed

text \<open>
  Without KeepScheduling, a pass that returns any event conserves the pods too: each pod is still
  pending or in exactly one bind event, and the fail queue is untouched.
\<close>

theorem schedule_conserves_stopping:
  assumes "sched_ready st" "\<not> se_KeepScheduling env" "events \<noteq> []"
    "Schedule env sched clk lister st = Some (Inr (st', events))"
  shows "all_pods st = all_pods st' \<union> set (placed events) \<and> all_pods st' \<inter> set (placed events) = {} \<and>
    distinct (placed events) \<and> ss_failQueue st' = ss_failQueue st \<and> sched_ready st'"
  using assms(1)
proof (rule Schedule_ends [of st env sched clk lister])
  fix s
  assume s: "Schedule env sched clk lister st = Some (Schedule_finish env s)" "sched_inv (all_pods st) s"
    "\<not> se_KeepScheduling env \<longrightarrow> ss_failQueue (fst s) = ss_failQueue st"
  have eq: "s = (st', events)" using s(1) assms(2,4) by (simp add: Schedule_finish_def split: prod.splits)
  have inj: "inj_on (\<lambda>p. PodKey (ss_pods st' p)) (all_pods st)"
    and all: "all_pods st = all_pods st' \<union> set (placed events)"
    using s(2) unfolding eq sched_inv_def all_pods_def by auto
  have "inj_on (\<lambda>p. PodKey (ss_pods st' p)) (all_pods st')"
    by (rule inj_on_subset [OF inj]) (simp add: all)
  with s(2,3) assms(2) all show ?thesis unfolding eq sched_inv_def sched_ready_def queues_ok_def all_pods_def by simp
qed (use assms in simp_all)

theorem schedule_conserves_stopping_witness:
  "\<exists>st'. all_pods demo_state = all_pods st' \<union> {0, 2, 7} \<and> sched_ready st'"
proof -
  obtain st' where st': "Schedule demo_sched_env (\<lambda>_. demo_scheduler) 7 (Inr three_nodes) demo_state = Some (Inr (st', demo_events))"
    using pass_resultD [OF stopping_pass] by blast
  have keep: "\<not> se_KeepScheduling demo_sched_env" "demo_events \<noteq> []"
    by (simp_all add: demo_sched_env_def demo_events_def)
  from schedule_conserves_stopping [OF demo_ready keep st'(1)] show ?thesis
    by (intro exI [of _ st']) (auto simp: demo_events_def)
qed

text \<open>
  Without KeepScheduling, an error other than "fits nowhere" makes Schedule return no events at all,
  though it has already taken pods from the queue and entered them into the NodeInfos: the pod \<open>a\<close> is
  placed, then a predicate fails on \<open>c\<close>, and \<open>a\<close> is neither pending nor bound.
\<close>

theorem schedule_drops_bind_events:
  "queue_live (ss_queue demo_state) ''default/a'' = Some 0 \<and>
   (\<exists>st'. Schedule demo_sched_env (\<lambda>_. shy_scheduler) 7 (Inr three_nodes) demo_state = Some (Inr (st', [])) \<and>
      queue_live (ss_queue st') ''default/a'' = None)"
proof
  show "queue_live (ss_queue demo_state) ''default/a'' = Some 0"
    by (simp add: queue_live_def fifo_live_def demo_state_def three_queue_def)
  obtain st' where "Schedule demo_sched_env (\<lambda>_. shy_scheduler) 7 (Inr three_nodes) demo_state = Some (Inr (st', []))"
    "queue_live (ss_queue st') = map_of [(''default/c'', 2), (''default/d'', 7)]"
    using pass_resultD [OF shy_pass] by blast
  then show "\<exists>st'. Schedule demo_sched_env (\<lambda>_. shy_scheduler) 7 (Inr three_nodes) demo_state = Some (Inr (st', [])) \<and>
      queue_live (ss_queue st') ''default/a'' = None" by simp
qed



end
