(* ===== verification/GoFloat.thy ===== *)
theory GoFloat
  imports Prelude "HOL-Library.Log_Nat"
begin

text \<open>
  Go's float32 and float64: IEEE 754 arithmetic, rounding to nearest, ties to even. A finite value is
  \<open>Fin m e\<close>, the number m times 2 to the e; representations are not unique, so values are compared with
  \<open>fl_eq\<close>, \<open>fl_lt\<close> and \<open>fl_le\<close>. The sign of a zero is not kept: the program divides by no zero. A
  constant of the source is the rounded value of its exact quotient. \<open>fl_int64\<close> is the conversion to
  int64, which truncates; out of range Go leaves the result to the machine, here amd64's.
\<close>

datatype gofloat = Fin int int | Inf bool | NaN

text \<open>Precision, exponent of the least positive value, and the power of two out of range.\<close>

record float_format =
  ff_prec :: nat
  ff_emin :: int
  ff_emax :: int

definition float32 :: float_format where
  "float32 = \<lparr>ff_prec = 24, ff_emin = -149, ff_emax = 128\<rparr>"

definition float64 :: float_format where
  "float64 = \<lparr>ff_prec = 53, ff_emin = -1074, ff_emax = 1024\<rparr>"

section \<open>Rounding\<close>

definition round_even :: "int \<Rightarrow> int \<Rightarrow> int" where
  "round_even n d =
     (let q = n div d; r = n mod d
      in if 2 * r < d \<or> (2 * r = d \<and> even q) then q else q + 1)"

text \<open>The exponent of the leading bit of n / d, for positive n and d.\<close>

definition lead_exp :: "int \<Rightarrow> int \<Rightarrow> int" where
  "lead_exp n d =
     (let e = bitlen n - bitlen d
      in if (if e \<ge> 0 then d * 2 ^ nat e \<le> n else d \<le> n * 2 ^ nat (- e)) then e else e - 1)"

text \<open>n / d in units of 2 to the u.\<close>

definition in_units :: "int \<Rightarrow> int \<Rightarrow> int \<Rightarrow> int" where
  "in_units n d u = (if u \<ge> 0 then round_even n (d * 2 ^ nat u) else round_even (n * 2 ^ nat (- u)) d)"

definition round_quot :: "float_format \<Rightarrow> int \<Rightarrow> int \<Rightarrow> gofloat" where
  "round_quot ff n d =
     (if n = 0 then Fin 0 0
      else
        let u = max (lead_exp \<bar>n\<bar> d - int (ff_prec ff) + 1) (ff_emin ff);
            m = sgn n * in_units \<bar>n\<bar> d u
        in if bitlen \<bar>m\<bar> + u > ff_emax ff then Inf (n < 0) else Fin m u)"

definition round_dyadic :: "float_format \<Rightarrow> int \<Rightarrow> int \<Rightarrow> gofloat" where
  "round_dyadic ff m e = (if e \<ge> 0 then round_quot ff (m * 2 ^ nat e) 1 else round_quot ff m (2 ^ nat (- e)))"

section \<open>Operations\<close>

definition fl_of_int :: "float_format \<Rightarrow> int \<Rightarrow> gofloat" where
  "fl_of_int ff n = round_quot ff n 1"

definition fl_const :: "float_format \<Rightarrow> int \<Rightarrow> int \<Rightarrow> gofloat" where
  "fl_const ff n d = round_quot ff n d"

text \<open>The integer m of m times 2 to the g, for the smaller exponent g.\<close>

definition align :: "int \<Rightarrow> int \<Rightarrow> int \<Rightarrow> int" where
  "align m e g = m * 2 ^ nat (e - g)"

definition fl_add :: "float_format \<Rightarrow> gofloat \<Rightarrow> gofloat \<Rightarrow> gofloat" where
  "fl_add ff x y =
     (case (x, y) of
        (Fin a e, Fin b f) \<Rightarrow> let g = min e f in round_dyadic ff (align a e g + align b f g) g
      | (Inf s, Inf t) \<Rightarrow> if s = t then Inf s else NaN
      | (Inf s, Fin _ _) \<Rightarrow> Inf s
      | (Fin _ _, Inf t) \<Rightarrow> Inf t
      | _ \<Rightarrow> NaN)"

definition fl_neg :: "gofloat \<Rightarrow> gofloat" where
  "fl_neg x = (case x of Fin a e \<Rightarrow> Fin (- a) e | Inf s \<Rightarrow> Inf (\<not> s) | NaN \<Rightarrow> NaN)"

definition fl_sub :: "float_format \<Rightarrow> gofloat \<Rightarrow> gofloat \<Rightarrow> gofloat" where
  "fl_sub ff x y = fl_add ff x (fl_neg y)"

definition fl_mul :: "float_format \<Rightarrow> gofloat \<Rightarrow> gofloat \<Rightarrow> gofloat" where
  "fl_mul ff x y =
     (case (x, y) of
        (Fin a e, Fin b f) \<Rightarrow> round_dyadic ff (a * b) (e + f)
      | (Inf s, Inf t) \<Rightarrow> Inf (s \<noteq> t)
      | (Inf s, Fin b _) \<Rightarrow> if b = 0 then NaN else Inf (s \<noteq> (b < 0))
      | (Fin a _, Inf t) \<Rightarrow> if a = 0 then NaN else Inf ((a < 0) \<noteq> t)
      | _ \<Rightarrow> NaN)"

definition fl_div :: "float_format \<Rightarrow> gofloat \<Rightarrow> gofloat \<Rightarrow> gofloat" where
  "fl_div ff x y =
     (case (x, y) of
        (Fin a e, Fin b f) \<Rightarrow>
          if b = 0 then (if a = 0 then NaN else Inf (a < 0))
          else let n = a * sgn b; d = \<bar>b\<bar>; g = e - f
               in if g \<ge> 0 then round_quot ff (n * 2 ^ nat g) d else round_quot ff n (d * 2 ^ nat (- g))
      | (Inf s, Fin b _) \<Rightarrow> Inf (s \<noteq> (b < 0))
      | (Fin _ _, Inf _) \<Rightarrow> Fin 0 0
      | _ \<Rightarrow> NaN)"

definition fl_lt :: "gofloat \<Rightarrow> gofloat \<Rightarrow> bool" where
  "fl_lt x y =
     (case (x, y) of
        (Fin a e, Fin b f) \<Rightarrow> let g = min e f in align a e g < align b f g
      | (Inf s, Inf t) \<Rightarrow> s \<and> \<not> t
      | (Inf s, Fin _ _) \<Rightarrow> s
      | (Fin _ _, Inf t) \<Rightarrow> \<not> t
      | _ \<Rightarrow> False)"

definition fl_eq :: "gofloat \<Rightarrow> gofloat \<Rightarrow> bool" where
  "fl_eq x y =
     (case (x, y) of
        (Fin a e, Fin b f) \<Rightarrow> let g = min e f in align a e g = align b f g
      | (Inf s, Inf t) \<Rightarrow> s = t
      | _ \<Rightarrow> False)"

definition fl_le :: "gofloat \<Rightarrow> gofloat \<Rightarrow> bool" where
  "fl_le x y = (fl_lt x y \<or> fl_eq x y)"

definition fl_int64 :: "gofloat \<Rightarrow> int" where
  "fl_int64 x =
     (case x of
        Fin a e \<Rightarrow> let t = (if e \<ge> 0 then a * 2 ^ nat e else a sdiv (2 ^ nat (- e)))
                   in if in64 t then t else min_int64
      | _ \<Rightarrow> min_int64)"

section \<open>Values\<close>

definition fval :: "gofloat \<Rightarrow> real" where
  "fval x = (case x of Fin m e \<Rightarrow> of_int m * 2 powr of_int e | _ \<Rightarrow> 0)"

definition is_fin :: "gofloat \<Rightarrow> bool" where
  "is_fin x = (case x of Fin _ _ \<Rightarrow> True | _ \<Rightarrow> False)"

lemma is_fin_simps [simp]: "is_fin (Fin m e)" "\<not> is_fin (Inf s)" "\<not> is_fin NaN"
  by (simp_all add: is_fin_def)

lemma is_fin_E: "is_fin x \<Longrightarrow> (\<And>m e. x = Fin m e \<Longrightarrow> P) \<Longrightarrow> P"
  by (cases x) auto

lemma align_value: "g \<le> e \<Longrightarrow> of_int (align m e g) * 2 powr of_int g = of_int m * (2::real) powr of_int e"
proof -
  assume g: "g \<le> e"
  have "(2::real) ^ nat (e - g) = 2 powr of_int (e - g)" using g powr_int [of 2 "e - g"] by (simp del: of_int_diff)
  then have "(2::real) ^ nat (e - g) * 2 powr of_int g = 2 powr of_int e"
    by (simp flip: powr_add)
  then show ?thesis by (simp add: align_def mult.assoc)
qed

lemma compare_align:
  fixes a b :: int
  shows "align a e (min e f) < align b f (min e f) \<longleftrightarrow> of_int a * 2 powr of_int e < of_int b * (2::real) powr of_int f"
    and "align a e (min e f) = align b f (min e f) \<longleftrightarrow> of_int a * 2 powr of_int e = of_int b * (2::real) powr of_int f"
proof -
  let ?g = "min e f"
  have p: "(0::real) < 2 powr of_int ?g" by simp
  have a: "of_int a * 2 powr of_int e = of_int (align a e ?g) * (2::real) powr of_int ?g"
    and b: "of_int b * 2 powr of_int f = of_int (align b f ?g) * (2::real) powr of_int ?g"
    by (simp_all only: align_value min.cobounded1 min.cobounded2)
  show "align a e ?g < align b f ?g \<longleftrightarrow> of_int a * 2 powr of_int e < of_int b * (2::real) powr of_int f"
    "align a e ?g = align b f ?g \<longleftrightarrow> of_int a * 2 powr of_int e = of_int b * (2::real) powr of_int f"
    unfolding a b using p by simp_all
qed

lemma fl_lt_value: "is_fin x \<Longrightarrow> is_fin y \<Longrightarrow> fl_lt x y \<longleftrightarrow> fval x < fval y"
  by (auto elim!: is_fin_E simp: fl_lt_def fval_def Let_def compare_align)

lemma fl_eq_value: "is_fin x \<Longrightarrow> is_fin y \<Longrightarrow> fl_eq x y \<longleftrightarrow> fval x = fval y"
  by (auto elim!: is_fin_E simp: fl_eq_def fval_def Let_def compare_align)

lemma fl_le_value: "is_fin x \<Longrightarrow> is_fin y \<Longrightarrow> fl_le x y \<longleftrightarrow> fval x \<le> fval y"
  by (auto simp: fl_le_def fl_lt_value fl_eq_value)

section \<open>Exact results\<close>

lemma two_powr_nat: "0 \<le> k \<Longrightarrow> (2::real) powr of_int k = of_int (2 ^ nat k)"
  by (simp add: powr_int)

lemma round_even_exact [simp]: "0 < d \<Longrightarrow> round_even (k * d) d = k"
  by (simp add: round_even_def)

lemma round_even_le:
  assumes "0 < d" "n \<le> k * d"
  shows "round_even n d \<le> k"
proof -
  have "n div d \<le> k" using assms zdiv_mono1 [OF assms(2,1)] by simp
  show ?thesis
  proof (cases "n div d = k")
    case True
    have "n = k * d + n mod d" using True div_mult_mod_eq [of n d] by simp
    then have "n mod d = 0" using assms pos_mod_sign [of d n] by linarith
    with True assms(1) show ?thesis by (simp add: round_even_def)
  next
    case False
    with \<open>n div d \<le> k\<close> show ?thesis by (simp add: round_even_def Let_def)
  qed
qed

lemma round_even_nonneg: "0 < d \<Longrightarrow> 0 \<le> n \<Longrightarrow> 0 \<le> round_even n d"
  by (simp add: round_even_def Let_def pos_imp_zdiv_nonneg_iff)

lemma lead_exp_lower:
  assumes "0 < n" "0 < d" "n \<le> k * d" "0 < k" "k < 2 ^ p"
  shows "lead_exp n d < int p"
proof (rule ccontr)
  let ?e = "bitlen n - bitlen d"
  assume "\<not> ?thesis"
  then have p: "int p \<le> lead_exp n d" by simp
  then have pos: "0 \<le> lead_exp n d" by simp
  have "d * 2 ^ nat (lead_exp n d) \<le> n"
  proof (cases "lead_exp n d = ?e")
    case True
    with pos show ?thesis by (auto simp: lead_exp_def Let_def split: if_splits)
  next
    case False
    then have e: "lead_exp n d = ?e - 1" by (auto simp: lead_exp_def Let_def split: if_splits)
    have n: "2 ^ nat (bitlen n - 1) \<le> n" and d: "d < 2 ^ nat (bitlen d)"
      using bitlen_bounds assms(1,2) by auto
    have bl: "0 \<le> bitlen d" "bitlen n - 1 = bitlen d + lead_exp n d" using e bitlen_nonneg by auto
    have "d * 2 ^ nat (lead_exp n d) \<le> 2 ^ nat (bitlen d) * 2 ^ nat (lead_exp n d)"
      using d by (intro mult_right_mono) auto
    also have "\<dots> = 2 ^ nat (bitlen n - 1)" using bl pos by (simp add: nat_add_distrib power_add)
    finally show ?thesis using n by linarith
  qed
  moreover have "(2::int) ^ p \<le> 2 ^ nat (lead_exp n d)" using p by (intro power_increasing) auto
  ultimately have "d * 2 ^ p \<le> n" using assms(2) by (smt (verit) mult_left_mono)
  then have "d * 2 ^ p \<le> d * k" using assms(3) by (simp add: mult.commute)
  with assms(2,5) show False by simp
qed

text \<open>A format whose integers below 2 to the precision are exact.\<close>

definition ff_ok :: "float_format \<Rightarrow> bool" where
  "ff_ok ff \<longleftrightarrow> 0 < ff_prec ff \<and> ff_emin ff \<le> 0 \<and> int (ff_prec ff) < ff_emax ff"

lemma ff_ok_formats [simp]: "ff_ok float32" "ff_ok float64"
  by (simp_all add: ff_ok_def float32_def float64_def)

lemma float_prec [simp]: "ff_prec float32 = 24" "ff_prec float64 = 53"
  by (simp_all add: float32_def float64_def)

lemma round_quot_exact:
  assumes ff: "ff_ok ff" and d: "0 < d" and k: "\<bar>k\<bar> < 2 ^ ff_prec ff"
  shows "is_fin (round_quot ff (k * d) d)" "fval (round_quot ff (k * d) d) = of_int k"
proof -
  have "is_fin (round_quot ff (k * d) d) \<and> fval (round_quot ff (k * d) d) = of_int k"
  proof (cases "k = 0")
    case True
    then show ?thesis by (simp add: round_quot_def fval_def)
  next
    case False
    define u where "u = max (lead_exp \<bar>k * d\<bar> d - int (ff_prec ff) + 1) (ff_emin ff)"
    have "lead_exp \<bar>k * d\<bar> d < int (ff_prec ff)"
      by (rule lead_exp_lower [where k = "\<bar>k\<bar>"]) (use False d k in \<open>auto simp: abs_mult\<close>)
    then have u: "u \<le> 0" using ff by (simp add: u_def ff_ok_def)
    define w where "w = nat (- u)"
    have w: "nat (- u) = w" "of_int u = - real w" using u by (simp_all add: w_def)
    have m: "sgn (k * d) * in_units \<bar>k * d\<bar> d u = k * 2 ^ w"
    proof (cases "u = 0")
      case True
      then show ?thesis using d round_even_exact [OF d, of "\<bar>k\<bar>"]
        by (simp add: in_units_def w_def abs_mult sgn_mult) (metis mult_sgn_abs mult.commute)
    next
      case False
      have "\<bar>k * d\<bar> * 2 ^ w = (\<bar>k\<bar> * 2 ^ w) * d" using d by (simp add: abs_mult)
      then have "round_even (\<bar>k * d\<bar> * 2 ^ w) d = \<bar>k\<bar> * 2 ^ w"
        by (simp only: round_even_exact [OF d])
      then show ?thesis using False u d
        by (simp add: in_units_def sgn_mult w(1)) (metis mult_sgn_abs mult.commute mult.assoc)
    qed
    have "bitlen \<bar>k * 2 ^ w\<bar> + u = bitlen \<bar>k\<bar>" using False u by (simp add: abs_mult w_def)
    also have "\<dots> \<le> int (ff_prec ff)" using k by (simp add: bitlen_le_iff_power)
    finally have "\<not> bitlen \<bar>k * 2 ^ w\<bar> + u > ff_emax ff" using ff by (simp add: ff_ok_def)
    moreover have "of_int (k * 2 ^ w) * 2 powr of_int u = (of_int k :: real)"
      by (simp add: w(2) powr_minus powr_realpow)
    ultimately show ?thesis
      using False d by (simp add: round_quot_def Let_def fval_def m flip: u_def)
  qed
  then show "is_fin (round_quot ff (k * d) d)" "fval (round_quot ff (k * d) d) = of_int k" by auto
qed

lemma round_quot_le:
  assumes ff: "ff_ok ff" and d: "0 < d" and n: "0 \<le> n" "n \<le> k * d" and k: "0 < k" "k < 2 ^ ff_prec ff"
  shows "is_fin (round_quot ff n d)" "0 \<le> fval (round_quot ff n d)" "fval (round_quot ff n d) \<le> of_int k"
proof -
  have "is_fin (round_quot ff n d) \<and> 0 \<le> fval (round_quot ff n d) \<and> fval (round_quot ff n d) \<le> of_int k"
  proof (cases "n = 0")
    case True
    then show ?thesis using k by (simp add: round_quot_def fval_def)
  next
    case False
    with n have n0: "0 < n" by simp
    define u where "u = max (lead_exp n d - int (ff_prec ff) + 1) (ff_emin ff)"
    have "lead_exp n d < int (ff_prec ff)"
      by (intro lead_exp_lower [where k = k]) (use n0 d n k in auto)
    then have u: "u \<le> 0" using ff n0 by (simp add: u_def ff_ok_def)
    define w where "w = nat (- u)"
    have w: "nat (- u) = w" "of_int u = - real w" using u by (simp_all add: w_def)
    define m where "m = in_units n d u"
    have "n * 2 ^ w \<le> (k * 2 ^ w) * d" using n by (simp add: mult.commute mult.left_commute)
    then have "round_even (n * 2 ^ w) d \<le> k * 2 ^ w" using d by (intro round_even_le)
    then have m: "0 \<le> m" "m \<le> k * 2 ^ w"
      using u d n0 round_even_le [of d n k] n by (auto simp: m_def in_units_def w_def round_even_nonneg)
    have "k * 2 ^ w < 2 ^ ff_prec ff * 2 ^ w" using k(2) by simp
    then have "m < 2 ^ (ff_prec ff + w)" unfolding power_add by (rule le_less_trans [OF m(2)])
    then have "bitlen m \<le> int (ff_prec ff) + int w" by (simp add: bitlen_le_iff_power nat_add_distrib)
    then have "\<not> bitlen \<bar>m\<bar> + u > ff_emax ff" using m ff u by (simp add: w_def ff_ok_def)
    then have "round_quot ff n d = Fin m u"
      using n0 False by (simp add: round_quot_def Let_def m_def flip: u_def)
    moreover have "of_int m * 2 powr of_int u \<le> (of_int k::real)"
    proof -
      have "of_int m * 2 powr of_int u \<le> of_int (k * 2 ^ w) * (2::real) powr of_int u"
        using m(2) by (intro mult_right_mono) (simp_all only: of_int_le_iff powr_ge_zero)
      also have "\<dots> = of_int k" by (simp add: w(2) powr_minus powr_realpow)
      finally show ?thesis .
    qed
    ultimately show ?thesis using m(1) by (simp add: fval_def)
  qed
  then show "is_fin (round_quot ff n d)" "0 \<le> fval (round_quot ff n d)" "fval (round_quot ff n d) \<le> of_int k" by auto
qed

lemma round_quot_unit:
  assumes "ff_ok ff" "0 < d" "0 \<le> n" "n \<le> d"
  shows "is_fin (round_quot ff n d)" "0 \<le> fval (round_quot ff n d)" "fval (round_quot ff n d) \<le> 1"
  using round_quot_le [OF assms(1-3), of 1] assms by (simp_all add: ff_ok_def)

text \<open>Values that are integers: sums of small ones are exact, their quotients at most 1 round to at most 1.\<close>

definition is_int_val :: "gofloat \<Rightarrow> int \<Rightarrow> bool" where
  "is_int_val x i \<longleftrightarrow> is_fin x \<and> fval x = of_int i"

lemma fl_of_int_exact: "ff_ok ff \<Longrightarrow> \<bar>k\<bar> < 2 ^ ff_prec ff \<Longrightarrow> is_int_val (fl_of_int ff k) k"
  using round_quot_exact [of ff 1 k] by (simp add: is_int_val_def fl_of_int_def)

lemma round_dyadic_exact:
  assumes "ff_ok ff" "\<bar>k\<bar> < 2 ^ ff_prec ff" "of_int m * 2 powr of_int e = (of_int k :: real)"
  shows "is_int_val (round_dyadic ff m e) k"
proof (cases "e \<ge> 0")
  case True
  with assms(3) have "real_of_int (m * 2 ^ nat e) = of_int k" by (simp add: two_powr_nat)
  then have "m * 2 ^ nat e = k" by (simp only: of_int_eq_iff)
  then show ?thesis using True round_quot_exact [OF assms(1) _ assms(2), of 1]
    by (simp add: round_dyadic_def is_int_val_def)
next
  case False
  then have "(2::real) powr of_int e * of_int (2 ^ nat (- e)) = 1"
    using two_powr_nat [of "- e"] by (simp add: powr_minus field_simps)
  then have "of_int m = (of_int k :: real) * of_int (2 ^ nat (- e))"
    using assms(3) by (metis mult.assoc mult.right_neutral)
  then have "m = k * 2 ^ nat (- e)" by (metis of_int_eq_iff of_int_mult)
  then show ?thesis using False round_quot_exact [OF assms(1) _ assms(2), of "2 ^ nat (- e)"]
    by (simp add: round_dyadic_def is_int_val_def)
qed

lemma fl_add_exact:
  assumes "ff_ok ff" "is_int_val x i" "is_int_val y j" "\<bar>i + j\<bar> < 2 ^ ff_prec ff"
  shows "is_int_val (fl_add ff x y) (i + j)"
proof -
  obtain a e b f where xy: "x = Fin a e" "y = Fin b f" using assms(2,3) by (auto simp: is_int_val_def elim!: is_fin_E)
  let ?g = "min e f"
  have "of_int (align a e ?g + align b f ?g) * 2 powr of_int ?g =
      of_int a * 2 powr of_int e + of_int b * (2::real) powr of_int f"
    by (simp only: of_int_add distrib_right align_value min.cobounded1 min.cobounded2)
  also have "\<dots> = of_int (i + j)" using assms(2,3) by (simp add: xy is_int_val_def fval_def)
  finally show ?thesis
    using round_dyadic_exact [OF assms(1,4)] by (simp add: xy fl_add_def Let_def)
qed

lemma fl_div_unit:
  assumes "ff_ok ff" "is_int_val x i" "is_int_val y j" "0 \<le> i" "i \<le> j" "0 < j"
  shows "is_fin (fl_div ff x y)" "0 \<le> fval (fl_div ff x y)" "fval (fl_div ff x y) \<le> 1"
proof -
  obtain a e b f where xy: "x = Fin a e" "y = Fin b f" using assms(2,3) by (auto simp: is_int_val_def elim!: is_fin_E)
  have v: "of_int a * 2 powr of_int e = (of_int i :: real)" "of_int b * 2 powr of_int f = (of_int j :: real)"
    using assms(2,3) by (simp_all add: xy is_int_val_def fval_def)
  have "0 < of_int b * (2::real) powr of_int f" using v(2) assms(6) by simp
  then have b: "0 < b" by (simp add: zero_less_mult_iff)
  have "0 \<le> of_int a * (2::real) powr of_int e" using v(1) assms(4) by simp
  then have a: "0 \<le> a" by (simp add: zero_le_mult_iff)
  have le: "of_int a * 2 powr of_int e \<le> of_int b * (2::real) powr of_int f" using v assms(5) by simp
  show "is_fin (fl_div ff x y)" "0 \<le> fval (fl_div ff x y)" "fval (fl_div ff x y) \<le> 1"
  proof (atomize (full), cases "e - f \<ge> 0")
    case True
    then have "of_int (align a e f) * 2 powr of_int f \<le> of_int b * (2::real) powr of_int f"
      using le align_value [of f e a] by simp
    then have "align a e f \<le> b" by simp
    then have "a * 2 ^ nat (e - f) \<le> b" by (simp add: align_def)
    then show "is_fin (fl_div ff x y) \<and> 0 \<le> fval (fl_div ff x y) \<and> fval (fl_div ff x y) \<le> 1"
      using round_quot_unit [OF assms(1) b, of "a * 2 ^ nat (e - f)"] a b True by (simp add: xy fl_div_def Let_def)
  next
    case False
    then have "e \<le> f" by simp
    then have "of_int a * 2 powr of_int e \<le> of_int (align b f e) * (2::real) powr of_int e"
      using le align_value [of e f b] by simp
    then have "a \<le> align b f e" by simp
    then have "a \<le> b * 2 ^ nat (- (e - f))" by (simp add: align_def)
    then show "is_fin (fl_div ff x y) \<and> 0 \<le> fval (fl_div ff x y) \<and> fval (fl_div ff x y) \<le> 1"
      using round_quot_unit [OF assms(1), of "b * 2 ^ nat (- (e - f))" a] a b False by (simp add: xy fl_div_def Let_def)
  qed
qed

text \<open>A finite value between 0 and k; the bound survives rounding when k is exact.\<close>

definition fl_upto :: "gofloat \<Rightarrow> int \<Rightarrow> bool" where
  "fl_upto x k \<longleftrightarrow> is_fin x \<and> 0 \<le> fval x \<and> fval x \<le> of_int k"

lemma round_dyadic_upto:
  assumes ff: "ff_ok ff" and m: "0 \<le> m" "of_int m * 2 powr of_int e \<le> (of_int k :: real)"
    and k: "0 < k" "k < 2 ^ ff_prec ff"
  shows "fl_upto (round_dyadic ff m e) k"
proof (cases "e \<ge> 0")
  case True
  with m(2) have "real_of_int (m * 2 ^ nat e) \<le> of_int k" by (simp add: two_powr_nat)
  then have "m * 2 ^ nat e \<le> k" by (simp only: of_int_le_iff)
  with True show ?thesis
    using round_quot_le [OF ff, of 1 "m * 2 ^ nat e" k] m(1) k by (simp add: round_dyadic_def fl_upto_def)
next
  case False
  have "(2::real) powr of_int e * of_int (2 ^ nat (- e)) = 1"
    using False by (simp only: of_int_minus flip: two_powr_nat powr_add) simp
  then have "real_of_int m = (of_int m * 2 powr of_int e) * of_int (2 ^ nat (- e))" by (simp add: mult.assoc)
  also have "\<dots> \<le> of_int k * of_int (2 ^ nat (- e))" by (intro mult_right_mono m(2)) simp
  finally have "real_of_int m \<le> of_int (k * 2 ^ nat (- e))" by simp
  then have "m \<le> k * 2 ^ nat (- e)" by (simp only: of_int_le_iff)
  with False show ?thesis
    using round_quot_le [OF ff, of "2 ^ nat (- e)" m k] m(1) k by (simp add: round_dyadic_def fl_upto_def)
qed

lemma upto_Fin: "fl_upto (Fin m e) k \<longleftrightarrow> 0 \<le> m \<and> of_int m * 2 powr of_int e \<le> (of_int k :: real)"
  by (auto simp: fl_upto_def fval_def zero_le_mult_iff)

lemma upto_E: "fl_upto x k \<Longrightarrow> (\<And>m e. x = Fin m e \<Longrightarrow> 0 \<le> m \<Longrightarrow> of_int m * 2 powr of_int e \<le> (of_int k :: real) \<Longrightarrow> P) \<Longrightarrow> P"
  by (cases x) (auto simp: upto_Fin fl_upto_def [of "Inf _"] fl_upto_def [of NaN])

lemma fl_mul_upto:
  assumes ff: "ff_ok ff" and x: "fl_upto x i" and y: "fl_upto y j" and ij: "0 < i * j" "i * j < 2 ^ ff_prec ff"
  shows "fl_upto (fl_mul ff x y) (i * j)"
proof -
  obtain a e where a: "x = Fin a e" "0 \<le> a" "of_int a * 2 powr of_int e \<le> (of_int i :: real)" using x by (rule upto_E)
  obtain b f where b: "y = Fin b f" "0 \<le> b" "of_int b * 2 powr of_int f \<le> (of_int j :: real)" using y by (rule upto_E)
  have "of_int (a * b) * 2 powr of_int (e + f) = (of_int a * 2 powr of_int e) * (of_int b * (2::real) powr of_int f)"
    by (simp add: powr_add)
  also have "\<dots> \<le> of_int i * of_int j"
  proof (rule mult_mono [OF a(3) b(3)])
    have "0 \<le> of_int a * (2::real) powr of_int e" using a(2) by simp
    with a(3) show "0 \<le> (of_int i :: real)" by linarith
    show "0 \<le> of_int b * (2::real) powr of_int f" using b(2) by simp
  qed
  finally show ?thesis
    using round_dyadic_upto [OF ff, of "a * b" "e + f" "i * j"] a b ij by (simp add: fl_mul_def)
qed

lemma fl_add_upto:
  assumes ff: "ff_ok ff" and x: "fl_upto x i" and y: "fl_upto y j" and ij: "0 < i + j" "i + j < 2 ^ ff_prec ff"
  shows "fl_upto (fl_add ff x y) (i + j)"
proof -
  obtain a e where a: "x = Fin a e" "0 \<le> a" "of_int a * 2 powr of_int e \<le> (of_int i :: real)" using x by (rule upto_E)
  obtain b f where b: "y = Fin b f" "0 \<le> b" "of_int b * 2 powr of_int f \<le> (of_int j :: real)" using y by (rule upto_E)
  let ?g = "min e f"
  have "of_int (align a e ?g + align b f ?g) * 2 powr of_int ?g =
      of_int a * 2 powr of_int e + of_int b * (2::real) powr of_int f"
    by (simp only: of_int_add distrib_right align_value min.cobounded1 min.cobounded2)
  also have "\<dots> \<le> of_int (i + j)" using a b by simp
  finally show ?thesis
    using round_dyadic_upto [OF ff, of "align a e ?g + align b f ?g" ?g "i + j"] a b ij
    by (simp add: fl_add_def Let_def align_def)
qed

text \<open>\<^verbatim>\<open>math.Min\<close>.\<close>

definition fl_min :: "gofloat \<Rightarrow> gofloat \<Rightarrow> gofloat" where
  "fl_min x y =
     (if x = Inf True \<or> y = Inf True then Inf True
      else if x = NaN \<or> y = NaN then NaN
      else if fl_lt x y then x else y)"

lemma fl_min_upto: "fl_upto x i \<Longrightarrow> fl_upto y j \<Longrightarrow> fl_upto (fl_min x y) j"
  by (auto simp: fl_min_def fl_upto_def fl_lt_value)

end
