(* ===== verification/Metrics.thy ===== *)
theory Metrics
  imports GoFloat PodQueue SimNode
begin

text \<open>
  pkg/metrics/metrics.go: what each pod of a node is given of its CPU and memory when the pods want more
  than there is, how many pods get what they were promised (the quality of service), and the metrics of
  the cluster built from it.

  BuildMetrics runs one goroutine per node. They share the maps and two float32 sums under locks; a pod
  key belongs to one node, so the pieces touch different entries and a run is the list of its pieces in
  the order in which they finish, the argument \<open>order\<close> of node names. The pod metrics are dropped at the
  end, as in the code. The branch of \<open>allocate\<close> for a QoS that is not binary is dead code there.
\<close>

section \<open>Sharing a node's resources\<close>

definition Resource_ResourceList :: "resource \<Rightarrow> resource_list" where
  "Resource_ResourceList r =
     fold (\<lambda>(rName, rQuant) result.
         AList.update rName
           (if IsHugePageResourceName rName then NewQuantity rQuant BinarySI else NewQuantity rQuant DecimalSI)
           result)
       (r_ScalarResources r)
       [(cpu, NewMilliQuantity (r_MilliCPU r) DecimalSI), (memory, NewQuantity (r_Memory r) BinarySI),
        (pods_name, NewQuantity (r_AllowedPodNumber r) BinarySI),
        (ephemeral_storage, NewQuantity (r_EphemeralStorage r) BinarySI)]"

definition whichSharePolicy :: "int \<Rightarrow> int \<Rightarrow> int \<Rightarrow> nat" where
  "whichSharePolicy demand request capacity =
     (if demand > capacity \<and> request \<le> capacity then 1
      else if demand > capacity \<and> request > capacity then 2 else 0)"

type_synonym pods_metrics = "(string \<times> pod_metrics) list"

definition zero_pod_metrics :: pod_metrics where
  "zero_pod_metrics = \<lparr>pm_ResourceRequest = [], pm_ResourceLimit = [], pm_ResourceUsage = [],
     pm_ResourceAllocation = [], pm_BoundAt = time_zero, pm_Node = [], pm_ExecutedSeconds = 0,
     pm_Priority = 0, pm_Status = Ok\<rparr>"

definition get_metrics :: "pods_metrics \<Rightarrow> string \<Rightarrow> pod_metrics" where
  "get_metrics podsMetrics key =
     (case map_of podsMetrics key of None \<Rightarrow> zero_pod_metrics | Some m \<Rightarrow> m)"

text \<open>The two passes do the same for the CPU and for the memory but for the formula of the second.\<close>

datatype part = CPU | Mem

definition part_get :: "part \<Rightarrow> resource \<Rightarrow> int" where
  "part_get p r = (case p of CPU \<Rightarrow> r_MilliCPU r | Mem \<Rightarrow> r_Memory r)"

definition part_set :: "part \<Rightarrow> int \<Rightarrow> resource \<Rightarrow> resource" where
  "part_set p v r = (case p of CPU \<Rightarrow> r\<lparr>r_MilliCPU := v\<rparr> | Mem \<Rightarrow> r\<lparr>r_Memory := v\<rparr>)"

definition guarantee_of :: "part \<Rightarrow> int \<Rightarrow> int \<Rightarrow> pod_metrics \<Rightarrow> int" where
  "guarantee_of p C R currMetrics =
     (let pRequest = part_get p (NewResource (pm_ResourceRequest currMetrics));
          pUsage = part_get p (NewResource (pm_ResourceUsage currMetrics))
      in if R > 0 then min pUsage (min (i64 (C * pRequest) sdiv R) pRequest) else 0)"

definition set_allocation :: "part \<Rightarrow> int \<Rightarrow> pod_metrics \<Rightarrow> pod_metrics" where
  "set_allocation p v currMetrics =
     currMetrics\<lparr>pm_ResourceAllocation :=
       Resource_ResourceList (part_set p v (NewResource (pm_ResourceAllocation currMetrics)))\<rparr>"

fun guarantee_loop ::
  "part \<Rightarrow> int \<Rightarrow> int \<Rightarrow> string list \<Rightarrow> int \<times> int \<times> pods_metrics \<Rightarrow> int \<times> int \<times> pods_metrics" where
  "guarantee_loop p C R [] s = s"
| "guarantee_loop p C R (key # keys) (c, d, podsMetrics) =
     (let currMetrics = get_metrics podsMetrics key; guarantee = guarantee_of p C R currMetrics
      in guarantee_loop p C R keys
           (i64 (c - guarantee), i64 (d - guarantee),
            AList.update key (set_allocation p guarantee currMetrics) podsMetrics))"

definition extra_of :: "part \<Rightarrow> int \<Rightarrow> int \<Rightarrow> int \<Rightarrow> int" where
  "extra_of p C D extra =
     (case p of
        CPU \<Rightarrow> min (i64 (C * extra) sdiv D) extra
      | Mem \<Rightarrow> min (fl_int64 (fl_mul float64 (fl_div float64 (fl_of_int float64 C) (fl_of_int float64 D))
                               (fl_of_int float64 extra))) extra)"

fun extra_loop :: "part \<Rightarrow> int \<Rightarrow> int \<Rightarrow> string list \<Rightarrow> pods_metrics \<Rightarrow> pods_metrics" where
  "extra_loop p C D [] podsMetrics = podsMetrics"
| "extra_loop p C D (key # keys) podsMetrics =
     (let currMetrics = get_metrics podsMetrics key;
          pUsage = part_get p (NewResource (pm_ResourceUsage currMetrics));
          pAllocation = part_get p (NewResource (pm_ResourceAllocation currMetrics));
          extra = max (i64 (pUsage - pAllocation)) 0
      in extra_loop p C D keys
           (AList.update key (set_allocation p (i64 (pAllocation + extra_of p C D extra)) currMetrics)
              podsMetrics))"

definition share :: "part \<Rightarrow> resource \<Rightarrow> resource \<Rightarrow> resource \<Rightarrow> string list \<Rightarrow> pods_metrics \<Rightarrow> pods_metrics" where
  "share p capacity demand request keys podsMetrics =
     (let c = part_get p capacity; d = part_get p demand; r = part_get p request
      in if whichSharePolicy d r c > 0 then
           (case (if d > 0 then guarantee_loop p c r keys (c, d, podsMetrics) else (c, d, podsMetrics)) of
              (c, d, podsMetrics) \<Rightarrow>
                if d > 0 \<and> c > 0 then extra_loop p c d keys podsMetrics else podsMetrics)
         else podsMetrics)"

text \<open>Whether a pod has what it uses, or at least what it requested.\<close>

definition satisfied :: "pod_metrics \<Rightarrow> bool" where
  "satisfied m =
     (let pUsage = NewResource (pm_ResourceUsage m); pAllocation = NewResource (pm_ResourceAllocation m);
          pRequest = NewResource (pm_ResourceRequest m)
      in (r_MilliCPU pUsage \<le> r_MilliCPU pAllocation \<or> r_MilliCPU pAllocation \<ge> r_MilliCPU pRequest) \<and>
         (r_Memory pUsage \<le> r_Memory pAllocation \<or> r_Memory pAllocation \<ge> r_Memory pRequest))"

fun qos_loop :: "pods_metrics \<Rightarrow> gofloat \<Rightarrow> string list \<Rightarrow> gofloat" where
  "qos_loop podsMetrics qos [] = qos"
| "qos_loop podsMetrics qos (key # keys) =
     qos_loop podsMetrics
       (if satisfied (get_metrics podsMetrics key) then fl_add float32 qos (fl_of_int float32 1) else qos) keys"

definition allocate ::
  "string list \<Rightarrow> resource \<Rightarrow> resource \<Rightarrow> resource \<Rightarrow> pods_metrics \<Rightarrow> (gofloat \<times> gofloat) \<times> pods_metrics" where
  "allocate keys capacity demand request podsMetrics =
     (if fl_eq (fl_of_int float32 (int (length keys))) (fl_of_int float32 0)
      then ((fl_of_int float32 0, fl_of_int float32 0), podsMetrics)
      else let podsMetrics = share Mem capacity demand request keys
                 (share CPU capacity demand request keys podsMetrics)
           in ((qos_loop podsMetrics (fl_of_int float32 0) keys, fl_of_int float32 (int (length keys))),
               podsMetrics))"

section \<open>The metrics of the cluster\<close>

record metrics =
  m_Clock :: clock
  m_Nodes :: "(string \<times> node_metrics) list"
  m_Pods :: pods_metrics
  m_Queue :: "gofloat queue_metrics"

record metrics_state =
  ms_heap :: heap
  ms_nodes :: "(string \<times> node_metrics) list"
  ms_pods :: pods_metrics
  ms_podQoses :: gofloat
  ms_numPods :: gofloat

text \<open>
  The pods of a node that are not terminated; a pod without a key makes the goroutine return, so the
  result is None.
\<close>

fun node_pods_metrics ::
  "io_env \<Rightarrow> clock \<Rightarrow> sim_ptr list \<Rightarrow> heap \<times> pods_metrics \<times> string list \<Rightarrow>
     (heap \<times> pods_metrics \<times> string list option) res" where
  "node_pods_metrics env clk [] (h, podsMetrics, keys) = Inr (h, podsMetrics, Some keys)"
| "node_pods_metrics env clk (s # pods) (h, podsMetrics, keys) =
     (if IsTerminated (hp_pods h) clk (hp_sims h s) then node_pods_metrics env clk pods (h, podsMetrics, keys)
      else case PodKey (hp_pods h (sp_v1 (hp_sims h s))) of
             Inl _ \<Rightarrow> Inr (h, podsMetrics, None)
           | Inr key \<Rightarrow>
               res_bind (Pod_Metrics env (hp_pods h) clk (hp_sims h s)) (\<lambda>(pod', podMetrics).
                 node_pods_metrics env clk pods
                   (h\<lparr>hp_sims := (hp_sims h)(s := pod')\<rparr>, AList.update key podMetrics podsMetrics,
                    keys @ [key])))"

definition BuildMetrics_piece ::
  "io_env \<Rightarrow> clock \<Rightarrow> (string \<times> sim_node) list \<Rightarrow> string \<Rightarrow> metrics_state \<Rightarrow> metrics_state res" where
  "BuildMetrics_piece env clk nodes name st =
     (case map_of nodes name of
        None \<Rightarrow> Inl (Panic ''nil pointer dereference'')
      | Some node \<Rightarrow>
          res_bind (Node_Metrics env clk node (ms_heap st)) (\<lambda>(h, nodeMetrics).
          res_bind (node_pods_metrics env clk (Node_PodList node) (h, ms_pods st, [])) (\<lambda>(h, podsMetrics, found).
            case found of
              None \<Rightarrow> Inr (st\<lparr>ms_heap := h, ms_pods := podsMetrics\<rparr>)
            | Some keys \<Rightarrow>
                (case allocate keys (NewResource (nm_Allocatable nodeMetrics))
                        (NewResource (nm_TotalResourceUsage nodeMetrics))
                        (NewResource (nm_TotalResourceRequest nodeMetrics)) podsMetrics of
                   ((qos, podNum), podsMetrics) \<Rightarrow>
                     let resourceAllocation =
                           foldl (\<lambda>acc key. ResourceListSum acc
                                    (pm_ResourceAllocation (get_metrics podsMetrics key))) [] keys
                     in Inr (st\<lparr>ms_heap := h, ms_pods := podsMetrics,
                               ms_podQoses := fl_add float32 (ms_podQoses st) qos,
                               ms_numPods := fl_add float32 (ms_numPods st) podNum,
                               ms_nodes := AList.update name
                                 (nodeMetrics\<lparr>nm_TotalResourceAllocation := resourceAllocation\<rparr>)
                                 (ms_nodes st)\<rparr>)))))"

definition BuildMetrics ::
  "io_env \<Rightarrow> string list \<Rightarrow> clock \<Rightarrow> (string \<times> sim_node) list \<Rightarrow> pod_queue \<Rightarrow> gofloat \<Rightarrow> heap \<Rightarrow>
     (heap \<times> metrics) res" where
  "BuildMetrics env order clk nodes queue predictionPenalty h =
     res_bind (fold_res (BuildMetrics_piece env clk nodes) order
         \<lparr>ms_heap = h, ms_nodes = [], ms_pods = [], ms_podQoses = fl_of_int float32 0,
          ms_numPods = fl_of_int float32 0\<rparr>) (\<lambda>st.
       let qualityOfService =
             (if fl_eq (ms_numPods st) (fl_of_int float32 0) then fl_of_int float32 1
              else fl_div float32 (ms_podQoses st) (ms_numPods st))
       in Inr (ms_heap st,
               \<lparr>m_Clock = clk, m_Nodes = ms_nodes st, m_Pods = [],
                m_Queue = Queue_Metrics queue qualityOfService predictionPenalty (ms_podQoses st)
                  (ms_numPods st)\<rparr>))"

end
