(* ===== verification/Estimate.thy ===== *)
theory Estimate
  imports Metrics GenericScheduler
begin

text \<open>
  The prediction of resource usage in pkg/scheduler/scheduler.go: a penalty on what the metrics report,
  raised when the quality of service misses its target and decayed when it exceeds it, by one of six
  rules. The package variables the rules read and write are the record \<open>estimator\<close>; the arithmetic is
  float32's.
\<close>

record estimator =
  es_updatePenaltyRule :: int
  es_PredictionPenalty :: gofloat
  es_MinPenalty :: gofloat
  es_MaxPenalty :: gofloat
  es_PenaltyUpdate :: gofloat
  es_TargetQoS :: gofloat
  es_penaltyUpdated :: bool
  es_prevQoS :: gofloat

definition initial_estimator :: "gofloat \<Rightarrow> gofloat \<Rightarrow> gofloat \<Rightarrow> estimator" where
  "initial_estimator penalty penaltyUpdate targetQoS =
     \<lparr>es_updatePenaltyRule = 5, es_PredictionPenalty = penalty, es_MinPenalty = fl_of_int float32 1,
      es_MaxPenalty = fl_of_int float32 3, es_PenaltyUpdate = penaltyUpdate, es_TargetQoS = targetQoS,
      es_penaltyUpdated = False, es_prevQoS = fl_of_int float32 1\<rparr>"

definition max_float :: "gofloat \<Rightarrow> gofloat \<Rightarrow> gofloat" where
  "max_float a b = (if fl_lt b a then a else b)"

definition min_float :: "gofloat \<Rightarrow> gofloat \<Rightarrow> gofloat" where
  "min_float a b = (if fl_lt a b then a else b)"

text \<open>Decaying the penalty towards its minimum: a line of every rule but the first.\<close>

definition decay :: "estimator \<Rightarrow> gofloat" where
  "decay es = max_float (fl_mul float32 (es_PredictionPenalty es) (es_PenaltyUpdate es)) (es_MinPenalty es)"

text \<open>\<^verbatim>\<open>PredictionPenalty += (PredictionPenalty - 1.0)\<close>\<close>

definition grown :: "estimator \<Rightarrow> gofloat" where
  "grown es = fl_add float32 (es_PredictionPenalty es)
     (fl_sub float32 (es_PredictionPenalty es) (fl_of_int float32 1))"

definition fixed_minimum :: "estimator \<Rightarrow> estimator" where
  "fixed_minimum es = es\<lparr>es_MinPenalty := fl_const float32 11 10, es_PenaltyUpdate := fl_const float32 99 100\<rparr>"

definition rule1 :: "gofloat \<Rightarrow> estimator \<Rightarrow> estimator" where
  "rule1 qos es =
     (if fl_lt qos (es_TargetQoS es) then
        (let es = (if es_penaltyUpdated es
                   then es\<lparr>es_MinPenalty := es_PredictionPenalty es, es_penaltyUpdated := False\<rparr> else es)
         in es\<lparr>es_PredictionPenalty := es_MaxPenalty es\<rparr>)
      else if fl_lt (es_TargetQoS es) qos then
        es\<lparr>es_PredictionPenalty := decay es, es_penaltyUpdated := True\<rparr>
      else es)"

definition rule2 :: "gofloat \<Rightarrow> estimator \<Rightarrow> estimator" where
  "rule2 qos es =
     (if fl_lt qos (es_TargetQoS es) then es\<lparr>es_PredictionPenalty := es_MaxPenalty es\<rparr>
      else if fl_lt (es_TargetQoS es) qos then es\<lparr>es_PredictionPenalty := decay es\<rparr>
      else es)"

definition rule3 :: "gofloat \<Rightarrow> estimator \<Rightarrow> estimator" where
  "rule3 qos es =
     (if fl_lt qos (es_TargetQoS es) then
        (let tmp = es_MaxPenalty es;
             es = (if es_penaltyUpdated es
                   then es\<lparr>es_MinPenalty := es_PredictionPenalty es,
                           es_MaxPenalty := fl_div float32
                             (fl_add float32 (es_MaxPenalty es) (es_PredictionPenalty es)) (fl_of_int float32 2),
                           es_penaltyUpdated := False\<rparr>
                   else es)
         in es\<lparr>es_PredictionPenalty := tmp\<rparr>)
      else if fl_lt (es_TargetQoS es) qos then
        es\<lparr>es_PredictionPenalty := decay es, es_penaltyUpdated := True\<rparr>
      else es)"

definition rule4 :: "gofloat \<Rightarrow> estimator \<Rightarrow> estimator" where
  "rule4 qos es =
     (if fl_lt qos (es_TargetQoS es) then
        (if es_penaltyUpdated es then es\<lparr>es_PredictionPenalty := grown es, es_penaltyUpdated := False\<rparr> else es)
      else if fl_lt (es_TargetQoS es) qos then
        es\<lparr>es_PredictionPenalty := decay es, es_penaltyUpdated := True\<rparr>
      else es)"

definition rule5 :: "gofloat \<Rightarrow> estimator \<Rightarrow> estimator" where
  "rule5 qos es =
     (let es = (if fl_lt qos (es_TargetQoS es) then
                  (if es_penaltyUpdated es \<or> fl_lt qos (fl_mul float32 (es_prevQoS es) (fl_const float32 99 100))
                   then es\<lparr>es_PredictionPenalty := min_float (grown es) (es_MaxPenalty es),
                           es_penaltyUpdated := False\<rparr>
                   else es)
                else if fl_lt (es_TargetQoS es) qos then
                  es\<lparr>es_PredictionPenalty := decay es, es_penaltyUpdated := True\<rparr>
                else es)
      in es\<lparr>es_prevQoS := qos\<rparr>)"

definition update_penalty :: "metrics \<Rightarrow> estimator \<Rightarrow> estimator" where
  "update_penalty globalMetrics es =
     (let pending = qm_PendingPodsNum (m_Queue globalMetrics) > 0;
          qos = qm_QualityOfService (m_Queue globalMetrics); rule = es_updatePenaltyRule es
      in if rule = 0 then es
         else if rule = 1 then (if pending then rule1 qos es else es)
         else if rule = 2 then (if pending then rule2 qos es else es)
         else if rule = 3 then (if pending then rule3 qos es else es)
         else if rule = 4 then (let es = fixed_minimum es in if pending then rule4 qos es else es)
         else if rule = 5 then rule5 qos (fixed_minimum es)
         else es)"

text \<open>The usage of a node scaled by the penalty, in hundredths; a node without metrics reads as empty.\<close>

definition scale_usage :: "gofloat \<Rightarrow> int \<Rightarrow> int" where
  "scale_usage penalty v =
     i64 (v * fl_int64 (fl_mul float32 penalty (fl_of_int float32 100))) sdiv 100"

definition estimate_node :: "metrics \<Rightarrow> gofloat \<Rightarrow> string \<Rightarrow> cached_metrics" where
  "estimate_node globalMetrics penalty nodeName =
     (case (case map_of (m_Nodes globalMetrics) nodeName of
              None \<Rightarrow> ([], []) | Some nm \<Rightarrow> (nm_TotalResourceUsage nm, nm_Allocatable nm)) of
        (totalUsage, allocatable) \<Rightarrow>
          let usage = NewResource totalUsage
          in \<lparr>cm_Usage = usage\<lparr>r_MilliCPU := scale_usage penalty (r_MilliCPU usage),
                              r_Memory := scale_usage penalty (r_Memory usage)\<rparr>,
              cm_Allocatable = NewResource allocatable\<rparr>)"

fun estimate_loop ::
  "metrics \<Rightarrow> gofloat \<Rightarrow> (string \<times> cached_metrics) list \<Rightarrow> string list \<Rightarrow> (string \<times> cached_metrics) list" where
  "estimate_loop globalMetrics penalty nodeMetricsMap [] = nodeMetricsMap"
| "estimate_loop globalMetrics penalty nodeMetricsMap (nodeName # names) =
     estimate_loop globalMetrics penalty
       (AList.update nodeName (estimate_node globalMetrics penalty nodeName) nodeMetricsMap) names"

definition Estimate ::
  "metrics \<Rightarrow> string list \<Rightarrow> estimator \<Rightarrow> estimator \<times> (string \<times> cached_metrics) list" where
  "Estimate globalMetrics nodeNames es =
     (let es = update_penalty globalMetrics es
      in (es, estimate_loop globalMetrics (es_PredictionPenalty es) [] nodeNames))"

end
