(* ===== verification/KubeSim.thy ===== *)
theory KubeSim
  imports Estimate
begin

text \<open>
  pkg/kubesim.go and the events of pkg/submitter: the main loop. At every tick the submitters add, delete
  and update pods, the scheduler takes pods from the pending queue and binds them to nodes, the metrics
  are rebuilt, and terminated pods are collected every metrics tick.

  A submitter is code from outside with a state of its own: its Submit method answers with the submitter
  it has become, the pods it wrote, and its events. A scheduler is any function with the type of
  \<open>Schedule env sched\<close>; GenericScheduler.thy is one. \<open>kube_env\<close> holds the rest of the surroundings: files and
  YAML, whether the context is done when the loop reaches a clock, the order in which the goroutines of
  BuildMetrics finish, and the metrics writers (true if Write fails). The maps of nodes, bound pods and
  submitters are association lists in the order in which range loops visit them.

  A nil error of the loop is \<open>Inr\<close>. The log, the time measurements and runtime.GC are not modelled.
\<close>

datatype submit_event =
    SubmitEvent pod_ptr
  | SubmitDeleteEvent string string
  | UpdateEvent string string pod_ptr
  | TerminateSubmitterEvent

codatatype submitter =
  Submitter (Submit: "clock \<Rightarrow> v1_node list \<Rightarrow> metrics \<Rightarrow> pods \<Rightarrow> (submitter \<times> pods \<times> submit_event list) res")

type_synonym scheduler =
  "clock \<Rightarrow> v1_node list res \<Rightarrow> sched_state \<Rightarrow> (sched_state \<times> event list) res option"

record kube_env =
  ke_io :: io_env
  ke_Done :: "clock \<Rightarrow> bool"
  ke_order :: "string list \<Rightarrow> string list"
  ke_writers :: "(metrics \<Rightarrow> bool) list"

record kubesim =
  k_tick :: duration
  k_clock :: clock
  k_nodes :: "(string \<times> sim_node) list"
  k_nodeNames :: "string list"
  k_pendingPods :: pod_queue
  k_boundPods :: "(string \<times> sim_ptr) list"
  k_submitters :: "(string \<times> submitter) list"
  k_metricsTick :: duration
  k_endClock :: clock
  k_heap :: heap
  k_failQueue :: fifo_queue
  k_cache :: "(string \<times> cached_metrics) list"

section \<open>Submitting\<close>

text \<open>Every node of nodeNames is in the map; a missing one would be a nil pointer.\<close>

fun list_nodes :: "(string \<times> sim_node) list \<Rightarrow> string list \<Rightarrow> v1_node list res" where
  "list_nodes nodes [] = Inr []"
| "list_nodes nodes (name # names) =
     (case map_of nodes name of
        None \<Rightarrow> Inl (Panic ''nil pointer dereference'')
      | Some node \<Rightarrow> res_bind (list_nodes nodes names) (\<lambda>vs. Inr (sn_v1 node # vs)))"

definition kube_List :: "kubesim \<Rightarrow> v1_node list res" where
  "kube_List k = list_nodes (k_nodes k) (k_nodeNames k)"

definition kube_AddSubmitter :: "kubesim \<Rightarrow> string \<Rightarrow> submitter \<Rightarrow> kubesim" where
  "kube_AddSubmitter k name subm = k\<lparr>k_submitters := AList.update name subm (k_submitters k)\<rparr>"

definition deletePodFromNode :: "string \<Rightarrow> string \<Rightarrow> kubesim \<Rightarrow> kubesim res" where
  "deletePodFromNode podNamespace podName k =
     (case map_of (k_boundPods k) (PodKeyFromNames podNamespace podName) of
        None \<Rightarrow> Inr k
      | Some s \<Rightarrow>
          (case sim_Delete (hp_pods (k_heap k)) (k_clock k) (hp_sims (k_heap k) s) of
             (ps, pod') \<Rightarrow>
               let h = (k_heap k)\<lparr>hp_pods := ps, hp_sims := (hp_sims (k_heap k))(s := pod')\<rparr>;
                   nodeName = pod_NodeName (ps (sp_v1 pod'))
               in case map_of (k_nodes k) nodeName of
                    None \<Rightarrow> Inl (Panic ''nil pointer dereference'')
                  | Some node \<Rightarrow>
                      (case Node_DeletePod (k_clock k) podNamespace podName node h of
                         (h, _) \<Rightarrow> Inr (k\<lparr>k_heap := h\<rparr>))))"

text \<open>What is written into a submitted pod: its name is its UID, whatever the namespace.\<close>

definition submitted_pod :: "clock \<Rightarrow> v1_pod \<Rightarrow> v1_pod" where
  "submitted_pod clk pod =
     pod\<lparr>pod_UID := pod_Name pod, pod_CreationTimestamp := clk,
         pod_Status := (pod_Status pod)\<lparr>ps_Phase := PodPending\<rparr>\<rparr>"

definition submit_one :: "string \<Rightarrow> submit_event \<Rightarrow> kubesim \<Rightarrow> kubesim res" where
  "submit_one name e k =
     (case e of
        SubmitEvent pod \<Rightarrow>
          let h = k_heap k; ps = (hp_pods h)(pod := submitted_pod (k_clock k) (hp_pods h pod))
          in res_bind (Queue_Push ps (k_pendingPods k) pod) (\<lambda>q.
               Inr (k\<lparr>k_heap := h\<lparr>hp_pods := ps\<rparr>, k_pendingPods := q\<rparr>))
      | SubmitDeleteEvent podName podNamespace \<Rightarrow>
          res_bind (Queue_Delete (hp_pods (k_heap k)) (k_pendingPods k) podNamespace podName)
            (\<lambda>(ps, q, delFromQ).
              let k = k\<lparr>k_heap := (k_heap k)\<lparr>hp_pods := ps\<rparr>, k_pendingPods := q\<rparr>
              in if \<not> delFromQ then deletePodFromNode podNamespace podName k else Inr k)
      | UpdateEvent podName podNamespace newPod \<Rightarrow>
          (case Queue_Update (hp_pods (k_heap k)) (k_pendingPods k) podNamespace podName newPod of
             Inr q \<Rightarrow> Inr (k\<lparr>k_pendingPods := q\<rparr>)
           | Inl err \<Rightarrow> if err = ErrNoMatchingPod (PodKeyFromNames podNamespace podName) then Inr k else Inl err)
      | TerminateSubmitterEvent \<Rightarrow> Inr (k\<lparr>k_submitters := AList.delete name (k_submitters k)\<rparr>))"

definition submit_piece :: "metrics \<Rightarrow> string \<times> submitter \<Rightarrow> kubesim \<Rightarrow> kubesim res" where
  "submit_piece met = (\<lambda>(name, subm) k.
     res_bind (kube_List k) (\<lambda>nodes.
     res_bind (Submit subm (k_clock k) nodes met (hp_pods (k_heap k))) (\<lambda>(subm', ps, events).
       fold_res (submit_one name) events
         (k\<lparr>k_submitters := AList.update name subm' (k_submitters k), k_heap := (k_heap k)\<lparr>hp_pods := ps\<rparr>\<rparr>))))"

text \<open>The loop ranges over the submitters; deleting the one it is at does not disturb it.\<close>

definition kube_submit :: "metrics \<Rightarrow> kubesim \<Rightarrow> kubesim res" where
  "kube_submit met k = fold_res (submit_piece met) (k_submitters k) k"

section \<open>Scheduling\<close>

fun build_infos ::
  "clock \<Rightarrow> (string \<times> sim_node) list \<Rightarrow> heap \<times> node_infos \<Rightarrow> (heap \<times> node_infos) res" where
  "build_infos clk [] (h, infos) = Inr (h, infos)"
| "build_infos clk ((name, node) # nodes) (h, infos) =
     res_bind (ToNodeInfo clk node h) (\<lambda>(h, info). build_infos clk nodes (h, AList.update name info infos))"

definition bind_event :: "io_env \<Rightarrow> pod_ptr \<Rightarrow> schedule_result \<Rightarrow> kubesim \<Rightarrow> kubesim res" where
  "bind_event io pod result k =
     (let nodeName = sr_SuggestedHost result
      in case map_of (k_nodes k) nodeName of
           None \<Rightarrow> Inl (NoNodeNamed nodeName)
         | Some node \<Rightarrow>
             let h = k_heap k; ps = (hp_pods h)(pod := (hp_pods h pod)\<lparr>pod_NodeName := nodeName\<rparr>)
             in res_bind (BindPod io (k_clock k) pod node (h\<lparr>hp_pods := ps\<rparr>)) (\<lambda>(node', h', s).
                res_bind (PodKey (hp_pods h' pod)) (\<lambda>key.
                  Inr (k\<lparr>k_nodes := AList.update nodeName node' (k_nodes k), k_heap := h',
                         k_boundPods := AList.update key s (k_boundPods k)\<rparr>))))"

definition schedule_event :: "io_env \<Rightarrow> event \<Rightarrow> kubesim \<Rightarrow> kubesim res" where
  "schedule_event io e k =
     (case e of
        BindEvent pod result \<Rightarrow> bind_event io pod result k
      | DeleteEvent podNamespace podName _ \<Rightarrow> deletePodFromNode podNamespace podName k)"

definition kube_schedule :: "io_env \<Rightarrow> scheduler \<Rightarrow> kubesim \<Rightarrow> kubesim res option" where
  "kube_schedule io sch k =
     (case build_infos (k_clock k) (k_nodes k) (k_heap k, []) of
        Inl e \<Rightarrow> Some (Inl e)
      | Inr (h, infos) \<Rightarrow>
          (case sch (k_clock k) (kube_List k)
                  \<lparr>ss_pods = hp_pods h, ss_queue = k_pendingPods k, ss_infos = infos,
                   ss_failQueue = k_failQueue k, ss_cache = k_cache k\<rparr> of
             None \<Rightarrow> None
           | Some (Inl e) \<Rightarrow> Some (Inl e)
           | Some (Inr (st, events)) \<Rightarrow>
               Some (fold_res (schedule_event io) events
                 (k\<lparr>k_heap := h\<lparr>hp_pods := ss_pods st\<rparr>, k_pendingPods := ss_queue st,
                    k_failQueue := ss_failQueue st, k_cache := ss_cache st\<rparr>))))"

section \<open>The main loop\<close>

definition kube_toTerminate :: "bool \<Rightarrow> kubesim \<Rightarrow> (kubesim \<times> bool) res" where
  "kube_toTerminate submitterAddedEver k =
     (case Queue_Front (k_pendingPods k) of
        (q, r) \<Rightarrow>
          let k = k\<lparr>k_pendingPods := q\<rparr>
          in if is_panic_res r then Inl (projl r)
             else if r = Inl ErrEmptyQueue then
               res_bind (fold_res (\<lambda>(_, node) running.
                   if running then Inr True
                   else res_bind (node_PodsNum (k_heap k) (k_clock k) node) (\<lambda>n. Inr (n > 0)))
                 (k_nodes k) False) (\<lambda>running.
                   Inr (k, \<not> running \<and> submitterAddedEver \<and> k_submitters k = []))
             else Inr (k, False))"

definition writeMetrics :: "kube_env \<Rightarrow> metrics \<Rightarrow> bool" where
  "writeMetrics ke met = list_ex (\<lambda>write. write met) (ke_writers ke)"

fun gc_nodes :: "heap \<Rightarrow> clock \<Rightarrow> (string \<times> sim_node) list \<Rightarrow> (string \<times> sim_node) list res" where
  "gc_nodes h clk [] = Inr []"
| "gc_nodes h clk ((name, node) # nodes) =
     res_bind (GCTerminatedPods h clk node) (\<lambda>node'.
     res_bind (gc_nodes h clk nodes) (\<lambda>nodes'. Inr ((name, node') # nodes')))"

definition gcTerminatedPodsInNodes :: "kubesim \<Rightarrow> kubesim res" where
  "gcTerminatedPodsInNodes k =
     res_bind (gc_nodes (k_heap k) (k_clock k) (k_nodes k)) (\<lambda>nodes. Inr (k\<lparr>k_nodes := nodes\<rparr>))"

text \<open>The loop's state: the variables of Run, and of the metrics what was handed to the writers.\<close>

record run_state =
  rs_kube :: kubesim
  rs_met :: metrics
  rs_preMetricsClock :: clock
  rs_submitterAddedEver :: bool
  rs_estimator :: estimator
  rs_written :: "metrics list"

definition kube_metrics :: "kube_env \<Rightarrow> estimator \<Rightarrow> kubesim \<Rightarrow> (kubesim \<times> metrics) res" where
  "kube_metrics ke es k =
     res_bind (BuildMetrics (ke_io ke) (ke_order ke (map fst (k_nodes k))) (k_clock k) (k_nodes k)
         (k_pendingPods k) (es_PredictionPenalty es) (k_heap k)) (\<lambda>(h, met). Inr (k\<lparr>k_heap := h\<rparr>, met))"

text \<open>
  The body of the loop. The variable \<open>err\<close> that \<^verbatim>\<open>if k.submit(met) != nil { return err }\<close> returns is the one
  declared by the call of time.Parse just before, which is nil: an error of a submitter or of the
  scheduler ends Run without an error. A panic does not return.
\<close>

datatype run_end = Returned "go_error option" run_state | Cancelled run_state | Panicked go_error

definition Run_end :: "go_error \<Rightarrow> run_state \<Rightarrow> run_end" where
  "Run_end e rs = (if is_panic e then Panicked e else Returned None rs)"

definition Run_tail :: "kube_env \<Rightarrow> run_state \<Rightarrow> kubesim \<Rightarrow> run_end + run_state" where
  "Run_tail ke rs k =
     (case kube_metrics ke (rs_estimator rs) k of
        Inl e \<Rightarrow> Inl (if is_panic e then Panicked e else Returned (Some e) (rs\<lparr>rs_kube := k\<rparr>))
      | Inr (k, met) \<Rightarrow>
          (case Estimate met (k_nodeNames k) (rs_estimator rs) of
             (es, cache) \<Rightarrow>
               let k = k\<lparr>k_cache := cache\<rparr>;
                   next' = (\<lambda>k rs. rs\<lparr>rs_kube := k\<lparr>k_clock := clock_Add (k_clock k) (k_tick k)\<rparr>\<rparr>);
                   rs = rs\<lparr>rs_met := met, rs_estimator := es\<rparr>
               in if clock_Sub (k_clock k) (rs_preMetricsClock rs) \<ge> k_metricsTick k then
                    let rs = rs\<lparr>rs_preMetricsClock := k_clock k, rs_written := rs_written rs @ [met]\<rparr>
                    in if writeMetrics ke met
                       then Inl (Returned (Some (ResultError ''cannot write metrics'')) (rs\<lparr>rs_kube := k\<rparr>))
                       else (case gcTerminatedPodsInNodes k of
                               Inl e \<Rightarrow> Inl (Panicked e)
                             | Inr k \<Rightarrow> Inr (next' k rs))
                  else Inr (next' k rs)))"

definition Run_step :: "kube_env \<Rightarrow> scheduler \<Rightarrow> run_state \<Rightarrow> (run_end + run_state) option" where
  "Run_step ke sch rs =
     (case kube_toTerminate (rs_submitterAddedEver rs) (rs_kube rs) of
        Inl e \<Rightarrow> Some (Inl (Panicked e))
      | Inr (k, finished) \<Rightarrow>
          let rs = rs\<lparr>rs_kube := k\<rparr>
          in if finished \<or> clock_Before (k_endClock k) (k_clock k) then Some (Inl (Returned None rs))
             else
               let rs = rs\<lparr>rs_submitterAddedEver := (rs_submitterAddedEver rs \<or> k_submitters k \<noteq> [])\<rparr>
               in if ke_Done ke (k_clock k) then Some (Inl (Cancelled rs))
                  else
                    (case kube_submit (rs_met rs) k of
                       Inl e \<Rightarrow> Some (Inl (Run_end e rs))
                     | Inr k \<Rightarrow>
                         (case kube_schedule (ke_io ke) sch k of
                            None \<Rightarrow> None
                          | Some (Inl e) \<Rightarrow> Some (Inl (Run_end e (rs\<lparr>rs_kube := k\<rparr>)))
                          | Some (Inr k) \<Rightarrow> Some (Run_tail ke rs k))))"

partial_function (option) Run_loop :: "kube_env \<Rightarrow> scheduler \<Rightarrow> run_state \<Rightarrow> run_end option" where
  "Run_loop ke sch rs =
     (case Run_step ke sch rs of
        None \<Rightarrow> None
      | Some (Inl finished) \<Rightarrow> Some finished
      | Some (Inr rs') \<Rightarrow> Run_loop ke sch rs')"

declare Run_loop.simps [code]

definition Run_start :: "kube_env \<Rightarrow> estimator \<Rightarrow> kubesim \<Rightarrow> run_end + run_state" where
  "Run_start ke es k =
     (case kube_metrics ke es k of
        Inl e \<Rightarrow> Inl (Panicked e)
      | Inr (k', met) \<Rightarrow>
          Inr \<lparr>rs_kube = k', rs_met = met, rs_preMetricsClock = k_clock k,
               rs_submitterAddedEver = (k_submitters k \<noteq> []), rs_estimator = es, rs_written = []\<rparr>)"

definition Run :: "kube_env \<Rightarrow> scheduler \<Rightarrow> estimator \<Rightarrow> kubesim \<Rightarrow> run_end option" where
  "Run ke sch es k =
     (case Run_start ke es k of Inl finished \<Rightarrow> Some finished | Inr rs \<Rightarrow> Run_loop ke sch rs)"

end
