(* ===== verification/SchedulerContract.thy ===== *)
theory SchedulerContract
  imports PlacementProperties KubeSim
begin

text \<open>
  What the simulator relies on when it calls a scheduler (the interface Scheduler of
  pkg/scheduler/scheduler.go), as two locales: \<open>scheduler_returns\<close> says that Schedule returns, and
  \<open>scheduler_contract\<close> that it gives back sound queues, changes nothing of a pod but its status, and
  loses no pod. GenericScheduler satisfies the first always and the second with KeepScheduling on;
  \<open>schedule_drops_bind_events\<close> shows that without it the second is violated.
\<close>

section \<open>Only the status of a pod changes\<close>

definition only_status :: "pods \<Rightarrow> pods \<Rightarrow> bool" where
  "only_status ps ps' \<longleftrightarrow> (\<forall>p. (ps p)\<lparr>pod_Status := empty_status\<rparr> = (ps' p)\<lparr>pod_Status := empty_status\<rparr>)"

lemma only_status_refl [simp]: "only_status ps ps"
  by (simp add: only_status_def)

lemma only_status_trans [trans]: "only_status a b \<Longrightarrow> only_status b c \<Longrightarrow> only_status a c"
  by (simp add: only_status_def)

lemma only_status_set [simp]: "only_status ps (set_status ps p st)" "only_status ps (set_nominated ps p n)"
  by (simp_all add: only_status_def set_status_def set_nominated_def)

lemma only_status_same: "only_status ps ps' \<longleftrightarrow> same_but_status (h\<lparr>hp_pods := ps\<rparr>) (h\<lparr>hp_pods := ps'\<rparr>)"
  by (simp add: only_status_def same_but_status_def)

lemma PriorityQueue_RemoveNominatedNode_status:
  "PriorityQueue_RemoveNominatedNode ps q p = Inr (ps', q') \<Longrightarrow> only_status ps ps'"
  by (auto simp: PriorityQueue_RemoveNominatedNode_def Let_def res_bind_Inr_iff split: if_splits)

lemma RemoveNominatedNode_status: "Queue_RemoveNominatedNode ps q p = Inr (ps', q') \<Longrightarrow> only_status ps ps'"
  by (cases q) (auto simp: Queue_RemoveNominatedNode_def res_bind_Inr_iff
      dest: PriorityQueue_RemoveNominatedNode_status)

lemma UpdateNominatedNode_status: "Queue_UpdateNominatedNode ps q p n = (ps', Inr q') \<Longrightarrow> only_status ps ps'"
  by (cases q)
    (auto simp: Queue_UpdateNominatedNode_def PriorityQueue_UpdateNominatedNode_def Let_def res_bind_Inr_iff
      split: prod.splits sum.splits
      intro: only_status_trans dest!: PriorityQueue_RemoveNominatedNode_status)

lemma clear_nominations_status: "clear_nominations ps q pods = Inr (ps', q') \<Longrightarrow> only_status ps ps'"
proof (induction ps q pods rule: clear_nominations.induct)
  case (2 ps q pod pods)
  then obtain ps1 q1 where "Queue_RemoveNominatedNode ps q pod = Inr (ps1, q1)" "clear_nominations ps1 q1 pods = Inr (ps', q')"
    by (auto simp: res_bind_Inr_iff)
  with "2.IH" RemoveNominatedNode_status only_status_trans show ?case by blast
qed simp

lemma preempt_status:
  assumes "preempt env sched ps p q lister infos failed = Inr (dels, ps', q')"
  shows "only_status ps ps'"
proof -
  obtain node victims clear where find: "findPreemption env sched ps p q lister infos failed = Inr (node, victims, clear)"
    using assms by (auto simp: preempt_def res_bind_Inr_iff)
  show ?thesis
  proof (cases node)
    case None
    with assms find have "clear_nominations ps q clear = Inr (ps', q')" by (auto simp: preempt_def res_bind_Inr_iff)
    then show ?thesis by (rule clear_nominations_status)
  next
    case (Some v)
    obtain ps1 r where u: "Queue_UpdateNominatedNode ps q p (node_Name v) = (ps1, r)" by force
    with assms find Some obtain q1 where r: "r = Inr q1" "clear_nominations ps1 q1 clear = Inr (ps', q')"
      by (auto simp: preempt_def res_bind_Inr_iff)
    show ?thesis
      by (rule only_status_trans [OF UpdateNominatedNode_status [OF u [unfolded r]] clear_nominations_status [OF r(2)]])
  qed
qed

lemma failed_status:
  "Schedule_failed env sched clk lister p err (st, results) \<in> {Continue (st', results'), Break (st', results')} \<Longrightarrow>
     only_status (ss_pods st) (ss_pods st')"
  by (auto simp: Schedule_failed_def updatePodStatusSchedulingFailure_def Let_def
      split: prod.splits if_splits option.splits sum.splits dest!: preempt_status
      intro: only_status_trans [OF only_status_set(1)])

lemma placed_status:
  assumes "Schedule_placed clk p result (st, results) \<in> {Continue (st', results'), Break (st', results')}"
  shows "only_status (ss_pods st) (ss_pods st')"
proof -
  obtain q2 r where pop: "Queue_Pop (ss_pods st) (ss_queue st) = (q2, r)" by force
  with assms obtain p' where r: "r = Inr p'" by (cases r) (auto simp: Schedule_placed_def Let_def)
  let ?ps = "updatePodStatusSchedulingSuccess clk (ss_pods st) p'"
  obtain ps' q3 where rem: "Queue_RemoveNominatedNode ?ps q2 p' = Inr (ps', q3)"
    using assms by (cases "Queue_RemoveNominatedNode ?ps q2 p'") (auto simp: Schedule_placed_def Let_def pop r)
  with assms have "ss_pods st' = ps'" by (auto simp: Schedule_placed_def Let_def pop r split: option.splits)
  moreover have "only_status (ss_pods st) ?ps" by (simp add: updatePodStatusSchedulingSuccess_def)
  ultimately show ?thesis using RemoveNominatedNode_status [OF rem] only_status_trans by blast
qed

lemma step_status:
  assumes "Schedule_step env sched clk lister (st, results) \<in> {Continue (st', results'), Break (st', results')}"
  shows "only_status (ss_pods st) (ss_pods st')"
proof -
  obtain q1 r where front: "Queue_Front (ss_queue st) = (q1, r)" by force
  consider "ss_pods st' = ss_pods st"
    | p e where "Schedule_failed env (sched (ss_cache st)) clk lister p e (st\<lparr>ss_queue := q1\<rparr>, results) \<in>
        {Continue (st', results'), Break (st', results')}"
    | p result where "Schedule_placed clk p result (st\<lparr>ss_queue := q1\<rparr>, results) \<in>
        {Continue (st', results'), Break (st', results')}"
    using assms by (fastforce simp: Schedule_step_def front Let_def split: sum.splits if_splits)
  then show ?thesis using failed_status placed_status by cases fastforce+
qed

lemma Schedule_finish_pods:
  "Schedule_finish env (st, results) = Inr (st', results') \<Longrightarrow> ss_pods st' = ss_pods st"
  by (auto simp: Schedule_finish_def res_bind_Inr_iff split: if_splits)

lemma Schedule_status:
  assumes "sched_ready st" "se_KeepScheduling env" "Schedule env sched clk lister st = Some (Inr (st', events))"
  shows "only_status (ss_pods st) (ss_pods st')"
proof -
  let ?I = "\<lambda>s. only_status (ss_pods st) (ss_pods (fst s))"
  have "(\<exists>s'. ?I s' \<and> Schedule_finish env s' = Inr (st', events)) \<or> \<not> se_KeepScheduling env \<and> snd (st', events) = []"
  proof (rule loop_rule)
    show "sched_inv (all_pods st) (st, [])" using assms(1) by (simp add: sched_ready_inv)
    show "Schedule_loop env sched clk lister (st, []) = Some (Inr (st', events))" using assms(3) by (simp add: Schedule_def)
    show "?I (st, [])" by simp
  next
    fix s s'
    assume "?I s" "Schedule_step env sched clk lister s \<in> {Continue s', Break s'}"
    with step_status [of env sched clk lister "fst s" "snd s" "fst s'" "snd s'"] show "?I s'"
      using only_status_trans by (metis prod.collapse)
  qed
  with assms(2) Schedule_finish_pods show ?thesis by (metis prod.collapse)
qed

section \<open>The contract\<close>

locale scheduler_returns =
  fixes sch :: scheduler
  assumes returns: "\<exists>r. sch clk lister st = Some r"

locale scheduler_contract = scheduler_returns +
  assumes status_only: "sched_ready st \<Longrightarrow> sch clk lister st = Some (Inr (st', events)) \<Longrightarrow>
      only_status (ss_pods st) (ss_pods st')"
    and ready_again: "sched_ready st \<Longrightarrow> sch clk lister st = Some (Inr (st', events)) \<Longrightarrow> sched_ready st'"
    and conserves: "sched_ready st \<Longrightarrow> sch clk lister st = Some (Inr (st', events)) \<Longrightarrow>
      all_pods st = all_pods st' \<union> set (placed events)"
    and disjoint: "sched_ready st \<Longrightarrow> sch clk lister st = Some (Inr (st', events)) \<Longrightarrow>
      all_pods st' \<inter> set (placed events) = {}"
    and once: "sched_ready st \<Longrightarrow> sch clk lister st = Some (Inr (st', events)) \<Longrightarrow> distinct (placed events)"

definition keeping :: "sched_env \<Rightarrow> sched_env" where
  "keeping env = env\<lparr>se_KeepScheduling := True\<rparr>"

interpretation generic: scheduler_returns "Schedule env sched" for env sched
  by unfold_locales (use Schedule_loop_total in \<open>fastforce simp: Schedule_def\<close>)

lemma Schedule_keeping:
  assumes "sched_ready st" "Schedule (keeping env) sched clk lister st = Some (Inr (st', events))"
  shows "all_pods st = all_pods st' \<union> set (placed events)" "all_pods st' \<inter> set (placed events) = {}"
    "distinct (placed events)" "sched_ready st'"
proof -
  have keep: "se_KeepScheduling (keeping env)" by (simp add: keeping_def)
  have "all_pods st = all_pods st' \<union> set (placed events) \<and> all_pods st' \<inter> set (placed events) = {} \<and>
      distinct (placed events) \<and> sched_ready st'"
    using assms(1)
  proof (rule Schedule_ends [of st "keeping env" sched clk lister])
    fix s
    assume s: "Schedule (keeping env) sched clk lister st = Some (Schedule_finish (keeping env) s)"
      "sched_inv (all_pods st) s"
    obtain st1 results where s1: "s = (st1, results)" by force
    from Schedule_finish_keep [OF s(2) [unfolded s1] keep] obtain st2 where
      "Schedule_finish (keeping env) (st1, results) = Inr (st2, results)" "sched_ready st2"
      "waiting (ss_failQueue st2) = {}" "all_pods st = pending (ss_queue st2) \<union> set (placed results)"
      "pending (ss_queue st2) \<inter> set (placed results) = {}" "distinct (placed results)" by metis
    with assms(2) s(1) s1 show ?thesis by (auto simp: all_pods_def)
  qed (use assms keep in simp_all)
  then show "all_pods st = all_pods st' \<union> set (placed events)" "all_pods st' \<inter> set (placed events) = {}"
    "distinct (placed events)" "sched_ready st'" by blast+
qed

interpretation keep: scheduler_contract "Schedule (keeping env) sched" for env sched
  by unfold_locales
    (use Schedule_keeping Schedule_status [of _ "keeping env"] in \<open>auto simp: keeping_def\<close>)

end
