(* ===== verification/KubeProperties.thy ===== *)
theory KubeProperties
  imports SchedulerContract NodeProperties
begin

text \<open>
  The simulator as a whole: its invariant \<open>kube_ok\<close>, kept by every operation of KubeSim whatever the
  submitters do to pods of their own and for every scheduler that fulfils the contract; what it excludes
  (nil pointers and missing nodes); and that between submission and deletion no pod is lost.
\<close>

section \<open>The invariant\<close>

definition nodes_ok :: "heap \<Rightarrow> (string \<times> sim_node) list \<Rightarrow> bool" where
  "nodes_ok h nodes \<longleftrightarrow>
     distinct (map fst nodes) \<and> (\<forall>(name, node) \<in> set nodes. sims_ok h node \<and> node_Name (sn_v1 node) = name)"

definition bound_ok :: "heap \<Rightarrow> string set \<Rightarrow> (string \<times> sim_ptr) list \<Rightarrow> bool" where
  "bound_ok h names bound \<longleftrightarrow>
     (\<forall>(key, s) \<in> set bound. sim_ok h key s \<and> pod_NodeName (hp_pods h (sp_v1 (hp_sims h s))) \<in> names)"

definition kube_ok :: "kubesim \<Rightarrow> bool" where
  "kube_ok k \<longleftrightarrow>
     queues_ok (hp_pods (k_heap k)) (k_pendingPods k) (k_failQueue k) \<and> nodes_ok (k_heap k) (k_nodes k) \<and>
     bound_ok (k_heap k) (fst ` set (k_nodes k)) (k_boundPods k) \<and> set (k_nodeNames k) = fst ` set (k_nodes k)"

lemma nodes_ok_lookup: "nodes_ok h nodes \<Longrightarrow> map_of nodes name = Some node \<Longrightarrow> sims_ok h node \<and> node_Name (sn_v1 node) = name"
  by (auto simp: nodes_ok_def dest: map_of_SomeD)

lemma bound_ok_lookup:
  "bound_ok h names bound \<Longrightarrow> map_of bound key = Some s \<Longrightarrow>
     sim_ok h key s \<and> pod_NodeName (hp_pods h (sp_v1 (hp_sims h s))) \<in> names"
  by (auto simp: bound_ok_def dest: map_of_SomeD)

lemma queues_ok_static: "queues_ok ps q f \<Longrightarrow> same_static ps ps' \<Longrightarrow> queues_ok ps' q f"
  using q.inv_static fq.inv_static inj_PodKey_static unfolding queues_ok_def by blast

text \<open>A heap that goes on without new simulated pods and leaves the node names of the pods alone.\<close>

definition heap_grows :: "heap \<Rightarrow> heap \<Rightarrow> bool" where
  "heap_grows h h' \<longleftrightarrow> heap_le h h' \<and> hp_next h' = hp_next h \<and>
     (\<forall>p. pod_NodeName (hp_pods h' p) = pod_NodeName (hp_pods h p))"

text \<open>The pods that have a simulated pod.\<close>

definition sim_pods :: "heap \<Rightarrow> pod_ptr set" where
  "sim_pods h = {sp_v1 (hp_sims h s) | s. s < hp_next h}"

lemma heap_grows_sim_pods: "heap_grows h h' \<Longrightarrow> sim_pods h' = sim_pods h"
  by (auto simp: heap_grows_def heap_le_def sim_pods_def) metis+

lemma heap_grows_refl [simp]: "heap_grows h h"
  by (simp add: heap_grows_def)

lemma heap_grows_trans [trans]: "heap_grows a b \<Longrightarrow> heap_grows b c \<Longrightarrow> heap_grows a c"
  unfolding heap_grows_def using heap_le_trans by auto

lemma heap_grows_static: "heap_grows h h' \<Longrightarrow> same_static (hp_pods h) (hp_pods h')"
  by (simp add: heap_grows_def heap_le_def)

lemma same_but_status_grows:
  assumes "same_but_status h h'"
  shows "heap_grows h h'"
proof -
  have "pod_NodeName (hp_pods h' p) = pod_NodeName (hp_pods h p)" for p
  proof -
    have "(hp_pods h p)\<lparr>pod_Status := empty_status\<rparr> = (hp_pods h' p)\<lparr>pod_Status := empty_status\<rparr>"
      using assms by (simp add: same_but_status_def)
    from arg_cong [OF this, of pod_NodeName] show ?thesis by simp
  qed
  then show ?thesis using same_but_status_le [OF assms] assms by (simp add: heap_grows_def same_but_status_def)
qed

lemma nodes_ok_mono: "nodes_ok h nodes \<Longrightarrow> heap_le h h' \<Longrightarrow> nodes_ok h' nodes"
  using sims_ok_mono by (fastforce simp: nodes_ok_def)

lemma bound_ok_mono:
  assumes "bound_ok h names bound" "heap_grows h h'"
  shows "bound_ok h' names bound"
  unfolding bound_ok_def
proof clarify
  fix key s
  assume "(key, s) \<in> set bound"
  then have s: "sim_ok h key s" "pod_NodeName (hp_pods h (sp_v1 (hp_sims h s))) \<in> names"
    using assms(1) by (auto simp: bound_ok_def)
  moreover have "sp_v1 (hp_sims h' s) = sp_v1 (hp_sims h s)"
    using s(1) assms(2) by (auto simp: sim_ok_def heap_grows_def heap_le_def)
  ultimately show "sim_ok h' key s \<and> pod_NodeName (hp_pods h' (sp_v1 (hp_sims h' s))) \<in> names"
    using sim_ok_mono [OF s(1)] assms(2) by (simp add: heap_grows_def)
qed

lemma kube_ok_grows: "kube_ok k \<Longrightarrow> heap_grows (k_heap k) h \<Longrightarrow> kube_ok (k\<lparr>k_heap := h\<rparr>)"
  unfolding kube_ok_def
  by (auto intro: queues_ok_static [OF _ heap_grows_static] bound_ok_mono nodes_ok_mono simp: heap_grows_def [of _ h])

text \<open>Fields the invariant does not read.\<close>

lemma kube_ok_frame [simp]:
  "kube_ok (k\<lparr>k_clock := clk\<rparr>) = kube_ok k" "kube_ok (k\<lparr>k_cache := cache\<rparr>) = kube_ok k"
  "kube_ok (k\<lparr>k_submitters := subs\<rparr>) = kube_ok k"
  by (simp_all add: kube_ok_def)

section \<open>Deleting and binding\<close>

lemma sim_Delete_grows:
  assumes "sim_Delete (hp_pods h) clk (hp_sims h s) = (ps', pod')"
  shows "heap_grows h (h\<lparr>hp_pods := ps', hp_sims := (hp_sims h)(s := pod')\<rparr>)"
proof -
  have "pod_NodeName (ps' p) = pod_NodeName (hp_pods h p)" for p
    using assms by (auto simp: sim_Delete_def split: if_splits)
  with sim_Delete_frame [OF assms] sim_Delete_ok [OF _ assms] show ?thesis
    by (auto simp: heap_grows_def heap_le_def deletion_ok_def)
qed

lemma Node_DeletePod_grows:
  assumes "Node_DeletePod clk ns name node h = (h', found)"
  shows "heap_grows h h'"
proof (cases "map_of (sn_pods node) (PodKeyFromNames ns name)")
  case (Some s)
  obtain ps' pod' where d: "sim_Delete (hp_pods h) clk (hp_sims h s) = (ps', pod')" by force
  with assms Some have "h' = h\<lparr>hp_pods := ps', hp_sims := (hp_sims h)(s := pod')\<rparr>" by (simp add: Node_DeletePod_def)
  with sim_Delete_grows [OF d] show ?thesis by simp
qed (use assms in \<open>simp add: Node_DeletePod_def\<close>)

text \<open>deletePodFromNode never meets a missing node.\<close>

lemma deletePodFromNode_ok:
  assumes "kube_ok k"
  shows "\<exists>h. deletePodFromNode ns name k = Inr (k\<lparr>k_heap := h\<rparr>) \<and> heap_grows (k_heap k) h"
proof (cases "map_of (k_boundPods k) (PodKeyFromNames ns name)")
  case None
  then show ?thesis by (intro exI [of _ "k_heap k"]) (simp add: deletePodFromNode_def)
next
  case (Some s)
  obtain ps pod' where d: "sim_Delete (hp_pods (k_heap k)) (k_clock k) (hp_sims (k_heap k) s) = (ps, pod')" by force
  let ?h = "(k_heap k)\<lparr>hp_pods := ps, hp_sims := (hp_sims (k_heap k))(s := pod')\<rparr>"
  note grows = sim_Delete_grows [OF d]
  have v1: "sp_v1 pod' = sp_v1 (hp_sims (k_heap k) s)" using sim_Delete_frame [OF d] by simp
  have "pod_NodeName (ps (sp_v1 pod')) \<in> fst ` set (k_nodes k)"
    using bound_ok_lookup [OF _ Some] assms grows v1 by (auto simp: kube_ok_def heap_grows_def)
  then obtain node where node: "map_of (k_nodes k) (pod_NodeName (ps (sp_v1 pod'))) = Some node"
    by (metis map_of_eq_None_iff not_None_eq)
  obtain h found where del: "Node_DeletePod (k_clock k) ns name node ?h = (h, found)" by force
  have "deletePodFromNode ns name k = Inr (k\<lparr>k_heap := h\<rparr>)"
    by (simp add: deletePodFromNode_def Some d node del Let_def)
  moreover have "heap_grows (k_heap k) h" by (rule heap_grows_trans [OF grows Node_DeletePod_grows [OF del]])
  ultimately show ?thesis by blast
qed

text \<open>What a pod that is bound looks like from the simulator: recorded in the map and on its node.\<close>

definition is_bound :: "kubesim \<Rightarrow> pod_ptr \<Rightarrow> bool" where
  "is_bound k p \<longleftrightarrow> (\<exists>key s node. PodKey (hp_pods (k_heap k) p) = Inr key \<and>
     map_of (k_boundPods k) key = Some s \<and> s < hp_next (k_heap k) \<and> sp_v1 (hp_sims (k_heap k) s) = p \<and>
     map_of (k_nodes k) (pod_NodeName (hp_pods (k_heap k) p)) = Some node \<and> map_of (sn_pods node) key = Some s)"

lemma is_bound_grows: "is_bound k p \<Longrightarrow> heap_grows (k_heap k) h \<Longrightarrow> is_bound (k\<lparr>k_heap := h\<rparr>) p"
  using PodKey_static [OF heap_grows_static, of "k_heap k" h]
  by (fastforce simp: is_bound_def heap_grows_def heap_le_def)

lemma bind_event_spec:
  assumes ok: "kube_ok k" and bind: "bind_event io p r k = Inr k'"
  shows "kube_ok k'" "is_bound k' p" "k_pendingPods k' = k_pendingPods k" "k_failQueue k' = k_failQueue k"
    "same_static (hp_pods (k_heap k)) (hp_pods (k_heap k'))"
    "\<And>p'. is_bound k p' \<Longrightarrow> PodKey (hp_pods (k_heap k) p') \<noteq> PodKey (hp_pods (k_heap k) p) \<Longrightarrow> is_bound k' p'"
    "k_submitters k' = k_submitters k" "sim_pods (k_heap k') = insert p (sim_pods (k_heap k))"
proof -
  let ?name = "sr_SuggestedHost r"
  define ps where "ps = (hp_pods (k_heap k))(p := (hp_pods (k_heap k) p)\<lparr>pod_NodeName := ?name\<rparr>)"
  define h1 where "h1 = (k_heap k)\<lparr>hp_pods := ps\<rparr>"
  from bind obtain node node' h' s key where
    node: "map_of (k_nodes k) ?name = Some node" and b: "BindPod io (k_clock k) p node h1 = Inr (node', h', s)"
    and key: "PodKey (hp_pods h' p) = Inr key"
    and k': "k' = k\<lparr>k_nodes := AList.update ?name node' (k_nodes k), k_heap := h',
        k_boundPods := AList.update key s (k_boundPods k)\<rparr>"
    by (auto simp: bind_event_def Let_def ps_def h1_def res_bind_Inr_iff split: option.splits)
  have nodes: "nodes_ok (k_heap k) (k_nodes k)" and bound: "bound_ok (k_heap k) (fst ` set (k_nodes k)) (k_boundPods k)"
    using ok by (simp_all add: kube_ok_def)
  have le1: "heap_le (k_heap k) h1"
    by (auto simp: heap_le_def h1_def ps_def same_static_def pod_static_def deletion_ok_def)
  have ok1: "sims_ok h1 node" "node_Name (sn_v1 node) = ?name"
    using nodes_ok_lookup [OF nodes node] sims_ok_mono [OF _ le1] by auto
  obtain pod st where new: "s = hp_next (k_heap k)" "node' = node\<lparr>sn_pods := AList.update key s (sn_pods node)\<rparr>"
    "h' = h1\<lparr>hp_pods := set_status ps p st, hp_sims := (hp_sims (k_heap k))(s := pod), hp_next := Suc s\<rparr>"
    "sp_v1 pod = p"
  proof (rule BindPod_Inr [OF ok1(1) b])
    fix key' pod st
    assume a: "PodKey (hp_pods h1 p) = Inr key'" "NewPod io (hp_pods h1) p (k_clock k) Ok (node_Name (sn_v1 node)) = Inr pod"
      "s = hp_next h1" "node' = node\<lparr>sn_pods := AList.update key' s (sn_pods node)\<rparr>"
      "h' = h1\<lparr>hp_pods := set_status (hp_pods h1) p st, hp_sims := (hp_sims h1)(s := pod), hp_next := Suc s\<rparr>"
    have "hp_pods h' = set_status (hp_pods h1) p st" by (simp add: a(5))
    then have "key' = key" using a(1) key PodKey_static [OF same_static_set_status] by (metis sum.inject(2))
    moreover have "hp_next h1 = hp_next (k_heap k)" "hp_sims h1 = hp_sims (k_heap k)" "hp_pods h1 = ps"
      by (simp_all add: h1_def)
    ultimately show thesis using a(3-5) NewPod_fields [OF a(2)] by (intro that [of pod st]) (simp_all only:)
  qed
  note le = heap_le_trans [OF le1 BindPod_le [OF ok1(1) b]]
  have static: "same_static (hp_pods (k_heap k)) (hp_pods h')" using le by (simp add: heap_le_def)
  note keys = PodKey_static [OF static]
  have names: "pod_NodeName (hp_pods h' x) = (if x = p then ?name else pod_NodeName (hp_pods (k_heap k) x))" for x
    by (simp add: new(3) ps_def)
  have sims: "sp_v1 (hp_sims h' x) = sp_v1 (hp_sims (k_heap k) x)" if "x < hp_next (k_heap k)" for x
    using le that by (simp add: heap_le_def)
  have dom: "fst ` set (AList.update ?name node' (k_nodes k)) = fst ` set (k_nodes k)"
    using node by (force simp: dom_update dest: map_of_SomeD)
  have node'_ok: "sims_ok h' node'" by (rule BindPod_sims_ok [OF ok1(1) b])
  have "nodes_ok h' (k_nodes k)" by (rule nodes_ok_mono [OF nodes le])
  then have nodes': "nodes_ok h' (AList.update ?name node' (k_nodes k))"
    unfolding nodes_ok_def using node'_ok ok1(2) new(2)
    by (intro conjI ball_set_update) (auto simp: distinct_update)
  have new_ok: "sim_ok h' key s" "sp_v1 (hp_sims h' s) = p"
  proof -
    have "(key, s) \<in> set (sn_pods node')" using new(2) by (auto intro!: map_of_SomeD simp: update_conv)
    then show "sim_ok h' key s" by (rule sims_okD [OF node'_ok])
    show "sp_v1 (hp_sims h' s) = p" using new(3,4) by simp
  qed
  have "\<forall>(key, s) \<in> set (k_boundPods k). sim_ok h' key s \<and> pod_NodeName (hp_pods h' (sp_v1 (hp_sims h' s))) \<in> fst ` set (k_nodes k)"
  proof clarify
    fix k1 s1
    assume "(k1, s1) \<in> set (k_boundPods k)"
    then have a: "sim_ok (k_heap k) k1 s1" "pod_NodeName (hp_pods (k_heap k) (sp_v1 (hp_sims (k_heap k) s1))) \<in> fst ` set (k_nodes k)"
      using bound by (auto simp: bound_ok_def)
    moreover have "s1 < hp_next (k_heap k)" using a(1) by (simp add: sim_ok_def)
    moreover have "?name \<in> fst ` set (k_nodes k)" using node by (force dest: map_of_SomeD)
    ultimately show "sim_ok h' k1 s1 \<and> pod_NodeName (hp_pods h' (sp_v1 (hp_sims h' s1))) \<in> fst ` set (k_nodes k)"
      using sim_ok_mono [OF a(1) le] by (simp add: sims names)
  qed
  then have bound': "bound_ok h' (fst ` set (k_nodes k)) (AList.update key s (k_boundPods k))"
    unfolding bound_ok_def
    by (rule ball_set_update) (use new_ok node in \<open>force simp: names dest: map_of_SomeD\<close>)
  show "kube_ok k'"
    using ok nodes' bound' queues_ok_static [OF _ static] by (simp add: kube_ok_def k' dom)
  show "is_bound k' p"
  proof -
    have "s < hp_next h'" "pod_NodeName (hp_pods h' p) = ?name" using names new(3) by simp_all
    then show ?thesis using key new_ok(2) new(2) by (simp add: is_bound_def k' update_conv)
  qed
  show "k_pendingPods k' = k_pendingPods k" "k_failQueue k' = k_failQueue k" "k_submitters k' = k_submitters k"
    by (simp_all add: k')
  have next': "hp_next h' = Suc (hp_next (k_heap k))" "sp_v1 (hp_sims h' (hp_next (k_heap k))) = p" using new by (simp_all add: h1_def)
  show "sim_pods (k_heap k') = insert p (sim_pods (k_heap k))"
    unfolding k' sim_pods_def using next' sims by (auto simp: less_Suc_eq) (metis less_Suc_eq)+
  show "same_static (hp_pods (k_heap k)) (hp_pods (k_heap k'))" using static by (simp add: k')
  fix p'
  assume "is_bound k p'" and neq: "PodKey (hp_pods (k_heap k) p') \<noteq> PodKey (hp_pods (k_heap k) p)"
  then obtain key1 s1 node1 where p': "PodKey (hp_pods (k_heap k) p') = Inr key1"
    "map_of (k_boundPods k) key1 = Some s1" "s1 < hp_next (k_heap k)" "sp_v1 (hp_sims (k_heap k) s1) = p'"
    "map_of (k_nodes k) (pod_NodeName (hp_pods (k_heap k) p')) = Some node1" "map_of (sn_pods node1) key1 = Some s1"
    by (auto simp: is_bound_def)
  have "key1 \<noteq> key" "p' \<noteq> p" using neq p'(1) key keys by auto
  moreover have "pod_NodeName (hp_pods h' p') = pod_NodeName (hp_pods (k_heap k) p')" using \<open>p' \<noteq> p\<close> names by simp
  moreover have "s1 < hp_next h'" "sp_v1 (hp_sims h' s1) = p'" "PodKey (hp_pods h' p') = Inr key1"
    using p'(1,3,4) sims le keys [of p'] by (simp_all add: heap_le_def)
  ultimately show "is_bound k' p'"
    using p'(2,5,6) node new(2) by (auto simp: is_bound_def k' update_conv)
qed

section \<open>Scheduling\<close>

lemma schedule_events_spec:
  "fold_res (schedule_event io) events k = Inr k' \<Longrightarrow> kube_ok k \<Longrightarrow> distinct (placed events) \<Longrightarrow>
     inj_on (\<lambda>p. PodKey (hp_pods (k_heap k) p)) (set (placed events)) \<Longrightarrow>
     kube_ok k' \<and> k_pendingPods k' = k_pendingPods k \<and> k_failQueue k' = k_failQueue k \<and>
     same_static (hp_pods (k_heap k)) (hp_pods (k_heap k')) \<and>
     (\<forall>p. p \<in> set (placed events) \<or>
         is_bound k p \<and> PodKey (hp_pods (k_heap k) p) \<notin> (\<lambda>p. PodKey (hp_pods (k_heap k) p)) ` set (placed events) \<longrightarrow>
         is_bound k' p)"
proof (induction events arbitrary: k)
  case (Cons e events)
  from Cons.prems(1) obtain k1 where e: "schedule_event io e k = Inr k1" and rest: "fold_res (schedule_event io) events k1 = Inr k'"
    by (auto simp: res_bind_Inr_iff)
  show ?case
  proof (cases e)
    case (BindEvent p r)
    note b = bind_event_spec [OF Cons.prems(2), of io p r k1]
    have b1: "bind_event io p r k = Inr k1" using e BindEvent by (simp add: schedule_event_def)
    note keys = PodKey_static [OF b(5) [OF b1]]
    have inj: "inj_on (\<lambda>p. PodKey (hp_pods (k_heap k1) p)) (set (placed events))"
      using Cons.prems(4) BindEvent by (simp add: keys [symmetric])
    have dist: "distinct (placed events)" using Cons.prems(3) BindEvent by simp
    note IH = Cons.IH [OF rest b(1) [OF b1] dist inj]
    have p: "PodKey (hp_pods (k_heap k) p) \<notin> (\<lambda>p. PodKey (hp_pods (k_heap k) p)) ` set (placed events)"
      using Cons.prems(3,4) BindEvent by (simp add: inj_on_def) blast
    show ?thesis
    proof (intro conjI allI impI)
      show "same_static (hp_pods (k_heap k)) (hp_pods (k_heap k'))"
        using IH same_static_trans [OF b(5) [OF b1]] by blast
      fix x
      assume x: "x \<in> set (placed (e # events)) \<or> is_bound k x \<and> PodKey (hp_pods (k_heap k) x) \<notin>
          (\<lambda>p. PodKey (hp_pods (k_heap k) p)) ` set (placed (e # events))"
      have "x \<in> set (placed events) \<or> is_bound k1 x \<and> PodKey (hp_pods (k_heap k1) x) \<notin>
          (\<lambda>p. PodKey (hp_pods (k_heap k1) p)) ` set (placed events)"
        using x p b(2) [OF b1] b(6) [OF b1] unfolding BindEvent keys [symmetric] by auto
      with IH show "is_bound k' x" by blast
    qed (use IH b(3,4) [OF b1] in auto)
  next
    case (DeleteEvent ns name host)
    obtain h where h: "deletePodFromNode ns name k = Inr (k\<lparr>k_heap := h\<rparr>)" "heap_grows (k_heap k) h"
      using deletePodFromNode_ok [OF Cons.prems(2)] by blast
    have k1: "k1 = k\<lparr>k_heap := h\<rparr>" using e DeleteEvent h(1) by (simp add: schedule_event_def)
    note keys = PodKey_static [OF heap_grows_static [OF h(2)]]
    have "kube_ok k1" using kube_ok_grows [OF Cons.prems(2) h(2)] by (simp add: k1)
    moreover have "inj_on (\<lambda>p. PodKey (hp_pods (k_heap k1) p)) (set (placed events))"
      using Cons.prems(4) DeleteEvent by (simp add: k1 keys [symmetric])
    ultimately have IH: "kube_ok k' \<and> k_pendingPods k' = k_pendingPods k1 \<and> k_failQueue k' = k_failQueue k1 \<and>
       same_static (hp_pods (k_heap k1)) (hp_pods (k_heap k')) \<and>
       (\<forall>p. p \<in> set (placed events) \<or>
         is_bound k1 p \<and> PodKey (hp_pods (k_heap k1) p) \<notin> (\<lambda>p. PodKey (hp_pods (k_heap k1) p)) ` set (placed events) \<longrightarrow>
         is_bound k' p)"
      using Cons.IH [OF rest] Cons.prems(3) DeleteEvent by simp
    have same: "is_bound k p \<longrightarrow> is_bound k1 p" for p using is_bound_grows [OF _ h(2)] by (simp add: k1)
    show ?thesis
      using IH same same_static_trans [OF heap_grows_static [OF h(2)]] unfolding k1 DeleteEvent by (simp add: keys)
  qed
qed simp

lemma schedule_events_frame:
  "fold_res (schedule_event io) events k = Inr k' \<Longrightarrow> kube_ok k \<Longrightarrow>
     same_static (hp_pods (k_heap k)) (hp_pods (k_heap k')) \<and> k_submitters k' = k_submitters k \<and>
     sim_pods (k_heap k') = sim_pods (k_heap k) \<union> set (placed events)"
proof (induction events arbitrary: k)
  case (Cons e events)
  from Cons.prems(1) obtain k1 where e: "schedule_event io e k = Inr k1" and rest: "fold_res (schedule_event io) events k1 = Inr k'"
    by (auto simp: res_bind_Inr_iff)
  have "kube_ok k1 \<and> same_static (hp_pods (k_heap k)) (hp_pods (k_heap k1)) \<and> k_submitters k1 = k_submitters k \<and>
      sim_pods (k_heap k1) \<union> set (placed events) = sim_pods (k_heap k) \<union> set (placed (e # events))"
  proof (cases e)
    case (BindEvent p r)
    with e have "bind_event io p r k = Inr k1" by (simp add: schedule_event_def)
    note spec = bind_event_spec [OF Cons.prems(2) this]
    show ?thesis by (simp add: BindEvent spec(1,5,7,8))
  next
    case (DeleteEvent ns name host)
    obtain h where h: "deletePodFromNode ns name k = Inr (k\<lparr>k_heap := h\<rparr>)" "heap_grows (k_heap k) h"
      using deletePodFromNode_ok [OF Cons.prems(2)] by blast
    with e DeleteEvent have k1: "k1 = k\<lparr>k_heap := h\<rparr>" by (simp add: schedule_event_def)
    show ?thesis
      using kube_ok_grows [OF Cons.prems(2) h(2)] heap_grows_static [OF h(2)] heap_grows_sim_pods [OF h(2)]
      by (simp add: DeleteEvent k1)
  qed
  note step = this
  from step Cons.IH [OF rest] have IH: "same_static (hp_pods (k_heap k1)) (hp_pods (k_heap k'))" "k_submitters k' = k_submitters k1"
    "sim_pods (k_heap k') = sim_pods (k_heap k1) \<union> set (placed events)" by simp_all
  show ?case
  proof (intro conjI)
    from step have "same_static (hp_pods (k_heap k)) (hp_pods (k_heap k1))" by simp
    from same_static_trans [OF this IH(1)] show "same_static (hp_pods (k_heap k)) (hp_pods (k_heap k'))" .
  qed (use step IH(2,3) in simp_all)
qed simp

lemma build_infos_ok:
  "\<forall>(name, node) \<in> set nodes. sims_ok h node \<Longrightarrow>
     \<exists>h' infos'. build_infos clk nodes (h, infos) = Inr (h', infos') \<and> same_but_status h h' \<and>
       fst ` set infos' = fst ` set infos \<union> fst ` set nodes"
proof (induction nodes arbitrary: h infos)
  case (Cons x nodes)
  obtain name node where x: "x = (name, node)" by force
  with Cons.prems obtain h1 ni where ni: "ToNodeInfo clk node h = Inr (h1, ni)" "same_but_status h h1"
    using ToNodeInfo_spec [of h node clk] by auto
  have "\<forall>(name, node) \<in> set nodes. sims_ok h1 node"
    using Cons.prems sims_ok_mono [OF _ same_but_status_le [OF ni(2)]] by auto
  from Cons.IH [OF this, of "AList.update name ni infos"] obtain h' infos' where
    "build_infos clk nodes (h1, AList.update name ni infos) = Inr (h', infos')" "same_but_status h1 h'"
    "fst ` set infos' = fst ` set (AList.update name ni infos) \<union> fst ` set nodes" by blast
  with ni x same_but_status_trans show ?case by (auto simp: dom_update)
qed simp

text \<open>The state in which the simulator calls its scheduler.\<close>

definition call_state :: "kubesim \<Rightarrow> heap \<Rightarrow> node_infos \<Rightarrow> sched_state" where
  "call_state k h infos = \<lparr>ss_pods = hp_pods h, ss_queue = k_pendingPods k, ss_infos = infos,
     ss_failQueue = k_failQueue k, ss_cache = k_cache k\<rparr>"

definition after_schedule :: "kubesim \<Rightarrow> heap \<Rightarrow> sched_state \<Rightarrow> kubesim" where
  "after_schedule k h st = k\<lparr>k_heap := h\<lparr>hp_pods := ss_pods st\<rparr>, k_pendingPods := ss_queue st,
     k_failQueue := ss_failQueue st, k_cache := ss_cache st\<rparr>"

definition unplaced :: "kubesim \<Rightarrow> pod_ptr set" where
  "unplaced k = pending (k_pendingPods k) \<union> waiting (k_failQueue k)"

text \<open>The pods the simulator holds; a submitter may write any others.\<close>

definition in_use :: "kubesim \<Rightarrow> pod_ptr set" where
  "in_use k = unplaced k \<union> sim_pods (k_heap k)"

lemma kube_schedule_cases:
  assumes ok: "kube_ok k"
  obtains h infos where "build_infos (k_clock k) (k_nodes k) (k_heap k, []) = Inr (h, infos)"
    "same_but_status (k_heap k) h" "sched_ready (call_state k h infos)" "all_pods (call_state k h infos) = unplaced k"
    "kube_schedule io sch k = (case sch (k_clock k) (kube_List k) (call_state k h infos) of
       None \<Rightarrow> None | Some (Inl e) \<Rightarrow> Some (Inl e)
     | Some (Inr (st, events)) \<Rightarrow> Some (fold_res (schedule_event io) events (after_schedule k h st)))"
proof -
  have "\<forall>(name, node) \<in> set (k_nodes k). sims_ok (k_heap k) node" using ok by (auto simp: kube_ok_def nodes_ok_def)
  from build_infos_ok [OF this, of "k_clock k" "[]"] obtain h infos where
    b: "build_infos (k_clock k) (k_nodes k) (k_heap k, []) = Inr (h, infos)" "same_but_status (k_heap k) h" by auto
  have static: "same_static (hp_pods (k_heap k)) (hp_pods h)" using same_but_status_le [OF b(2)] by (simp add: heap_le_def)
  show thesis
  proof (rule that [OF b])
    show "sched_ready (call_state k h infos)"
      using ok queues_ok_static [OF _ static] by (simp add: sched_ready_def call_state_def kube_ok_def)
    show "all_pods (call_state k h infos) = unplaced k" by (simp add: all_pods_def call_state_def unplaced_def)
    show "kube_schedule io sch k = (case sch (k_clock k) (kube_List k) (call_state k h infos) of
       None \<Rightarrow> None | Some (Inl e) \<Rightarrow> Some (Inl e)
     | Some (Inr (st, events)) \<Rightarrow> Some (fold_res (schedule_event io) events (after_schedule k h st)))"
      unfolding kube_schedule_def b(1) call_state_def after_schedule_def by simp
  qed
qed

context scheduler_contract
begin

lemma kube_schedule_spec:
  assumes ok: "kube_ok k" and run: "kube_schedule io sch k = Some (Inr k')"
  shows "kube_ok k' \<and> (\<forall>p \<in> unplaced k. p \<in> unplaced k' \<or> is_bound k' p) \<and> unplaced k' \<subseteq> unplaced k \<and>
    same_static (hp_pods (k_heap k)) (hp_pods (k_heap k')) \<and> k_submitters k' = k_submitters k \<and> in_use k' = in_use k"
proof (rule kube_schedule_cases [OF ok, of io sch])
  fix h infos
  assume b: "same_but_status (k_heap k) h" "sched_ready (call_state k h infos)" "all_pods (call_state k h infos) = unplaced k"
    "kube_schedule io sch k = (case sch (k_clock k) (kube_List k) (call_state k h infos) of
       None \<Rightarrow> None | Some (Inl e) \<Rightarrow> Some (Inl e)
     | Some (Inr (st, events)) \<Rightarrow> Some (fold_res (schedule_event io) events (after_schedule k h st)))"
  from run b(4) obtain st events where st: "sch (k_clock k) (kube_List k) (call_state k h infos) = Some (Inr (st, events))"
    and fold: "fold_res (schedule_event io) events (after_schedule k h st) = Inr k'"
    by (auto split: option.splits sum.splits)
  note c = status_only [OF b(2) st] ready_again [OF b(2) st] conserves [OF b(2) st] once [OF b(2) st]
  let ?k1 = "after_schedule k h st"
  have h: "hp_pods h = ss_pods (call_state k h infos)" by (simp add: call_state_def)
  have "same_but_status h (h\<lparr>hp_pods := ss_pods st\<rparr>)"
    using c(1) only_status_same [of "hp_pods h" "ss_pods st" h] by (simp add: h [symmetric])
  from same_but_status_grows [OF same_but_status_trans [OF b(1) this]]
  have grows: "heap_grows (k_heap k) (k_heap ?k1)" by (simp add: after_schedule_def)
  have "kube_ok (k\<lparr>k_heap := k_heap ?k1\<rparr>)" by (rule kube_ok_grows [OF ok grows])
  moreover have "queues_ok (hp_pods (k_heap ?k1)) (k_pendingPods ?k1) (k_failQueue ?k1)"
    using c(2) by (simp add: sched_ready_def after_schedule_def)
  ultimately have ok1: "kube_ok ?k1" by (simp add: kube_ok_def after_schedule_def)
  have all1: "all_pods st = unplaced ?k1" by (simp add: all_pods_def unplaced_def after_schedule_def)
  have "inj_on (\<lambda>p. PodKey (hp_pods (k_heap k) p)) (unplaced k)"
    using ok by (simp add: kube_ok_def queues_ok_def unplaced_def)
  then have "inj_on (\<lambda>p. PodKey (hp_pods (k_heap ?k1) p)) (unplaced k)"
    by (rule inj_PodKey_static [OF heap_grows_static [OF grows]])
  then have "inj_on (\<lambda>p. PodKey (hp_pods (k_heap ?k1) p)) (set (placed events))"
    by (rule inj_on_subset) (use c(3) b(3) in blast)
  note e = schedule_events_spec [OF fold ok1 c(4) this]
  have un: "unplaced k' = unplaced ?k1" using e by (simp add: unplaced_def)
  have "same_static (hp_pods (k_heap k)) (hp_pods (k_heap k'))"
    using schedule_events_frame [OF fold ok1] same_static_trans [OF heap_grows_static [OF grows]] by blast
  moreover have "k_submitters k' = k_submitters k"
    using schedule_events_frame [OF fold ok1] by (simp add: after_schedule_def)
  moreover have "in_use k' = in_use k"
    using schedule_events_frame [OF fold ok1] heap_grows_sim_pods [OF grows] c(3) b(3) all1 un unfolding in_use_def by auto
  ultimately show ?thesis using e c(3) b(3) all1 un by auto
qed

lemma kube_schedule_returns: "kube_ok k \<Longrightarrow> \<exists>r. kube_schedule io sch k = Some r"
proof -
  assume "kube_ok k"
  then show "\<exists>r. kube_schedule io sch k = Some r"
  proof (rule kube_schedule_cases [of k io sch])
    fix h infos
    assume "kube_schedule io sch k = (case sch (k_clock k) (kube_List k) (call_state k h infos) of
       None \<Rightarrow> None | Some (Inl e) \<Rightarrow> Some (Inl e)
     | Some (Inr (st, events)) \<Rightarrow> Some (fold_res (schedule_event io) events (after_schedule k h st)))"
    with returns [of "k_clock k" "kube_List k" "call_state k h infos"] show ?thesis
      by (auto split: sum.split)
  qed
qed

end

section \<open>Submitting\<close>

lemma queues_ok_smaller:
  assumes "queues_ok ps q f" "queue_inv ps q'" "pending q' \<subseteq> pending q"
  shows "queues_ok ps q' f"
proof -
  have "inj_on (\<lambda>p. PodKey (ps p)) (pending q' \<union> waiting f)"
    using assms(1,3) unfolding queues_ok_def by (blast intro: inj_on_subset)
  with assms show ?thesis unfolding queues_ok_def by blast
qed

lemma queues_ok_other_key:
  assumes "queues_ok ps q f" "PodKey (ps p) = Inr key" "queue_live q key = None \<or> p \<in> pending q" "fifo_live f key = None"
  shows "p \<notin> waiting f" "p' \<in> waiting f \<Longrightarrow> PodKey (ps p') \<noteq> Inr key"
    "queue_live q key = None \<Longrightarrow> p' \<in> pending q \<Longrightarrow> PodKey (ps p') \<noteq> Inr key"
proof -
  have i: "queue_inv ps q" "fifo_inv ps f" using assms(1) by (simp_all add: queues_ok_def)
  show "p' \<in> waiting f \<Longrightarrow> PodKey (ps p') \<noteq> Inr key" for p'
    using fq.live_key [OF i(2)] assms(4) by (fastforce simp: waiting_def ran_def)
  with assms(2) show "p \<notin> waiting f" by blast
  show "queue_live q key = None \<Longrightarrow> p' \<in> pending q \<Longrightarrow> PodKey (ps p') \<noteq> Inr key"
    using q.live_key [OF i(1)] by (fastforce simp: pending_def ran_def)
qed

lemma queues_ok_insert:
  assumes ok: "queues_ok ps q f" and key: "PodKey (ps p) = Inr key" and waits: "fifo_live f key = None"
    and q': "queue_inv ps q'" "queue_live q' = (queue_live q)(key \<mapsto> p)"
  shows "queues_ok ps q' f"
proof -
  have i: "queue_inv ps q" "fifo_inv ps f" using ok by (simp_all add: queues_ok_def)
  have wait: "PodKey (ps p') \<noteq> Inr key" if "p' \<in> waiting f" for p'
    using fq.live_key [OF i(2)] waits that by (fastforce simp: waiting_def ran_def)
  have pend: "p' = p \<or> p' \<in> pending q \<and> PodKey (ps p') \<noteq> Inr key" if p': "p' \<in> pending q'" for p'
  proof -
    obtain k' where k': "queue_live q' k' = Some p'" using p' by (auto simp: pending_def ran_def)
    show ?thesis
    proof (cases "k' = key")
      case False
      with k' q'(2) have "queue_live q k' = Some p'" by simp
      with q.live_key [OF i(1) this] False show ?thesis by (auto simp: pending_def intro: ranI)
    qed (use k' q'(2) in simp)
  qed
  have "pending q' \<inter> waiting f = {}"
    using pend wait key ok unfolding queues_ok_def by blast
  moreover have "inj_on (\<lambda>p. PodKey (ps p)) (pending q' \<union> waiting f)"
  proof (rule inj_onI)
    fix x y
    assume xy: "x \<in> pending q' \<union> waiting f" "y \<in> pending q' \<union> waiting f" "PodKey (ps x) = PodKey (ps y)"
    have old: "z = p \<or> z \<in> pending q \<union> waiting f \<and> PodKey (ps z) \<noteq> Inr key" if "z \<in> pending q' \<union> waiting f" for z
      using that pend wait by blast
    have "inj_on (\<lambda>p. PodKey (ps p)) (pending q \<union> waiting f)" using ok by (simp add: queues_ok_def)
    with old [OF xy(1)] old [OF xy(2)] xy(3) key show "x = y" by (metis inj_onD)
  qed
  ultimately show ?thesis using i q'(1) by (simp add: queues_ok_def)
qed

text \<open>A submitter may only submit pods whose key is not queued.\<close>

definition event_ok :: "kubesim \<Rightarrow> submit_event \<Rightarrow> bool" where
  "event_ok k e \<longleftrightarrow>
     (case e of
        SubmitEvent p \<Rightarrow> \<forall>key. PodKey (hp_pods (k_heap k) p) = Inr key \<longrightarrow>
          queue_live (k_pendingPods k) key = None \<and> fifo_live (k_failQueue k) key = None
      | UpdateEvent podName podNamespace p \<Rightarrow> fifo_live (k_failQueue k) (PodKeyFromNames podNamespace podName) = None
      | _ \<Rightarrow> True)"

lemma submitted_grows:
  "heap_grows h (h\<lparr>hp_pods := (hp_pods h)(p := submitted_pod clk (hp_pods h p))\<rparr>)"
  by (simp add: heap_grows_def heap_le_def same_static_def pod_static_def submitted_pod_def deletion_ok_def)

lemma PriorityQueue_Delete_status: "PriorityQueue_Delete ps q ns n = Inr (ps', q', found) \<Longrightarrow> only_status ps ps'"
  by (auto simp: PriorityQueue_Delete_def Let_def res_bind_Inr_iff split: option.splits)

lemma Queue_Delete_status: "Queue_Delete ps q ns n = Inr (ps', q', found) \<Longrightarrow> only_status ps ps'"
  by (cases q) (auto simp: Queue_Delete_def res_bind_Inr_iff split: prod.splits dest: PriorityQueue_Delete_status)

lemma only_status_grows: "only_status (hp_pods h) ps \<Longrightarrow> heap_grows h (h\<lparr>hp_pods := ps\<rparr>)"
  using same_but_status_grows only_status_same [of "hp_pods h" ps h] by simp

lemma submit_delete_spec:
  assumes ok: "kube_ok k"
  shows "\<exists>k'. submit_one name (SubmitDeleteEvent podName ns) k = Inr k' \<and> kube_ok k' \<and>
    queue_live (k_pendingPods k') = (queue_live (k_pendingPods k))(PodKeyFromNames ns podName := None)"
proof -
  have qok: "queues_ok (hp_pods (k_heap k)) (k_pendingPods k) (k_failQueue k)" using ok by (simp add: kube_ok_def)
  then have "queue_inv (hp_pods (k_heap k)) (k_pendingPods k)" by (simp add: queues_ok_def)
  from q.delete_key [OF this refl, of ns podName] obtain ps q' where
    d: "Queue_Delete (hp_pods (k_heap k)) (k_pendingPods k) ns podName =
        Inr (ps, q', queue_live (k_pendingPods k) (PodKeyFromNames ns podName) \<noteq> None)"
      "same_static (hp_pods (k_heap k)) ps" "queue_inv ps q'"
      "queue_live q' = (queue_live (k_pendingPods k))(PodKeyFromNames ns podName := None)" by blast
  let ?h = "(k_heap k)\<lparr>hp_pods := ps\<rparr>"
  let ?k = "k\<lparr>k_heap := ?h, k_pendingPods := q'\<rparr>"
  have grows: "heap_grows (k_heap k) ?h" by (rule only_status_grows [OF Queue_Delete_status [OF d(1)]])
  have "pending q' \<subseteq> pending (k_pendingPods k)" using d(4) by (auto simp: pending_def ran_def)
  from queues_ok_smaller [OF queues_ok_static [OF qok d(2)] d(3) this]
  have ok': "kube_ok ?k" using kube_ok_grows [OF ok grows] by (simp add: kube_ok_def)
  obtain h where h: "deletePodFromNode ns podName ?k = Inr (?k\<lparr>k_heap := h\<rparr>)" "heap_grows ?h h"
    using deletePodFromNode_ok [OF ok'] by auto
  have "kube_ok (?k\<lparr>k_heap := h\<rparr>)" using kube_ok_grows [OF ok'] h(2) by simp
  with d(1,4) h ok' show ?thesis
    by (cases "queue_live (k_pendingPods k) (PodKeyFromNames ns podName) = None") (simp_all add: submit_one_def Let_def)
qed

lemma submit_one_ok:
  assumes ok: "kube_ok k" and e: "event_ok k e" and run: "submit_one name e k = Inr k'"
  shows "kube_ok k'"
proof (cases e)
  case (SubmitEvent p)
  let ?h = "(k_heap k)\<lparr>hp_pods := (hp_pods (k_heap k))(p := submitted_pod (k_clock k) (hp_pods (k_heap k) p))\<rparr>"
  obtain q' where push: "Queue_Push (hp_pods ?h) (k_pendingPods k) p = Inr q'"
    and k': "k' = k\<lparr>k_heap := ?h, k_pendingPods := q'\<rparr>"
    using run SubmitEvent by (auto simp: submit_one_def Let_def res_bind_Inr_iff)
  note grows = submitted_grows [of "k_heap k" p "k_clock k"]
  have ok1: "kube_ok (k\<lparr>k_heap := ?h\<rparr>)" by (rule kube_ok_grows [OF ok grows])
  then have qok: "queues_ok (hp_pods ?h) (k_pendingPods k) (k_failQueue k)" by (simp add: kube_ok_def)
  then have inv: "queue_inv (hp_pods ?h) (k_pendingPods k)" by (simp add: queues_ok_def)
  obtain key where key: "PodKey (hp_pods ?h p) = Inr key"
    using q.push_bad_key [of "hp_pods ?h" p] push by (cases "PodKey (hp_pods ?h p)") auto
  then have "PodKey (hp_pods (k_heap k) p) = Inr key" using PodKey_static [OF heap_grows_static [OF grows]] by metis
  with e SubmitEvent have fresh: "queue_live (k_pendingPods k) key = None" "fifo_live (k_failQueue k) key = None"
    by (simp_all add: event_ok_def)
  have "queues_ok (hp_pods ?h) q' (k_failQueue k)"
    by (rule queues_ok_insert [OF qok key fresh(2) q.push_then_live(1,2) [OF inv key fresh(1) push]])
  with ok1 show ?thesis by (simp add: kube_ok_def k')
next
  case (SubmitDeleteEvent podName ns)
  with submit_delete_spec [OF ok, of name podName ns] run show ?thesis by auto
next
  case (UpdateEvent podName ns p)
  have qok: "queues_ok (hp_pods (k_heap k)) (k_pendingPods k) (k_failQueue k)" using ok by (simp add: kube_ok_def)
  then have inv: "queue_inv (hp_pods (k_heap k)) (k_pendingPods k)" by (simp add: queues_ok_def)
  show ?thesis
  proof (cases "Queue_Update (hp_pods (k_heap k)) (k_pendingPods k) ns podName p")
    case (Inl err)
    with run UpdateEvent ok show ?thesis by (simp add: submit_one_def split: if_splits)
  next
    case (Inr q')
    then have k': "k' = k\<lparr>k_pendingPods := q'\<rparr>" using run UpdateEvent by (simp add: submit_one_def)
    let ?key = "PodKeyFromNames ns podName"
    have key: "PodKey (hp_pods (k_heap k) p) = Inr ?key"
      using q.update_bad_key [of "hp_pods (k_heap k)" p] q.update_different [of "hp_pods (k_heap k)" p] Inr
      by (cases "PodKey (hp_pods (k_heap k) p)") (auto, metis Inl_Inr_False)
    have live: "queue_live (k_pendingPods k) ?key \<noteq> None"
      using q.update_missing [OF inv key refl] Inr by auto
    from q.update_live [OF inv key refl live] Inr have q': "queue_inv (hp_pods (k_heap k)) q'"
      "queue_live q' = (queue_live (k_pendingPods k))(?key \<mapsto> p)" by auto
    have "fifo_live (k_failQueue k) ?key = None" using e UpdateEvent by (simp add: event_ok_def)
    from queues_ok_insert [OF qok key this q'] ok show ?thesis by (simp add: kube_ok_def k')
  qed
next
  case TerminateSubmitterEvent
  with run ok show ?thesis by (auto simp: submit_one_def)
qed

lemma queues_ok_agree:
  assumes ok: "queues_ok ps q f" and same: "\<And>p. p \<in> pending q \<union> waiting f \<Longrightarrow> ps' p = ps p"
  shows "queues_ok ps' q f"
proof -
  have live: "ps' p = ps p" if "queue_live q k = Some p \<or> fifo_live f k = Some p" for k p
    using that same by (auto simp: pending_def waiting_def intro: ranI)
  have "queue_inv ps' q"
  proof (cases q)
    case (Fifo g)
    with ok live show ?thesis by (simp add: queues_ok_def queue_inv_def fifo_inv_def queue_live_def) metis
  next
    case (Prio g)
    with ok live show ?thesis by (simp add: queues_ok_def queue_inv_def pq_inv_def queue_live_def) metis
  qed
  moreover have "fifo_inv ps' f" using ok live by (simp add: queues_ok_def fifo_inv_def) metis
  moreover have "inj_on (\<lambda>p. PodKey (ps' p)) (pending q \<union> waiting f)"
    using ok same by (simp add: queues_ok_def inj_on_def)
  ultimately show ?thesis using ok by (simp add: queues_ok_def)
qed

lemma kube_ok_written:
  assumes ok: "kube_ok k" and same: "\<And>p. p \<in> in_use k \<Longrightarrow> ps p = hp_pods (k_heap k) p"
  shows "kube_ok (k\<lparr>k_heap := (k_heap k)\<lparr>hp_pods := ps\<rparr>\<rparr>)"
proof -
  let ?h = "(k_heap k)\<lparr>hp_pods := ps\<rparr>"
  have v1: "ps (sp_v1 (hp_sims (k_heap k) s)) = hp_pods (k_heap k) (sp_v1 (hp_sims (k_heap k) s))" if "s < hp_next (k_heap k)" for s
    using same [of "sp_v1 (hp_sims (k_heap k) s)"] that by (auto simp: in_use_def sim_pods_def)
  have sims: "sim_ok ?h key s" if "sim_ok (k_heap k) key s" for key s
    using that v1 [of s] by (simp add: sim_ok_def deletion_ok_def)
  have "nodes_ok ?h (k_nodes k)" using ok sims by (fastforce simp: kube_ok_def nodes_ok_def sims_ok_def)
  moreover have "bound_ok ?h (fst ` set (k_nodes k)) (k_boundPods k)"
    unfolding bound_ok_def
  proof clarify
    fix key s
    assume "(key, s) \<in> set (k_boundPods k)"
    then have "sim_ok (k_heap k) key s" "pod_NodeName (hp_pods (k_heap k) (sp_v1 (hp_sims (k_heap k) s))) \<in> fst ` set (k_nodes k)"
      using ok by (auto simp: kube_ok_def bound_ok_def)
    note old = this
    have h: "hp_pods ?h = ps" "hp_sims ?h = hp_sims (k_heap k)" by simp_all
    have "ps (sp_v1 (hp_sims (k_heap k) s)) = hp_pods (k_heap k) (sp_v1 (hp_sims (k_heap k) s))"
      by (rule v1) (use old(1) in \<open>simp add: sim_ok_def\<close>)
    then have "pod_NodeName (hp_pods ?h (sp_v1 (hp_sims ?h s))) \<in> fst ` set (k_nodes k)"
      using old(2) unfolding h by (simp only:)
    with sims [OF old(1)] show "sim_ok ?h key s \<and> pod_NodeName (hp_pods ?h (sp_v1 (hp_sims ?h s))) \<in> fst ` set (k_nodes k)"
      by (rule conjI)
  qed
  moreover have "queues_ok ps (k_pendingPods k) (k_failQueue k)"
    by (rule queues_ok_agree [of "hp_pods (k_heap k)"]) (use ok in \<open>simp add: kube_ok_def\<close>, rule same, simp add: in_use_def unplaced_def)
  ultimately show ?thesis using ok by (simp add: kube_ok_def)
qed

section \<open>Metrics, garbage collection, the end\<close>

text \<open>Reading the metrics advances the phases of pods; it changes nothing else.\<close>

definition phases_only :: "heap \<Rightarrow> heap \<Rightarrow> bool" where
  "phases_only h h' \<longleftrightarrow> hp_pods h' = hp_pods h \<and> hp_next h' = hp_next h \<and> (\<forall>s. same_identity (hp_sims h s) (hp_sims h' s))"

lemma phases_only_refl [simp]: "phases_only h h"
  by (simp add: phases_only_def same_identity_def)

lemma phases_only_trans: "phases_only a b \<Longrightarrow> phases_only b c \<Longrightarrow> phases_only a c"
  by (simp add: phases_only_def same_identity_def)

lemma phases_only_grows: "phases_only h h' \<Longrightarrow> heap_grows h h'"
  by (auto simp: phases_only_def heap_grows_def heap_le_def same_identity_def deletion_ok_def)

lemma load_more_phases_identity: "load_more_phases env pod = Inr pod' \<Longrightarrow> same_identity pod pod'"
  by (auto simp: load_more_phases_def same_identity_def split: if_splits sum.splits go_error.splits)

lemma ResourceUsage_identity:
  assumes "ResourceUsage env ps clk pod = Inr (pod', usage)"
  shows "same_identity pod pod'"
proof -
  have past: "same_identity pod (delete_past_phases i acc pod)" for i acc
    by (simp add: delete_past_phases_def same_identity_def Let_def)
  from assms consider "pod' = pod" | i acc where "load_more_phases env (delete_past_phases i acc pod) = Inr pod'"
    by (auto simp: ResourceUsage_def Let_def res_bind_Inr_iff split: if_splits option.splits)
  then show ?thesis using past load_more_phases_identity by cases (simp add: same_identity_def, fastforce simp: same_identity_def)
qed

lemma phases_only_step:
  "ResourceUsage env (hp_pods h) clk (hp_sims h s) = Inr (pod', usage) \<Longrightarrow>
     phases_only h (h\<lparr>hp_sims := (hp_sims h)(s := pod')\<rparr>)"
  using ResourceUsage_identity by (fastforce simp: phases_only_def same_identity_def)

lemma totalResourceUsage_phases:
  assumes "totalResourceUsage env clk node h = Inr (h', usage)"
  shows "phases_only h h'"
proof -
  have "phases_only h (fst (h', usage))"
    by (rule fold_res_invariant [OF assms [unfolded totalResourceUsage_def], where P = "\<lambda>st. phases_only h (fst st)"])
      (auto simp: res_bind_Inr_iff split: if_splits prod.splits intro: phases_only_trans [OF _ phases_only_step])
  then show ?thesis by simp
qed

lemma Node_Metrics_phases: "Node_Metrics env clk node h = Inr (h', m) \<Longrightarrow> phases_only h h'"
  by (auto simp: Node_Metrics_def res_bind_Inr_iff dest: totalResourceUsage_phases)

lemma node_pods_metrics_phases:
  "node_pods_metrics env clk pods (h, pm, keys) = Inr (h', pm', keys') \<Longrightarrow> phases_only h h'"
proof (induction pods arbitrary: h pm keys)
  case (Cons s pods)
  then show ?case
    by (auto simp: Pod_Metrics_def res_bind_Inr_iff split: if_splits sum.splits
        intro: phases_only_trans [OF phases_only_step])
qed simp

lemma BuildMetrics_piece_phases:
  assumes "BuildMetrics_piece env clk nodes name st = Inr st'"
  shows "phases_only (ms_heap st) (ms_heap st')"
proof -
  obtain node h1 m1 h2 pm found where n: "map_of nodes name = Some node" "Node_Metrics env clk node (ms_heap st) = Inr (h1, m1)"
    "node_pods_metrics env clk (Node_PodList node) (h1, ms_pods st, []) = Inr (h2, pm, found)"
    using assms by (fastforce simp: BuildMetrics_piece_def res_bind_Inr_iff split: option.splits)
  have "ms_heap st' = h2"
  proof (cases found)
    case None
    with assms n show ?thesis by (auto simp: BuildMetrics_piece_def)
  next
    case (Some keys)
    obtain qos num pm' where "allocate keys (NewResource (nm_Allocatable m1)) (NewResource (nm_TotalResourceUsage m1))
        (NewResource (nm_TotalResourceRequest m1)) pm = ((qos, num), pm')" by (metis surj_pair)
    with assms n Some show ?thesis by (auto simp: BuildMetrics_piece_def Let_def)
  qed
  with n(2,3) show ?thesis using Node_Metrics_phases node_pods_metrics_phases phases_only_trans by blast
qed

lemma BuildMetrics_phases:
  assumes "BuildMetrics env order clk nodes queue penalty h = Inr (h', met)"
  shows "phases_only h h'"
proof -
  obtain st where st: "fold_res (BuildMetrics_piece env clk nodes) order
      \<lparr>ms_heap = h, ms_nodes = [], ms_pods = [], ms_podQoses = fl_of_int float32 0,
       ms_numPods = fl_of_int float32 0\<rparr> = Inr st" "h' = ms_heap st"
    using assms by (auto simp: BuildMetrics_def Let_def res_bind_Inr_iff)
  have "phases_only h (ms_heap st)"
    by (rule fold_res_invariant [OF st(1), where P = "\<lambda>st. phases_only h (ms_heap st)"])
      (simp, blast intro: phases_only_trans BuildMetrics_piece_phases)
  then show ?thesis by (simp add: st(2))
qed

lemma kube_metrics_ok: "kube_ok k \<Longrightarrow> kube_metrics ke es k = Inr (k', met) \<Longrightarrow> kube_ok k' \<and> unplaced k' = unplaced k"
  using BuildMetrics_phases phases_only_grows kube_ok_grows
  by (fastforce simp: kube_metrics_def res_bind_Inr_iff unplaced_def)

lemma gc_nodes_ok:
  "\<forall>(name, node) \<in> set nodes. sims_ok h node \<Longrightarrow>
     \<exists>nodes'. gc_nodes h clk nodes = Inr nodes' \<and> map fst nodes' = map fst nodes \<and>
       (\<forall>(name, node') \<in> set nodes'. \<exists>node. (name, node) \<in> set nodes \<and> GCTerminatedPods h clk node = Inr node')"
proof (induction nodes)
  case (Cons x nodes)
  obtain name node where x: "x = (name, node)" by force
  obtain node' where "GCTerminatedPods h clk node = Inr node'"
    using GCTerminatedPods_eq [of h node clk] Cons.prems by (auto simp: x)
  with Cons x show ?case by fastforce
qed simp

lemma GC_v1: "sims_ok h node \<Longrightarrow> GCTerminatedPods h clk node = Inr node' \<Longrightarrow> sn_v1 node' = sn_v1 node"
  using GCTerminatedPods_eq [of h node clk] by auto

lemma gc_ok:
  assumes ok: "kube_ok k"
  shows "\<exists>nodes. gcTerminatedPodsInNodes k = Inr (k\<lparr>k_nodes := nodes\<rparr>) \<and> kube_ok (k\<lparr>k_nodes := nodes\<rparr>)"
proof -
  have nodes: "nodes_ok (k_heap k) (k_nodes k)" using ok by (simp add: kube_ok_def)
  then have "\<forall>(name, node) \<in> set (k_nodes k). sims_ok (k_heap k) node" by (auto simp: nodes_ok_def)
  from gc_nodes_ok [OF this, of "k_clock k"] obtain nodes' where gc: "gc_nodes (k_heap k) (k_clock k) (k_nodes k) = Inr nodes'"
    "map fst nodes' = map fst (k_nodes k)"
    "\<forall>(name, node') \<in> set nodes'. \<exists>node. (name, node) \<in> set (k_nodes k) \<and> GCTerminatedPods (k_heap k) (k_clock k) node = Inr node'"
    by blast
  have "nodes_ok (k_heap k) nodes'"
    unfolding nodes_ok_def
  proof (intro conjI ballI, unfold split_paired_all prod.case)
    show "distinct (map fst nodes')" using nodes gc(2) by (simp add: nodes_ok_def)
    fix name node'
    assume "(name, node') \<in> set nodes'"
    with gc(3) obtain node where node: "(name, node) \<in> set (k_nodes k)" "GCTerminatedPods (k_heap k) (k_clock k) node = Inr node'"
      by fastforce
    with nodes have "sims_ok (k_heap k) node" "node_Name (sn_v1 node) = name" by (auto simp: nodes_ok_def)
    with GC_sims_ok GC_v1 node(2) show "sims_ok (k_heap k) node' \<and> node_Name (sn_v1 node') = name" by metis
  qed
  moreover have "fst ` set nodes' = fst ` set (k_nodes k)" using gc(2) by (metis list.set_map)
  ultimately show ?thesis
    using ok gc(1) by (intro exI [of _ nodes']) (simp add: gcTerminatedPodsInNodes_def kube_ok_def)
qed

lemma toTerminate_ok:
  assumes ok: "kube_ok k"
  shows "\<exists>k' finished. kube_toTerminate ever k = Inr (k', finished) \<and> kube_ok k' \<and> unplaced k' = unplaced k \<and>
    (finished \<longrightarrow> pending (k_pendingPods k) = {} \<and> k_submitters k = [])"
proof -
  have qok: "queues_ok (hp_pods (k_heap k)) (k_pendingPods k) (k_failQueue k)" using ok by (simp add: kube_ok_def)
  then have inv: "queue_inv (hp_pods (k_heap k)) (k_pendingPods k)" by (simp add: queues_ok_def)
  obtain q' r where front: "Queue_Front (k_pendingPods k) = (q', r)" by force
  have q': "queue_inv (hp_pods (k_heap k)) q'" "queue_live q' = queue_live (k_pendingPods k)"
    using q.front_pop [OF inv front] by auto
  have ok': "kube_ok (k\<lparr>k_pendingPods := q'\<rparr>)"
    using ok queues_ok_smaller [OF qok q'(1)] q'(2) by (simp add: kube_ok_def pending_def)
  have un: "unplaced (k\<lparr>k_pendingPods := q'\<rparr>) = unplaced k" by (simp add: unplaced_def pending_def q'(2))
  show ?thesis
  proof (rule q.front_cases [OF inv front])
    assume r: "r = Inl ErrEmptyQueue" and empty: "queue_live (k_pendingPods k) = Map.empty"
    have nodes: "\<forall>(name, node) \<in> set (k_nodes k). sims_ok (k_heap k) node" using ok by (auto simp: kube_ok_def nodes_ok_def)
    have "\<exists>b. fold_res (\<lambda>(_, node) running. if running then Inr True
                   else res_bind (node_PodsNum (k_heap k) (k_clock k) node) (\<lambda>n. Inr (n > 0))) (k_nodes k) False = Inr b \<and> True"
      by (rule fold_res_ok) (use nodes terminatingPodsNum_eq in \<open>fastforce simp: node_PodsNum_def\<close>)+
    then obtain b where "fold_res (\<lambda>(_, node) running. if running then Inr True
                   else res_bind (node_PodsNum (k_heap k) (k_clock k) node) (\<lambda>n. Inr (n > 0))) (k_nodes k) False = Inr b" by blast
    with ok' un empty show ?thesis
      by (intro exI [of _ "k\<lparr>k_pendingPods := q'\<rparr>"] exI [of _ "\<not> b \<and> ever \<and> k_submitters k = []"])
        (simp add: kube_toTerminate_def front r is_panic_res_def pending_def Let_def cong: if_cong)
  next
    fix key p
    assume "r = Inr p"
    with ok' un show ?thesis
      by (intro exI [of _ "k\<lparr>k_pendingPods := q'\<rparr>"] exI [of _ False]) (simp add: kube_toTerminate_def front is_panic_res_def)
  qed
qed

lemma list_nodes_ok: "set names \<subseteq> fst ` set nodes \<Longrightarrow> \<exists>vs. list_nodes nodes names = Inr vs \<and> length vs = length names"
proof (induction names)
  case (Cons name names)
  then obtain node where "map_of nodes name = Some node" by (metis insert_subset list.simps(15) map_of_eq_None_iff not_None_eq)
  with Cons show ?case by auto
qed simp

section \<open>Reachable simulators\<close>

text \<open>
  \<open>kube_reach sch k\<close>: the simulator \<open>k\<close> is reached from a new one by the operations of Run with the
  scheduler \<open>sch\<close>, in any order. Between them a submitter may write pods that are not in use, and clock,
  cache and submitters may change.
\<close>

definition kube_new :: "kubesim \<Rightarrow> bool" where
  "kube_new k \<longleftrightarrow>
     queue_reach (hp_pods (k_heap k)) (k_pendingPods k) \<and> k_failQueue k = NewFIFOQueue \<and> k_boundPods k = [] \<and>
     distinct (map fst (k_nodes k)) \<and> set (k_nodeNames k) = fst ` set (k_nodes k) \<and>
     (\<forall>(name, node) \<in> set (k_nodes k). \<exists>v1. node = NewNode v1 \<and> node_Name v1 = name)"

inductive kube_reach :: "scheduler \<Rightarrow> kubesim \<Rightarrow> bool" for sch where
  new: "kube_new k \<Longrightarrow> kube_reach sch k"
| surroundings: "kube_reach sch k \<Longrightarrow> (\<And>p. p \<in> in_use k \<Longrightarrow> ps p = hp_pods (k_heap k) p) \<Longrightarrow>
    kube_reach sch (k\<lparr>k_heap := (k_heap k)\<lparr>hp_pods := ps\<rparr>, k_clock := clk, k_submitters := subs, k_cache := cache\<rparr>)"
| submit: "kube_reach sch k \<Longrightarrow> event_ok k e \<Longrightarrow> submit_one name e k = Inr k' \<Longrightarrow> kube_reach sch k'"
| schedule: "kube_reach sch k \<Longrightarrow> kube_schedule io sch k = Some (Inr k') \<Longrightarrow> kube_reach sch k'"
| test: "kube_reach sch k \<Longrightarrow> kube_toTerminate ever k = Inr (k', finished) \<Longrightarrow> kube_reach sch k'"
| measure: "kube_reach sch k \<Longrightarrow> kube_metrics ke es k = Inr (k', met) \<Longrightarrow> kube_reach sch k'"
| collect: "kube_reach sch k \<Longrightarrow> gcTerminatedPodsInNodes k = Inr k' \<Longrightarrow> kube_reach sch k'"

lemma queue_inv_inj:
  assumes "queue_inv ps q"
  shows "inj_on (\<lambda>p. PodKey (ps p)) (pending q)"
proof (rule inj_onI)
  fix x y
  assume "x \<in> pending q" "y \<in> pending q" and eq: "PodKey (ps x) = PodKey (ps y)"
  then obtain k1 k2 where k: "queue_live q k1 = Some x" "queue_live q k2 = Some y" by (auto simp: pending_def ran_def)
  with q.live_key [OF assms k(1)] q.live_key [OF assms k(2)] eq show "x = y" by simp
qed

lemma kube_new_ok:
  assumes "kube_new k"
  shows "kube_ok k"
proof -
  have inv: "queue_inv (hp_pods (k_heap k)) (k_pendingPods k)" using assms by (auto simp: kube_new_def intro: queue_reach_inv)
  have "waiting NewFIFOQueue = {}" "fifo_inv (hp_pods (k_heap k)) NewFIFOQueue"
    by (simp_all add: waiting_def fifo_live_def fifo_inv_def NewFIFOQueue_def)
  with inv queue_inv_inj [OF inv] assms have "queues_ok (hp_pods (k_heap k)) (k_pendingPods k) (k_failQueue k)"
    by (simp add: queues_ok_def kube_new_def)
  moreover have "nodes_ok (k_heap k) (k_nodes k)"
    using assms unfolding kube_new_def nodes_ok_def by (fastforce simp: NewNode_def sims_ok_def)
  ultimately show ?thesis using assms by (simp add: kube_ok_def kube_new_def bound_ok_def)
qed

context scheduler_contract
begin

lemma reach_ok: "kube_reach sch k \<Longrightarrow> kube_ok k"
proof (induction rule: kube_reach.induct)
  case (surroundings k ps clk subs cache)
  from kube_ok_written [OF surroundings.IH surroundings.hyps(2)] show ?case by (simp add: kube_ok_def)
next
  case (schedule k io k')
  then show ?case using kube_schedule_spec by blast
next
  case (test k ever k' finished)
  then show ?case using toTerminate_ok [of k ever] by auto
next
  case (collect k k')
  then show ?case using gc_ok [of k] by auto
qed (use kube_new_ok submit_one_ok kube_metrics_ok in blast)+

text \<open>In a reachable simulator the operations that cannot fail do not fail.\<close>

lemma reach_safe:
  assumes "kube_reach sch k"
  shows "\<exists>nodes. kube_List k = Inr nodes \<and> length nodes = length (k_nodeNames k)"
    "\<exists>h infos. build_infos (k_clock k) (k_nodes k) (k_heap k, []) = Inr (h, infos)"
    "\<exists>k'. deletePodFromNode ns name k = Inr k'"
    "\<exists>k' finished. kube_toTerminate ever k = Inr (k', finished)"
    "\<exists>k'. gcTerminatedPodsInNodes k = Inr k'"
    "\<exists>k'. submit_one submitter (SubmitDeleteEvent name ns) k = Inr k'"
    "\<exists>r. kube_schedule io sch k = Some r"
proof -
  note ok = reach_ok [OF assms]
  show "\<exists>nodes. kube_List k = Inr nodes \<and> length nodes = length (k_nodeNames k)"
    using list_nodes_ok [of "k_nodeNames k" "k_nodes k"] ok by (simp add: kube_List_def kube_ok_def)
  show "\<exists>h infos. build_infos (k_clock k) (k_nodes k) (k_heap k, []) = Inr (h, infos)"
    by (rule kube_schedule_cases [OF ok, of undefined undefined]) blast
  show "\<exists>k'. deletePodFromNode ns name k = Inr k'" using deletePodFromNode_ok [OF ok] by blast
  show "\<exists>k' finished. kube_toTerminate ever k = Inr (k', finished)" using toTerminate_ok [OF ok] by blast
  show "\<exists>k'. gcTerminatedPodsInNodes k = Inr k'" using gc_ok [OF ok] by blast
  show "\<exists>k'. submit_one submitter (SubmitDeleteEvent name ns) k = Inr k'" using submit_delete_spec [OF ok] by blast
  show "\<exists>r. kube_schedule io sch k = Some r" by (rule kube_schedule_returns [OF ok])
qed

end

section \<open>Properties\<close>

text \<open>
  C3: The invariant of the simulator. With GenericScheduler and KeepScheduling on, from a new simulator
  on, whatever operations of the loop run in whatever order and whatever the submitters write into pods
  that are not in use: the queues stay sound and share no pod, every pod of a node is kept under its
  key, every bound pod is recorded on a node that exists, and the list of node names fits the nodes.
\<close>

theorem kube_invariant:
  assumes "kube_reach (Schedule (keeping env) sched) k"
  shows "kube_ok k"
  using assms by (rule keep.reach_ok)

text \<open>
  C8: What cannot fail does not fail: in a reachable simulator listing the nodes, building the scheduler's
  view, deleting a pod, testing for the end, collecting terminated pods and a delete event of a
  submitter neither panic nor return an error, and scheduling returns.
\<close>

theorem kube_never_panics:
  assumes "kube_reach (Schedule (keeping env) sched) k"
  shows "\<not> isl (kube_List k) \<and> \<not> isl (build_infos (k_clock k) (k_nodes k) (k_heap k, [])) \<and>
    \<not> isl (deletePodFromNode ns name k) \<and> \<not> isl (kube_toTerminate ever k) \<and> \<not> isl (gcTerminatedPodsInNodes k) \<and>
    \<not> isl (submit_one submitter (SubmitDeleteEvent name ns) k) \<and>
    kube_schedule io (Schedule (keeping env) sched) k \<noteq> None"
  using keep.reach_safe [OF assms] by (metis isl_def sum.distinct(1) option.distinct(1))

text \<open>
  C1: Scheduling loses no pod. After a tick's scheduling without error, each pod that was waiting for a
  node still waits, or is bound: recorded under its key in the map of bound pods and on the node its
  spec names, with a simulated pod of its own. No other pod waits.
\<close>

theorem kube_schedule_loses_no_pod:
  assumes "kube_reach (Schedule (keeping env) sched) k"
    "kube_schedule io (Schedule (keeping env) sched) k = Some (Inr k')"
  shows "(\<forall>p \<in> unplaced k. p \<in> unplaced k' \<or> is_bound k' p) \<and> unplaced k' \<subseteq> unplaced k"
  using keep.kube_schedule_spec [OF keep.reach_ok [OF assms(1)] assms(2)] by blast

section \<open>Witnesses\<close>

text \<open>Three empty nodes of at most two pods each, and the pods a, c and d waiting for a node.\<close>

definition sim_store :: pods where
  "sim_store = (\<lambda>p. (demo_store p)\<lparr>pod_Annotations := [(''simSpec'', ''phases'')]\<rparr>)"

definition demo_kube :: kubesim where
  "demo_kube = \<lparr>k_tick = 10 * second, k_clock = 7,
     k_nodes = [(''n0'', NewNode node0), (''n1'', NewNode node1), (''n2'', NewNode node2)],
     k_nodeNames = [''n0'', ''n1'', ''n2''], k_pendingPods = Fifo three_queue, k_boundPods = [], k_submitters = [],
     k_metricsTick = 60 * second, k_endClock = 3600 * second,
     k_heap = \<lparr>hp_pods = sim_store, hp_sims = (\<lambda>_. demo_sim_pod), hp_next = 0\<rparr>,
     k_failQueue = NewFIFOQueue, k_cache = []\<rparr>"

lemma demo_kube_new: "kube_new demo_kube"
proof -
  have "case push_all sim_store (Fifo NewFIFOQueue) [0, 2, 7] of Inr (Fifo f) \<Rightarrow> f = three_queue | _ \<Rightarrow> False"
    by code_simp
  then have push: "push_all sim_store (Fifo NewFIFOQueue) [0, 2, 7] = Inr (Fifo three_queue)"
    by (auto split: sum.splits pod_queue.splits)
  have "distinct (map (\<lambda>p. PodKey (sim_store p)) [0, 2, 7])" by code_simp
  from push_all_reach [OF queue_reach.new_fifo push this] have "queue_reach sim_store (Fifo three_queue)"
    by (simp add: queue_live_def fifo_live_def NewFIFOQueue_def)
  then show ?thesis by (auto simp: kube_new_def demo_kube_def node0_def node1_def node2_def)
qed

lemma demo_kube_reach: "kube_reach sch demo_kube"
  by (rule kube_reach.new [OF demo_kube_new])

text \<open>What can be compared of the simulator after scheduling: the two queues and the pods of the nodes.\<close>

definition tick_result ::
  "kubesim res option \<Rightarrow> ((string \<times> pod_ptr) list \<times> (string \<times> pod_ptr) list \<times> (string \<times> (string \<times> sim_ptr) list) list) option" where
  "tick_result r =
     (case r of Some (Inr k) \<Rightarrow>
        (case k_pendingPods k of
           Fifo f \<Rightarrow> Some (fq_pods f, fq_pods (k_failQueue k), map (\<lambda>(n, v). (n, sn_pods v)) (k_nodes k))
         | Prio _ \<Rightarrow> None) | _ \<Rightarrow> None)"

lemma tick_resultD:
  "tick_result r = Some (pods, failed, nodes) \<Longrightarrow>
     \<exists>k. r = Some (Inr k) \<and> unplaced k = ran (map_of pods) \<union> ran (map_of failed) \<and>
       map (\<lambda>(n, v). (n, sn_pods v)) (k_nodes k) = nodes"
  by (auto simp: tick_result_def unplaced_def pending_def waiting_def queue_live_def [abs_def] fifo_live_def [abs_def]
      split: option.splits sum.splits pod_queue.splits)

lemma demo_tick:
  "tick_result (kube_schedule (demo_env 2) (Schedule (keeping demo_sched_env) (\<lambda>_. demo_scheduler)) demo_kube) =
     Some ([], [], [(''n0'', [(''default/d'', 2)]), (''n1'', [(''default/c'', 1)]), (''n2'', [(''default/a'', 0)])])"
  by code_simp

theorem kube_invariant_witness: "kube_ok demo_kube"
  by (rule kube_invariant [OF demo_kube_reach])

theorem kube_never_panics_witness:
  "\<not> isl (kube_List demo_kube) \<and> \<not> isl (deletePodFromNode ''default'' ''a'' demo_kube)"
  using kube_never_panics [OF demo_kube_reach] by blast

theorem kube_schedule_loses_no_pod_witness:
  "\<exists>k'. kube_schedule (demo_env 2) (Schedule (keeping demo_sched_env) (\<lambda>_. demo_scheduler)) demo_kube = Some (Inr k') \<and>
     unplaced demo_kube = {0, 2, 7} \<and> is_bound k' 0 \<and> is_bound k' 2 \<and> is_bound k' 7"
proof -
  obtain k' where k': "kube_schedule (demo_env 2) (Schedule (keeping demo_sched_env) (\<lambda>_. demo_scheduler)) demo_kube = Some (Inr k')"
    "unplaced k' = {}"
    using tick_resultD [OF demo_tick] by auto
  have "queue_live (Fifo three_queue) = [''default/a'' \<mapsto> 0, ''default/c'' \<mapsto> 2, ''default/d'' \<mapsto> 7]"
    by (simp add: queue_live_def fifo_live_def three_queue_def fun_eq_iff)
  then have "unplaced demo_kube = {0, 2, 7}"
    by (simp add: unplaced_def pending_def waiting_def demo_kube_def NewFIFOQueue_def fifo_live_def insert_commute)
  with kube_schedule_loses_no_pod [OF demo_kube_reach k'(1)] k' show ?thesis by auto
qed

section \<open>The end of a run\<close>

text \<open>Every iteration that does not end the run moves the clock on by a tick.\<close>

lemma kube_metrics_frame: "kube_metrics ke es k = Inr (k', met) \<Longrightarrow> \<exists>h. k' = k\<lparr>k_heap := h\<rparr>"
  by (auto simp: kube_metrics_def res_bind_Inr_iff)

definition same_timing :: "kubesim \<Rightarrow> kubesim \<Rightarrow> bool" where
  "same_timing k k' \<longleftrightarrow> k_clock k' = k_clock k \<and> k_tick k' = k_tick k \<and> k_endClock k' = k_endClock k"

lemma same_timing_refl [simp]: "same_timing k k"
  by (simp add: same_timing_def)

lemma same_timing_trans: "same_timing a b \<Longrightarrow> same_timing b c \<Longrightarrow> same_timing a c"
  by (simp add: same_timing_def)

lemma deletePodFromNode_timing: "deletePodFromNode ns name k = Inr k' \<Longrightarrow> same_timing k k'"
  by (auto simp: deletePodFromNode_def Let_def same_timing_def split: option.splits prod.splits)

lemma submit_one_timing: "submit_one name e k = Inr k' \<Longrightarrow> same_timing k k'"
  by (auto simp: submit_one_def Let_def res_bind_Inr_iff same_timing_def
      split: submit_event.splits if_splits sum.splits dest!: deletePodFromNode_timing)

lemma kube_submit_timing:
  assumes "kube_submit met k = Inr k'"
  shows "same_timing k k'"
proof (rule fold_res_invariant [OF assms [unfolded kube_submit_def], where P = "same_timing k"])
  fix x k1 k2
  assume t: "same_timing k k1" and "submit_piece met x k1 = Inr k2"
  then obtain nodes subm' ps events name where
    e: "fold_res (submit_one name) events
         (k1\<lparr>k_submitters := AList.update name subm' (k_submitters k1), k_heap := (k_heap k1)\<lparr>hp_pods := ps\<rparr>\<rparr>) = Inr k2"
    by (auto simp: submit_piece_def res_bind_Inr_iff split: prod.splits)
  have "same_timing k (k1\<lparr>k_submitters := AList.update name subm' (k_submitters k1), k_heap := (k_heap k1)\<lparr>hp_pods := ps\<rparr>\<rparr>)"
    using t by (simp add: same_timing_def)
  from fold_res_invariant [OF e, where P = "same_timing k", OF this] show "same_timing k k2"
    using submit_one_timing same_timing_trans by blast
qed simp

lemma schedule_event_timing: "schedule_event io e k = Inr k' \<Longrightarrow> same_timing k k'"
proof (cases e)
  case (BindEvent p r)
  assume "schedule_event io e k = Inr k'"
  then show ?thesis using BindEvent
    by (auto simp: schedule_event_def bind_event_def Let_def res_bind_Inr_iff same_timing_def split: option.splits)
next
  case (DeleteEvent ns name host)
  assume "schedule_event io e k = Inr k'"
  then show ?thesis using DeleteEvent deletePodFromNode_timing by (simp add: schedule_event_def)
qed

lemma kube_schedule_timing:
  assumes "kube_schedule io sch k = Some (Inr k')"
  shows "same_timing k k'"
proof -
  obtain h and st :: sched_state and events where
    e: "fold_res (schedule_event io) events (k\<lparr>k_heap := h\<lparr>hp_pods := ss_pods st\<rparr>, k_pendingPods := ss_queue st,
                    k_failQueue := ss_failQueue st, k_cache := ss_cache st\<rparr>) = Inr k'"
    using assms by (auto simp: kube_schedule_def split: sum.splits option.splits prod.splits)
  show ?thesis
    by (rule fold_res_invariant [OF e, where P = "same_timing k"])
      (simp add: same_timing_def, use schedule_event_timing same_timing_trans in blast)
qed

lemma kube_toTerminate_timing: "kube_toTerminate ever k = Inr (k', finished) \<Longrightarrow> same_timing k k'"
  by (auto simp: kube_toTerminate_def Let_def res_bind_Inr_iff same_timing_def split: prod.splits if_splits)

lemma Run_tail_timing:
  assumes "Run_tail ke rs k = Inr rs'"
  shows "k_clock (rs_kube rs') = clock_Add (k_clock k) (k_tick k) \<and> k_tick (rs_kube rs') = k_tick k \<and>
    k_endClock (rs_kube rs') = k_endClock k"
proof -
  obtain k1 met where met: "kube_metrics ke (rs_estimator rs) k = Inr (k1, met)"
    using assms by (cases "kube_metrics ke (rs_estimator rs) k") (auto simp: Run_tail_def)
  obtain h where k1: "k1 = k\<lparr>k_heap := h\<rparr>" using kube_metrics_frame [OF met] by blast
  have gc: "gcTerminatedPodsInNodes k2 = Inr k3 \<Longrightarrow> same_timing k2 k3" for k2 k3
    by (auto simp: gcTerminatedPodsInNodes_def res_bind_Inr_iff same_timing_def)
  from assms show ?thesis
    by (auto simp: Run_tail_def met k1 Let_def same_timing_def split: prod.splits if_splits sum.splits dest!: gc)
qed

lemma Run_step_timing:
  assumes "Run_step ke sch rs = Some (Inr rs')"
  shows "k_clock (rs_kube rs') = clock_Add (k_clock (rs_kube rs)) (k_tick (rs_kube rs)) \<and>
    k_tick (rs_kube rs') = k_tick (rs_kube rs) \<and> k_endClock (rs_kube rs') = k_endClock (rs_kube rs) \<and>
    \<not> clock_Before (k_endClock (rs_kube rs)) (k_clock (rs_kube rs))"
proof -
  obtain k1 finished where t: "kube_toTerminate (rs_submitterAddedEver rs) (rs_kube rs) = Inr (k1, finished)"
    using assms by (cases "kube_toTerminate (rs_submitterAddedEver rs) (rs_kube rs)") (auto simp: Run_step_def)
  with assms have go: "\<not> (finished \<or> clock_Before (k_endClock k1) (k_clock k1))" by (auto simp: Run_step_def Let_def split: if_splits)
  with assms t obtain k2 k3 rs1 where s: "kube_submit (rs_met rs) k1 = Inr k2" "kube_schedule (ke_io ke) sch k2 = Some (Inr k3)"
    "Run_tail ke rs1 k3 = Inr rs'"
    by (auto simp: Run_step_def Let_def split: if_splits sum.splits option.splits)
  from same_timing_trans [OF kube_toTerminate_timing [OF t] same_timing_trans [OF kube_submit_timing [OF s(1)] kube_schedule_timing [OF s(2)]]]
    kube_toTerminate_timing [OF t] Run_tail_timing [OF s(3)] go
  show ?thesis by (simp add: same_timing_def)
qed

context scheduler_returns
begin

lemma kube_schedule_total: "kube_schedule io sch k \<noteq> None"
proof
  assume "kube_schedule io sch k = None"
  then obtain st where "sch (k_clock k) (kube_List k) st = None"
    by (auto simp: kube_schedule_def split: sum.splits prod.splits option.splits)
  with returns [of "k_clock k" "kube_List k" st] show False by simp
qed

lemma Run_loop_total: "0 < k_tick (rs_kube rs) \<Longrightarrow> Run_loop ke sch rs \<noteq> None"
proof (induction "nat (k_endClock (rs_kube rs) - k_clock (rs_kube rs) + 1)" arbitrary: rs rule: less_induct)
  case less
  have "Run_step ke sch rs \<noteq> None"
  proof
    assume "Run_step ke sch rs = None"
    then obtain k where "kube_schedule (ke_io ke) sch k = None"
      by (auto simp: Run_step_def Let_def split: sum.splits prod.splits option.splits if_splits)
    with kube_schedule_total show False by blast
  qed
  then obtain r where r: "Run_step ke sch rs = Some r" by blast
  show ?case
  proof (cases r)
    case (Inr rs')
    note t = Run_step_timing [OF r [unfolded Inr]]
    have "Run_loop ke sch rs' \<noteq> None"
      by (rule less.hyps) (use t less.prems in \<open>auto simp: clock_Add_def clock_Before_def\<close>)
    then show ?thesis by (subst Run_loop.simps) (simp add: r Inr)
  qed (subst Run_loop.simps, simp add: r)
qed

end

lemma Run_returns:
  assumes tick: "0 < k_tick k"
  shows "\<exists>r. Run ke (Schedule env sched) es k = Some r"
proof (cases "Run_start ke es k")
  case (Inl finished)
  then show ?thesis by (simp add: Run_def)
next
  case (Inr rs)
  then have "k_tick (rs_kube rs) = k_tick k"
    using kube_metrics_frame by (fastforce simp: Run_start_def split: sum.splits if_splits)
  with generic.Run_loop_total [of rs ke env sched] tick Inr show ?thesis by (simp add: Run_def)
qed

text \<open>
  C4: A simulation ends. With a positive tick, Run returns after finitely many iterations, whatever
  the submitters, predicates, prioritizers, extenders and metrics writers do, because every pass of the
  scheduler returns and the clock passes its end.
\<close>

theorem run_terminates:
  assumes "0 < k_tick k"
  shows "\<exists>r. Run ke (Schedule env sched) es k = Some r"
  by (rule Run_returns [OF assms])

definition demo_kube_env :: kube_env where
  "demo_kube_env = \<lparr>ke_io = demo_env 2, ke_Done = (\<lambda>_. False), ke_order = (\<lambda>names. names), ke_writers = []\<rparr>"

definition demo_estimator :: estimator where
  "demo_estimator = initial_estimator (fl_of_int float32 1) (fl_of_int float32 0) (fl_of_int float32 1)"

theorem run_terminates_witness:
  "\<exists>r. Run demo_kube_env (Schedule demo_sched_env (\<lambda>_. demo_scheduler)) demo_estimator demo_kube = Some r"
  by (rule run_terminates) (simp add: demo_kube_def second_def)

definition failing_submitter :: submitter where
  "failing_submitter = Submitter (\<lambda>_ _ _ _. Inl (ResultError ''cannot read trace''))"


text \<open>
  The UID given to a submitted pod is its name, so pods of the same name in different namespaces are
  one pod to a NodeInfo: removing the second of them takes the first away and leaves the second.
\<close>

theorem uid_ignores_namespace:
  assumes "pod_Name a = pod_Name b" "pod_Name b \<noteq> []" "p \<noteq> p'"
    "ps p = submitted_pod clk a" "ps p' = submitted_pod clk b" "ni_pods n = [p, p']"
  shows "\<exists>n'. NodeInfo_RemovePod ps n p' = Inr n' \<and> ni_pods n' = [p']"
  using assms
  by (simp add: NodeInfo_RemovePod_def GetPodKey_def submitted_pod_def swap_out_def Let_def split: prod.split)

theorem uid_ignores_namespace_witness:
  "\<exists>n'. NodeInfo_RemovePod (\<lambda>p. submitted_pod 0 ((demo_pod ''web'' 0 0)\<lparr>pod_Namespace := (if p = 5 then ''a'' else ''b'')\<rparr>))
     (node_with_pods node0 [5, 6]) 6 = Inr n' \<and> ni_pods n' = [6]"
  by (rule uid_ignores_namespace [where a = "(demo_pod ''web'' 0 0)\<lparr>pod_Namespace := ''a''\<rparr>"
        and b = "(demo_pod ''web'' 0 0)\<lparr>pod_Namespace := ''b''\<rparr>" and clk = 0 and p = 5])
    (simp_all add: demo_pod_def node_with_pods_def)

end
