(* ===== verification/MetricsProperties.thy ===== *)
theory MetricsProperties
  imports Metrics NodeProperties
begin

text \<open>
  What the metrics promise: a Resource survives being written as a resource list and read back, the CPU
  given to the pods of a node never exceeds the node's, no pod gets less than its share of what it
  requested, and the quality of service is a fraction. For memory the same computation overflows.
\<close>

section \<open>Resources and resource lists\<close>

definition resource_wf :: "resource \<Rightarrow> bool" where
  "resource_wf r \<longleftrightarrow> in64 (r_MilliCPU r) \<and> in64 (r_Memory r) \<and> in64 (r_EphemeralStorage r) \<and>
     in64 (r_AllowedPodNumber r) \<and> distinct (map fst (r_ScalarResources r)) \<and>
     (\<forall>(name, v) \<in> set (r_ScalarResources r). IsScalarResourceName name \<and> in64 v)"

lemma fixed_names_not_scalar:
  "\<not> IsScalarResourceName cpu" "\<not> IsScalarResourceName memory" "\<not> IsScalarResourceName pods_name"
  "\<not> IsScalarResourceName ephemeral_storage"
  by code_simp+

lemma SetScalar_wf:
  assumes "resource_wf r" "IsScalarResourceName name" "in64 v"
  shows "resource_wf (SetScalar r name v)"
proof -
  have "\<forall>(n, w) \<in> set (AList.update name v (r_ScalarResources r)). IsScalarResourceName n \<and> in64 w"
    by (rule ball_set_update) (use assms in \<open>auto simp: resource_wf_def\<close>)
  then show ?thesis using assms(1) by (simp add: resource_wf_def SetScalar_def distinct_update)
qed

lemma resource_wf_part:
  assumes "resource_wf r"
  shows "resource_wf (r\<lparr>r_MilliCPU := i64 x\<rparr>)" "resource_wf (r\<lparr>r_Memory := i64 x\<rparr>)"
    "resource_wf (r\<lparr>r_AllowedPodNumber := i64 x\<rparr>)" "resource_wf (r\<lparr>r_EphemeralStorage := i64 x\<rparr>)"
    "IsScalarResourceName name \<Longrightarrow> resource_wf (AddScalar r name x)"
proof -
  show "IsScalarResourceName name \<Longrightarrow> resource_wf (AddScalar r name x)"
    unfolding AddScalar_def by (rule SetScalar_wf [OF assms]) simp_all
qed (use assms in \<open>simp_all add: resource_wf_def\<close>)

lemma Resource_Add_wf: "resource_wf r \<Longrightarrow> resource_wf (Resource_Add r rl)"
  by (induction r rl rule: Resource_Add.induct) (simp_all add: resource_wf_part split del: if_split, simp split: if_splits add: resource_wf_part)

lemma NewResource_wf [simp]: "resource_wf (NewResource rl)"
  unfolding NewResource_def by (rule Resource_Add_wf) (simp add: resource_wf_def empty_resource_def in64_def)

definition scalar_quantity :: "string \<times> int \<Rightarrow> string \<times> quantity" where
  "scalar_quantity = (\<lambda>(rName, rQuant).
     (rName, if IsHugePageResourceName rName then NewQuantity rQuant BinarySI else NewQuantity rQuant DecimalSI))"

lemma alist_update_fresh: "k \<notin> fst ` set al \<Longrightarrow> AList.update k v al = al @ [(k, v)]"
  by (induction al) auto

lemma ResourceList_fold:
  "distinct (map fst xs) \<Longrightarrow> fst ` set xs \<inter> fst ` set al = {} \<Longrightarrow>
     fold (\<lambda>(rName, rQuant) result. AList.update rName
         (if IsHugePageResourceName rName then NewQuantity rQuant BinarySI else NewQuantity rQuant DecimalSI) result) xs al =
       al @ map scalar_quantity xs"
proof (induction xs arbitrary: al)
  case (Cons x xs)
  then show ?case by (cases x) (simp add: alist_update_fresh scalar_quantity_def)
qed simp

lemma scalars_add:
  "\<forall>(name, v) \<in> set xs. IsScalarResourceName name \<and> in64 v \<Longrightarrow> distinct (map fst xs) \<Longrightarrow>
     fst ` set xs \<inter> fst ` set (r_ScalarResources r) = {} \<Longrightarrow>
     Resource_Add r (map scalar_quantity xs) = r\<lparr>r_ScalarResources := r_ScalarResources r @ xs\<rparr>"
proof (induction xs arbitrary: r)
  case (Cons x xs)
  obtain name v where x: "x = (name, v)" by force
  have v: "IsScalarResourceName name" "in64 v" "name \<notin> fst ` set (r_ScalarResources r)"
    using Cons.prems by (auto simp: x)
  then have names: "name \<noteq> cpu" "name \<noteq> memory" "name \<noteq> pods_name" "name \<noteq> ephemeral_storage"
    using fixed_names_not_scalar by auto
  have zero: "scalar r name = 0" using v(3) by (simp add: scalar_def map_of_eq_None_iff [THEN iffD2])
  have "quantity_Value (snd (scalar_quantity (name, v))) = v"
    by (simp add: scalar_quantity_def quantity_Value_def quantity_ScaledValue_def NewQuantity_def
        amount_AsScaledInt64_def positiveScaleInt64_def)
  then have "Resource_Add r (map scalar_quantity (x # xs)) =
      Resource_Add (r\<lparr>r_ScalarResources := r_ScalarResources r @ [(name, v)]\<rparr>) (map scalar_quantity xs)"
    using v names zero
    by (simp add: x scalar_quantity_def AddScalar_def SetScalar_def alist_update_fresh i64_id)
  with Cons.IH [of "r\<lparr>r_ScalarResources := r_ScalarResources r @ [(name, v)]\<rparr>"] Cons.prems x show ?case by auto
qed simp

lemma NewResource_ResourceList:
  assumes "resource_wf r"
  shows "NewResource (Resource_ResourceList r) = r"
proof -
  have dist: "distinct (map fst (r_ScalarResources r))"
    and sc: "\<forall>(name, v) \<in> set (r_ScalarResources r). IsScalarResourceName name \<and> in64 v"
    using assms by (auto simp: resource_wf_def)
  have names: "fst ` set (r_ScalarResources r) \<inter> {cpu, memory, pods_name, ephemeral_storage} = {}"
    using sc fixed_names_not_scalar by fastforce
  have "NewResource (Resource_ResourceList r) =
      Resource_Add (empty_resource\<lparr>r_MilliCPU := r_MilliCPU r, r_Memory := r_Memory r,
        r_AllowedPodNumber := r_AllowedPodNumber r, r_EphemeralStorage := r_EphemeralStorage r\<rparr>)
        (map scalar_quantity (r_ScalarResources r))"
    using assms names dist
    by (simp add: NewResource_def Resource_ResourceList_def ResourceList_fold empty_resource_def i64_id resource_wf_def
        quantity_Value_def quantity_MilliValue_def quantity_ScaledValue_def NewQuantity_def NewMilliQuantity_def
        amount_AsScaledInt64_def positiveScaleInt64_def)
  also have "\<dots> = r"
    using scalars_add [OF sc dist] by (simp add: empty_resource_def)
  finally show ?thesis .
qed

section \<open>Allocation\<close>

definition of_part :: "part \<Rightarrow> resource_list \<Rightarrow> int" where
  "of_part p rl = part_get p (NewResource rl)"

lemma of_part_in64 [simp]: "in64 (of_part p rl)"
  using NewResource_wf [of rl] by (cases p) (auto simp: of_part_def part_get_def resource_wf_def)

lemma set_allocation_of_part:
  assumes "in64 v"
  shows "of_part p (pm_ResourceAllocation (set_allocation p' v m)) =
    (if p = p' then v else of_part p (pm_ResourceAllocation m))"
proof -
  have "resource_wf (part_set p' v (NewResource (pm_ResourceAllocation m)))"
    using NewResource_wf [of "pm_ResourceAllocation m"] assms by (cases p') (auto simp: part_set_def resource_wf_def)
  from NewResource_ResourceList [OF this] show ?thesis
    by (cases p; cases p') (simp_all add: of_part_def set_allocation_def part_get_def part_set_def)
qed

lemma set_allocation_frame [simp]:
  "pm_ResourceUsage (set_allocation p v m) = pm_ResourceUsage m"
  "pm_ResourceRequest (set_allocation p v m) = pm_ResourceRequest m"
  by (simp_all add: set_allocation_def)

lemma get_metrics_update:
  "get_metrics (AList.update k m pm) k' = (if k' = k then m else get_metrics pm k')"
  by (simp add: get_metrics_def update_conv')

abbreviation usage_of :: "part \<Rightarrow> pods_metrics \<Rightarrow> string \<Rightarrow> int" where
  "usage_of p pm k \<equiv> of_part p (pm_ResourceUsage (get_metrics pm k))"

abbreviation request_of :: "part \<Rightarrow> pods_metrics \<Rightarrow> string \<Rightarrow> int" where
  "request_of p pm k \<equiv> of_part p (pm_ResourceRequest (get_metrics pm k))"

abbreviation allocation_of :: "part \<Rightarrow> pods_metrics \<Rightarrow> string \<Rightarrow> int" where
  "allocation_of p pm k \<equiv> of_part p (pm_ResourceAllocation (get_metrics pm k))"

text \<open>Two tables that differ in the allocations of one part only.\<close>

definition same_but_part :: "part \<Rightarrow> pods_metrics \<Rightarrow> pods_metrics \<Rightarrow> bool" where
  "same_but_part p pm pm' \<longleftrightarrow>
     (\<forall>k p'. usage_of p' pm' k = usage_of p' pm k \<and> request_of p' pm' k = request_of p' pm k \<and>
        (p' \<noteq> p \<longrightarrow> allocation_of p' pm' k = allocation_of p' pm k))"

lemma same_but_part_refl [simp]: "same_but_part p pm pm"
  by (simp add: same_but_part_def)

lemma same_but_part_trans: "same_but_part p a b \<Longrightarrow> same_but_part p b c \<Longrightarrow> same_but_part p a c"
  by (simp add: same_but_part_def)

lemma same_but_part_update:
  "in64 v \<Longrightarrow> same_but_part p pm (AList.update k (set_allocation p v (get_metrics pm k)) pm)"
  by (simp add: same_but_part_def get_metrics_update set_allocation_of_part)

lemma allocation_update:
  "in64 v \<Longrightarrow> allocation_of p (AList.update key (set_allocation p v (get_metrics pm key)) pm) k =
     (if k = key then v else allocation_of p pm k)"
  by (simp add: get_metrics_update set_allocation_of_part)

lemma guarantee_loop_spec:
  "distinct keys \<Longrightarrow> \<forall>k \<in> set keys. in64 (guarantee_of p C R (get_metrics pm k)) \<Longrightarrow>
   guarantee_loop p C R keys (c, d, pm) = (c', d', pm') \<Longrightarrow>
     same_but_part p pm pm' \<and>
     (\<forall>k. allocation_of p pm' k =
        (if k \<in> set keys then guarantee_of p C R (get_metrics pm k) else allocation_of p pm k)) \<and>
     i64 c' = i64 (c - (\<Sum>k\<leftarrow>keys. guarantee_of p C R (get_metrics pm k))) \<and>
     i64 d' = i64 (d - (\<Sum>k\<leftarrow>keys. guarantee_of p C R (get_metrics pm k))) \<and>
     (keys \<noteq> [] \<longrightarrow> in64 c' \<and> in64 d')"
proof (induction keys arbitrary: c d pm)
  case (Cons key keys)
  let ?g = "\<lambda>pm k. guarantee_of p C R (get_metrics pm k)"
  let ?pm = "AList.update key (set_allocation p (?g pm key) (get_metrics pm key)) pm"
  have g: "in64 (?g pm key)" using Cons.prems(2) by simp
  have other: "?g ?pm k = ?g pm k" if "k \<in> set keys" for k
    using that Cons.prems(1) by (auto simp: get_metrics_update)
  have run: "guarantee_loop p C R keys (i64 (c - ?g pm key), i64 (d - ?g pm key), ?pm) = (c', d', pm')"
    using Cons.prems(3) by (simp add: Let_def)
  have sums: "(\<Sum>k\<leftarrow>keys. ?g ?pm k) = (\<Sum>k\<leftarrow>keys. ?g pm k)" by (rule arg_cong [where f = sum_list], rule map_cong) (use other in auto)
  have IH: "same_but_part p ?pm pm' \<and>
     (\<forall>k. allocation_of p pm' k = (if k \<in> set keys then ?g ?pm k else allocation_of p ?pm k)) \<and>
     i64 c' = i64 (i64 (c - ?g pm key) - (\<Sum>k\<leftarrow>keys. ?g ?pm k)) \<and>
     i64 d' = i64 (i64 (d - ?g pm key) - (\<Sum>k\<leftarrow>keys. ?g ?pm k)) \<and> (keys \<noteq> [] \<longrightarrow> in64 c' \<and> in64 d')"
    by (rule Cons.IH [OF _ _ run]) (use Cons.prems other in auto)
  have alloc: "allocation_of p pm' k = (if k \<in> set (key # keys) then ?g pm k else allocation_of p pm k)" for k
  proof (cases "k \<in> set keys")
    case True
    with IH other show ?thesis by simp
  next
    case False
    with IH have "allocation_of p pm' k = allocation_of p ?pm k" by simp
    with False show ?thesis using allocation_update [OF g, of p key pm k] by simp
  qed
  have same: "same_but_part p pm pm'" by (rule same_but_part_trans [OF same_but_part_update [OF g]]) (rule conjunct1 [OF IH])
  have "i64 c' = i64 (c - (\<Sum>k\<leftarrow>key # keys. ?g pm k))" "i64 d' = i64 (d - (\<Sum>k\<leftarrow>key # keys. ?g pm k))"
    using IH unfolding sums i64_diff_left by (simp_all only: list.map sum_list.Cons diff_diff_eq)
  moreover have "in64 c' \<and> in64 d'" using IH run by (cases keys) auto
  ultimately show ?case using same alloc by blast
qed simp

lemma extra_loop_spec:
  "distinct keys \<Longrightarrow>
   (\<forall>k \<in> set keys. in64 (allocation_of p pm k + extra_of p C D (max (i64 (usage_of p pm k - allocation_of p pm k)) 0))) \<Longrightarrow>
     same_but_part p pm (extra_loop p C D keys pm) \<and>
     (\<forall>k. allocation_of p (extra_loop p C D keys pm) k =
        (if k \<in> set keys then allocation_of p pm k + extra_of p C D (max (i64 (usage_of p pm k - allocation_of p pm k)) 0)
         else allocation_of p pm k))"
proof (induction keys arbitrary: pm)
  case (Cons key keys)
  let ?new = "\<lambda>pm k. allocation_of p pm k + extra_of p C D (max (i64 (usage_of p pm k - allocation_of p pm k)) 0)"
  let ?pm = "AList.update key (set_allocation p (?new pm key) (get_metrics pm key)) pm"
  have new: "in64 (?new pm key)" using Cons.prems(2) by simp
  have run: "extra_loop p C D (key # keys) pm = extra_loop p C D keys ?pm"
    using new by (simp add: Let_def of_part_def i64_id)
  have other: "get_metrics ?pm k = get_metrics pm k" if "k \<in> set keys" for k
    using that Cons.prems(1) by (auto simp: get_metrics_update)
  have IH: "same_but_part p ?pm (extra_loop p C D keys ?pm) \<and>
     (\<forall>k. allocation_of p (extra_loop p C D keys ?pm) k = (if k \<in> set keys then ?new ?pm k else allocation_of p ?pm k))"
    by (rule Cons.IH) (use Cons.prems other in auto)
  have same: "same_but_part p pm (extra_loop p C D keys ?pm)"
    by (rule same_but_part_trans [OF same_but_part_update [OF new]]) (rule conjunct1 [OF IH])
  have "allocation_of p (extra_loop p C D keys ?pm) k =
      (if k \<in> set (key # keys) then ?new pm k else allocation_of p pm k)" for k
  proof (cases "k \<in> set keys")
    case True
    with IH other show ?thesis by simp
  next
    case False
    with IH have "allocation_of p (extra_loop p C D keys ?pm) k = allocation_of p ?pm k" by simp
    with False show ?thesis using allocation_update [OF new, of p key pm k] by simp
  qed
  with same show ?case unfolding run by blast
qed simp

lemma extra_loop_same: "same_but_part p pm (extra_loop p C D keys pm)"
proof (induction keys arbitrary: pm)
  case (Cons key keys)
  show ?case
    unfolding extra_loop.simps Let_def
    by (rule same_but_part_trans [OF same_but_part_update Cons.IH]) simp
qed simp

lemma sdiv_nonneg: "0 \<le> a \<Longrightarrow> 0 < b \<Longrightarrow> a sdiv b = a div (b::int)"
  by (cases "a = 0") (simp_all add: signed_divide_int_def)

lemma sdiv_in64: "in64 a \<Longrightarrow> 0 < R \<Longrightarrow> in64 (a sdiv R)"
proof -
  assume a: "in64 a" "0 < R"
  have "\<bar>a\<bar> div R \<le> \<bar>a\<bar>" "0 \<le> \<bar>a\<bar> div R"
    using a(2) zdiv_mono2 [of "\<bar>a\<bar>" 1 R] by (simp_all add: pos_imp_zdiv_nonneg_iff)
  then show ?thesis using a by (cases "0 \<le> a") (auto simp: in64_def signed_divide_int_def sgn_if)
qed

lemma guarantee_of_in64 [simp]: "in64 (guarantee_of p C R m)"
  using of_part_in64 [of p "pm_ResourceUsage m"] of_part_in64 [of p "pm_ResourceRequest m"]
    sdiv_in64 [OF in64_i64, of R "C * of_part p (pm_ResourceRequest m)"]
  by (auto simp: guarantee_of_def of_part_def Let_def min_def) (simp add: in64_def)

lemma guarantee_loop_same: "same_but_part p pm (snd (snd (guarantee_loop p C R keys (c, d, pm))))"
proof (induction keys arbitrary: c d pm)
  case (Cons key keys)
  show ?case
    unfolding guarantee_loop.simps Let_def
    by (rule same_but_part_trans [OF same_but_part_update Cons.IH]) simp
qed simp

lemma share_same: "same_but_part p pm (share p capacity demand request keys pm)"
proof -
  let ?run = "\<lambda>c d r. if d > 0 then guarantee_loop p c r keys (c, d, pm) else (c, d, pm)"
  have first: "same_but_part p pm (snd (snd (?run c d r)))" for c d r
    using guarantee_loop_same by simp
  have "same_but_part p pm
      (case ?run c d r of (c, d, pm) \<Rightarrow> if d > 0 \<and> c > 0 then extra_loop p c d keys pm else pm)" for c d r
    using first [of d c r] by (auto split: prod.split intro: same_but_part_trans [OF _ extra_loop_same])
  then show ?thesis by (simp add: share_def Let_def)
qed

text \<open>Parts of a capacity in proportion to what is asked for: rounded down, they lose less than one unit each.\<close>

lemma shares_le:
  fixes c d :: int
  assumes d: "0 < d" and c: "0 \<le> c" and e: "(\<Sum>k\<leftarrow>ks. e k) \<le> d"
  shows "(\<Sum>k\<leftarrow>ks. c * e k div d) \<le> c"
proof -
  have "d * (\<Sum>k\<leftarrow>ks. c * e k div d) = (\<Sum>k\<leftarrow>ks. d * (c * e k div d))" by (simp add: sum_list_const_mult)
  also have "\<dots> \<le> (\<Sum>k\<leftarrow>ks. c * e k)"
    by (rule sum_list_mono) (use d in \<open>metis mult.commute pos_imp_zdiv_nonneg_iff div_mult_mod_eq le_add_same_cancel1 pos_mod_sign\<close>)
  also have "\<dots> = c * (\<Sum>k\<leftarrow>ks. e k)" by (simp add: sum_list_const_mult)
  also have "\<dots> \<le> d * c" using mult_left_mono [OF e c] by (simp add: mult.commute)
  finally show ?thesis using d by simp
qed

lemma shares_ge:
  fixes c d :: int
  assumes d: "0 < d" and e: "(\<Sum>k\<leftarrow>ks. e k) = d"
  shows "c - int (length ks) < (\<Sum>k\<leftarrow>ks. c * e k div d)"
proof -
  have ks: "ks \<noteq> []" using d e by auto
  have above: "x < d * (x div d + 1)" for x
    using pos_mod_bound [OF d, of x] mult_div_mod_eq [of d x] unfolding distrib_left mult_1_right by linarith
  have "d * c = c * (\<Sum>k\<leftarrow>ks. e k)" by (simp add: e)
  also have "\<dots> = (\<Sum>k\<leftarrow>ks. c * e k)" by (simp add: sum_list_const_mult)
  also have "\<dots> < (\<Sum>k\<leftarrow>ks. d * (c * e k div d + 1))"
    by (rule sum_list_strict_mono) (use ks above in auto)
  also have "\<dots> = d * ((\<Sum>k\<leftarrow>ks. c * e k div d) + int (length ks))"
    by (simp add: sum_list_const_mult sum_list_addf sum_list_triv)
  finally have "c < (\<Sum>k\<leftarrow>ks. c * e k div d) + int (length ks)" using d by simp
  then show ?thesis by simp
qed

text \<open>
  What \<open>allocate\<close> is called with: usages and requests are not negative, the allocations start as the
  usages, the demand is their sum, the request of the node covers the pods that use anything, and the
  products fit an int64 (a million cores overflow nothing: the unit is a thousandth of a core).
\<close>

definition cpu_ready :: "string list \<Rightarrow> int \<Rightarrow> int \<Rightarrow> int \<Rightarrow> pods_metrics \<Rightarrow> bool" where
  "cpu_ready keys C D R pm \<longleftrightarrow>
     distinct keys \<and> 0 \<le> C \<and> in64 C \<and> in64 D \<and> D = (\<Sum>k\<leftarrow>keys. usage_of CPU pm k) \<and> C * D \<le> max_int64 \<and>
     (\<Sum>k\<leftarrow>keys. if 0 < usage_of CPU pm k then request_of CPU pm k else 0) \<le> R \<and>
     (\<forall>k\<in>set keys. 0 \<le> usage_of CPU pm k \<and> 0 \<le> request_of CPU pm k \<and>
        allocation_of CPU pm k = usage_of CPU pm k \<and> C * request_of CPU pm k \<le> max_int64)"

text \<open>The guarantee of each pod: what it uses, up to what it requested, up to its part of the node.\<close>

lemma guarantee_cpu:
  assumes "cpu_ready keys C D R pm" "k \<in> set keys"
  shows "guarantee_of CPU C R (get_metrics pm k) =
    (if 0 < R then min (usage_of CPU pm k) (min (C * request_of CPU pm k div R) (request_of CPU pm k)) else 0)"
proof -
  have "0 \<le> C * request_of CPU pm k" "C * request_of CPU pm k \<le> max_int64"
    using assms by (auto simp: cpu_ready_def)
  then have "i64 (C * request_of CPU pm k) = C * request_of CPU pm k" by (simp add: i64_id in64_def)
  then show ?thesis
    using assms by (simp add: guarantee_of_def Let_def sdiv_nonneg cpu_ready_def flip: of_part_def)
qed

lemma guarantee_cpu_bounds:
  assumes ready: "cpu_ready keys C D R pm"
  defines "g \<equiv> \<lambda>k. guarantee_of CPU C R (get_metrics pm k)"
  shows "k \<in> set keys \<Longrightarrow> 0 \<le> g k" "k \<in> set keys \<Longrightarrow> g k \<le> usage_of CPU pm k"
    and "(\<Sum>k\<leftarrow>keys. g k) \<le> C"
    and "k \<in> set keys \<Longrightarrow> R \<le> C \<Longrightarrow> min (usage_of CPU pm k) (request_of CPU pm k) \<le> g k"
proof -
  let ?u = "usage_of CPU pm" and ?q = "request_of CPU pm"
  let ?e = "\<lambda>k. if 0 < ?u k then ?q k else 0"
  have uq: "0 \<le> ?u k" "0 \<le> ?q k" if "k \<in> set keys" for k using ready that by (auto simp: cpu_ready_def)
  have C: "0 \<le> C" and sum: "(\<Sum>k\<leftarrow>keys. ?e k) \<le> R" using ready by (simp_all add: cpu_ready_def)
  note g = guarantee_cpu [OF ready]
  show pos: "0 \<le> g k" if "k \<in> set keys" for k
    using uq [OF that] C by (auto simp: g_def g [OF that] pos_imp_zdiv_nonneg_iff)
  show "g k \<le> ?u k" if "k \<in> set keys" for k using uq [OF that] by (auto simp: g_def g [OF that])
  have le: "g k \<le> C * ?e k div R" if "k \<in> set keys" "0 < R" for k
    using uq [OF that(1)] that(2) by (auto simp: g_def g [OF that(1)])
  show "(\<Sum>k\<leftarrow>keys. g k) \<le> C"
  proof (cases "0 < R")
    case True
    have "(\<Sum>k\<leftarrow>keys. g k) \<le> (\<Sum>k\<leftarrow>keys. C * ?e k div R)" by (rule sum_list_mono) (use le True in simp)
    also have "\<dots> \<le> C" by (rule shares_le [OF True C sum])
    finally show ?thesis .
  next
    case False
    then have "(\<Sum>k\<leftarrow>keys. g k) = (\<Sum>k\<leftarrow>keys. 0)" by (intro arg_cong [where f = sum_list] map_cong) (auto simp: g_def g)
    with C show ?thesis by simp
  qed
  show "min (?u k) (?q k) \<le> g k" if k: "k \<in> set keys" and R: "R \<le> C" for k
  proof (cases "0 < R")
    case True
    have "?q k = R * ?q k div R" using True by simp
    also have "\<dots> \<le> C * ?q k div R" using R uq(2) [OF k] True by (intro zdiv_mono1 mult_right_mono) auto
    finally show ?thesis using True by (auto simp: g_def g [OF k])
  next
    case False
    have "?e k \<le> (\<Sum>k\<leftarrow>keys. ?e k)" by (rule member_le_sum_list) (use k uq in auto)
    with sum False have "?e k \<le> 0" by simp
    with False uq [OF k] show ?thesis by (auto simp: g_def g [OF k] split: if_splits)
  qed
qed

text \<open>One pass over a part of the resources, when the pods want more than there is: the guarantees, then the rest.\<close>

lemma share_parts:
  fixes pm :: pods_metrics
  assumes dist: "distinct keys" and k: "k \<in> set keys" and over: "C < D" "0 < D"
    and cap: "part_get p capacity = C" "part_get p demand = D" "part_get p request = R"
  defines "g \<equiv> \<lambda>k. guarantee_of p C R (get_metrics pm k)"
  defines "c \<equiv> C - (\<Sum>k\<leftarrow>keys. g k)"
  defines "d \<equiv> D - (\<Sum>k\<leftarrow>keys. g k)"
  defines "x \<equiv> \<lambda>k. extra_of p c d (max (i64 (usage_of p pm k - g k)) 0)"
  assumes in_range: "in64 c" "in64 d" "0 < c \<Longrightarrow> \<forall>k\<in>set keys. in64 (g k + x k)"
  shows "allocation_of p (share p capacity demand request keys pm) k = (if 0 < c \<and> 0 < d then g k + x k else g k)"
proof -
  obtain c' d' pm' where run: "guarantee_loop p C R keys (C, D, pm) = (c', d', pm')" by (rule prod_cases3)
  have g: "guarantee_of p C R (get_metrics pm k) = g k" for k by (simp add: g_def)
  have x: "extra_of p c d (max (i64 (usage_of p pm k - g k)) 0) = x k" for k by (simp add: x_def)
  have guarantees: "\<forall>k\<in>set keys. in64 (guarantee_of p C R (get_metrics pm k))" by simp
  note spec = guarantee_loop_spec [OF dist guarantees run, unfolded g]
  have "keys \<noteq> []" using k by auto
  then have c': "c' = c" "d' = d"
    using spec in_range(1,2) i64_id [of c'] i64_id [of d'] i64_id [of c] i64_id [of d]
    by (simp_all add: g flip: c_def d_def)
  have alloc: "allocation_of p pm' k = g k" "usage_of p pm' k = usage_of p pm k" if "k \<in> set keys" for k
    using spec that by (simp_all add: g same_but_part_def)
  have "share p capacity demand request keys pm = (if 0 < c \<and> 0 < d then extra_loop p c d keys pm' else pm')"
    using over by (simp add: share_def cap whichSharePolicy_def run c' Let_def)
  moreover have "allocation_of p (extra_loop p c d keys pm') k = g k + x k" if "0 < c"
    using extra_loop_spec [OF dist, of p pm' c d] in_range(3) [OF that] k by (simp add: alloc x)
  ultimately show ?thesis using alloc(1) [OF k] by simp
qed

lemma share_cpu:
  assumes ready: "cpu_ready keys C D R pm" and over: "C < D"
    and cap: "r_MilliCPU capacity = C" "r_MilliCPU demand = D" "r_MilliCPU request = R"
  defines "g \<equiv> \<lambda>k. guarantee_of CPU C R (get_metrics pm k)"
  defines "c \<equiv> C - (\<Sum>k\<leftarrow>keys. g k)"
  defines "d \<equiv> D - (\<Sum>k\<leftarrow>keys. g k)"
  assumes k: "k \<in> set keys"
  shows "allocation_of CPU (share CPU capacity demand request keys pm) k =
    g k + c * (usage_of CPU pm k - g k) div d"
proof -
  have g: "guarantee_of CPU C R (get_metrics pm k) = g k" for k by (simp add: g_def)
  note bounds = guarantee_cpu_bounds [OF ready, unfolded g]
  have dist: "distinct keys" and C: "0 \<le> C" "in64 C" "in64 D" and D: "D = (\<Sum>k\<leftarrow>keys. usage_of CPU pm k)"
    and fits: "C * D \<le> max_int64" using ready unfolding cpu_ready_def by blast+
  have G: "0 \<le> (\<Sum>k\<leftarrow>keys. g k)" by (rule sum_list_nonneg) (use bounds(1) in auto)
  have cd: "0 \<le> c" "c \<le> C" "c < d" "d \<le> D" "in64 c" "in64 d"
    using bounds(3) G over C by (auto simp: c_def d_def in64_def)
  define e where "e k = usage_of CPU pm k - g k" for k
  have e: "0 \<le> e k" "e k \<le> d" "i64 (e k) = e k" if "k \<in> set keys" for k
  proof -
    show "0 \<le> e k" using bounds(2) [OF that] by (simp add: e_def)
    have "e k \<le> (\<Sum>k\<leftarrow>keys. e k)" by (rule member_le_sum_list) (use that bounds(2) in \<open>auto simp: e_def\<close>)
    then show "e k \<le> d" by (simp add: e_def d_def D sum_list_subtractf)
    with \<open>0 \<le> e k\<close> cd show "i64 (e k) = e k" by (intro i64_id) (auto simp: in64_def)
  qed
  have below: "0 \<le> c * e k div d" "c * e k div d \<le> e k" if "k \<in> set keys" for k
    using cd e(1) [OF that] zdiv_mono1 [of "c * e k" "d * e k" d]
    by (simp_all add: pos_imp_zdiv_nonneg_iff mult_right_mono)
  have extra: "extra_of CPU c d (max (i64 (e k)) 0) = c * e k div d" if "k \<in> set keys" for k
  proof -
    have "0 \<le> c * e k" "c * e k \<le> C * D" using cd e [OF that] by (auto intro: mult_mono)
    then have "i64 (c * e k) = c * e k" using fits by (intro i64_id) (simp add: in64_def)
    then show ?thesis using e [OF that] cd below [OF that] by (simp add: extra_of_def sdiv_nonneg)
  qed
  have in_range: "\<forall>k\<in>set keys. in64 (g k + extra_of CPU c d (max (i64 (usage_of CPU pm k - g k)) 0))"
  proof
    fix k assume k: "k \<in> set keys"
    have "0 \<le> g k + c * e k div d" "g k + c * e k div d \<le> usage_of CPU pm k"
      using bounds(1) [OF k] below [OF k] by (simp_all add: e_def)
    then have "in64 (g k + c * e k div d)"
      using of_part_in64 [of CPU "pm_ResourceUsage (get_metrics pm k)"] by (simp add: in64_def)
    then show "in64 (g k + extra_of CPU c d (max (i64 (usage_of CPU pm k - g k)) 0))"
      using extra [OF k] by (simp add: e_def)
  qed
  have "0 < D" using over C by simp
  then show ?thesis
    using share_parts [OF dist k over, of CPU capacity demand request R pm, unfolded g, folded c_def d_def] cd cap in_range
      extra [OF k] by (auto simp: part_get_def e_def)
qed

lemma cpu_shared:
  assumes ready: "cpu_ready keys C D R pm" and over: "C < D"
    and cap: "r_MilliCPU capacity = C" "r_MilliCPU demand = D" "r_MilliCPU request = R"
  defines "a \<equiv> allocation_of CPU (share CPU capacity demand request keys pm)"
  shows "(\<Sum>k\<leftarrow>keys. a k) \<le> C" "C - int (length keys) < (\<Sum>k\<leftarrow>keys. a k)"
    and "k \<in> set keys \<Longrightarrow> a k \<le> usage_of CPU pm k"
    and "k \<in> set keys \<Longrightarrow> guarantee_of CPU C R (get_metrics pm k) \<le> a k"
proof -
  define g where "g k = guarantee_of CPU C R (get_metrics pm k)" for k
  define c where "c = C - (\<Sum>k\<leftarrow>keys. g k)"
  define d where "d = D - (\<Sum>k\<leftarrow>keys. g k)"
  define e where "e k = usage_of CPU pm k - g k" for k
  note bounds = guarantee_cpu_bounds [OF ready, folded g_def]
  have a: "a k = g k + c * e k div d" if "k \<in> set keys" for k
    using share_cpu [OF ready over cap that] by (simp add: a_def g_def c_def d_def e_def)
  have D: "D = (\<Sum>k\<leftarrow>keys. usage_of CPU pm k)" using ready unfolding cpu_ready_def by blast
  have cd: "0 \<le> c" "c < d" "0 < d" using bounds(3) over by (simp_all add: c_def d_def)
  have e: "(\<Sum>k\<leftarrow>keys. e k) = d" by (simp add: e_def d_def D sum_list_subtractf)
  have "(\<Sum>k\<leftarrow>keys. a k) = (\<Sum>k\<leftarrow>keys. g k + c * e k div d)"
    by (intro arg_cong [where f = sum_list] map_cong) (simp_all add: a)
  then have sum: "(\<Sum>k\<leftarrow>keys. a k) = C - c + (\<Sum>k\<leftarrow>keys. c * e k div d)" by (simp add: sum_list_addf c_def)
  show "(\<Sum>k\<leftarrow>keys. a k) \<le> C" using sum shares_le [OF cd(3,1), where ks = keys and e = e] e by simp
  show "C - int (length keys) < (\<Sum>k\<leftarrow>keys. a k)" using sum shares_ge [OF cd(3) e, of c] by simp
  show "a k \<le> usage_of CPU pm k" if k: "k \<in> set keys"
  proof -
    have "c * e k div d \<le> d * e k div d"
      using cd bounds(2) [OF k] by (intro zdiv_mono1 mult_right_mono) (simp_all add: e_def)
    then show ?thesis using a [OF k] cd by (simp add: e_def)
  qed
  show "guarantee_of CPU C R (get_metrics pm k) \<le> a k" if k: "k \<in> set keys"
    using a [OF k] cd bounds(2) [OF k] by (simp add: e_def pos_imp_zdiv_nonneg_iff flip: g_def)
qed

lemma some_pods: "keys \<noteq> [] \<Longrightarrow> length keys < 2 ^ 24 \<Longrightarrow>
  \<not> fl_eq (fl_of_int float32 (int (length keys))) (fl_of_int float32 0)"
  using fl_of_int_exact [of float32 "int (length keys)"] fl_of_int_exact [of float32 0]
  by (simp add: is_int_val_def fl_eq_value)

lemma allocate_cpu:
  assumes "keys \<noteq> []" "length keys < 2 ^ 24"
  shows "allocation_of CPU (snd (allocate keys capacity demand request pm)) k =
    allocation_of CPU (share CPU capacity demand request keys pm) k"
  using share_same [of Mem "share CPU capacity demand request keys pm" capacity demand request keys] some_pods [OF assms]
  by (simp add: allocate_def Let_def same_but_part_def)

text \<open>
  C15: The CPU of a node is never given twice: the allocations of its pods add up to at most its capacity, and
  when the pods want more than there is, to all of it but for less than a thousandth of a core per pod.
  No pod gets more than it uses. If the requests fit the node, each pod gets what it uses up to its
  request; if the usages fit, each gets all it uses.
\<close>

theorem cpu_never_oversubscribed:
  fixes capacity demand request :: resource
  assumes ready: "cpu_ready keys (r_MilliCPU capacity) (r_MilliCPU demand) (r_MilliCPU request) pm"
    and few: "length keys < 2 ^ 24"
  defines "allocated \<equiv> allocation_of CPU (snd (allocate keys capacity demand request pm))"
  shows "(\<Sum>k\<leftarrow>keys. allocated k) \<le> r_MilliCPU capacity \<and>
    (r_MilliCPU capacity < r_MilliCPU demand \<longrightarrow>
       r_MilliCPU capacity - int (length keys) < (\<Sum>k\<leftarrow>keys. allocated k)) \<and>
    (\<forall>k\<in>set keys. allocated k \<le> usage_of CPU pm k \<and>
       (r_MilliCPU request \<le> r_MilliCPU capacity \<longrightarrow>
          min (usage_of CPU pm k) (request_of CPU pm k) \<le> allocated k) \<and>
       (r_MilliCPU demand \<le> r_MilliCPU capacity \<longrightarrow> allocated k = usage_of CPU pm k))"
proof (cases "keys = []")
  case True
  then show ?thesis using ready by (auto simp: cpu_ready_def)
next
  case False
  note alloc = allocate_cpu [OF False few]
  show ?thesis
  proof (cases "r_MilliCPU capacity < r_MilliCPU demand")
    case True
    note shared = cpu_shared [OF ready True refl refl refl]
    have "min (usage_of CPU pm k) (request_of CPU pm k) \<le> allocated k"
      if "k \<in> set keys" "r_MilliCPU request \<le> r_MilliCPU capacity" for k
      using guarantee_cpu_bounds(4) [OF ready that] shared(4) [OF that(1)] by (simp add: allocated_def alloc)
    with True shared show ?thesis by (simp add: allocated_def alloc)
  next
    case False
    then have "share CPU capacity demand request keys pm = pm"
      by (simp add: share_def part_get_def whichSharePolicy_def)
    moreover have "allocation_of CPU pm k = usage_of CPU pm k" if "k \<in> set keys" for k
      using ready that by (simp add: cpu_ready_def)
    ultimately have same: "allocated k = usage_of CPU pm k" if "k \<in> set keys" for k
      using that by (simp add: allocated_def alloc)
    then have "(\<Sum>k\<leftarrow>keys. allocated k) = (\<Sum>k\<leftarrow>keys. usage_of CPU pm k)"
      by (intro arg_cong [where f = sum_list] map_cong) simp_all
    with False ready same show ?thesis by (auto simp: cpu_ready_def)
  qed
qed

text \<open>
  C34: A Resource written as a list of quantities and read back is the same Resource.
\<close>

theorem resource_round_trip: "resource_wf r \<Longrightarrow> NewResource (Resource_ResourceList r) = r"
  by (rule NewResource_ResourceList)

section \<open>Quality of service\<close>

lemma Queue_Metrics_qos [simp]: "qm_QualityOfService (Queue_Metrics queue a b c d) = a"
  by (cases queue) (simp_all add: Queue_Metrics_def FIFOQueue_Metrics_def PriorityQueue_Metrics_def)

lemma qos_loop_counts:
  "is_int_val q i \<Longrightarrow> 0 \<le> i \<Longrightarrow> i + int (length keys) < 2 ^ 24 \<Longrightarrow>
     \<exists>i'. is_int_val (qos_loop pm q keys) i' \<and> i \<le> i' \<and> i' \<le> i + int (length keys)"
proof (induction keys arbitrary: q i)
  case (Cons key keys)
  have one: "is_int_val (fl_of_int float32 1) 1" by (rule fl_of_int_exact) simp_all
  have "is_int_val (fl_add float32 q (fl_of_int float32 1)) (i + 1)"
    by (rule fl_add_exact [OF _ Cons.prems(1) one]) (use Cons.prems in simp_all)
  then obtain j where "is_int_val (if satisfied (get_metrics pm key) then fl_add float32 q (fl_of_int float32 1) else q) j"
    "i \<le> j" "j \<le> i + 1"
    using Cons.prems(1) by (cases "satisfied (get_metrics pm key)") force+
  with Cons.IH [of _ j] Cons.prems show ?case by fastforce
qed auto

lemma allocate_counts:
  assumes "allocate keys capacity demand request pm = ((q, n), pm')" "length keys < 2 ^ 24"
  shows "\<exists>i. is_int_val q i \<and> 0 \<le> i \<and> i \<le> int (length keys) \<and> is_int_val n (int (length keys))"
proof -
  have zero: "is_int_val (fl_of_int float32 0) 0" by (rule fl_of_int_exact) simp_all
  have len: "is_int_val (fl_of_int float32 (int (length keys))) (int (length keys))"
    by (rule fl_of_int_exact) (use assms(2) in simp_all)
  show ?thesis
  proof (cases "keys = []")
    case True
    with assms zero show ?thesis by (auto simp: allocate_def is_int_val_def fl_eq_value intro!: exI [of _ 0] split: if_splits)
  next
    case False
    with assms some_pods [OF False] len qos_loop_counts [OF zero, of keys] show ?thesis
      by (auto simp: allocate_def Let_def)
  qed
qed

lemma node_pods_metrics_length:
  "node_pods_metrics env clk pods (h, pm, keys) = Inr (h', pm', Some keys') \<Longrightarrow>
     length keys' \<le> length keys + length pods"
proof (induction pods arbitrary: h pm keys)
  case (Cons s pods)
  show ?case
    using Cons.prems by (auto simp: res_bind_Inr_iff split: if_splits sum.splits dest!: Cons.IH)
qed simp

definition pods_on :: "(string \<times> sim_node) list \<Rightarrow> string \<Rightarrow> nat" where
  "pods_on nodes name = (case map_of nodes name of None \<Rightarrow> 0 | Some node \<Rightarrow> length (Node_PodList node))"

definition counted :: "metrics_state \<Rightarrow> int \<Rightarrow> bool" where
  "counted st n \<longleftrightarrow> (\<exists>i j. is_int_val (ms_podQoses st) i \<and> is_int_val (ms_numPods st) j \<and> 0 \<le> i \<and> i \<le> j \<and> j \<le> n)"

lemma piece_counts:
  assumes run: "BuildMetrics_piece env clk nodes name st = Inr st'" and st: "counted st n"
    and few: "n + int (pods_on nodes name) < 2 ^ 24"
  shows "counted st' (n + int (pods_on nodes name))"
proof -
  obtain i j where ij: "is_int_val (ms_podQoses st) i" "is_int_val (ms_numPods st) j" "0 \<le> i" "i \<le> j" "j \<le> n"
    using st by (auto simp: counted_def)
  obtain node where node: "map_of nodes name = Some node"
    using run by (auto simp: BuildMetrics_piece_def split: option.splits)
  obtain h nm where metrics: "Node_Metrics env clk node (ms_heap st) = Inr (h, nm)"
    using run by (auto simp: BuildMetrics_piece_def node res_bind_Inr_iff)
  obtain h' pm found where steps: "node_pods_metrics env clk (Node_PodList node) (h, ms_pods st, []) = Inr (h', pm, found)"
    using run by (auto simp: BuildMetrics_piece_def node metrics res_bind_Inr_iff)
  note rest = run [unfolded BuildMetrics_piece_def node option.case metrics steps res_bind_simps prod.case]
  show ?thesis
  proof (cases found)
    case None
    with rest have "ms_podQoses st' = ms_podQoses st" "ms_numPods st' = ms_numPods st" by auto
    with st show ?thesis unfolding counted_def by (smt (verit) of_nat_0_le_iff)
  next
    case (Some keys)
    obtain q m pm' where alloc: "allocate keys (NewResource (nm_Allocatable nm)) (NewResource (nm_TotalResourceUsage nm))
        (NewResource (nm_TotalResourceRequest nm)) pm = ((q, m), pm')" by (metis prod.exhaust)
    have len: "length keys \<le> pods_on nodes name"
      using node_pods_metrics_length [OF steps [unfolded Some]] by (simp add: pods_on_def node)
    with few ij have small: "length keys < 2 ^ 24" by simp
    from allocate_counts [OF alloc small] obtain i' where
      i': "is_int_val q i'" "0 \<le> i'" "i' \<le> int (length keys)" "is_int_val m (int (length keys))" by blast
    have "is_int_val (fl_add float32 (ms_podQoses st) q) (i + i')"
      by (rule fl_add_exact [OF _ ij(1) i'(1)]) (use ij i' len few in simp_all)
    moreover have "is_int_val (fl_add float32 (ms_numPods st) m) (j + int (length keys))"
      by (rule fl_add_exact [OF _ ij(2) i'(4)]) (use ij i' len few in simp_all)
    ultimately show ?thesis
      using rest ij i' len unfolding Some alloc option.case prod.case counted_def
      by (intro exI [of _ "i + i'"] exI [of _ "j + int (length keys)"]) (auto simp: Let_def)
  qed
qed

lemma pieces_count:
  "fold_res (BuildMetrics_piece env clk nodes) order st = Inr st' \<Longrightarrow> counted st n \<Longrightarrow>
     n + (\<Sum>name\<leftarrow>order. int (pods_on nodes name)) < 2 ^ 24 \<Longrightarrow>
     counted st' (n + (\<Sum>name\<leftarrow>order. int (pods_on nodes name)))"
proof (induction order arbitrary: st n)
  case (Cons name order)
  from Cons.prems(1) obtain st1 where st1: "BuildMetrics_piece env clk nodes name st = Inr st1"
    "fold_res (BuildMetrics_piece env clk nodes) order st1 = Inr st'"
    by (auto simp: res_bind_Inr_iff)
  have "0 \<le> (\<Sum>name\<leftarrow>order. int (pods_on nodes name))" by (rule sum_list_nonneg) auto
  with Cons.prems have "n + int (pods_on nodes name) < 2 ^ 24" by simp
  from Cons.IH [OF st1(2) piece_counts [OF st1(1) Cons.prems(2) this]] Cons.prems(3) show ?case by (simp add: add.assoc)
qed simp

text \<open>
  C33: The quality of service of the cluster is a finite number between 0 and 1, whatever the pods and the
  order in which the nodes are done, as long as there are fewer pods than a float32 counts exactly.
\<close>

theorem qos_is_a_fraction:
  assumes run: "BuildMetrics env order clk nodes queue penalty h = Inr (h', m)"
    and few: "(\<Sum>name\<leftarrow>order. int (pods_on nodes name)) < 2 ^ 24"
  defines "q \<equiv> qm_QualityOfService (m_Queue m)"
  shows "is_fin q \<and> 0 \<le> fval q \<and> fval q \<le> 1"
proof -
  obtain st where fold: "fold_res (BuildMetrics_piece env clk nodes) order
         \<lparr>ms_heap = h, ms_nodes = [], ms_pods = [], ms_podQoses = fl_of_int float32 0,
          ms_numPods = fl_of_int float32 0\<rparr> = Inr st"
    and q: "q = (if fl_eq (ms_numPods st) (fl_of_int float32 0) then fl_of_int float32 1
              else fl_div float32 (ms_podQoses st) (ms_numPods st))"
    using run by (auto simp: BuildMetrics_def res_bind_Inr_iff Let_def q_def)
  have zero: "is_int_val (fl_of_int float32 0) 0" and one: "is_int_val (fl_of_int float32 1) 1"
    by (rule fl_of_int_exact; simp)+
  obtain i j where ij: "is_int_val (ms_podQoses st) i" "is_int_val (ms_numPods st) j" "0 \<le> i" "i \<le> j"
    using pieces_count [OF fold, of 0] zero few by (auto simp: counted_def)
  show ?thesis
  proof (cases "j = 0")
    case True
    with ij zero one show ?thesis by (simp add: q is_int_val_def fl_eq_value)
  next
    case False
    with ij have "\<not> fl_eq (ms_numPods st) (fl_of_int float32 0)" using zero by (simp add: is_int_val_def fl_eq_value)
    with False fl_div_unit [OF _ ij(1,2), of float32] ij show ?thesis by (simp add: q)
  qed
qed

section \<open>Memory\<close>

definition asking :: "int \<Rightarrow> int \<Rightarrow> int \<Rightarrow> int \<Rightarrow> pod_metrics" where
  "asking cpuUsage cpuRequest memUsage memRequest =
     (let usage = [(cpu, NewMilliQuantity cpuUsage DecimalSI), (memory, NewQuantity memUsage BinarySI)]
      in zero_pod_metrics\<lparr>pm_ResourceUsage := usage, pm_ResourceAllocation := usage,
           pm_ResourceRequest :=
             [(cpu, NewMilliQuantity cpuRequest DecimalSI), (memory, NewQuantity memRequest BinarySI)]\<rparr>)"

definition totals :: "int \<Rightarrow> int \<Rightarrow> resource" where
  "totals milliCPU mem = empty_resource\<lparr>r_MilliCPU := milliCPU, r_Memory := mem\<rparr>"

definition gib :: int where
  "gib = 1073741824"

definition two_pods :: pods_metrics where
  "two_pods = [(''default/a'', asking 800 500 (9 * gib) (8 * gib)), (''default/b'', asking 600 700 (16 * gib) (8 * gib))]"


section \<open>Witnesses\<close>

theorem resource_round_trip_witness:
  "NewResource (Resource_ResourceList (empty_resource\<lparr>r_MilliCPU := 1500,
       r_ScalarResources := [(''nvidia.com/gpu'', 2), (''hugepages-2Mi'', 4194304)]\<rparr>)) =
     empty_resource\<lparr>r_MilliCPU := 1500,
       r_ScalarResources := [(''nvidia.com/gpu'', 2), (''hugepages-2Mi'', 4194304)]\<rparr>"
proof -
  have "resource_wf (empty_resource\<lparr>r_MilliCPU := 1500,
      r_ScalarResources := [(''nvidia.com/gpu'', 2), (''hugepages-2Mi'', 4194304)]\<rparr>)"
    by code_simp
  from resource_round_trip [OF this] show ?thesis .
qed

theorem cpu_never_oversubscribed_witness:
  "(\<Sum>k\<leftarrow>[''default/a'', ''default/b'']. allocation_of CPU
      (snd (allocate [''default/a'', ''default/b''] (totals 1000 0) (totals 1400 0) (totals 1200 0) two_pods)) k) \<le> 1000"
proof -
  have "cpu_ready [''default/a'', ''default/b''] (r_MilliCPU (totals 1000 0)) (r_MilliCPU (totals 1400 0))
      (r_MilliCPU (totals 1200 0)) two_pods"
    by code_simp
  moreover have "length [''default/a'', ''default/b''] < 2 ^ 24" by simp
  ultimately show ?thesis using cpu_never_oversubscribed by (fastforce simp: totals_def)
qed

theorem qos_is_a_fraction_witness:
  "\<exists>h' m. BuildMetrics (demo_env 2) [''node-0''] 7 [(''node-0'', demo_node)] (Fifo NewFIFOQueue)
       (fl_of_int float32 0) demo_heap = Inr (h', m) \<and> fval (qm_QualityOfService (m_Queue m)) \<le> 1"
proof -
  let ?run = "BuildMetrics (demo_env 2) [''node-0''] 7 [(''node-0'', demo_node)] (Fifo NewFIFOQueue)
    (fl_of_int float32 0) demo_heap"
  have "case ?run of Inl _ \<Rightarrow> False | Inr _ \<Rightarrow> True" by code_simp
  then obtain h' m where run: "?run = Inr (h', m)" by (cases ?run) auto
  moreover have "(\<Sum>name\<leftarrow>[''node-0'']. int (pods_on [(''node-0'', demo_node)] name)) < 2 ^ 24" by code_simp
  ultimately show ?thesis using qos_is_a_fraction [OF run] by blast
qed

end
