(* ===== verification/ResourcePredicates.thy ===== *)
theory ResourcePredicates
  imports Plugin GoFloat
begin

text \<open>
  The two predicates of vendor/k8s.io/kubernetes/pkg/scheduler/algorithm/predicates/predicates.go that
  the simulator is run with: PodFitsResources, and the repository's own PodFitsResourcesOverSub, which
  scales the capacity of a node by the factor the package variable NodesOverSubFactors has for it. The
  metadata is the simulator's dummy, so both compute the request of the pod, and no extended resource
  is ignored. What they guarantee of a node they accept is at the end.
\<close>

section \<open>The predicates\<close>

text \<open>A reason for each resource that is short; a reason carries the request, the use and the capacity.\<close>

definition pods_fail :: "node_info \<Rightarrow> failure_reason list" where
  "pods_fail nodeInfo =
     (let allowedPodNumber = r_AllowedPodNumber (ni_allocatableResource nodeInfo)
      in if int (length (ni_pods nodeInfo)) + 1 > allowedPodNumber
         then [InsufficientResource pods_name 1 (int (length (ni_pods nodeInfo))) allowedPodNumber] else [])"

definition requests_nothing :: "resource \<Rightarrow> bool" where
  "requests_nothing podRequest \<longleftrightarrow>
     r_MilliCPU podRequest = 0 \<and> r_Memory podRequest = 0 \<and> r_EphemeralStorage podRequest = 0 \<and>
     r_ScalarResources podRequest = []"

definition scalars_fail :: "resource \<Rightarrow> resource \<Rightarrow> resource \<Rightarrow> failure_reason list" where
  "scalars_fail allocatable used podRequest =
     concat (map (\<lambda>(rName, rQuant).
         if scalar allocatable rName < i64 (rQuant + scalar used rName)
         then [InsufficientResource rName (scalar podRequest rName) (scalar used rName) (scalar allocatable rName)]
         else [])
       (r_ScalarResources podRequest))"

definition PodFitsResources :: fit_predicate where
  "PodFitsResources ps pod nodeInfo =
     (case ni_node nodeInfo of
        None \<Rightarrow> Inl (ResultError ''node not found'')
      | Some node \<Rightarrow>
          let podRequest = GetResourceRequest (ps pod);
              allocatable = ni_allocatableResource nodeInfo;
              used = ni_requestedResource nodeInfo;
              short = (\<lambda>rName get. if get allocatable < i64 (get podRequest + get used)
                 then [InsufficientResource rName (get podRequest) (get used) (get allocatable)] else [])
          in if requests_nothing podRequest then Inr (pods_fail nodeInfo = [], pods_fail nodeInfo)
             else let predicateFails = pods_fail nodeInfo @ short cpu r_MilliCPU @ short memory r_Memory @
                    short ephemeral_storage r_EphemeralStorage @ scalars_fail allocatable used podRequest
                  in Inr (predicateFails = [], predicateFails))"

type_synonym factors = "(string \<times> gofloat) list"

definition factor_of :: "factors \<Rightarrow> string \<Rightarrow> gofloat" where
  "factor_of nodesOverSubFactors name =
     (case map_of nodesOverSubFactors name of None \<Rightarrow> Fin 0 0 | Some f \<Rightarrow> f)"

definition PodFitsResourcesOverSub :: "factors \<Rightarrow> fit_predicate" where
  "PodFitsResourcesOverSub nodesOverSubFactors ps pod nodeInfo =
     (case ni_node nodeInfo of
        None \<Rightarrow> Inl (ResultError ''node not found'')
      | Some node \<Rightarrow>
          let podRequest = GetResourceRequest (ps pod);
              allocatable = ni_allocatableResource nodeInfo;
              used = ni_requestedResource nodeInfo;
              oversub = factor_of nodesOverSubFactors (node_Name node);
              short = (\<lambda>rName get.
                 if fl_lt (fl_mul float64 (fl_of_int float64 (get allocatable)) oversub)
                          (fl_of_int float64 (i64 (get podRequest + get used)))
                 then [InsufficientResource rName (get podRequest) (get used) (get allocatable)] else [])
          in if requests_nothing podRequest then Inr (pods_fail nodeInfo = [], pods_fail nodeInfo)
             else let predicateFails = pods_fail nodeInfo @ short cpu r_MilliCPU @ short memory r_Memory @
                    short ephemeral_storage r_EphemeralStorage @ scalars_fail allocatable used podRequest
                  in Inr (predicateFails = [], predicateFails))"

section \<open>What a pod requests and what is entered for it\<close>

text \<open>
  AddPod enters the sum over the containers, the predicates test the request, which the init containers
  can only raise.
\<close>

lemma calculateResource_requests:
  "fst (calculateResource_loop (r, a, b) cs) = addRequests_loop r cs"
  by (induction cs arbitrary: r a b) (simp_all split: prod.splits)

lemma pod_requests_sum: "pod_requests p = addRequests_loop empty_resource (pod_Containers p)"
  by (simp add: pod_requests_def calculateResource_def calculateResource_requests)

lemma SetMaxResource_le: "requested r name \<le> requested (SetMaxResource r rl) name"
proof (induction r rl rule: SetMaxResource.induct)
  case (2 r rName rQuantity rl)
  have "requested r name \<le> requested
       (if rName = memory
          then (let mem = quantity_Value rQuantity
                in if mem > r_Memory r then r\<lparr>r_Memory := mem\<rparr> else r)
        else if rName = cpu
          then (let c = quantity_MilliValue rQuantity
                in if c > r_MilliCPU r then r\<lparr>r_MilliCPU := c\<rparr> else r)
        else if rName = ephemeral_storage
          then (let ephemeralStorage = quantity_Value rQuantity
                in if ephemeralStorage > r_EphemeralStorage r
                   then r\<lparr>r_EphemeralStorage := ephemeralStorage\<rparr> else r)
        else if IsScalarResourceName rName
          then (let v = quantity_Value rQuantity
                in if v > scalar r rName then SetScalar r rName v else r)
        else r) name"
    by (simp add: requested_def resource_get_def Let_def)
  also note "2.IH"
  finally show ?case by simp
qed simp

lemma setMax_loop_le: "requested r name \<le> requested (setMax_loop r cs) name"
  by (induction r cs rule: setMax_loop.induct) (auto intro: order_trans [OF SetMaxResource_le])

lemma requests_le: "requested (pod_requests p) name \<le> requested (GetResourceRequest p) name"
  by (simp add: pod_requests_sum GetResourceRequest_def setMax_loop_le)

lemma requested_scalar_absent:
  "requested r name = 0" if "name \<notin> {cpu, memory, ephemeral_storage}" "name \<notin> fst ` set (r_ScalarResources r)"
  using that by (simp add: requested_def resource_get_cases alist_get_notin)

section \<open>What acceptance means\<close>

lemma scalars_fail_empty:
  assumes "scalars_fail allocatable used podRequest = []" "name \<in> fst ` set (r_ScalarResources podRequest)"
  shows "i64 (scalar podRequest name + scalar used name) \<le> scalar allocatable name"
proof -
  obtain v where v: "map_of (r_ScalarResources podRequest) name = Some v"
    using assms(2) by (metis map_of_eq_None_iff not_Some_eq)
  then have "(name, v) \<in> set (r_ScalarResources podRequest)" by (rule map_of_SomeD)
  with assms(1) have "\<not> scalar allocatable name < i64 (v + scalar used name)"
    by (auto simp: scalars_fail_def split: if_splits)
  with v show ?thesis by (simp add: scalar_def)
qed

text \<open>
  Accepted by PodFitsResources: there is room for one more pod, and the pod requests nothing or each
  resource it requests is left.
\<close>

definition tested :: "resource \<Rightarrow> string \<Rightarrow> bool" where
  "tested podRequest name \<longleftrightarrow> name \<in> {cpu, memory, ephemeral_storage} \<or> name \<in> fst ` set (r_ScalarResources podRequest)"

lemma not_tested: "\<not> tested podRequest name \<Longrightarrow> requested podRequest name = 0"
  by (rule requested_scalar_absent) (auto simp: tested_def)

lemma nothing_requested: "requests_nothing podRequest \<Longrightarrow> requested podRequest name = 0"
  by (simp add: requests_nothing_def requested_def resource_get_cases)

lemma requested_fields [simp]:
  "requested r cpu = r_MilliCPU r" "requested r memory = r_Memory r" "requested r ephemeral_storage = r_EphemeralStorage r"
  by (simp_all add: requested_def resource_get_def)

lemma requested_scalar:
  "name \<notin> {cpu, memory, ephemeral_storage, pods_name} \<Longrightarrow> requested r name = scalar r name"
  by (simp add: requested_def resource_get_def)

lemma tested_scalar:
  assumes "tested podRequest name" "name \<notin> {cpu, memory, ephemeral_storage}" "scalars_fail allocatable used podRequest = []"
  shows "i64 (requested podRequest name + requested used name) \<le> requested allocatable name"
proof (cases "name = pods_name")
  case True
  then show ?thesis by (simp add: requested_def i64_id in64_def)
next
  case False
  with assms show ?thesis by (simp add: requested_scalar scalars_fail_empty tested_def)
qed

lemma PodFitsResources_accepts:
  assumes fits: "PodFitsResources ps p n = Inr (True, reasons)"
  shows "int (length (ni_pods n)) + 1 \<le> r_AllowedPodNumber (ni_allocatableResource n)"
    and "tested (GetResourceRequest (ps p)) name \<Longrightarrow> \<not> requests_nothing (GetResourceRequest (ps p)) \<Longrightarrow>
      i64 (requested (GetResourceRequest (ps p)) name + requested (ni_requestedResource n) name) \<le>
        requested (ni_allocatableResource n) name"
proof -
  have none: "pods_fail n = []"
    using fits by (auto simp: PodFitsResources_def Let_def split: option.splits if_splits)
  then show "int (length (ni_pods n)) + 1 \<le> r_AllowedPodNumber (ni_allocatableResource n)"
    by (simp add: pods_fail_def Let_def split: if_splits)
  assume t: "tested (GetResourceRequest (ps p)) name" and "\<not> requests_nothing (GetResourceRequest (ps p))"
  then show "i64 (requested (GetResourceRequest (ps p)) name + requested (ni_requestedResource n) name) \<le>
      requested (ni_allocatableResource n) name"
    using fits none tested_scalar [OF t]
    by (cases "name \<in> {cpu, memory, ephemeral_storage}")
      (auto simp: PodFitsResources_def Let_def not_less split: option.splits if_splits)
qed

text \<open>The same with the capacity scaled, for the resources that are.\<close>

definition scaled_room :: "gofloat \<Rightarrow> int \<Rightarrow> int \<Rightarrow> bool" where
  "scaled_room f capacity amount \<longleftrightarrow>
     \<not> fl_lt (fl_mul float64 (fl_of_int float64 capacity) f) (fl_of_int float64 amount)"

lemma PodFitsResourcesOverSub_accepts:
  assumes fits: "PodFitsResourcesOverSub fs ps p n = Inr (True, reasons)" and node: "ni_node n = Some node"
    and some: "\<not> requests_nothing (GetResourceRequest (ps p))"
  shows "name \<in> {cpu, memory, ephemeral_storage} \<Longrightarrow>
      scaled_room (factor_of fs (node_Name node)) (requested (ni_allocatableResource n) name)
        (i64 (requested (GetResourceRequest (ps p)) name + requested (ni_requestedResource n) name))"
    and "name \<notin> {cpu, memory, ephemeral_storage} \<Longrightarrow> tested (GetResourceRequest (ps p)) name \<Longrightarrow>
      i64 (requested (GetResourceRequest (ps p)) name + requested (ni_requestedResource n) name) \<le>
        requested (ni_allocatableResource n) name"
  using fits some node tested_scalar [of "GetResourceRequest (ps p)" name]
  by (auto simp: PodFitsResourcesOverSub_def Let_def scaled_room_def split: if_splits)

text \<open>With a factor of at most 2 and amounts a float64 counts exactly, there is room for twice the capacity only.\<close>

lemma scaled_room_twice:
  assumes room: "scaled_room f capacity amount" and f: "fl_upto f 2"
    and capacity: "0 \<le> capacity" "2 * capacity < 2 ^ 53" and amount: "0 \<le> amount" "amount < 2 ^ 53"
  shows "amount \<le> 2 * capacity"
proof -
  have c: "is_int_val (fl_of_int float64 capacity) capacity" and a: "is_int_val (fl_of_int float64 amount) amount"
    using capacity amount by (simp_all add: fl_of_int_exact)
  have "is_fin (fl_mul float64 (fl_of_int float64 capacity) f) \<and>
      fval (fl_mul float64 (fl_of_int float64 capacity) f) \<le> of_int (2 * capacity)"
  proof (cases "capacity = 0")
    case True
    have "\<exists>e. fl_of_int float64 0 = Fin 0 e" by (simp add: fl_of_int_def round_quot_def)
    then show ?thesis
      using True f by (auto elim!: upto_E simp: fl_mul_def round_dyadic_def round_quot_def fval_def)
  next
    case False
    have "fl_upto (fl_mul float64 (fl_of_int float64 capacity) f) (capacity * 2)"
      by (rule fl_mul_upto [OF _ _ f]) (use False c capacity in \<open>auto simp: fl_upto_def is_int_val_def\<close>)
    then show ?thesis by (simp add: fl_upto_def mult.commute)
  qed
  with room a show ?thesis by (simp add: scaled_room_def fl_lt_value is_int_val_def)
qed

end
