(* ===== verification/CapacityProperties.thy ===== *)
theory CapacityProperties
  imports PlacementProperties ResourcePredicates
begin

text \<open>
  What the resource predicates make of a whole scheduling pass: the requests of the pods on a node, those
  placed by the pass included, stay within the node's capacity, for every resource at once.
\<close>

section \<open>Nodes within their capacity\<close>

text \<open>A pod whose requests are not negative and stay below a bound, so that adding two does not wrap.\<close>

definition modest :: "int \<Rightarrow> v1_pod \<Rightarrow> bool" where
  "modest bound p \<longleftrightarrow>
     (\<forall>name. 0 \<le> requested (pod_requests p) name \<and> requested (GetResourceRequest p) name < bound)"

lemma static_requests [simp]:
  "pod_requests (pod_static p) = pod_requests p" "GetResourceRequest (pod_static p) = GetResourceRequest p"
  by (simp_all add: pod_requests_sum GetResourceRequest_def pod_static_def)

lemma modest_static [simp]: "modest bound (pod_static p) \<longleftrightarrow> modest bound p"
  by (simp add: modest_def)

lemma same_static_requests: "same_static ps ps' \<Longrightarrow> pod_requests (ps' p) = pod_requests (ps p)"
  by (metis same_static_def static_requests(1))

text \<open>
  No more pods than the node allows, and of each resource at most \<open>k\<close> times the capacity is requested,
  for the scalar resources at most the capacity.
\<close>

definition limit :: "int \<Rightarrow> string \<Rightarrow> int" where
  "limit k name = (if name \<in> {cpu, memory, ephemeral_storage} then k else 1)"

definition in_capacity :: "int \<Rightarrow> int \<Rightarrow> node_info \<Rightarrow> bool" where
  "in_capacity k bound n \<longleftrightarrow>
     scalars_ok (ni_requestedResource n) \<and> int (length (ni_pods n)) \<le> r_AllowedPodNumber (ni_allocatableResource n) \<and>
     (\<forall>name. 0 \<le> requested (ni_requestedResource n) name \<and>
        requested (ni_requestedResource n) name \<le> limit k name * requested (ni_allocatableResource n) name \<and>
        0 \<le> requested (ni_allocatableResource n) name \<and> k * requested (ni_allocatableResource n) name < bound)"

lemma NodeInfo_AddPod_allocatable [simp]:
  "ni_allocatableResource (NodeInfo_AddPod ps n p) = ni_allocatableResource n"
  by (simp add: NodeInfo_AddPod_def Let_def split: prod.splits)

lemma in_capacity_AddPod:
  assumes n: "in_capacity k bound n" and p: "modest bound (ps p)" and ps: "same_static ps ps'"
    and k: "1 \<le> k" and bound: "bound \<le> 2 ^ 62"
    and room: "int (length (ni_pods n)) + 1 \<le> r_AllowedPodNumber (ni_allocatableResource n)"
    and left: "\<And>name. requested (GetResourceRequest (ps p)) name \<noteq> 0 \<Longrightarrow>
      0 \<le> requested (GetResourceRequest (ps p)) name + requested (ni_requestedResource n) name \<Longrightarrow>
      requested (GetResourceRequest (ps p)) name + requested (ni_requestedResource n) name < 2 * bound \<Longrightarrow>
      requested (GetResourceRequest (ps p)) name + requested (ni_requestedResource n) name \<le>
        limit k name * requested (ni_allocatableResource n) name"
  shows "in_capacity k bound (NodeInfo_AddPod ps' n p)"
proof -
  have ok: "scalars_ok (ni_requestedResource n)" using n by (simp add: in_capacity_def)
  have new: "0 \<le> requested (ni_requestedResource (NodeInfo_AddPod ps' n p)) name \<and>
      requested (ni_requestedResource (NodeInfo_AddPod ps' n p)) name \<le>
        limit k name * requested (ni_allocatableResource n) name" for name
  proof -
    let ?old = "requested (ni_requestedResource n) name" and ?q = "requested (pod_requests (ps p)) name"
      and ?g = "requested (GetResourceRequest (ps p)) name" and ?c = "requested (ni_allocatableResource n) name"
    have q: "0 \<le> ?q" "?q \<le> ?g" "?g < bound" using p requests_le [of "ps p" name] by (auto simp: modest_def)
    have old: "0 \<le> ?old" "?old \<le> limit k name * ?c" "0 \<le> ?c" "k * ?c < bound" using n by (auto simp: in_capacity_def)
    have "limit k name * ?c \<le> k * ?c" using k old(3) by (intro mult_right_mono) (auto simp: limit_def)
    then have "?old < bound" using old by linarith
    then have "i64 (?old + ?q) = ?old + ?q" using q old bound by (intro i64_id) (simp add: in64_def)
    then have sum: "requested (ni_requestedResource (NodeInfo_AddPod ps' n p)) name = ?old + ?q"
      using requested_AddPod(1) [OF ok, of ps' p name] by (simp add: same_static_requests [OF ps])
    show ?thesis
    proof (cases "?g = 0")
      case True
      then show ?thesis using q old sum by simp
    next
      case False
      have "?g + ?old \<le> limit k name * ?c"
        by (rule left [OF False]) (use q old \<open>?old < bound\<close> in simp_all)
      then show ?thesis using q old sum by simp
    qed
  qed
  show ?thesis
    using n new requested_AddPod(2) [OF ok] room unfolding in_capacity_def by simp
qed

lemma accepts_member: "accepts preds ps p n \<Longrightarrow> (name, pred) \<in> set preds \<Longrightarrow> \<exists>reasons. pred ps p n = Inr (True, reasons)"
  by (fastforce simp: accepts_def)

lemma guards_capacity:
  assumes "(name, PodFitsResources) \<in> set preds"
  shows "guards_for (modest (2 ^ 62)) preds (in_capacity 1 (2 ^ 62))"
  unfolding guards_for_def modest_static
proof (intro allI impI)
  fix ps ps' p n
  assume ps: "same_static ps ps'" and p: "modest (2 ^ 62) (ps p)" and acc: "accepts preds ps p n" and n: "in_capacity 1 (2 ^ 62) n"
  obtain reasons where fits: "PodFitsResources ps p n = Inr (True, reasons)"
    using accepts_member [OF acc assms] by blast
  note acc = PodFitsResources_accepts [OF fits]
  show "in_capacity 1 (2 ^ 62) (NodeInfo_AddPod ps' n p)"
  proof (rule in_capacity_AddPod [OF n p ps])
    fix rname
    assume g: "requested (GetResourceRequest (ps p)) rname \<noteq> 0"
      "0 \<le> requested (GetResourceRequest (ps p)) rname + requested (ni_requestedResource n) rname"
      "requested (GetResourceRequest (ps p)) rname + requested (ni_requestedResource n) rname < 2 * 2 ^ 62"
    then have "\<not> requests_nothing (GetResourceRequest (ps p))" "tested (GetResourceRequest (ps p)) rname"
      using nothing_requested not_tested by blast+
    from acc(2) [OF this(2,1)] show "requested (GetResourceRequest (ps p)) rname + requested (ni_requestedResource n) rname \<le>
        limit 1 rname * requested (ni_allocatableResource n) rname"
      using g by (simp add: i64_id in64_def limit_def)
  qed (use acc(1) in simp_all)
qed

lemma guards_oversubscription:
  assumes "(name, PodFitsResourcesOverSub fs) \<in> set preds" "\<And>node. fl_upto (factor_of fs node) 2"
  shows "guards_for (modest (2 ^ 52)) preds (\<lambda>n. in_capacity 2 (2 ^ 52) n \<and> (\<exists>node. ni_node n = Some node))"
  unfolding guards_for_def modest_static
proof (intro allI impI conjI)
  fix ps ps' p n
  assume ps: "same_static ps ps'" and p: "modest (2 ^ 52) (ps p)" and acc: "accepts preds ps p n"
    and good: "in_capacity 2 (2 ^ 52) n \<and> (\<exists>node. ni_node n = Some node)"
  show "\<exists>node. ni_node (NodeInfo_AddPod ps' n p) = Some node" using good by simp
  obtain node where n: "in_capacity 2 (2 ^ 52) n" "ni_node n = Some node" using good by blast
  obtain reasons where fits: "PodFitsResourcesOverSub fs ps p n = Inr (True, reasons)"
    using accepts_member [OF acc assms(1)] by blast
  note acc = PodFitsResourcesOverSub_accepts [OF fits n(2)]
  have "pods_fail n = []"
    using fits n(2) by (auto simp: PodFitsResourcesOverSub_def Let_def split: if_splits)
  then have room: "int (length (ni_pods n)) + 1 \<le> r_AllowedPodNumber (ni_allocatableResource n)"
    by (simp add: pods_fail_def Let_def split: if_splits)
  show "in_capacity 2 (2 ^ 52) (NodeInfo_AddPod ps' n p)"
  proof (rule in_capacity_AddPod [OF n(1) p ps _ _ room])
    fix rname
    let ?sum = "requested (GetResourceRequest (ps p)) rname + requested (ni_requestedResource n) rname"
    let ?c = "requested (ni_allocatableResource n) rname"
    assume g: "requested (GetResourceRequest (ps p)) rname \<noteq> 0" "0 \<le> ?sum" "?sum < 2 * 2 ^ 52"
    then have some: "\<not> requests_nothing (GetResourceRequest (ps p))" and t: "tested (GetResourceRequest (ps p)) rname"
      using nothing_requested not_tested by blast+
    have sum: "i64 ?sum = ?sum" using g by (simp add: i64_id in64_def)
    have c: "0 \<le> ?c" "2 * ?c < 2 ^ 53" using n(1) by (auto simp: in_capacity_def elim: allE [of _ rname])
    show "?sum \<le> limit 2 rname * ?c"
    proof (cases "rname \<in> {cpu, memory, ephemeral_storage}")
      case True
      have "?sum \<le> 2 * ?c"
        by (rule scaled_room_twice [OF _ assms(2) c g(2)]) (use acc(1) [OF some True] sum g in simp_all)
      with True show ?thesis by (simp add: limit_def)
    next
      case False
      with acc(2) [OF some False t] sum show ?thesis by (simp add: limit_def)
    qed
  qed simp_all
qed

section \<open>Properties\<close>


section \<open>Witness\<close>

text \<open>Two nodes of four cpus and one, and three pods of two: two fit on the first node, the third waits.\<close>

definition two_cpus :: container where
  "two_cpus = \<lparr>ct_Name = ''main'', ct_Image = ''busybox'', ct_Requests = [(cpu, NewMilliQuantity 2000 DecimalSI)], ct_Limits = []\<rparr>"

definition cpu_node :: "string \<Rightarrow> int \<Rightarrow> node_info" where
  "cpu_node name cpus = NodeInfo_SetNode empty_node_info
     \<lparr>node_Name = name, node_Allocatable = [(cpu, NewQuantity cpus DecimalSI), (pods_name, NewQuantity 110 DecimalSI)]\<rparr>"

definition capacity_state :: sched_state where
  "capacity_state = demo_state\<lparr>ss_pods := (\<lambda>p. (demo_store p)\<lparr>pod_Containers := [two_cpus]\<rparr>),
     ss_infos := [(''n0'', cpu_node ''n0'' 4), (''n1'', cpu_node ''n1'' 1)]\<rparr>"

definition capacity_scheduler :: "fit_predicate \<Rightarrow> generic_scheduler" where
  "capacity_scheduler pred = AddPredicate (NewGenericScheduler False) ''PodFitsResources'' pred"

definition two_nodes :: "v1_node list" where
  "two_nodes = map (\<lambda>(name, cpus). \<lparr>node_Name = name, node_Allocatable = [(cpu, NewQuantity cpus DecimalSI),
     (pods_name, NewQuantity 110 DecimalSI)]\<rparr>) [(''n0'', 4), (''n1'', 1)]"

lemma capacity_pass:
  "pass_result (Schedule keep_env (\<lambda>_. capacity_scheduler PodFitsResources) 7 (Inr two_nodes) capacity_state) =
     Some ([(''default/d'', 7)],
       [BindEvent 0 \<lparr>sr_SuggestedHost = ''n0'', sr_EvaluatedNodes = 2, sr_FeasibleNodes = 1\<rparr>,
        BindEvent 2 \<lparr>sr_SuggestedHost = ''n0'', sr_EvaluatedNodes = 2, sr_FeasibleNodes = 1\<rparr>])"
  by code_simp

lemma capacity_state_fields [simp]:
  "ss_pods capacity_state = (\<lambda>p. (demo_store p)\<lparr>pod_Containers := [two_cpus]\<rparr>)"
  "ss_infos capacity_state = [(''n0'', cpu_node ''n0'' 4), (''n1'', cpu_node ''n1'' 1)]"
  by (simp_all add: capacity_state_def)

lemma capacity_ready: "sched_ready capacity_state"
proof -
  have "PodKey ((demo_store p)\<lparr>pod_Containers := [two_cpus]\<rparr>) = PodKey (demo_store p)" for p
    by (simp add: PodKey_def)
  with demo_ready show ?thesis
    by (simp add: sched_ready_def queues_ok_def capacity_state_def demo_state_def queue_inv_def fifo_inv_def three_queue_def NewFIFOQueue_def)
qed

lemma requested_only_cpu:
  assumes "r_Memory r = 0" "r_EphemeralStorage r = 0" "r_ScalarResources r = []"
  shows "requested r name = (if name = cpu then r_MilliCPU r else 0)"
  using assms by (simp add: requested_def resource_get_cases)

lemma two_cpus_requests:
  "pod_requests (ss_pods capacity_state p) = empty_resource\<lparr>r_MilliCPU := 2000\<rparr>"
  "GetResourceRequest (ss_pods capacity_state p) = empty_resource\<lparr>r_MilliCPU := 2000\<rparr>"
proof -
  have c: "addRequests_loop empty_resource [two_cpus] = empty_resource\<lparr>r_MilliCPU := 2000\<rparr>" by code_simp
  have "pod_InitContainers (demo_store p) = []" by (simp add: demo_store_def demo_pod_def empty_pod_def)
  with c show "pod_requests (ss_pods capacity_state p) = empty_resource\<lparr>r_MilliCPU := 2000\<rparr>"
    "GetResourceRequest (ss_pods capacity_state p) = empty_resource\<lparr>r_MilliCPU := 2000\<rparr>"
    by (simp_all add: pod_requests_sum GetResourceRequest_def)
qed

lemma two_cpus_modest: "10000 \<le> bound \<Longrightarrow> modest bound (ss_pods capacity_state p)"
  unfolding modest_def two_cpus_requests by (simp add: requested_only_cpu empty_resource_def)

lemma cpu_node_fields:
  "ni_node (cpu_node name cpus) = Some \<lparr>node_Name = name, node_Allocatable = [(cpu, NewQuantity cpus DecimalSI), (pods_name, NewQuantity 110 DecimalSI)]\<rparr>"
  "ni_pods (cpu_node name cpus) = []" "ni_requestedResource (cpu_node name cpus) = empty_resource"
  by (simp_all add: cpu_node_def NodeInfo_SetNode_def empty_node_info_def)

lemma cpu_node_capacity:
  "ni_allocatableResource (cpu_node name 4) = empty_resource\<lparr>r_MilliCPU := 4000, r_AllowedPodNumber := 110\<rparr>"
  "ni_allocatableResource (cpu_node name 1) = empty_resource\<lparr>r_MilliCPU := 1000, r_AllowedPodNumber := 110\<rparr>"
proof -
  have "NewResource [(cpu, NewQuantity 4 DecimalSI), (pods_name, NewQuantity 110 DecimalSI)] =
      empty_resource\<lparr>r_MilliCPU := 4000, r_AllowedPodNumber := 110\<rparr>"
    "NewResource [(cpu, NewQuantity 1 DecimalSI), (pods_name, NewQuantity 110 DecimalSI)] =
      empty_resource\<lparr>r_MilliCPU := 1000, r_AllowedPodNumber := 110\<rparr>" by code_simp+
  then show "ni_allocatableResource (cpu_node name 4) = empty_resource\<lparr>r_MilliCPU := 4000, r_AllowedPodNumber := 110\<rparr>"
    "ni_allocatableResource (cpu_node name 1) = empty_resource\<lparr>r_MilliCPU := 1000, r_AllowedPodNumber := 110\<rparr>"
    by (simp_all add: cpu_node_def NodeInfo_SetNode_def)
qed

lemma cpu_nodes_good:
  assumes "1 \<le> k" "k \<le> 2" "10000 \<le> bound"
  shows "infos_good (in_capacity k bound) (ss_infos capacity_state)"
proof -
  have ok: "scalars_ok empty_resource" by (simp add: scalars_ok_def empty_resource_def scalar_def in64_def)
  have none: "requested empty_resource name = 0" for name by (simp add: requested_only_cpu empty_resource_def)
  have capacity: "requested (ni_allocatableResource (cpu_node nm c)) name = (if name = cpu then c * 1000 else 0)"
    if "c = 4 \<or> c = 1" for nm c name
    using that by (auto simp: cpu_node_capacity requested_only_cpu empty_resource_def)
  have "in_capacity k bound (cpu_node nm c)" if "c = 4 \<or> c = 1" for nm c
    using assms that by (auto simp: in_capacity_def cpu_node_fields ok none capacity limit_def cpu_node_capacity)
  then show ?thesis by (auto simp: infos_good_def cpu_node_fields split: if_splits)
qed

lemma PodFitsResources_reasons: "gives_reasons [(name, PodFitsResources)] ps p"
  by (auto simp: gives_reasons_def PodFitsResources_def Let_def split: option.splits)


end
