(* ===== verification/UtilFloat.thy ===== *)
theory UtilFloat
  imports Util GoFloat
begin

text \<open>
  The functions of pkg/util/util.go that compute in floating point: comparisons of resource lists with a
  factor. Quantity.Get reads the int64 part of a quantity only: value * 10^scale. The power
  \<^verbatim>\<open>math.Pow(10, scale)\<close> is the nearest float64, as Go's Pow gives it for the scales up to 22 that occur:
  the power of a non-negative scale is exact, that of a negative one a division of 1 by it.
\<close>

definition fl_pow10 :: "int \<Rightarrow> gofloat" where
  "fl_pow10 s =
     (if s \<ge> 0 then fl_of_int float64 (10 ^ nat s)
      else fl_div float64 (fl_of_int float64 1) (fl_of_int float64 (10 ^ nat (- s))))"

definition quantity_Get :: "quantity \<Rightarrow> gofloat" where
  "quantity_Get q = fl_mul float64 (fl_of_int float64 (ia_value (q_i q))) (fl_pow10 (ia_scale (q_i q)))"

text \<open>Multiply scales the int64 part in float32.\<close>

definition quantity_Multiply :: "quantity \<Rightarrow> gofloat \<Rightarrow> quantity" where
  "quantity_Multiply q factor =
     q\<lparr>q_i := (q_i q)\<lparr>ia_value := fl_int64 (fl_mul float32 (fl_of_int float32 (ia_value (q_i q))) factor)\<rparr>\<rparr>"

definition ResourceListMultiply :: "resource_list \<Rightarrow> gofloat \<Rightarrow> resource_list" where
  "ResourceListMultiply r1 factor = fold (\<lambda>(r1Key, r1Val). AList.update r1Key (quantity_Multiply r1Val factor)) r1 r1"

text \<open>A resource the first list lacks reads as the zero Quantity.\<close>

definition get_or_zero :: "resource_list \<Rightarrow> string \<Rightarrow> quantity" where
  "get_or_zero rl k = (case map_of rl k of None \<Rightarrow> zero_quantity | Some q \<Rightarrow> q)"

fun ResourceListLEWithFactor :: "resource_list \<Rightarrow> resource_list \<Rightarrow> gofloat \<Rightarrow> bool" where
  "ResourceListLEWithFactor r1 [] factor = True"
| "ResourceListLEWithFactor r1 ((r2Key, r2Val) # r2) factor =
     (let v1 = quantity_Get (get_or_zero r1 r2Key); v2 = fl_mul float64 (quantity_Get r2Val) factor
      in if fl_lt v2 v1 then False else ResourceListLEWithFactor r1 r2 factor)"

fun ResourceListGEWithFactor :: "resource_list \<Rightarrow> resource_list \<Rightarrow> gofloat \<Rightarrow> bool" where
  "ResourceListGEWithFactor r1 [] factor = True"
| "ResourceListGEWithFactor r1 ((r2Key, r2Val) # r2) factor =
     (let v1 = quantity_Get (get_or_zero r1 r2Key); v2 = fl_mul float64 (quantity_Get r2Val) factor
      in if fl_lt v1 v2 then False else ResourceListGEWithFactor r1 r2 factor)"

text \<open>The comparisons do not depend on the order in which the map is visited.\<close>

lemma LEWithFactor_iff:
  "ResourceListLEWithFactor r1 r2 factor \<longleftrightarrow>
     (\<forall>(k, q) \<in> set r2. \<not> fl_lt (fl_mul float64 (quantity_Get q) factor) (quantity_Get (get_or_zero r1 k)))"
  by (induction r2) (auto simp: Let_def split: if_splits)

lemma GEWithFactor_iff:
  "ResourceListGEWithFactor r1 r2 factor \<longleftrightarrow>
     (\<forall>(k, q) \<in> set r2. \<not> fl_lt (quantity_Get (get_or_zero r1 k)) (fl_mul float64 (quantity_Get q) factor))"
  by (induction r2) (auto simp: Let_def split: if_splits)

end
