(* ===== verification/ProposedScheduler.thy ===== *)
theory ProposedScheduler
  imports GenericScheduler Metrics ResourcePredicates UtilFloat
begin

text \<open>
  pkg/scheduler/proposed_scheduler.go: the scheduler that over-subscribes nodes. Before a pass it looks
  at the metrics of each node: if the requests exceed nine tenths of the node and the usage does not,
  the factor of the node in the package variable NodesOverSubFactors grows by a tenth, up to 2; else it
  becomes 1. The predicate PodFitsResourcesOverSub reads that variable, so a predicate plugin of this
  scheduler is a function of the factors.

  The rest of the file repeats the methods of GenericScheduler, but for the cache of node metrics, which
  it does not keep; ProposedProperties.thy proves that they do the same. What both files share (plugins,
  extenders, preemption, queues) is not repeated here. The scheduler's fail queue is part of \<open>sched_state\<close>.
\<close>

record proposed_scheduler =
  pr_extenders :: "extender list"
  pr_predicates :: "(string \<times> (factors \<Rightarrow> fit_predicate)) list"
  pr_prioritizers :: "priority_config list"
  pr_preemptionEnabled :: bool

definition NewProposedScheduler :: "bool \<Rightarrow> proposed_scheduler" where
  "NewProposedScheduler preemptionEnabled =
     \<lparr>pr_extenders = [], pr_predicates = [], pr_prioritizers = [], pr_preemptionEnabled = preemptionEnabled\<rparr>"

definition Proposed_AddExtender :: "proposed_scheduler \<Rightarrow> extender \<Rightarrow> proposed_scheduler" where
  "Proposed_AddExtender sched ext = sched\<lparr>pr_extenders := pr_extenders sched @ [ext]\<rparr>"

definition Proposed_AddPredicate :: "proposed_scheduler \<Rightarrow> string \<Rightarrow> (factors \<Rightarrow> fit_predicate) \<Rightarrow> proposed_scheduler" where
  "Proposed_AddPredicate sched name pred = sched\<lparr>pr_predicates := AList.update name pred (pr_predicates sched)\<rparr>"

definition Proposed_AddPrioritizer :: "proposed_scheduler \<Rightarrow> priority_config \<Rightarrow> proposed_scheduler" where
  "Proposed_AddPrioritizer sched prioritizer = sched\<lparr>pr_prioritizers := pr_prioritizers sched @ [prioritizer]\<rparr>"

section \<open>The factors\<close>

definition metrics_of :: "metrics \<Rightarrow> string \<Rightarrow> node_metrics" where
  "metrics_of met name =
     (case map_of (m_Nodes met) name of
        None \<Rightarrow> \<lparr>nm_Allocatable = [], nm_RunningPodsNum = 0, nm_TerminatingPodsNum = 0, nm_FailedPodsNum = 0,
                 nm_TotalResourceRequest = [], nm_TotalResourceUsage = [], nm_TotalResourceAllocation = []\<rparr>
      | Some m \<Rightarrow> m)"

definition maxOverSub :: gofloat where
  "maxOverSub = fl_const float64 2 1"

definition crowded :: "node_metrics \<Rightarrow> bool" where
  "crowded m \<longleftrightarrow>
     (let factor = fl_const float64 9 10
      in \<not> ResourceListLEWithFactor (nm_TotalResourceRequest m) (nm_Allocatable m) factor \<and>
         ResourceListLEWithFactor (nm_TotalResourceUsage m) (nm_Allocatable m) factor)"

definition update_factor :: "metrics \<Rightarrow> string \<Rightarrow> factors \<Rightarrow> factors" where
  "update_factor met nodeName fs =
     (if crowded (metrics_of met nodeName)
      then let oversub = fl_min (fl_add float64 (factor_of fs nodeName) (fl_const float64 1 10)) maxOverSub
           in AList.update nodeName oversub fs
      else AList.update nodeName (fl_of_int float64 1) fs)"

text \<open>GlobalMetrics is a nil map before the first metrics are built: the type assertion then panics.\<close>

definition update_factors :: "metrics option \<Rightarrow> node_infos \<Rightarrow> factors \<Rightarrow> factors res" where
  "update_factors globalMetrics nodeInfoMap fs =
     fold_res (\<lambda>(nodeName, _) fs.
         case globalMetrics of
           None \<Rightarrow> Inl (Panic ''interface conversion'')
         | Some met \<Rightarrow> Inr (update_factor met nodeName fs))
       nodeInfoMap fs"

section \<open>Filtering, prioritizing, selecting\<close>

definition Proposed_selectHost :: "host_priority list \<Rightarrow> string res" where
  "Proposed_selectHost priorities =
     (if priorities = [] then Inl EmptyPriorities
      else let maxScores = findMaxScores priorities; idx = length maxScores - 1
           in Inr (pri_Host (priorities ! (maxScores ! idx))))"

text \<open>The predicates as they read the factors.\<close>

definition reading :: "factors \<Rightarrow> (string \<times> (factors \<Rightarrow> fit_predicate)) list \<Rightarrow> predicates" where
  "reading fs preds = map (\<lambda>(name, pred). (name, pred fs)) preds"

definition Proposed_filter ::
  "sched_env \<Rightarrow> proposed_scheduler \<Rightarrow> factors \<Rightarrow> pods \<Rightarrow> pod_ptr \<Rightarrow> v1_node list \<Rightarrow> node_infos \<Rightarrow> pod_queue \<Rightarrow>
     (v1_node list \<times> failed_predicate_map) res" where
  "Proposed_filter env sched fs ps pod nodes nodeInfoMap podQueue =
     res_bind (filterWithPlugins (se_order env (length nodes)) ps pod (reading fs (pr_predicates sched)) nodes
         nodeInfoMap podQueue) (\<lambda>(filtered, failedPredicateMap).
       if filtered \<noteq> [] \<and> pr_extenders sched \<noteq> []
       then run_extender_filters (pr_extenders sched) ps pod nodeInfoMap filtered failedPredicateMap
       else Inr (filtered, failedPredicateMap))"

definition Proposed_prioritize ::
  "sched_env \<Rightarrow> proposed_scheduler \<Rightarrow> pods \<Rightarrow> pod_ptr \<Rightarrow> v1_node list \<Rightarrow> node_infos \<Rightarrow>
     host_priority list res" where
  "Proposed_prioritize env sched ps pod filteredNodes nodeInfoMap =
     (if pr_prioritizers sched = [] \<and> pr_extenders sched = []
      then equal_priorities nodeInfoMap filteredNodes
      else
        res_bind (prioritizeWithPlugins (se_order env (length filteredNodes)) ps pod (pr_prioritizers sched)
            filteredNodes nodeInfoMap) (\<lambda>prioList.
          if pr_extenders sched = [] then Inr prioList
          else res_bind (fold_res (\<lambda>ext. ext_prioritize ext ps pod filteredNodes) (pr_extenders sched) []) (\<lambda>prioMap.
                 Inr (map (\<lambda>prio. prio\<lparr>pri_Score := i64 (pri_Score prio +
                     (case map_of prioMap (pri_Host prio) of None \<Rightarrow> 0 | Some s \<Rightarrow> s))\<rparr>) prioList))))"

definition Proposed_scheduleOne ::
  "sched_env \<Rightarrow> proposed_scheduler \<Rightarrow> factors \<Rightarrow> pods \<Rightarrow> pod_ptr \<Rightarrow> v1_node list res \<Rightarrow> node_infos \<Rightarrow> pod_queue \<Rightarrow>
     schedule_result res" where
  "Proposed_scheduleOne env sched fs ps pod nodeLister nodeInfoMap podQueue =
     res_bind nodeLister (\<lambda>nodes.
       if nodes = [] then Inl ErrNoNodesAvailable
       else
         res_bind (Proposed_filter env sched fs ps pod nodes nodeInfoMap podQueue)
           (\<lambda>(nodesFiltered, failedPredicateMap).
             if nodesFiltered = [] then Inl (FitError pod (length nodes) failedPredicateMap)
             else if length nodesFiltered = 1 then
               Inr \<lparr>sr_SuggestedHost = node_Name (nodesFiltered ! 0),
                    sr_EvaluatedNodes = 1 + length failedPredicateMap, sr_FeasibleNodes = 1\<rparr>
             else
               res_bind (Proposed_prioritize env sched ps pod nodesFiltered nodeInfoMap) (\<lambda>prios.
               res_bind (Proposed_selectHost prios) (\<lambda>host.
                 Inr \<lparr>sr_SuggestedHost = host,
                      sr_EvaluatedNodes = length nodesFiltered + length failedPredicateMap,
                      sr_FeasibleNodes = length nodesFiltered\<rparr>))))"

section \<open>Preempting\<close>

definition Proposed_selectVictimsOnNode ::
  "sched_env \<Rightarrow> proposed_scheduler \<Rightarrow> factors \<Rightarrow> pods \<Rightarrow> pod_ptr \<Rightarrow> node_info option \<Rightarrow> pod_queue \<Rightarrow> victims option res" where
  "Proposed_selectVictimsOnNode env sched fs ps preemptor nodeInfo podQueue =
     (case nodeInfo of
        None \<Rightarrow> Inr None
      | Some nodeInfo \<Rightarrow>
          let nodeInfoCopy = NodeInfo_Clone nodeInfo; pods = ni_pods nodeInfoCopy;
              preds = reading fs (pr_predicates sched)
          in res_bind (collect_victims ps (PodPriority (ps preemptor)) [0..<length pods] pods [] nodeInfoCopy)
               (\<lambda>(potentialVictims, nodeInfoCopy).
             let potentialVictims = se_sort env (HigherPriorityPod ps) potentialVictims
             in res_bind (fits_or_error ps preemptor preds nodeInfoCopy podQueue) (\<lambda>fits.
                  if \<not> fits then Inr None
                  else res_bind (reprieve_pods ps preemptor preds podQueue potentialVictims [] nodeInfoCopy)
                         (\<lambda>victims. Inr (Some victims)))))"

fun Proposed_selectNodesForPreemption ::
  "sched_env \<Rightarrow> proposed_scheduler \<Rightarrow> factors \<Rightarrow> pods \<Rightarrow> pod_ptr \<Rightarrow> node_infos \<Rightarrow> pod_queue \<Rightarrow>
     (v1_node \<times> victims) list \<Rightarrow> v1_node list \<Rightarrow> (v1_node \<times> victims) list res" where
  "Proposed_selectNodesForPreemption env sched fs ps preemptor nodeInfoMap podQueue nodeToVictims [] = Inr nodeToVictims"
| "Proposed_selectNodesForPreemption env sched fs ps preemptor nodeInfoMap podQueue nodeToVictims (node # nodes) =
     res_bind (Proposed_selectVictimsOnNode env sched fs ps preemptor (map_of nodeInfoMap (node_Name node)) podQueue)
       (\<lambda>found. Proposed_selectNodesForPreemption env sched fs ps preemptor nodeInfoMap podQueue
          (case found of None \<Rightarrow> nodeToVictims | Some pods \<Rightarrow> AList.update node pods nodeToVictims) nodes)"

definition Proposed_findPreemption ::
  "sched_env \<Rightarrow> proposed_scheduler \<Rightarrow> factors \<Rightarrow> pods \<Rightarrow> pod_ptr \<Rightarrow> pod_queue \<Rightarrow> v1_node list res \<Rightarrow> node_infos \<Rightarrow>
     failed_predicate_map \<Rightarrow> (v1_node option \<times> pod_ptr list \<times> pod_ptr list) res" where
  "Proposed_findPreemption env sched fs ps preemptor podQueue nodeLister nodeInfoMap failedPredicates =
     res_bind (PodKey (ps preemptor)) (\<lambda>preemptorKey.
       if \<not> podEligibleToPreemptOthers ps preemptor nodeInfoMap then Inr (None, [], [])
       else
         res_bind nodeLister (\<lambda>allNodes.
           if allNodes = [] then Inl ErrNoNodesAvailable
           else let potentialNodes = nodesWherePreemptionMightHelp allNodes failedPredicates
                in if potentialNodes = [] then Inr (None, [], [preemptor])
                   else
                     res_bind (Proposed_selectNodesForPreemption env sched fs ps preemptor nodeInfoMap
                         podQueue [] potentialNodes) (\<lambda>nodeToVictims.
                     res_bind (pickOneNodeForPreemption ps (se_range env nodeToVictims)) (\<lambda>candidate.
                       case candidate of
                         None \<Rightarrow> Inr (None, [], [])
                       | Some node \<Rightarrow>
                           let nominatedPods = getLowerPriorityNominatedPods ps preemptor (node_Name node) podQueue
                           in case map_of nodeInfoMap (node_Name node) of
                                None \<Rightarrow> Inl (NoNodeNamed (node_Name node))
                              | Some nodeInfo \<Rightarrow>
                                  Inr (ni_node nodeInfo,
                                       (case map_of nodeToVictims node of None \<Rightarrow> [] | Some pods \<Rightarrow> pods),
                                       nominatedPods)))))"

definition Proposed_preempt ::
  "sched_env \<Rightarrow> proposed_scheduler \<Rightarrow> factors \<Rightarrow> pods \<Rightarrow> pod_ptr \<Rightarrow> pod_queue \<Rightarrow> v1_node list res \<Rightarrow> node_infos \<Rightarrow>
     failed_predicate_map \<Rightarrow> (event list \<times> pods \<times> pod_queue) res" where
  "Proposed_preempt env sched fs ps preemptor podQueue nodeLister nodeInfoMap failedPredicates =
     res_bind (Proposed_findPreemption env sched fs ps preemptor podQueue nodeLister nodeInfoMap failedPredicates)
       (\<lambda>(node, victims, nominatedPodsToClear).
         case node of
           None \<Rightarrow>
             res_bind (clear_nominations ps podQueue nominatedPodsToClear) (\<lambda>(ps', podQueue').
               Inr ([], ps', podQueue'))
         | Some node \<Rightarrow>
             (case Queue_UpdateNominatedNode ps podQueue preemptor (node_Name node) of
                (ps1, r) \<Rightarrow>
                  res_bind r (\<lambda>podQueue1.
                  res_bind (clear_nominations ps1 podQueue1 nominatedPodsToClear) (\<lambda>(ps', podQueue').
                    Inr (map (\<lambda>victim. DeleteEvent (pod_Namespace (ps1 victim)) (pod_Name (ps1 victim))
                           (node_Name node)) victims,
                         ps', podQueue')))))"

section \<open>The scheduling loop\<close>

definition Proposed_failed ::
  "sched_env \<Rightarrow> proposed_scheduler \<Rightarrow> factors \<Rightarrow> clock \<Rightarrow> v1_node list res \<Rightarrow> pod_ptr \<Rightarrow> go_error \<Rightarrow>
     sched_state \<times> event list \<Rightarrow> (sched_state \<times> event list) outcome" where
  "Proposed_failed env sched fs clk nodeLister pod err = (\<lambda>(st, results).
     if se_KeepScheduling env then
       let failQueue = (case FIFOQueue_Push (ss_pods st) (ss_failQueue st) pod of
              Inl _ \<Rightarrow> ss_failQueue st | Inr f \<Rightarrow> f)
       in (case Queue_Pop (ss_pods st) (ss_queue st) of
             (podQueue, r) \<Rightarrow>
               let st' = st\<lparr>ss_failQueue := failQueue, ss_queue := podQueue\<rparr>
               in if is_panic_res r then Fail (projl r)
                  else if FIFOQueue_Len failQueue > se_KeepSchedulingTimeout env
                  then Break (st', results) else Continue (st', results))
     else
       let st' = st\<lparr>ss_pods := updatePodStatusSchedulingFailure env clk (ss_pods st) pod err\<rparr>
       in case err_FitError err of
            Some failedPredicates \<Rightarrow>
              if pr_preemptionEnabled sched then
                (case Proposed_preempt env sched fs (ss_pods st') pod (ss_queue st') nodeLister (ss_infos st')
                        failedPredicates of
                   Inl e \<Rightarrow> Fail e
                 | Inr (delEvents, ps, podQueue) \<Rightarrow>
                     Break (st'\<lparr>ss_pods := ps, ss_queue := podQueue\<rparr>, results @ delEvents))
              else Break (st', results)
          | None \<Rightarrow> Return (st', []))"

definition Proposed_placed ::
  "clock \<Rightarrow> pod_ptr \<Rightarrow> schedule_result \<Rightarrow> sched_state \<times> event list \<Rightarrow> (sched_state \<times> event list) outcome" where
  "Proposed_placed clk pod result = (\<lambda>(st, results).
     let host = sr_SuggestedHost result
     in case Queue_Pop (ss_pods st) (ss_queue st) of
          (_, Inl e) \<Rightarrow> Fail (if is_panic e then e else Panic ''nil pointer dereference'')
        | (podQueue, Inr pod) \<Rightarrow>
            let ps = updatePodStatusSchedulingSuccess clk (ss_pods st) pod
            in (case Queue_RemoveNominatedNode ps podQueue pod of
                  Inl e \<Rightarrow> Fail e
                | Inr (ps, podQueue) \<Rightarrow>
                    (case map_of (ss_infos st) host of
                       None \<Rightarrow> Fail (NoNodeNamed host)
                     | Some nodeInfo \<Rightarrow>
                         Continue (st\<lparr>ss_pods := ps, ss_queue := podQueue,
                             ss_infos := AList.update host (NodeInfo_AddPod ps nodeInfo pod) (ss_infos st)\<rparr>,
                           results @ [BindEvent pod result]))))"

definition Proposed_step ::
  "sched_env \<Rightarrow> proposed_scheduler \<Rightarrow> factors \<Rightarrow> clock \<Rightarrow> v1_node list res \<Rightarrow>
     sched_state \<times> event list \<Rightarrow> (sched_state \<times> event list) outcome" where
  "Proposed_step env sched fs clk nodeLister = (\<lambda>(st, results).
     case Queue_Front (ss_queue st) of
       (podQueue, Inl e) \<Rightarrow>
         if e = ErrEmptyQueue then Break (st\<lparr>ss_queue := podQueue\<rparr>, results)
         else Fail (if is_panic e then e else ResultError ''Unexpected error raised by Queueu.Pop()'')
     | (podQueue, Inr pod) \<Rightarrow>
         let st = st\<lparr>ss_queue := podQueue\<rparr>
         in case PodKey (ss_pods st pod) of
              Inl e \<Rightarrow> Fail e
            | Inr podKey \<Rightarrow>
                (case Proposed_scheduleOne env sched fs (ss_pods st) pod nodeLister (ss_infos st) (ss_queue st) of
                   Inl err \<Rightarrow>
                     if is_panic err then Fail err
                     else Proposed_failed env sched fs clk nodeLister pod err (st, results)
                 | Inr result \<Rightarrow> Proposed_placed clk pod result (st, results)))"

partial_function (option) Proposed_loop ::
  "sched_env \<Rightarrow> proposed_scheduler \<Rightarrow> factors \<Rightarrow> clock \<Rightarrow> v1_node list res \<Rightarrow>
     sched_state \<times> event list \<Rightarrow> (sched_state \<times> event list) res option" where
  "Proposed_loop env sched fs clk nodeLister s =
     (case Proposed_step env sched fs clk nodeLister s of
        Continue s' \<Rightarrow> Proposed_loop env sched fs clk nodeLister s'
      | Break s' \<Rightarrow> Some (Schedule_finish env s')
      | Return s' \<Rightarrow> Some (Inr s')
      | Fail e \<Rightarrow> Some (Inl e))"

declare Proposed_loop.simps [code]

text \<open>A pass also returns the factors, which the next one starts from.\<close>

definition Proposed_Schedule ::
  "sched_env \<Rightarrow> proposed_scheduler \<Rightarrow> metrics option \<Rightarrow> clock \<Rightarrow> v1_node list res \<Rightarrow> factors \<Rightarrow> sched_state \<Rightarrow>
     (factors \<times> sched_state \<times> event list) res option" where
  "Proposed_Schedule env sched globalMetrics clk nodeLister fs st =
     (case update_factors globalMetrics (ss_infos st) fs of
        Inl e \<Rightarrow> Some (Inl e)
      | Inr fs' \<Rightarrow>
          (case Proposed_loop env sched fs' clk nodeLister (st, []) of
             None \<Rightarrow> None
           | Some r \<Rightarrow> Some (res_bind r (\<lambda>(st', results). Inr (fs', st', results)))))"

end
