(* ===== verification/ProposedProperties.thy ===== *)
theory ProposedProperties
  imports ProposedScheduler CapacityProperties SchedulerContract
begin

text \<open>
  The scheduler that over-subscribes does the same as GenericScheduler run with predicates that read the
  updated factors, except that it leaves the cache of node metrics alone; so what is proved of the
  generic scheduler holds of it. Its factors stay between 0 and 2, and with PodFitsResourcesOverSub no
  node is ever promised more than twice over.
\<close>

section \<open>The same operations\<close>

definition as_generic :: "factors \<Rightarrow> proposed_scheduler \<Rightarrow> generic_scheduler" where
  "as_generic fs sched =
     \<lparr>gs_extenders = pr_extenders sched, gs_predicates = reading fs (pr_predicates sched),
      gs_prioritizers = pr_prioritizers sched, gs_preemptionEnabled = pr_preemptionEnabled sched\<rparr>"

lemma as_generic_fields [simp]:
  "gs_extenders (as_generic fs sched) = pr_extenders sched"
  "gs_predicates (as_generic fs sched) = reading fs (pr_predicates sched)"
  "gs_prioritizers (as_generic fs sched) = pr_prioritizers sched"
  "gs_preemptionEnabled (as_generic fs sched) = pr_preemptionEnabled sched"
  by (simp_all add: as_generic_def)

named_theorems proposed "the methods of ProposedScheduler in terms of those of GenericScheduler"

lemma Proposed_selectHost_generic [proposed]: "Proposed_selectHost = selectHost"
  by (intro ext) (simp only: Proposed_selectHost_def selectHost_def)

lemma Proposed_filter_generic [proposed]: "Proposed_filter env sched fs = sched_filter env (as_generic fs sched)"
  by (intro ext) (simp only: Proposed_filter_def sched_filter_def as_generic_fields)

lemma Proposed_prioritize_generic: "Proposed_prioritize env sched = sched_prioritize env (as_generic fs sched)"
  by (intro ext) (simp only: Proposed_prioritize_def sched_prioritize_def as_generic_fields)

lemma Proposed_scheduleOne_generic [proposed]: "Proposed_scheduleOne env sched fs = scheduleOne env (as_generic fs sched)"
  by (intro ext)
    (simp only: Proposed_scheduleOne_def scheduleOne_def proposed Proposed_prioritize_generic [of env sched fs])

lemma Proposed_selectVictims_generic [proposed]:
  "Proposed_selectVictimsOnNode env sched fs ps p = selectVictimsOnNode env ps p (reading fs (pr_predicates sched))"
  by (intro ext) (simp only: Proposed_selectVictimsOnNode_def selectVictimsOnNode_def Let_def)

lemma Proposed_selectNodes_generic [proposed]:
  "Proposed_selectNodesForPreemption env sched fs ps p infos q found nodes =
     selectNodesForPreemption env ps p (reading fs (pr_predicates sched)) infos q found nodes"
  by (induction nodes arbitrary: found) (simp_all add: proposed)

lemma Proposed_findPreemption_generic [proposed]:
  "Proposed_findPreemption env sched fs = findPreemption env (as_generic fs sched)"
  by (intro ext) (simp only: Proposed_findPreemption_def findPreemption_def proposed as_generic_fields)

lemma Proposed_preempt_generic [proposed]: "Proposed_preempt env sched fs = preempt env (as_generic fs sched)"
  by (intro ext) (simp only: Proposed_preempt_def preempt_def proposed)

lemma Proposed_failed_generic [proposed]:
  "Proposed_failed env sched fs clk lister p err = Schedule_failed env (as_generic fs sched) clk lister p err"
  by (simp only: Proposed_failed_def Schedule_failed_def proposed as_generic_fields)

section \<open>The same pass, but for the cache\<close>

definition with_cache :: "(string \<times> cached_metrics) list \<Rightarrow> sched_state \<times> event list \<Rightarrow> sched_state \<times> event list" where
  "with_cache c = (\<lambda>(st, results). (st\<lparr>ss_cache := c\<rparr>, results))"

lemma Schedule_failed_cache:
  "Schedule_failed env sched clk lister p err (with_cache c s) =
     map_outcome (with_cache c) (Schedule_failed env sched clk lister p err s)"
proof -
  obtain st results where s: "s = (st, results)" by force
  show ?thesis
    by (simp add: s with_cache_def Schedule_failed_def Let_def split: prod.split sum.split option.split)
qed

lemma Proposed_placed_cache:
  "Proposed_placed clk p result (with_cache c s) = map_outcome (with_cache c) (Schedule_placed clk p result s)"
proof -
  obtain st results where s: "s = (st, results)" by force
  show ?thesis
    by (simp add: s with_cache_def Schedule_placed_def Proposed_placed_def Let_def split: prod.split sum.split option.split)
qed

lemma Proposed_step_cache:
  "Proposed_step env sched fs clk lister (with_cache c s) =
     map_outcome (with_cache c) (Schedule_step env (\<lambda>_. as_generic fs sched) clk lister s)"
proof -
  obtain st results where s: "s = (st, results)" by force
  obtain q r where front: "Queue_Front (ss_queue st) = (q, r)" by force
  have commute: "st\<lparr>ss_cache := c, ss_queue := q\<rparr> = st\<lparr>ss_queue := q, ss_cache := c\<rparr>" by simp
  show ?thesis
    using Schedule_failed_cache [of env "as_generic fs sched" clk lister _ _ c "(st\<lparr>ss_queue := q\<rparr>, results)"]
      Proposed_placed_cache [of clk _ _ c "(st\<lparr>ss_queue := q\<rparr>, results)"]
    by (simp add: s front Proposed_step_def Schedule_step_def with_cache_def proposed Let_def commute split: sum.split)
qed

lemma Schedule_finish_cache: "Schedule_finish env (with_cache c s) = map_sum id (with_cache c) (Schedule_finish env s)"
proof -
  obtain st results where s: "s = (st, results)" by force
  show ?thesis
    by (cases "drain_failQueue (ss_pods st) (ss_failQueue st) (ss_queue st)")
      (auto simp: s with_cache_def Schedule_finish_def)
qed

lemma Proposed_loop_cache:
  "Proposed_loop env sched fs clk lister (with_cache c s) =
     map_option (map_sum id (with_cache c)) (Schedule_loop env (\<lambda>_. as_generic fs sched) clk lister s)"
proof (induction "queue_size (ss_queue (fst s))" arbitrary: s rule: less_induct)
  case less
  note step = Proposed_step_cache [of env sched fs clk lister c s]
  show ?case
  proof (cases "Schedule_step env (\<lambda>_. as_generic fs sched) clk lister s")
    case (Continue s')
    from less.hyps [OF step_smaller [OF Continue]] show ?thesis
      by (subst Proposed_loop.simps, subst Schedule_loop.simps) (simp add: step Continue)
  qed (subst Proposed_loop.simps, subst Schedule_loop.simps, simp add: step Schedule_finish_cache)+
qed

text \<open>The factors.\<close>

lemma update_factors_ok:
  "update_factors (Some met) infos fs = Inr (foldl (\<lambda>fs (name, _). update_factor met name fs) fs infos)"
  by (induction infos arbitrary: fs) (auto simp: update_factors_def)

lemma update_factors_Inr:
  assumes "update_factors globalMetrics infos fs = Inr fs'"
  shows "infos = [] \<and> fs' = fs \<or> (\<exists>met. globalMetrics = Some met \<and> fs' = foldl (\<lambda>fs (name, _). update_factor met name fs) fs infos)"
proof (cases globalMetrics)
  case None
  with assms show ?thesis by (cases infos) (auto simp: update_factors_def)
next
  case (Some met)
  with assms show ?thesis by (simp add: update_factors_ok)
qed

lemma update_factors_Inl:
  assumes "update_factors globalMetrics infos fs = Inl e"
  shows "globalMetrics = None \<and> infos \<noteq> [] \<and> e = Panic ''interface conversion''"
proof (cases globalMetrics)
  case None
  with assms show ?thesis by (cases infos) (auto simp: update_factors_def)
next
  case (Some met)
  with assms show ?thesis by (simp add: update_factors_ok)
qed

definition factors_ok :: "factors \<Rightarrow> bool" where
  "factors_ok fs \<longleftrightarrow> (\<forall>name. fl_upto (factor_of fs name) 2)"

lemma upto_mono: "fl_upto x i \<Longrightarrow> i \<le> j \<Longrightarrow> fl_upto x j"
  by (auto simp: fl_upto_def intro: order_trans)

lemma factor_constants:
  "fl_upto (fl_of_int float64 1) 2" "fl_upto (fl_const float64 1 10) 1" "fl_upto maxOverSub 2"
proof -
  show "fl_upto (fl_const float64 1 10) 1"
    using round_quot_unit [of float64 10 1] by (simp add: fl_const_def fl_upto_def)
  have "is_int_val (fl_of_int float64 1) 1" "is_int_val (fl_of_int float64 2) 2"
    by (rule fl_of_int_exact; simp)+
  then show "fl_upto (fl_of_int float64 1) 2" "fl_upto maxOverSub 2"
    by (simp_all add: is_int_val_def fl_upto_def maxOverSub_def fl_const_def fl_of_int_def)
qed

lemma update_factor_ok:
  assumes "factors_ok fs"
  shows "factors_ok (update_factor met name fs)"
proof -
  have "fl_upto (fl_add float64 (factor_of fs name) (fl_const float64 1 10)) (2 + 1)"
    by (rule fl_add_upto) (use assms factor_constants in \<open>simp_all add: factors_ok_def\<close>)
  note new = fl_min_upto [OF this factor_constants(3)]
  show ?thesis
    using assms new factor_constants(1)
    by (auto simp: factors_ok_def update_factor_def Let_def factor_of_def update_conv')
qed

lemma update_factors_bounded: "update_factors globalMetrics infos fs = Inr fs' \<Longrightarrow> factors_ok fs \<Longrightarrow> factors_ok fs'"
proof -
  have "factors_ok fs \<Longrightarrow> factors_ok (foldl (\<lambda>fs (name, _). update_factor met name fs) fs infos)" for met
    by (induction infos arbitrary: fs) (auto simp: update_factor_ok)
  then show "update_factors globalMetrics infos fs = Inr fs' \<Longrightarrow> factors_ok fs \<Longrightarrow> factors_ok fs'"
    using update_factors_Inr by blast
qed

section \<open>The contract of a scheduler\<close>

text \<open>A pass with the factors as they are after the update.\<close>

definition proposed_pass :: "sched_env \<Rightarrow> proposed_scheduler \<Rightarrow> factors \<Rightarrow> scheduler" where
  "proposed_pass env sched fs clk lister st = Proposed_loop env sched fs clk lister (st, [])"

lemma sched_ready_cache [simp]: "sched_ready (st\<lparr>ss_cache := c\<rparr>) = sched_ready st"
  by (simp add: sched_ready_def)

lemma all_pods_cache [simp]: "all_pods (st\<lparr>ss_cache := c\<rparr>) = all_pods st"
  by (simp add: all_pods_def)

lemma proposed_pass_generic:
  "proposed_pass env sched fs clk lister st =
     map_option (map_sum id (with_cache (ss_cache st))) (Schedule env (\<lambda>_. as_generic fs sched) clk lister st)"
  using Proposed_loop_cache [of env sched fs clk lister "ss_cache st" "(st, [])"]
  by (simp add: proposed_pass_def Schedule_def with_cache_def)

lemma proposed_pass_Inr:
  assumes "proposed_pass env sched fs clk lister st = Some (Inr (st', events))"
  obtains st1 where "Schedule env (\<lambda>_. as_generic fs sched) clk lister st = Some (Inr (st1, events))"
    "st' = st1\<lparr>ss_cache := ss_cache st\<rparr>"
proof -
  obtain r where r: "Schedule env (\<lambda>_. as_generic fs sched) clk lister st = Some r"
    "map_sum id (with_cache (ss_cache st)) r = Inr (st', events)"
    using assms by (auto simp: proposed_pass_generic)
  then obtain st1 ev where "r = Inr (st1, ev)" by (cases r) auto
  with r that show thesis by (simp add: with_cache_def)
qed

interpretation proposed: scheduler_returns "proposed_pass env sched fs" for env sched fs
  by unfold_locales (use generic.returns in \<open>fastforce simp: proposed_pass_generic\<close>)

interpretation proposed_keep: scheduler_contract "proposed_pass (keeping env) sched fs" for env sched fs
proof (unfold_locales, goal_cases)
  case (1 st clk lister st' events)
  from 1(2) show ?case by (rule proposed_pass_Inr) (use keep.status_only [OF 1(1)] in auto)
next
  case (2 st clk lister st' events)
  from 2(2) show ?case by (rule proposed_pass_Inr) (use keep.ready_again [OF 2(1)] in auto)
next
  case (3 st clk lister st' events)
  from 3(2) show ?case by (rule proposed_pass_Inr) (use keep.conserves [OF 3(1)] in auto)
next
  case (4 st clk lister st' events)
  from 4(2) show ?case by (rule proposed_pass_Inr) (use keep.disjoint [OF 4(1)] in auto)
next
  case (5 st clk lister st' events)
  from 5(2) show ?case by (rule proposed_pass_Inr) (use keep.once [OF 5(1)] in auto)
qed

lemma keeping_id: "se_KeepScheduling env \<Longrightarrow> keeping env = env"
  by (simp add: keeping_def)

lemma Proposed_Schedule_Inr:
  assumes "Proposed_Schedule env sched globalMetrics clk lister fs st = Some (Inr (fs', st', events))"
  shows "update_factors globalMetrics (ss_infos st) fs = Inr fs'"
    "proposed_pass env sched fs' clk lister st = Some (Inr (st', events))"
  using assms by (auto simp: Proposed_Schedule_def proposed_pass_def res_bind_Inr_iff split: sum.splits option.splits)

section \<open>Properties\<close>

text \<open>
  C12: A pass of ProposedScheduler is a pass of GenericScheduler whose predicates read the updated factors, with
  the same result, events and errors; only the cache of node metrics stays as it was. The update itself
  panics exactly if there are nodes and no metrics have been built yet.
\<close>

theorem proposed_is_generic:
  "(\<exists>e. update_factors globalMetrics (ss_infos st) fs = Inl e \<and> globalMetrics = None \<and> ss_infos st \<noteq> [] \<and>
      is_panic e \<and> Proposed_Schedule env sched globalMetrics clk lister fs st = Some (Inl e)) \<or>
   (\<exists>fs' r. update_factors globalMetrics (ss_infos st) fs = Inr fs' \<and>
      Schedule env (\<lambda>_. as_generic fs' sched) clk lister st = Some r \<and>
      Proposed_Schedule env sched globalMetrics clk lister fs st =
        Some (res_bind r (\<lambda>(st', events). Inr (fs', st'\<lparr>ss_cache := ss_cache st\<rparr>, events))))"
proof (cases "update_factors globalMetrics (ss_infos st) fs")
  case (Inl e)
  then have "globalMetrics = None" "ss_infos st \<noteq> []" "e = Panic ''interface conversion''"
    using update_factors_Inl by blast+
  with Inl show ?thesis by (simp add: Proposed_Schedule_def)
next
  case (Inr fs')
  obtain r where r: "Schedule env (\<lambda>_. as_generic fs' sched) clk lister st = Some r"
    using generic.returns by blast
  have "Proposed_Schedule env sched globalMetrics clk lister fs st =
      Some (res_bind r (\<lambda>(st', events). Inr (fs', st'\<lparr>ss_cache := ss_cache st\<rparr>, events)))"
    using Inr r proposed_pass_generic [of env sched fs' clk lister st]
    by (cases r) (auto simp: Proposed_Schedule_def proposed_pass_def with_cache_def)
  with Inr r show ?thesis by blast
qed

text \<open>
  With KeepScheduling a pass of ProposedScheduler loses no pod and places none twice: each pod that was
  pending or waiting is afterwards pending, or in exactly one bind event, and the queues are sound again.
\<close>

theorem proposed_conserves:
  assumes "sched_ready st" "se_KeepScheduling env"
    "Proposed_Schedule env sched globalMetrics clk lister fs st = Some (Inr (fs', st', events))"
  shows "all_pods st = all_pods st' \<union> set (placed events) \<and> all_pods st' \<inter> set (placed events) = {} \<and>
    distinct (placed events) \<and> sched_ready st' \<and> only_status (ss_pods st) (ss_pods st')"
proof -
  have pass: "proposed_pass (keeping env) sched fs' clk lister st = Some (Inr (st', events))"
    using Proposed_Schedule_Inr(2) [OF assms(3)] by (simp add: keeping_id [OF assms(2)])
  show ?thesis
    using proposed_keep.conserves [OF assms(1) pass] proposed_keep.disjoint [OF assms(1) pass]
      proposed_keep.once [OF assms(1) pass] proposed_keep.ready_again [OF assms(1) pass]
      proposed_keep.status_only [OF assms(1) pass] by blast
qed


section \<open>Witnesses\<close>

text \<open>
  The first node of the example has all its four cpus requested and uses one: its factor of 1.9 grows to
  the bound of 2, and all three pods of two cpus are placed on it.
\<close>

definition node_load :: "int \<Rightarrow> int \<Rightarrow> int \<Rightarrow> node_metrics" where
  "node_load allocatable request usage =
     \<lparr>nm_Allocatable = [(cpu, NewQuantity allocatable DecimalSI)], nm_RunningPodsNum = 1, nm_TerminatingPodsNum = 0,
      nm_FailedPodsNum = 0, nm_TotalResourceRequest = [(cpu, NewQuantity request DecimalSI)],
      nm_TotalResourceUsage = [(cpu, NewQuantity usage DecimalSI)], nm_TotalResourceAllocation = []\<rparr>"

definition crowded_metrics :: metrics where
  "crowded_metrics = \<lparr>m_Clock = 7, m_Nodes = [(''n0'', node_load 4 4 1), (''n1'', node_load 1 0 0)], m_Pods = [],
     m_Queue = Queue_Metrics (Fifo NewFIFOQueue) (Fin 1 0) (Fin 0 0) (Fin 0 0) (Fin 0 0)\<rparr>"

definition oversub_scheduler :: proposed_scheduler where
  "oversub_scheduler = Proposed_AddPredicate (NewProposedScheduler False) ''PodFitsResources'' PodFitsResourcesOverSub"

definition old_factors :: factors where
  "old_factors = [(''n0'', fl_const float64 19 10), (''n1'', fl_of_int float64 1)]"

definition oversub_events :: "event list" where
  "oversub_events = map (\<lambda>p. BindEvent p \<lparr>sr_SuggestedHost = ''n0'', sr_EvaluatedNodes = 2, sr_FeasibleNodes = 1\<rparr>) [0, 2, 7]"

definition proposed_result ::
  "(factors \<times> sched_state \<times> event list) res option \<Rightarrow> (factors \<times> event list) option" where
  "proposed_result r = (case r of Some (Inr (fs, st, events)) \<Rightarrow> Some (fs, events) | _ \<Rightarrow> None)"

lemma oversub_pass:
  "proposed_result (Proposed_Schedule keep_env oversub_scheduler (Some crowded_metrics) 7 (Inr two_nodes) old_factors capacity_state) =
     Some ([(''n0'', maxOverSub), (''n1'', fl_of_int float64 1)], oversub_events)"
  by code_simp

lemma oversub_passD:
  obtains st' where "Proposed_Schedule keep_env oversub_scheduler (Some crowded_metrics) 7 (Inr two_nodes) old_factors capacity_state =
    Some (Inr ([(''n0'', maxOverSub), (''n1'', fl_of_int float64 1)], st', oversub_events))"
  using oversub_pass by (auto simp: proposed_result_def split: option.splits sum.splits)

lemma old_factors_ok: "factors_ok old_factors"
proof -
  have "fl_upto (fl_const float64 19 10) 2"
    using round_quot_le [of float64 10 19 2] by (simp add: fl_const_def fl_upto_def)
  moreover have "fl_upto (Fin 0 0) 2" by (simp add: upto_Fin)
  ultimately show ?thesis using factor_constants(1) by (auto simp: factors_ok_def factor_of_def old_factors_def)
qed

lemma keep_env_facts: "env_ok keep_env" "se_KeepScheduling keep_env"
  using demo_sched_env_ok by (simp_all add: env_ok_def keep_env_def)


theorem proposed_conserves_witness:
  "\<exists>fs' st'. Proposed_Schedule keep_env oversub_scheduler (Some crowded_metrics) 7 (Inr two_nodes) old_factors capacity_state =
       Some (Inr (fs', st', oversub_events)) \<and> all_pods capacity_state = all_pods st' \<union> {0, 2, 7}"
proof -
  obtain st' where run: "Proposed_Schedule keep_env oversub_scheduler (Some crowded_metrics) 7 (Inr two_nodes) old_factors capacity_state =
    Some (Inr ([(''n0'', maxOverSub), (''n1'', fl_of_int float64 1)], st', oversub_events))" by (rule oversub_passD)
  have "set (placed oversub_events) = {0, 2, 7}" by (simp add: oversub_events_def)
  with proposed_conserves [OF capacity_ready keep_env_facts(2) run] run show ?thesis by metis
qed

text \<open>
  A node without a factor does not start from 1: the map gives 0 for it, so the first increase makes the
  factor a tenth, and a node of four cpus that is crowded by requests has room for less than half a cpu.
  On a node that is not crowded the same pod is accepted.
\<close>

theorem missing_factor_shrinks:
  "factor_of (update_factor crowded_metrics ''n0'' []) ''n0'' = fl_const float64 1 10 \<and>
   PodFitsResourcesOverSub (update_factor crowded_metrics ''n0'' []) (ss_pods capacity_state) 0 (cpu_node ''n0'' 4) =
     Inr (False, [InsufficientResource cpu 2000 0 4000]) \<and>
   PodFitsResourcesOverSub [(''n0'', fl_of_int float64 1)] (ss_pods capacity_state) 0 (cpu_node ''n0'' 4) = Inr (True, [])"
  by code_simp

end
