(* ===== verification/Formatter.thy ===== *)
theory Formatter
  imports Metrics UtilFloat "HOL-Library.List_Lexorder" "HOL-Library.Char_ord"
begin

text \<open>
  pkg/metrics: the formatters that turn the metrics of a tick into text, and the writer that puts the text
  into a file. The formatters are handed the generic map of Metrics, whose values they assert to be of the
  expected types: \<open>metrics_map\<close> is that map, \<open>to_map\<close> the one BuildMetrics fills. RFC 3339 formatting of a
  clock, JSON marshalling and the results of the operating system are parameters. Text is ASCII, so that
  \<^verbatim>\<open>%-16s\<close>, which counts runes, counts characters.
\<close>

section \<open>Printing\<close>

definition newline :: string where
  "newline = [CHR 0x0A]"

fun digits :: "nat \<Rightarrow> string" where
  "digits n = (if n < 10 then [char_of (48 + n)] else digits (n div 10) @ [char_of (48 + n mod 10)])"

declare digits.simps [simp del]

definition decimal :: "int \<Rightarrow> string" where
  "decimal i = (if i < 0 then ''-'' @ digits (nat (- i)) else digits (nat i))"

text \<open>\<^verbatim>\<open>%-8d \<close> and the like: left-justified in a column, then a space.\<close>

definition column :: "nat \<Rightarrow> string \<Rightarrow> string" where
  "column width s = s @ replicate (width - length s) CHR '' '' @ '' ''"

section \<open>The map of metrics\<close>

datatype metrics_value =
    TextValue string
  | NodesValue "(string \<times> node_metrics) list"
  | PodsValue pods_metrics
  | QueueValue "gofloat queue_metrics"
  | OtherValue

type_synonym metrics_map = "(string \<times> metrics_value) list"

definition to_map :: "(clock \<Rightarrow> string) \<Rightarrow> metrics \<Rightarrow> metrics_map" where
  "to_map rfc3339 met =
     [(''Clock'', TextValue (rfc3339 (m_Clock met))), (''Nodes'', NodesValue (m_Nodes met)),
      (''Pods'', PodsValue (m_Pods met)), (''Queue'', QueueValue (m_Queue met))]"

fun is_text :: "metrics_value option \<Rightarrow> bool" where
  "is_text (Some (TextValue _)) = True" | "is_text _ = False"

fun is_nodes :: "metrics_value option \<Rightarrow> bool" where
  "is_nodes (Some (NodesValue _)) = True" | "is_nodes _ = False"

fun is_pods :: "metrics_value option \<Rightarrow> bool" where
  "is_pods (Some (PodsValue _)) = True" | "is_pods _ = False"

fun is_queue :: "metrics_value option \<Rightarrow> bool" where
  "is_queue (Some (QueueValue _)) = True" | "is_queue _ = False"

definition metrics_keys :: "string list" where
  "metrics_keys = [''Clock'', ''Nodes'', ''Pods'', ''Queue'']"

definition quoted :: "string \<Rightarrow> string" where
  "quoted s = [CHR 0x22] @ s @ [CHR 0x22]"

definition validateMetrics :: "metrics_map \<Rightarrow> unit res" where
  "validateMetrics mets =
     (case List.find (\<lambda>key. map_of mets key = None) metrics_keys of
        Some key \<Rightarrow> Inl (ResultError (''No key '' @ quoted key @ '' in metrics''))
      | None \<Rightarrow>
          if \<not> is_text (map_of mets ''Clock'')
          then Inl (ResultError (''Type assertion failed: '' @ quoted ''Clock'' @ '' field of metrics is not string''))
          else if \<not> is_nodes (map_of mets ''Nodes'')
          then Inl (ResultError (''Type assertion failed: '' @ quoted ''Nodes'' @ '' field of metrics is not map[string]node.Metrics''))
          else if \<not> is_pods (map_of mets ''Pods'')
          then Inl (ResultError (''Type assertion failed: '' @ quoted ''Pods'' @ '' field of metrics is not map[string]pod.Metrics''))
          else if \<not> is_queue (map_of mets ''Queue'')
          then Inl (ResultError (''Type assertion failed: '' @ quoted ''Queue'' @ '' field of metrics is not queue.Metrics''))
          else Inr ())"

text \<open>The type assertions of Format, which panic on any other value.\<close>

definition assert_text :: "metrics_map \<Rightarrow> string \<Rightarrow> string res" where
  "assert_text mets key = (case map_of mets key of Some (TextValue v) \<Rightarrow> Inr v | _ \<Rightarrow> Inl (Panic ''interface conversion''))"

definition assert_nodes :: "metrics_map \<Rightarrow> string \<Rightarrow> (string \<times> node_metrics) list res" where
  "assert_nodes mets key = (case map_of mets key of Some (NodesValue v) \<Rightarrow> Inr v | _ \<Rightarrow> Inl (Panic ''interface conversion''))"

definition assert_pods :: "metrics_map \<Rightarrow> string \<Rightarrow> pods_metrics res" where
  "assert_pods mets key = (case map_of mets key of Some (PodsValue v) \<Rightarrow> Inr v | _ \<Rightarrow> Inl (Panic ''interface conversion''))"

definition assert_queue :: "metrics_map \<Rightarrow> string \<Rightarrow> gofloat queue_metrics res" where
  "assert_queue mets key = (case map_of mets key of Some (QueueValue v) \<Rightarrow> Inr v | _ \<Rightarrow> Inl (Panic ''interface conversion''))"

section \<open>The table\<close>

definition sortedNodeNamesAndResourceTypes :: "(string \<times> node_metrics) list \<Rightarrow> string list \<times> string list" where
  "sortedNodeNamesAndResourceTypes mets =
     (let nodes = map fst mets;
          rsrcTypes = fold (\<lambda>(name, met). fold (\<lambda>(rsrc, _). AList.update rsrc ()) (nm_Allocatable met)) mets [];
          resourceTypes = filter (\<lambda>rsrc. rsrc \<noteq> ''pods'') (map fst rsrcTypes)
      in (sort nodes, sort resourceTypes))"

definition sortedPodNames :: "pods_metrics \<Rightarrow> string list" where
  "sortedPodNames mets = sort (map fst mets)"

text \<open>What a column shows of a resource: the value, for the memory in MiB.\<close>

definition shown :: "string \<Rightarrow> resource_list \<Rightarrow> int" where
  "shown rsrc rl =
     (let v = quantity_Value (get_or_zero rl rsrc) in if rsrc = ''memory'' then v sdiv 2 ^ 20 else v)"

definition node_metrics_of :: "(string \<times> node_metrics) list \<Rightarrow> string \<Rightarrow> node_metrics" where
  "node_metrics_of mets node =
     (case map_of mets node of
        None \<Rightarrow> \<lparr>nm_Allocatable = [], nm_RunningPodsNum = 0, nm_TerminatingPodsNum = 0, nm_FailedPodsNum = 0,
                 nm_TotalResourceRequest = [], nm_TotalResourceUsage = [], nm_TotalResourceAllocation = []\<rparr>
      | Some met \<Rightarrow> met)"

text \<open>The heading of the resources, \<open>width\<close> columns wide each, then their subheadings and the rule below.\<close>

definition resource_headings :: "nat \<Rightarrow> string list \<Rightarrow> string" where
  "resource_headings width resourceTypes =
     concat (map (\<lambda>r. column width (if r = ''memory'' then ''memory (MB)'' else r)) resourceTypes)"

definition node_row :: "(string \<times> node_metrics) list \<Rightarrow> string list \<Rightarrow> string \<Rightarrow> string" where
  "node_row mets resourceTypes node =
     (let met = node_metrics_of mets node
      in column 16 node @ column 6 (decimal (nm_RunningPodsNum met)) @ column 6 (decimal (nm_TerminatingPodsNum met)) @
         column 6 (decimal (nm_FailedPodsNum met)) @ column 6 (decimal (quantity_Value (rl_Pods (nm_Allocatable met)))) @
         concat (map (\<lambda>rsrc.
             column 8 (decimal (shown rsrc (nm_TotalResourceUsage met))) @
             column 8 (decimal (shown rsrc (nm_TotalResourceRequest met))) @
             column 11 (decimal (shown rsrc (nm_Allocatable met)))) resourceTypes))"

definition table_lines :: "string list \<Rightarrow> string" where
  "table_lines lines = concat (map (\<lambda>line. line @ newline) lines)"

definition node_lines :: "(string \<times> node_metrics) list \<Rightarrow> string list" where
  "node_lines mets =
     (let (nodes, resourceTypes) = sortedNodeNamesAndResourceTypes mets
      in [''Node             Pods   Termi- Failed Capa-  '' @ resource_headings 29 resourceTypes,
          ''                        nating        city   '' @
            concat (map (\<lambda>_. ''Usage    Request  Allocatable '') resourceTypes),
          ''---------------------------------------------'' @
            concat (map (\<lambda>_. ''------------------------------'') resourceTypes)] @
         map (node_row mets resourceTypes) nodes)"

definition table_formatNodesMetrics :: "(string \<times> node_metrics) list \<Rightarrow> string \<times> string list" where
  "table_formatNodesMetrics mets = (table_lines (node_lines mets), snd (sortedNodeNamesAndResourceTypes mets))"

definition pod_row :: "(clock \<Rightarrow> string) \<Rightarrow> pods_metrics \<Rightarrow> string list \<Rightarrow> string \<Rightarrow> string" where
  "pod_row rfc3339 mets resourceTypes pod =
     (let met = get_metrics mets pod
      in column 20 pod @ column 12 (status_String (pm_Status met)) @ column 8 (decimal (pm_Priority met)) @
         column 8 (pm_Node met) @ column 25 (rfc3339 (pm_BoundAt met)) @ column 8 (decimal (pm_ExecutedSeconds met)) @
         concat (map (\<lambda>rsrc.
             column 8 (decimal (shown rsrc (pm_ResourceUsage met))) @
             column 8 (decimal (shown rsrc (pm_ResourceRequest met))) @
             column 8 (decimal (shown rsrc (pm_ResourceLimit met)))) resourceTypes))"

definition pod_lines :: "(clock \<Rightarrow> string) \<Rightarrow> pods_metrics \<Rightarrow> string list \<Rightarrow> string list" where
  "pod_lines rfc3339 mets resourceTypes =
     [''Pod                  Status       Priority Node     BoundAt                   Executed '' @
        resource_headings 26 resourceTypes,
      ''                                                                              Seconds  '' @
        concat (map (\<lambda>_. ''Usage    Request  Limit    '') resourceTypes),
      ''---------------------------------------------------------------------------------------'' @
        concat (map (\<lambda>_. ''---------------------------'') resourceTypes)] @
     map (pod_row rfc3339 mets resourceTypes) (sortedPodNames mets)"

definition table_formatPodsMetrics :: "(clock \<Rightarrow> string) \<Rightarrow> pods_metrics \<Rightarrow> string list \<Rightarrow> string" where
  "table_formatPodsMetrics rfc3339 mets resourceTypes = table_lines (pod_lines rfc3339 mets resourceTypes)"

definition table_formatQueueMetrics :: "'f queue_metrics \<Rightarrow> string" where
  "table_formatQueueMetrics mets =
     ''      PendingPods '' @ newline @ ''------------------'' @ newline @
     ''Queue '' @ column 8 (decimal (int (qm_PendingPodsNum mets))) @ newline"

definition TableFormatter_Format :: "(clock \<Rightarrow> string) \<Rightarrow> metrics_map \<Rightarrow> string res" where
  "TableFormatter_Format rfc3339 mets =
     res_bind (validateMetrics mets) (\<lambda>_.
     res_bind (assert_text mets ''Clock'') (\<lambda>clk.
     res_bind (assert_nodes mets ''Nodes'') (\<lambda>nodesMet.
     let (s, resourceTypes) = table_formatNodesMetrics nodesMet in
     res_bind (assert_pods mets ''Pods'') (\<lambda>podsMet.
     res_bind (assert_queue mets ''Queue'') (\<lambda>queueMet.
       Inr (clk @ newline @ newline @ s @ newline @ table_formatPodsMetrics rfc3339 podsMet resourceTypes @ newline @
         table_formatQueueMetrics queueMet @ newline))))))"

section \<open>Readable text\<close>

definition readable_amounts :: "string \<Rightarrow> int \<Rightarrow> int \<Rightarrow> int \<Rightarrow> string" where
  "readable_amounts rsrc usage req whole =
     (if rsrc = ''memory''
      then '', memMB '' @ decimal (usage sdiv 2 ^ 20) @ ''/'' @ decimal (req sdiv 2 ^ 20) @ ''/'' @ decimal (whole sdiv 2 ^ 20)
      else '', '' @ rsrc @ '' '' @ decimal usage @ ''/'' @ decimal req @ ''/'' @ decimal whole)"

definition readable_formatNodesMetrics :: "(string \<times> node_metrics) list \<Rightarrow> string" where
  "readable_formatNodesMetrics mets =
     concat (map (\<lambda>(name, met).
         ''    '' @ name @ '': Pods '' @ decimal (nm_RunningPodsNum met) @ ''('' @ decimal (nm_TerminatingPodsNum met) @
         '')/'' @ decimal (quantity_Value (rl_Pods (nm_Allocatable met))) @
         concat (map (\<lambda>(rsrc, alloc).
             if rsrc = ''pods'' then []
             else readable_amounts rsrc (quantity_Value (get_or_zero (nm_TotalResourceUsage met) rsrc))
                    (quantity_Value (get_or_zero (nm_TotalResourceRequest met) rsrc)) (quantity_Value alloc))
           (nm_Allocatable met)) @
         '', Failed '' @ decimal (nm_FailedPodsNum met) @ newline) mets)"

definition readable_formatPodsMetrics :: "(clock \<Rightarrow> string) \<Rightarrow> pods_metrics \<Rightarrow> string" where
  "readable_formatPodsMetrics rfc3339 mets =
     concat (map (\<lambda>(name, met).
         ''    '' @ name @ '': prio '' @ decimal (pm_Priority met) @ '', bound at '' @ rfc3339 (pm_BoundAt met) @
         '' on '' @ pm_Node met @ '', status '' @ status_String (pm_Status met) @ '', elapsed '' @
         decimal (pm_ExecutedSeconds met) @ '' s'' @
         concat (map (\<lambda>(rsrc, req).
             readable_amounts rsrc (quantity_Value (get_or_zero (pm_ResourceUsage met) rsrc)) (quantity_Value req)
               (quantity_Value (get_or_zero (pm_ResourceLimit met) rsrc)))
           (pm_ResourceRequest met)) @ newline) mets)"

definition readable_formatQueueMetrics :: "'f queue_metrics \<Rightarrow> string" where
  "readable_formatQueueMetrics mets = ''    PendingPods '' @ decimal (int (qm_PendingPodsNum mets)) @ newline"

definition HumanReadableFormatter_Format :: "(clock \<Rightarrow> string) \<Rightarrow> metrics_map \<Rightarrow> string res" where
  "HumanReadableFormatter_Format rfc3339 mets =
     res_bind (validateMetrics mets) (\<lambda>_.
     res_bind (assert_text mets ''Clock'') (\<lambda>clk.
     res_bind (assert_nodes mets ''Nodes'') (\<lambda>nodesMet.
     res_bind (assert_pods mets ''Pods'') (\<lambda>podsMet.
     res_bind (assert_queue mets ''Queue'') (\<lambda>queueMet.
       Inr (''Metrics '' @ clk @ newline @ ''  Nodes'' @ newline @ readable_formatNodesMetrics nodesMet @
         ''  Pods'' @ newline @ readable_formatPodsMetrics rfc3339 podsMet @
         ''  Queue'' @ newline @ readable_formatQueueMetrics queueMet))))))"

section \<open>Writing to files\<close>

datatype formatter = JSONFormatter | HumanReadableFormatter | TableFormatter

datatype out_file = Stdout | Stderr | CreatedFile string

record out_env =
  oe_rfc3339 :: "clock \<Rightarrow> string"
  oe_Marshal :: "metrics_map \<Rightarrow> string res"
  oe_Create :: "string \<Rightarrow> go_error option"
  oe_WriteString :: "out_file \<Rightarrow> string \<Rightarrow> go_error option"

fun Format :: "out_env \<Rightarrow> formatter \<Rightarrow> metrics_map \<Rightarrow> string res" where
  "Format env JSONFormatter mets = oe_Marshal env mets"
| "Format env HumanReadableFormatter mets = HumanReadableFormatter_Format (oe_rfc3339 env) mets"
| "Format env TableFormatter mets = TableFormatter_Format (oe_rfc3339 env) mets"

record file_writer =
  fw_file :: out_file
  fw_formatter :: formatter

definition lower :: "char \<Rightarrow> char" where
  "lower c = (let n = of_char c :: nat in if 65 \<le> n \<and> n \<le> 90 then char_of (n + 32) else c)"

definition NewFileWriter :: "out_env \<Rightarrow> string \<Rightarrow> formatter \<Rightarrow> file_writer res" where
  "NewFileWriter env dest fmt =
     (if dest = ''/dev/stdout'' \<or> map lower dest = ''stdout'' then Inr \<lparr>fw_file = Stdout, fw_formatter = fmt\<rparr>
      else if dest = ''/dev/stderr'' \<or> map lower dest = ''stderr'' then Inr \<lparr>fw_file = Stderr, fw_formatter = fmt\<rparr>
      else case oe_Create env dest of
             Some e \<Rightarrow> Inl e
           | None \<Rightarrow> Inr \<lparr>fw_file = CreatedFile dest, fw_formatter = fmt\<rparr>)"

text \<open>What is written, and the error if there is one.\<close>

definition FileWriter_Write :: "out_env \<Rightarrow> file_writer \<Rightarrow> metrics_map \<Rightarrow> string list \<times> go_error option" where
  "FileWriter_Write env w mets =
     (case Format env (fw_formatter w) mets of
        Inl e \<Rightarrow> ([], Some e)
      | Inr str \<Rightarrow>
          (case oe_WriteString env (fw_file w) str of
             Some e \<Rightarrow> ([], Some e)
           | None \<Rightarrow>
               (case oe_WriteString env (fw_file w) newline of
                  Some e \<Rightarrow> ([str], Some e)
                | None \<Rightarrow> ([str, newline], None))))"

end
