(* ===== verification/FormatterProperties.thy ===== *)
theory FormatterProperties
  imports Formatter
begin

text \<open>
  The formatters never panic and refuse exactly the metrics without the expected fields; the table does
  not depend on the order in which Go visits the maps, and it can be read back column by column.
\<close>

section \<open>Numbers and columns\<close>

fun read_digits :: "nat \<Rightarrow> string \<Rightarrow> nat" where
  "read_digits n [] = n"
| "read_digits n (c # cs) = read_digits (10 * n + (of_char c - 48)) cs"

definition read_decimal :: "string \<Rightarrow> int" where
  "read_decimal s = (case s of [] \<Rightarrow> 0 | c # cs \<Rightarrow> if c = CHR ''-'' then - int (read_digits 0 cs) else int (read_digits 0 (c # cs)))"

lemma of_char_digit: "n < 10 \<Longrightarrow> of_char (char_of (48 + n) :: char) = (48 + n :: nat)"
  by (simp add: of_char_of)

lemma read_digits_append: "read_digits n (xs @ ys) = read_digits (read_digits n xs) ys"
  by (induction xs arbitrary: n) simp_all

lemma read_digits_digits: "read_digits 0 (digits n) = n"
proof (induction n rule: digits.induct)
  case (1 n)
  show ?case
  proof (cases "n < 10")
    case True
    then show ?thesis by (subst digits.simps) (simp add: of_char_digit)
  next
    case False
    then show ?thesis using 1 by (subst digits.simps) (simp add: read_digits_append of_char_digit)
  qed
qed

lemma digits_nonempty: "digits n \<noteq> []"
  by (subst digits.simps) simp

lemma digit_char: "n < 10 \<Longrightarrow> (char_of (48 + n :: nat) :: char) \<notin> {CHR ''-'', CHR '' ''}"
proof -
  assume "n < 10"
  moreover have "of_char CHR ''-'' = (45 :: nat)" "of_char CHR '' '' = (32 :: nat)" by simp_all
  ultimately have "of_char (char_of (48 + n :: nat) :: char) \<noteq> (of_char CHR ''-'' :: nat)"
    "of_char (char_of (48 + n :: nat) :: char) \<noteq> (of_char CHR '' '' :: nat)"
    by (simp_all only: of_char_digit)
  then show ?thesis by (metis empty_iff insert_iff)
qed

lemma set_digits: "c \<in> set (digits n) \<Longrightarrow> c \<notin> {CHR ''-'', CHR '' ''}"
proof (induction n rule: digits.induct)
  case (1 n)
  show ?case
  proof (cases "n < 10")
    case True
    then show ?thesis using 1(2) digit_char [of n] by (subst (asm) digits.simps) auto
  next
    case False
    then show ?thesis using 1 digit_char [of "n mod 10"] by (subst (asm) (2) digits.simps) auto
  qed
qed

lemma length_digits: "0 < w \<Longrightarrow> n < 10 ^ w \<Longrightarrow> length (digits n) \<le> w"
proof (induction n arbitrary: w rule: digits.induct)
  case (1 n)
  show ?case
  proof (cases "n < 10")
    case True
    with 1(2) show ?thesis by (subst digits.simps) simp
  next
    case False
    with 1(3) obtain v where v: "w = Suc v" "0 < v" by (cases w; cases "w - 1") auto
    with 1(3) have "n div 10 < 10 ^ v" by (simp add: less_mult_imp_div_less mult.commute)
    with 1(1) [OF False v(2)] v False show ?thesis by (subst digits.simps) simp
  qed
qed

lemma read_decimal_decimal: "read_decimal (decimal i) = i"
proof (cases "i < 0")
  case True
  then show ?thesis by (simp add: decimal_def read_decimal_def read_digits_digits)
next
  case False
  obtain c cs where cs: "digits (nat i) = c # cs" using digits_nonempty [of "nat i"] by (cases "digits (nat i)") auto
  then have "c \<noteq> CHR ''-''" using set_digits [of c "nat i"] by simp
  with False cs read_digits_digits [of "nat i"] show ?thesis by (simp add: decimal_def read_decimal_def)
qed

text \<open>A column that is wide enough, and text without a space in it.\<close>

definition fits_column :: "nat \<Rightarrow> string \<Rightarrow> bool" where
  "fits_column width s \<longleftrightarrow> length s \<le> width \<and> CHR '' '' \<notin> set s"

lemma fits_decimal: "0 < w \<Longrightarrow> 0 \<le> i \<Longrightarrow> i < 10 ^ w \<Longrightarrow> fits_column w (decimal i)"
  using length_digits [of w "nat i"] set_digits [of "CHR '' ''" "nat i"]
  by (auto simp: fits_column_def decimal_def nat_less_iff)

fun read_columns :: "nat list \<Rightarrow> string \<Rightarrow> string list" where
  "read_columns [] s = []"
| "read_columns (width # widths) s =
     takeWhile (\<lambda>c. c \<noteq> CHR '' '') (take width s) # read_columns widths (drop (Suc width) s)"

lemma length_column: "length s \<le> width \<Longrightarrow> length (column width s) = Suc width"
  by (simp add: column_def)

lemma take_column: "length s \<le> width \<Longrightarrow> take width (column width s @ rest) = s @ replicate (width - length s) CHR '' ''"
  by (simp add: column_def)

lemma read_column:
  assumes "fits_column width s"
  shows "read_columns (width # widths) (column width s @ rest) = s # read_columns widths rest"
proof -
  have "takeWhile (\<lambda>c. c \<noteq> CHR '' '') (s @ replicate (width - length s) CHR '' '') = s"
    using assms by (subst takeWhile_append2) (auto simp: fits_column_def)
  moreover have "drop (Suc width) (column width s @ rest) = rest"
    using assms length_column [of s width] by (simp add: fits_column_def)
  moreover have "length s \<le> width" using assms by (simp add: fits_column_def)
  ultimately show ?thesis by (simp only: read_columns.simps take_column)
qed

text \<open>A row as its columns.\<close>

definition row :: "(nat \<times> string) list \<Rightarrow> string" where
  "row cells = concat (map (\<lambda>(width, s). column width s) cells)"

lemma row_simps [simp]:
  "row [] = []" "row ((width, s) # cells) = column width s @ row cells" "row (xs @ ys) = row xs @ row ys"
  by (simp_all add: row_def)

lemma row_concat: "row (concat (map f rs)) = concat (map (\<lambda>r. row (f r)) rs)"
  by (induction rs) simp_all

lemma read_row:
  "(\<And>width s. (width, s) \<in> set cells \<Longrightarrow> fits_column width s) \<Longrightarrow> read_columns (map fst cells) (row cells) = map snd cells"
proof (induction cells)
  case (Cons cell cells)
  obtain width s where cell: "cell = (width, s)" by fastforce
  with Cons.prems have "fits_column width s" by auto
  from read_column [OF this] Cons show ?case by (simp add: cell)
qed simp

lemma length_row:
  "(\<And>width s. (width, s) \<in> set cells \<Longrightarrow> length s \<le> width) \<Longrightarrow> length (row cells) = (\<Sum>(width, s)\<leftarrow>cells. Suc width)"
  by (induction cells) (auto simp: length_column)


section \<open>Valid metrics\<close>

definition well_formed :: "metrics_map \<Rightarrow> bool" where
  "well_formed mets \<longleftrightarrow>
     is_text (map_of mets ''Clock'') \<and> is_nodes (map_of mets ''Nodes'') \<and> is_pods (map_of mets ''Pods'') \<and>
     is_queue (map_of mets ''Queue'')"

lemma is_value_iff:
  "is_text v \<longleftrightarrow> (\<exists>t. v = Some (TextValue t))" "is_nodes v \<longleftrightarrow> (\<exists>ns. v = Some (NodesValue ns))"
  "is_pods v \<longleftrightarrow> (\<exists>ps. v = Some (PodsValue ps))" "is_queue v \<longleftrightarrow> (\<exists>q. v = Some (QueueValue q))"
  by (cases v rule: is_text.cases; simp)+

lemma validateMetrics_cases:
  "(case validateMetrics mets of Inl e \<Rightarrow> \<not> well_formed mets \<and> \<not> is_panic e | Inr _ \<Rightarrow> well_formed mets)"
proof (cases "List.find (\<lambda>key. map_of mets key = None) metrics_keys")
  case None
  then show ?thesis by (auto simp: validateMetrics_def well_formed_def is_panic_def)
next
  case (Some key)
  then have "map_of mets key = None" "key \<in> set metrics_keys" by (auto simp: find_Some_iff)
  then have "\<not> well_formed mets" by (auto simp: well_formed_def metrics_keys_def)
  with Some show ?thesis by (simp add: validateMetrics_def is_panic_def)
qed

lemma validateMetrics_ok: "well_formed mets \<Longrightarrow> validateMetrics mets = Inr ()"
  using validateMetrics_cases [of mets] by (cases "validateMetrics mets") auto

lemma well_formed_values:
  assumes "well_formed mets"
  obtains clk nodes pods queue where "assert_text mets ''Clock'' = Inr clk" "assert_nodes mets ''Nodes'' = Inr nodes"
    "assert_pods mets ''Pods'' = Inr pods" "assert_queue mets ''Queue'' = Inr queue"
  using assms
  by (auto simp: well_formed_def is_value_iff assert_text_def assert_nodes_def assert_pods_def assert_queue_def)

lemma validate_to_map: "validateMetrics (to_map rfc3339 met) = Inr ()"
  by (rule validateMetrics_ok) (simp add: well_formed_def to_map_def)

lemma to_map_fields:
  "assert_text (to_map rfc3339 met) ''Clock'' = Inr (rfc3339 (m_Clock met))"
  "assert_nodes (to_map rfc3339 met) ''Nodes'' = Inr (m_Nodes met)"
  "assert_pods (to_map rfc3339 met) ''Pods'' = Inr (m_Pods met)"
  "assert_queue (to_map rfc3339 met) ''Queue'' = Inr (m_Queue met)"
  by (simp_all add: to_map_def assert_text_def assert_nodes_def assert_pods_def assert_queue_def)

text \<open>
  Both text formatters return a text exactly for metrics with a clock, nodes, pods and a queue of the
  expected types, an error for any others, and never panic.
\<close>

theorem formatters_never_panic:
  "(case TableFormatter_Format rfc3339 mets of Inl e \<Rightarrow> \<not> well_formed mets \<and> \<not> is_panic e | Inr _ \<Rightarrow> well_formed mets) \<and>
   (case HumanReadableFormatter_Format rfc3339 mets of Inl e \<Rightarrow> \<not> well_formed mets \<and> \<not> is_panic e | Inr _ \<Rightarrow> well_formed mets)"
proof (cases "well_formed mets")
  case True
  then obtain clk nodes pods queue where "assert_text mets ''Clock'' = Inr clk" "assert_nodes mets ''Nodes'' = Inr nodes"
    "assert_pods mets ''Pods'' = Inr pods" "assert_queue mets ''Queue'' = Inr queue" by (rule well_formed_values)
  with True show ?thesis
    by (simp add: TableFormatter_Format_def HumanReadableFormatter_Format_def validateMetrics_ok split: prod.splits)
next
  case False
  with validateMetrics_cases [of mets] show ?thesis
    by (cases "validateMetrics mets") (simp_all add: TableFormatter_Format_def HumanReadableFormatter_Format_def)
qed

section \<open>The order of the maps\<close>

text \<open>Metrics that are equal as Go values: maps with the same entries, whatever their order.\<close>

definition same_map :: "('a \<Rightarrow> 'a \<Rightarrow> bool) \<Rightarrow> (string \<times> 'a) list \<Rightarrow> (string \<times> 'a) list \<Rightarrow> bool" where
  "same_map R xs ys \<longleftrightarrow>
     distinct (map fst xs) \<and> distinct (map fst ys) \<and> (\<forall>k. rel_option R (map_of xs k) (map_of ys k))"

definition same_node_metrics :: "node_metrics \<Rightarrow> node_metrics \<Rightarrow> bool" where
  "same_node_metrics m m' \<longleftrightarrow>
     nm_RunningPodsNum m = nm_RunningPodsNum m' \<and> nm_TerminatingPodsNum m = nm_TerminatingPodsNum m' \<and>
     nm_FailedPodsNum m = nm_FailedPodsNum m' \<and> map_of (nm_Allocatable m) = map_of (nm_Allocatable m') \<and>
     map_of (nm_TotalResourceRequest m) = map_of (nm_TotalResourceRequest m') \<and>
     map_of (nm_TotalResourceUsage m) = map_of (nm_TotalResourceUsage m')"

definition same_pod_metrics :: "pod_metrics \<Rightarrow> pod_metrics \<Rightarrow> bool" where
  "same_pod_metrics m m' \<longleftrightarrow>
     map_of (pm_ResourceRequest m) = map_of (pm_ResourceRequest m') \<and>
     map_of (pm_ResourceLimit m) = map_of (pm_ResourceLimit m') \<and>
     map_of (pm_ResourceUsage m) = map_of (pm_ResourceUsage m') \<and>
     pm_BoundAt m = pm_BoundAt m' \<and> pm_Node m = pm_Node m' \<and> pm_ExecutedSeconds m = pm_ExecutedSeconds m' \<and>
     pm_Priority m = pm_Priority m' \<and> pm_Status m = pm_Status m'"

lemma same_map_keys: "same_map R xs ys \<Longrightarrow> fst ` set xs = fst ` set ys"
  unfolding same_map_def by (auto simp flip: dom_map_of_conv_image_fst simp: dom_def rel_option_iff split: option.splits; metis option.exhaust)

lemma sort_distinct: "distinct xs \<Longrightarrow> sort xs = sorted_list_of_set (set xs)"
  by (simp add: sorted_list_of_set_sort_remdups distinct_remdups_id)

lemma same_map_sort: "same_map R xs ys \<Longrightarrow> sort (map fst xs) = sort (map fst ys)"
  using same_map_keys [of R xs ys] by (simp add: same_map_def sort_distinct)

lemma same_node_shown:
  assumes "same_node_metrics m m'"
  shows "shown rsrc (nm_Allocatable m) = shown rsrc (nm_Allocatable m')"
    "shown rsrc (nm_TotalResourceRequest m) = shown rsrc (nm_TotalResourceRequest m')"
    "shown rsrc (nm_TotalResourceUsage m) = shown rsrc (nm_TotalResourceUsage m')"
    "rl_Pods (nm_Allocatable m) = rl_Pods (nm_Allocatable m')"
    "nm_RunningPodsNum m = nm_RunningPodsNum m'" "nm_TerminatingPodsNum m = nm_TerminatingPodsNum m'"
    "nm_FailedPodsNum m = nm_FailedPodsNum m'"
  using assms by (simp_all add: same_node_metrics_def rl_Pods_def shown_def get_or_zero_def)

lemma same_pod_shown:
  assumes "same_pod_metrics m m'"
  shows "shown rsrc (pm_ResourceRequest m) = shown rsrc (pm_ResourceRequest m')"
    "shown rsrc (pm_ResourceLimit m) = shown rsrc (pm_ResourceLimit m')"
    "shown rsrc (pm_ResourceUsage m) = shown rsrc (pm_ResourceUsage m')"
    "pm_BoundAt m = pm_BoundAt m'" "pm_Node m = pm_Node m'" "pm_ExecutedSeconds m = pm_ExecutedSeconds m'"
    "pm_Priority m = pm_Priority m'" "pm_Status m = pm_Status m'"
  using assms by (simp_all add: same_pod_metrics_def shown_def get_or_zero_def)

lemma keys_update: "fst ` set (AList.update k v xs) = insert k (fst ` set xs)"
  by (metis (no_types) dom_map_of_conv_image_fst dom_fun_upd option.distinct(1) update_conv')

lemma distinct_types:
  "distinct (map fst acc) \<Longrightarrow> distinct (map fst (fold (\<lambda>(rsrc, _). AList.update rsrc ()) rl acc))"
  by (induction rl arbitrary: acc) (auto simp: distinct_update)

lemma set_types:
  "fst ` set (fold (\<lambda>(rsrc, _). AList.update rsrc ()) rl acc) = fst ` set acc \<union> fst ` set rl"
  by (induction rl arbitrary: acc) (simp_all add: keys_update split_beta)

definition types_of :: "(string \<times> node_metrics) list \<Rightarrow> (string \<times> unit) list" where
  "types_of mets = fold (\<lambda>(name, met). fold (\<lambda>(rsrc, _). AList.update rsrc ()) (nm_Allocatable met)) mets []"

lemma types_of_fold:
  fixes acc :: "(string \<times> unit) list"
  defines "f \<equiv> \<lambda>(name :: string, met). fold (\<lambda>(rsrc, _). AList.update rsrc ()) (nm_Allocatable met)"
  shows "distinct (map fst acc) \<Longrightarrow> distinct (map fst (fold f mets acc))"
    "fst ` set (fold f mets acc) = fst ` set acc \<union> (\<Union>(name, met) \<in> set mets. fst ` set (nm_Allocatable met))"
  unfolding f_def
  by (induction mets arbitrary: acc) (auto simp: distinct_types set_types split: prod.splits)

lemma types_of_spec:
  "distinct (map fst (types_of mets))"
  "fst ` set (types_of mets) = (\<Union>(name, met) \<in> set mets. fst ` set (nm_Allocatable met))"
  using types_of_fold [where acc = "[]" and mets = mets] by (simp_all add: types_of_def)

lemma sortedNames_eq:
  "sortedNodeNamesAndResourceTypes mets =
     (sort (map fst mets), sorted_list_of_set ((\<Union>(name, met) \<in> set mets. fst ` set (nm_Allocatable met)) - {''pods''}))"
proof -
  have "filter (\<lambda>rsrc. rsrc \<noteq> ''pods'') (map fst (types_of mets)) = filter (\<lambda>rsrc. rsrc \<notin> {''pods''}) (map fst (types_of mets))"
    by simp
  moreover have "set (filter (\<lambda>rsrc. rsrc \<notin> {''pods''}) (map fst (types_of mets))) =
      (\<Union>(name, met) \<in> set mets. fst ` set (nm_Allocatable met)) - {''pods''}"
    using types_of_spec(2) [of mets] by auto
  moreover have "distinct (filter (\<lambda>rsrc. rsrc \<notin> {''pods''}) (map fst (types_of mets)))"
    by (rule distinct_filter [OF types_of_spec(1)])
  ultimately show ?thesis
    by (simp only: sortedNodeNamesAndResourceTypes_def Let_def types_of_def [symmetric] sort_distinct)
qed

lemma same_map_lookup:
  assumes "same_map R xs ys" "(k, x) \<in> set xs"
  obtains y where "(k, y) \<in> set ys" "R x y"
proof -
  have "map_of xs k = Some x" using assms by (simp add: same_map_def)
  moreover have "rel_option R (map_of xs k) (map_of ys k)" using assms(1) by (simp add: same_map_def)
  ultimately obtain y where "map_of ys k = Some y" "R x y" by (auto simp: option_rel_Some1)
  with map_of_SomeD that show ?thesis by fast
qed

lemma same_map_sym: "(\<And>x y. R x y \<Longrightarrow> R y x) \<Longrightarrow> same_map R xs ys \<Longrightarrow> same_map R ys xs"
  unfolding same_map_def by (metis option.rel_flip option.rel_mono_strong conversep_iff)

lemma same_node_sym: "same_node_metrics m m' \<Longrightarrow> same_node_metrics m' m"
  by (simp add: same_node_metrics_def)

lemma same_types_subset:
  assumes "same_map same_node_metrics xs ys"
  shows "(\<Union>(name, met) \<in> set xs. fst ` set (nm_Allocatable met)) \<subseteq> (\<Union>(name, met) \<in> set ys. fst ` set (nm_Allocatable met))"
proof
  fix r
  assume "r \<in> (\<Union>(name, met) \<in> set xs. fst ` set (nm_Allocatable met))"
  then obtain name met where xs: "(name, met) \<in> set xs" "r \<in> fst ` set (nm_Allocatable met)" by blast
  from same_map_lookup [OF assms xs(1)] obtain met' where ys: "(name, met') \<in> set ys" "same_node_metrics met met'" by blast
  then have "fst ` set (nm_Allocatable met) = fst ` set (nm_Allocatable met')"
    by (metis same_node_metrics_def dom_map_of_conv_image_fst)
  with xs ys show "r \<in> (\<Union>(name, met) \<in> set ys. fst ` set (nm_Allocatable met))" by blast
qed

lemma sortedNames_same:
  assumes "same_map same_node_metrics xs ys"
  shows "sortedNodeNamesAndResourceTypes xs = sortedNodeNamesAndResourceTypes ys"
proof -
  note types = subset_antisym [OF same_types_subset [OF assms] same_types_subset [OF same_map_sym [OF same_node_sym assms]]]
  show ?thesis by (simp only: sortedNames_eq same_map_sort [OF assms] types)
qed

lemma same_node_metrics_of:
  "same_map same_node_metrics xs ys \<Longrightarrow> same_node_metrics (node_metrics_of xs name) (node_metrics_of ys name)"
proof -
  assume "same_map same_node_metrics xs ys"
  then have "rel_option same_node_metrics (map_of xs name) (map_of ys name)" by (simp add: same_map_def)
  then show ?thesis by (cases rule: option.rel_cases) (simp_all add: node_metrics_of_def same_node_metrics_def)
qed

lemma same_get_metrics: "same_map same_pod_metrics xs ys \<Longrightarrow> same_pod_metrics (get_metrics xs name) (get_metrics ys name)"
proof -
  assume "same_map same_pod_metrics xs ys"
  then have "rel_option same_pod_metrics (map_of xs name) (map_of ys name)" by (simp add: same_map_def)
  then show ?thesis by (cases rule: option.rel_cases) (simp_all add: get_metrics_def same_pod_metrics_def)
qed

lemma node_row_same: "same_map same_node_metrics xs ys \<Longrightarrow> node_row xs = node_row ys"
  by (intro ext) (simp only: node_row_def Let_def same_node_shown [OF same_node_metrics_of])

lemma pod_row_same: "same_map same_pod_metrics xs ys \<Longrightarrow> pod_row rfc3339 xs = pod_row rfc3339 ys"
  by (intro ext) (simp only: pod_row_def Let_def same_pod_shown [OF same_get_metrics])

text \<open>
  C38: Go visits a map in any order, and the table does not show which: metrics that are equal as maps, in
  every resource list too, are formatted to the same table.
\<close>

theorem table_ignores_map_order:
  assumes "m_Clock met = m_Clock met'" "same_map same_node_metrics (m_Nodes met) (m_Nodes met')"
    "same_map same_pod_metrics (m_Pods met) (m_Pods met')" "m_Queue met = m_Queue met'"
  shows "TableFormatter_Format rfc3339 (to_map rfc3339 met) = TableFormatter_Format rfc3339 (to_map rfc3339 met')"
proof -
  have "table_formatNodesMetrics (m_Nodes met) = table_formatNodesMetrics (m_Nodes met')"
    using sortedNames_same [OF assms(2)] node_row_same [OF assms(2)]
    by (simp add: table_formatNodesMetrics_def node_lines_def)
  moreover have "table_formatPodsMetrics rfc3339 (m_Pods met) = table_formatPodsMetrics rfc3339 (m_Pods met')"
    using same_map_sort [OF assms(3)] pod_row_same [OF assms(3)]
    by (intro ext) (simp add: table_formatPodsMetrics_def pod_lines_def sortedPodNames_def)
  ultimately show ?thesis
    using assms(1,4) by (simp add: TableFormatter_Format_def validate_to_map to_map_fields)
qed

section \<open>Reading the table\<close>

definition node_amounts :: "string list \<Rightarrow> node_metrics \<Rightarrow> int list" where
  "node_amounts types met =
     [nm_RunningPodsNum met, nm_TerminatingPodsNum met, nm_FailedPodsNum met, quantity_Value (rl_Pods (nm_Allocatable met))] @
     concat (map (\<lambda>rsrc. [shown rsrc (nm_TotalResourceUsage met), shown rsrc (nm_TotalResourceRequest met),
       shown rsrc (nm_Allocatable met)]) types)"

definition node_widths :: "string list \<Rightarrow> nat list" where
  "node_widths types = [16, 6, 6, 6, 6] @ concat (map (\<lambda>_. [8, 8, 11]) types)"

lemma node_row_cells:
  "node_row mets types node =
     row (zip (node_widths types) (node # map decimal (node_amounts types (node_metrics_of mets node))))"
proof -
  have "row (zip (concat (map (\<lambda>_. [8, 8, 11]) ts)) (map decimal (concat (map (\<lambda>rsrc. [f rsrc, g rsrc, h rsrc]) ts)))) =
      concat (map (\<lambda>rsrc. column 8 (decimal (f rsrc)) @ column 8 (decimal (g rsrc)) @ column 11 (decimal (h rsrc))) ts)"
    for f g h and ts :: "string list"
    by (induction ts) simp_all
  then show ?thesis by (simp add: node_row_def Let_def node_widths_def node_amounts_def)
qed

text \<open>Names and amounts that fit their columns: the amounts are not negative and not too large.\<close>

definition node_fits :: "string list \<Rightarrow> string \<Rightarrow> node_metrics \<Rightarrow> bool" where
  "node_fits types node met \<longleftrightarrow>
     fits_column 16 node \<and> list_all2 (\<lambda>width a. 0 \<le> a \<and> a < 10 ^ width) (tl (node_widths types)) (node_amounts types met)"

lemma node_widths_pos: "width \<in> set (node_widths types) \<Longrightarrow> 0 < width"
  by (auto simp: node_widths_def split: if_splits)

lemma node_widths_sum: "(\<Sum>width\<leftarrow>node_widths types. Suc width) = 45 + 30 * length types"
  by (induction types) (simp_all add: node_widths_def)

lemma node_cells_fit:
  assumes "node_fits types node met" "(width, s) \<in> set (zip (node_widths types) (node # map decimal (node_amounts types met)))"
  shows "fits_column width s"
proof -
  have widths: "node_widths types = 16 # tl (node_widths types)" by (simp add: node_widths_def)
  from assms(2) consider "width = 16" "s = node" | "(width, s) \<in> set (zip (tl (node_widths types)) (map decimal (node_amounts types met)))"
    by (subst (asm) widths) auto
  then show ?thesis
  proof cases
    case 2
    then obtain a where a: "(width, a) \<in> set (zip (tl (node_widths types)) (node_amounts types met))" "s = decimal a"
      by (auto simp: zip_map2)
    from a(1) have "width \<in> set (node_widths types)" by (subst widths) (auto dest: set_zip_leftD)
    then have "0 < width" by (rule node_widths_pos)
    moreover have "0 \<le> a \<and> a < 10 ^ width" using assms(1) a(1) by (auto simp: node_fits_def list_all2_iff)
    ultimately have "0 \<le> a \<and> a < 10 ^ width" "0 < width" by simp_all
    with a(2) show ?thesis by (simp add: fits_decimal)
  qed (use assms(1) in \<open>simp add: node_fits_def\<close>)
qed

lemma node_row_read:
  assumes "node_fits types node (node_metrics_of mets node)"
  shows "read_columns (node_widths types) (node_row mets types node) =
      node # map decimal (node_amounts types (node_metrics_of mets node))"
    "length (node_row mets types node) = 45 + 30 * length types"
proof -
  let ?cells = "zip (node_widths types) (node # map decimal (node_amounts types (node_metrics_of mets node)))"
  have fit: "\<And>width s. (width, s) \<in> set ?cells \<Longrightarrow> fits_column width s" using node_cells_fit [OF assms] by blast
  have len: "length (node_widths types) = length (node # map decimal (node_amounts types (node_metrics_of mets node)))"
    using assms by (simp add: node_fits_def list_all2_iff node_widths_def)
  then have cells: "map fst ?cells = node_widths types"
    "map snd ?cells = node # map decimal (node_amounts types (node_metrics_of mets node))"
    by (simp_all only: map_fst_zip map_snd_zip)
  show "read_columns (node_widths types) (node_row mets types node) =
      node # map decimal (node_amounts types (node_metrics_of mets node))"
    using read_row [of ?cells, OF fit] by (simp only: cells node_row_cells)
  have "length (row ?cells) = (\<Sum>(width, s)\<leftarrow>?cells. Suc width)"
    by (rule length_row) (use fit in \<open>auto simp: fits_column_def\<close>)
  also have "\<dots> = (\<Sum>width\<leftarrow>map fst ?cells. Suc width)" by (simp add: case_prod_unfold comp_def)
  finally show "length (node_row mets types node) = 45 + 30 * length types"
    by (simp only: cells node_row_cells node_widths_sum)
qed


section \<open>Witnesses\<close>

definition table_load :: "resource_list \<Rightarrow> int \<Rightarrow> node_metrics" where
  "table_load allocatable request =
     \<lparr>nm_Allocatable = allocatable, nm_RunningPodsNum = 2, nm_TerminatingPodsNum = 0, nm_FailedPodsNum = 1,
      nm_TotalResourceRequest = [(cpu, NewQuantity request DecimalSI), (memory, NewQuantity (3 * 2 ^ 30) BinarySI)],
      nm_TotalResourceUsage = [(memory, NewQuantity (2 ^ 30) BinarySI)], nm_TotalResourceAllocation = []\<rparr>"

definition two_loads :: "(string \<times> node_metrics) list" where
  "two_loads =
     [(''node-1'', table_load [(memory, NewQuantity (2 ^ 34) BinarySI), (cpu, NewQuantity 8 DecimalSI), (pods_name, NewQuantity 110 DecimalSI)] 4),
      (''node-0'', table_load [(cpu, NewQuantity 4 DecimalSI)] 3)]"

definition turned_loads :: "(string \<times> node_metrics) list" where
  "turned_loads =
     [(''node-0'', table_load [(cpu, NewQuantity 4 DecimalSI)] 3),
      (''node-1'', table_load [(pods_name, NewQuantity 110 DecimalSI), (cpu, NewQuantity 8 DecimalSI), (memory, NewQuantity (2 ^ 34) BinarySI)] 4)]"

lemma two_loads_facts:
  "sortedNodeNamesAndResourceTypes two_loads = ([''node-0'', ''node-1''], [cpu, memory])"
  "node_fits [cpu, memory] ''node-1'' (node_metrics_of two_loads ''node-1'')"
  "node_amounts [cpu, memory] (node_metrics_of two_loads ''node-1'') = [2, 0, 1, 110, 0, 4, 8, 1024, 3072, 16384]"
  by code_simp+

lemma two_loads_line:
  "node_lines two_loads ! 4 =
     ''node-1           2      0      1      110    0        4        8           1024     3072     16384       ''"
proof -
  have "([a, b, c] @ [x, y]) ! 4 = y" for a b c x y :: string by simp
  then have "node_lines two_loads ! 4 = node_row two_loads [cpu, memory] ''node-1''"
    by (simp add: node_lines_def two_loads_facts(1) del: append.simps)
  also have "\<dots> = row (zip (node_widths [cpu, memory]) (''node-1'' # map decimal [2, 0, 1, 110, 0, 4, 8, 1024, 3072, 16384]))"
    by (simp only: node_row_cells two_loads_facts)
  also have "\<dots> = ''node-1           2      0      1      110    0        4        8           1024     3072     16384       ''"
    by (simp add: node_widths_def column_def decimal_def digits.simps; code_simp)
  finally show ?thesis .
qed


definition two_metrics :: "(string \<times> node_metrics) list \<Rightarrow> metrics" where
  "two_metrics nodes = \<lparr>m_Clock = 7, m_Nodes = nodes, m_Pods = [],
     m_Queue = Queue_Metrics (Fifo NewFIFOQueue) (Fin 1 0) (Fin 0 0) (Fin 0 0) (Fin 0 0)\<rparr>"

theorem table_ignores_map_order_witness:
  "two_loads \<noteq> turned_loads \<and>
   TableFormatter_Format (\<lambda>_. ''1970-01-01T00:00:00Z'') (to_map (\<lambda>_. ''1970-01-01T00:00:00Z'') (two_metrics two_loads)) =
     TableFormatter_Format (\<lambda>_. ''1970-01-01T00:00:00Z'') (to_map (\<lambda>_. ''1970-01-01T00:00:00Z'') (two_metrics turned_loads))"
proof
  show "two_loads \<noteq> turned_loads" by (simp add: two_loads_def turned_loads_def)
  have "same_map same_node_metrics two_loads turned_loads"
    by (auto simp: same_map_def same_node_metrics_def two_loads_def turned_loads_def table_load_def fun_eq_iff)
  then show "TableFormatter_Format (\<lambda>_. ''1970-01-01T00:00:00Z'') (to_map (\<lambda>_. ''1970-01-01T00:00:00Z'') (two_metrics two_loads)) =
     TableFormatter_Format (\<lambda>_. ''1970-01-01T00:00:00Z'') (to_map (\<lambda>_. ''1970-01-01T00:00:00Z'') (two_metrics turned_loads))"
    by (intro table_ignores_map_order) (simp_all add: two_metrics_def same_map_def)
qed

end
