(* ===== verification/Config.thy ===== *)
theory Config
  imports SimNode Formatter
begin

text \<open>
  pkg/config: the configuration a user writes, and the metrics writers and nodes built from it. Quantities
  and RFC 3339 clocks are parsed by parameters. Of the metadata of a node the name is modelled; the rest of
  it and the Spec are copied to the node and read by nothing. A clock is read from the system anew by each
  call of time.Now: \<open>ce_Now n\<close> is the n-th reading.
\<close>

record config_env =
  ce_out :: out_env
  ce_ParseQuantity :: "string \<Rightarrow> quantity option"
  ce_ParseTime :: "string \<Rightarrow> clock res"
  ce_Now :: "nat \<Rightarrow> clock"

record metrics_logger_config =
  ml_Dest :: string
  ml_Formatter :: string

record node_config =
  nc_Name :: string
  nc_Allocatable :: "(string \<times> string) list"

record config =
  co_LogLevel :: string
  co_Tick :: int
  co_StartClock :: string
  co_MetricsTick :: int
  co_MetricsLogger :: "metrics_logger_config list"
  co_Cluster :: "node_config list"

section \<open>Metrics writers\<close>

definition buildFormatter :: "string \<Rightarrow> formatter res" where
  "buildFormatter conf =
     (if conf = ''JSON'' then Inr JSONFormatter
      else if conf = ''humanReadable'' then Inr HumanReadableFormatter
      else if conf = ''table'' then Inr TableFormatter
      else Inl (FormatterNotSupported conf))"

fun BuildMetricsLogger :: "out_env \<Rightarrow> metrics_logger_config list \<Rightarrow> file_writer list res" where
  "BuildMetricsLogger env [] = Inr []"
| "BuildMetricsLogger env (conf # confs) =
     (if ml_Dest conf = '''' then Inl EmptyDestination
      else
        res_bind (buildFormatter (ml_Formatter conf)) (\<lambda>fmt.
        res_bind (NewFileWriter env (ml_Dest conf) fmt) (\<lambda>writer.
        res_bind (BuildMetricsLogger env confs) (\<lambda>writers. Inr (writer # writers)))))"

section \<open>Nodes\<close>

datatype node_condition_type = NodeReady | NodeOutOfDisk | NodeMemoryPressure | NodeDiskPressure | NodePIDPressure

record node_condition =
  nd_Type :: node_condition_type
  nd_Status :: condition_status
  nd_LastHeartbeatTime :: clock
  nd_LastTransitionTime :: clock
  nd_Reason :: string
  nd_Message :: string

text \<open>The object that is built: the node the simulator reads, and what it only carries.\<close>

record built_node = v1_node +
  bn_Kind :: string
  bn_APIVersion :: string
  bn_Capacity :: resource_list
  bn_Conditions :: "node_condition list"

definition buildNodeCondition :: "clock \<Rightarrow> node_condition list" where
  "buildNodeCondition clk =
     [\<lparr>nd_Type = NodeReady, nd_Status = ConditionTrue, nd_LastHeartbeatTime = clk, nd_LastTransitionTime = clk,
       nd_Reason = ''KubeletReady'', nd_Message = ''kubelet is posting ready status''\<rparr>,
      \<lparr>nd_Type = NodeOutOfDisk, nd_Status = ConditionFalse, nd_LastHeartbeatTime = clk, nd_LastTransitionTime = clk,
       nd_Reason = ''KubeletHasSufficientDisk'', nd_Message = ''kubelet has sufficient disk space available''\<rparr>,
      \<lparr>nd_Type = NodeMemoryPressure, nd_Status = ConditionFalse, nd_LastHeartbeatTime = clk, nd_LastTransitionTime = clk,
       nd_Reason = ''KubeletHasSufficientMemory'', nd_Message = ''kubelet has sufficient memory available''\<rparr>,
      \<lparr>nd_Type = NodeDiskPressure, nd_Status = ConditionFalse, nd_LastHeartbeatTime = clk, nd_LastTransitionTime = clk,
       nd_Reason = ''KubeletHasNoDiskPressure'', nd_Message = ''kubelet has no disk pressure''\<rparr>,
      \<lparr>nd_Type = NodePIDPressure, nd_Status = ConditionFalse, nd_LastHeartbeatTime = clk, nd_LastTransitionTime = clk,
       nd_Reason = ''KubeletHasSufficientPID'', nd_Message = ''kubelet has sufficient PID available''\<rparr>]"

definition BuildNode :: "config_env \<Rightarrow> nat \<Rightarrow> node_config \<Rightarrow> string \<Rightarrow> built_node res" where
  "BuildNode env n conf startClock =
     res_bind (BuildResourceList (ce_ParseQuantity env) (nc_Allocatable conf)) (\<lambda>allocatable.
     res_bind (if startClock = '''' then Inr (ce_Now env n) else ce_ParseTime env startClock) (\<lambda>clk.
       Inr \<lparr>node_Name = nc_Name conf, node_Allocatable = allocatable, bn_Kind = ''Node'', bn_APIVersion = ''v1'',
            bn_Capacity = allocatable, bn_Conditions = buildNodeCondition clk\<rparr>))"

end
