(* ===== verification/KubeSetup.thy ===== *)
theory KubeSetup
  imports KubeSim Config
begin

text \<open>
  The constructors of pkg/kubesim.go: reading a configuration file and building the simulator from it, with
  the log levels of vendor/github.com/sirupsen/logrus. What viper reads from the file, and how it stores
  that over the default configuration, are parameters. The queue and the end clock are handed in; the heap
  with the pods, the fail queue of the scheduler and the cache of node metrics exist before, too.
\<close>

datatype log_level = PanicLevel | FatalLevel | ErrorLevel | WarnLevel | InfoLevel | DebugLevel | TraceLevel

definition level_String :: "log_level \<Rightarrow> string" where
  "level_String level =
     (case level of PanicLevel \<Rightarrow> ''panic'' | FatalLevel \<Rightarrow> ''fatal'' | ErrorLevel \<Rightarrow> ''error''
      | WarnLevel \<Rightarrow> ''warning'' | InfoLevel \<Rightarrow> ''info'' | DebugLevel \<Rightarrow> ''debug'' | TraceLevel \<Rightarrow> ''trace'')"

text \<open>The level, which is the zero value PanicLevel if there is an error, and whether there is one.\<close>

definition ParseLevel :: "string \<Rightarrow> log_level \<times> bool" where
  "ParseLevel lvl =
     (let l = map lower lvl
      in if l = ''panic'' then (PanicLevel, False) else if l = ''fatal'' then (FatalLevel, False)
         else if l = ''error'' then (ErrorLevel, False) else if l = ''warn'' \<or> l = ''warning'' then (WarnLevel, False)
         else if l = ''info'' then (InfoLevel, False) else if l = ''debug'' then (DebugLevel, False)
         else if l = ''trace'' then (TraceLevel, False) else (PanicLevel, True))"

text \<open>The error names the level that was parsed and the text it was parsed from. The result is the level set.\<close>

definition configLog :: "string \<Rightarrow> log_level res" where
  "configLog logLevel =
     (case ParseLevel logLevel of (level, err) \<Rightarrow>
        if err then Inl (LogLevelNotSupported (level_String level) logLevel) else Inr level)"

definition buildClock :: "config_env \<Rightarrow> string \<Rightarrow> clock res" where
  "buildClock env startClock = (if startClock = '''' then Inr (ce_Now env 0) else ce_ParseTime env startClock)"

fun buildCluster_loop ::
  "config_env \<Rightarrow> string \<Rightarrow> nat \<Rightarrow> (string \<times> sim_node) list \<Rightarrow> node_config list \<Rightarrow> (string \<times> sim_node) list res" where
  "buildCluster_loop env startClock n nodes [] = Inr nodes"
| "buildCluster_loop env startClock n nodes (nodeConf # confs) =
     res_bind (BuildNode env n nodeConf startClock) (\<lambda>nodeV1.
       buildCluster_loop env startClock (Suc n)
         (AList.update (node_Name nodeV1) (NewNode (v1_node.truncate nodeV1)) nodes) confs)"

definition buildCluster :: "config_env \<Rightarrow> config \<Rightarrow> (string \<times> sim_node) list res" where
  "buildCluster env conf = buildCluster_loop env (co_StartClock conf) 1 [] (co_Cluster conf)"

definition buildMetricsWriters :: "config_env \<Rightarrow> config \<Rightarrow> file_writer list res" where
  "buildMetricsWriters env conf = BuildMetricsLogger (ce_out env) (co_MetricsLogger conf)"

text \<open>\<^verbatim>\<open>time.Duration(n) * time.Second\<close>\<close>

definition seconds :: "int \<Rightarrow> duration" where
  "seconds n = i64 (i64 n * second)"

definition NewKubeSim ::
  "config_env \<Rightarrow> config \<Rightarrow> pod_queue \<Rightarrow> clock \<Rightarrow> heap \<Rightarrow> fifo_queue \<Rightarrow> (string \<times> cached_metrics) list \<Rightarrow>
     (kubesim \<times> file_writer list) res" where
  "NewKubeSim env conf podQueue endClock h failQueue cache =
     (case configLog (co_LogLevel conf) of
        Inl e \<Rightarrow> Inl (LoggingError e)
      | Inr level \<Rightarrow>
          res_bind (buildClock env (co_StartClock conf)) (\<lambda>clk.
          res_bind (buildCluster env conf) (\<lambda>nodes.
            let nodeNames = sort (map fst nodes);
                metricsTick = (if co_MetricsTick conf \<noteq> 0 then co_MetricsTick conf else co_Tick conf)
            in res_bind (buildMetricsWriters env conf) (\<lambda>metricsWriters.
                 Inr (\<lparr>k_tick = seconds (co_Tick conf), k_clock = clk, k_nodes = nodes, k_nodeNames = nodeNames,
                        k_pendingPods = podQueue, k_boundPods = [], k_submitters = [],
                        k_metricsTick = seconds metricsTick, k_endClock = endClock, k_heap = h,
                        k_failQueue = failQueue, k_cache = cache\<rparr>,
                      metricsWriters)))))"

text \<open>The writers as the main loop calls them: true if Write fails.\<close>

definition kube_writers :: "config_env \<Rightarrow> file_writer list \<Rightarrow> (metrics \<Rightarrow> bool) list" where
  "kube_writers env writers =
     map (\<lambda>w met. snd (FileWriter_Write (ce_out env) w (to_map (oe_rfc3339 (ce_out env)) met)) \<noteq> None) writers"

section \<open>From a file\<close>

record viper =
  vi_ReadInConfig :: "string \<Rightarrow> string res"
  vi_Unmarshal :: "string \<Rightarrow> config \<Rightarrow> config res"

definition default_config :: config where
  "default_config = \<lparr>co_LogLevel = ''info'', co_Tick = 10, co_StartClock = '''', co_MetricsTick = 0,
     co_MetricsLogger = [], co_Cluster = []\<rparr>"

definition readConfig :: "viper \<Rightarrow> string \<Rightarrow> config res" where
  "readConfig vip path = res_bind (vi_ReadInConfig vip path) (\<lambda>text. vi_Unmarshal vip text default_config)"

definition NewKubeSimFromConfigPath ::
  "viper \<Rightarrow> config_env \<Rightarrow> string \<Rightarrow> pod_queue \<Rightarrow> clock \<Rightarrow> heap \<Rightarrow> fifo_queue \<Rightarrow> (string \<times> cached_metrics) list \<Rightarrow>
     (kubesim \<times> file_writer list) res" where
  "NewKubeSimFromConfigPath vip env confPath podQueue endClock h failQueue cache =
     (case readConfig vip confPath of
        Inl e \<Rightarrow> Inl (ReadConfigError e)
      | Inr conf \<Rightarrow> NewKubeSim env conf podQueue endClock h failQueue cache)"

text \<open>log.L.Fatal ends the process: None.\<close>

definition NewKubeSimFromConfigPathOrDie ::
  "viper \<Rightarrow> config_env \<Rightarrow> string \<Rightarrow> pod_queue \<Rightarrow> clock \<Rightarrow> heap \<Rightarrow> fifo_queue \<Rightarrow> (string \<times> cached_metrics) list \<Rightarrow>
     (kubesim \<times> file_writer list) option" where
  "NewKubeSimFromConfigPathOrDie vip env confPath podQueue endClock h failQueue cache =
     (case NewKubeSimFromConfigPath vip env confPath podQueue endClock h failQueue cache of
        Inl _ \<Rightarrow> None
      | Inr kubesim \<Rightarrow> Some kubesim)"

end
