(* ===== verification/SetupProperties.thy ===== *)
theory SetupProperties
  imports KubeSetup FormatterProperties KubeProperties
begin

text \<open>
  A simulator built from a configuration: when it can be built, that it starts in the invariant of the main
  loop with exactly the configured nodes, that its simulation ends, and that only what is outside of the
  program makes its metrics writers fail.
\<close>

section \<open>Nodes\<close>

text \<open>Of several configurations with the same name the last one counts.\<close>

definition node_config_of :: "config \<Rightarrow> string \<Rightarrow> node_config option" where
  "node_config_of conf = map_of (rev (map (\<lambda>c. (nc_Name c, c)) (co_Cluster conf)))"

definition parsed :: "config_env \<Rightarrow> (string \<times> string) list \<Rightarrow> resource_list" where
  "parsed env resources = projr (BuildResourceList (ce_ParseQuantity env) resources)"

definition configured_node :: "config_env \<Rightarrow> node_config \<Rightarrow> v1_node" where
  "configured_node env c = \<lparr>node_Name = nc_Name c, node_Allocatable = parsed env (nc_Allocatable c)\<rparr>"

lemma BuildResourceList_loop_total:
  "(\<exists>rl. BuildResourceList_loop parse acc resources = Inr rl) \<longleftrightarrow> list_all (\<lambda>(k, v). parse v \<noteq> None) resources"
  by (induction parse acc resources rule: BuildResourceList_loop.induct) (auto split: option.splits)

lemma BuildResourceList_total:
  "(\<exists>rl. BuildResourceList parse resources = Inr rl) \<longleftrightarrow> list_all (\<lambda>(k, v). parse v \<noteq> None) resources"
  by (simp add: BuildResourceList_def BuildResourceList_loop_total)

definition clock_ok :: "config_env \<Rightarrow> string \<Rightarrow> bool" where
  "clock_ok env startClock \<longleftrightarrow> startClock = '''' \<or> (\<exists>clk. ce_ParseTime env startClock = Inr clk)"

definition quantities_ok :: "config_env \<Rightarrow> node_config \<Rightarrow> bool" where
  "quantities_ok env c \<longleftrightarrow> list_all (\<lambda>(k, v). ce_ParseQuantity env v \<noteq> None) (nc_Allocatable c)"

lemma clock_choice:
  "(\<exists>clk. (if s = '''' then Inr now else ce_ParseTime env s) = Inr clk) \<longleftrightarrow> clock_ok env s"
  by (simp add: clock_ok_def)

lemma BuildNode_total:
  "(\<exists>v1. BuildNode env n c startClock = Inr v1) \<longleftrightarrow> quantities_ok env c \<and> clock_ok env startClock"
  using BuildResourceList_total [of "ce_ParseQuantity env" "nc_Allocatable c"] clock_choice [of startClock "ce_Now env n" env]
  by (auto simp: BuildNode_def quantities_ok_def res_bind_Inr_iff)

lemma BuildNode_v1: "BuildNode env n c startClock = Inr v1 \<Longrightarrow> v1_node.truncate v1 = configured_node env c \<and> node_Name v1 = nc_Name c"
  by (auto simp: BuildNode_def configured_node_def parsed_def res_bind_Inr_iff v1_node.truncate_def)

lemma buildCluster_loop_fold:
  "buildCluster_loop env startClock n nodes confs = Inr nodes' \<Longrightarrow>
     nodes' = fold (\<lambda>c. AList.update (nc_Name c) (NewNode (configured_node env c))) confs nodes"
proof (induction confs arbitrary: n nodes)
  case (Cons c confs)
  from Cons.prems obtain v1 where v1: "BuildNode env n c startClock = Inr v1"
    "buildCluster_loop env startClock (Suc n) (AList.update (node_Name v1) (NewNode (v1_node.truncate v1)) nodes) confs = Inr nodes'"
    by (auto simp: res_bind_Inr_iff)
  with Cons.IH [OF v1(2)] BuildNode_v1 [OF v1(1)] show ?case by simp
qed simp

lemma buildCluster_loop_total:
  "(\<exists>nodes'. buildCluster_loop env startClock n nodes confs = Inr nodes') \<longleftrightarrow>
     list_all (quantities_ok env) confs \<and> (confs = [] \<or> clock_ok env startClock)"
proof (induction confs arbitrary: n nodes)
  case (Cons c confs)
  show ?case
  proof (cases "BuildNode env n c startClock")
    case (Inl e)
    then have "\<not> (quantities_ok env c \<and> clock_ok env startClock)"
      using BuildNode_total [of env n c startClock] by simp
    with Inl show ?thesis by auto
  next
    case (Inr v1)
    then have "quantities_ok env c" "clock_ok env startClock" using BuildNode_total [of env n c startClock] by auto
    with Inr Cons show ?thesis by simp
  qed
qed simp

lemma fold_update_map:
  "map_of (fold (\<lambda>c. AList.update (f c) (g c)) cs nodes) = map_of nodes ++ map_of (rev (map (\<lambda>c. (f c, g c)) cs))"
proof (induction cs arbitrary: nodes)
  case (Cons c cs)
  have "map_of (fold (\<lambda>c. AList.update (f c) (g c)) (c # cs) nodes) =
      (map_of nodes)(f c \<mapsto> g c) ++ map_of (rev (map (\<lambda>c. (f c, g c)) cs))"
    using Cons.IH [of "AList.update (f c) (g c) nodes"] by (simp add: update_conv' fun_upd_def)
  then show ?case by (simp add: map_add_assoc)
qed simp

lemma fold_update_distinct:
  "distinct (map fst nodes) \<Longrightarrow> distinct (map fst (fold (\<lambda>c. AList.update (f c) (g c)) cs nodes))"
  by (induction cs arbitrary: nodes) (simp_all add: distinct_update)

lemma map_of_rev_image:
  "map_of (rev (map (\<lambda>c. (f c, g c)) cs)) k = map_option g (map_of (rev (map (\<lambda>c. (f c, c)) cs)) k)"
proof -
  have "map_of (map (\<lambda>c. (f c, g c)) ds) k = map_option g (map_of (map (\<lambda>c. (f c, c)) ds) k)" for ds
    by (induction ds) simp_all
  then show ?thesis by (simp only: rev_map)
qed

lemma buildCluster_spec:
  assumes "buildCluster env conf = Inr nodes"
  shows "distinct (map fst nodes)" "fst ` set nodes = nc_Name ` set (co_Cluster conf)"
    "map_of nodes name = map_option (\<lambda>c. NewNode (configured_node env c)) (node_config_of conf name)"
proof -
  note fold = buildCluster_loop_fold [OF assms [unfolded buildCluster_def]]
  show "distinct (map fst nodes)" unfolding fold by (rule fold_update_distinct) simp
  have map: "map_of nodes = map_of (rev (map (\<lambda>c. (nc_Name c, NewNode (configured_node env c))) (co_Cluster conf)))"
    unfolding fold by (simp add: fold_update_map)
  have "fst ` set nodes = dom (map_of nodes)" by (simp add: dom_map_of_conv_image_fst)
  also have "\<dots> = nc_Name ` set (co_Cluster conf)"
    unfolding map dom_map_of_conv_image_fst by (simp add: image_image)
  finally show "fst ` set nodes = nc_Name ` set (co_Cluster conf)" .
  show "map_of nodes name = map_option (\<lambda>c. NewNode (configured_node env c)) (node_config_of conf name)"
    unfolding map node_config_of_def by (rule map_of_rev_image)
qed

lemma node_config_of_name: "node_config_of conf name = Some c \<Longrightarrow> c \<in> set (co_Cluster conf) \<and> nc_Name c = name"
  by (auto simp: node_config_of_def dest: map_of_SomeD)

section \<open>Metrics writers\<close>

definition logger_ok :: "out_env \<Rightarrow> metrics_logger_config \<Rightarrow> bool" where
  "logger_ok env l \<longleftrightarrow>
     ml_Dest l \<noteq> '''' \<and> ml_Formatter l \<in> {''JSON'', ''humanReadable'', ''table''} \<and>
     (ml_Dest l \<in> {''/dev/stdout'', ''/dev/stderr''} \<or> map lower (ml_Dest l) \<in> {''stdout'', ''stderr''} \<or>
      oe_Create env (ml_Dest l) = None)"

lemma NewFileWriter_total:
  "(\<exists>w. NewFileWriter env dest fmt = Inr w) \<longleftrightarrow>
     dest \<in> {''/dev/stdout'', ''/dev/stderr''} \<or> map lower dest \<in> {''stdout'', ''stderr''} \<or> oe_Create env dest = None"
  by (auto simp: NewFileWriter_def split: option.splits)

lemma buildFormatter_total: "(\<exists>fmt. buildFormatter s = Inr fmt) \<longleftrightarrow> s \<in> {''JSON'', ''humanReadable'', ''table''}"
  by (simp add: buildFormatter_def)

lemma BuildMetricsLogger_total: "(\<exists>ws. BuildMetricsLogger env confs = Inr ws) \<longleftrightarrow> list_all (logger_ok env) confs"
proof (induction confs)
  case (Cons l confs)
  have "(\<exists>ws. BuildMetricsLogger env (l # confs) = Inr ws) \<longleftrightarrow>
      ml_Dest l \<noteq> '''' \<and> (\<exists>fmt. buildFormatter (ml_Formatter l) = Inr fmt \<and>
        (\<exists>w. NewFileWriter env (ml_Dest l) fmt = Inr w)) \<and> (\<exists>ws. BuildMetricsLogger env confs = Inr ws)"
    by (auto simp: res_bind_Inr_iff)
  also have "\<dots> \<longleftrightarrow> logger_ok env l \<and> list_all (logger_ok env) confs"
    unfolding Cons.IH NewFileWriter_total using buildFormatter_total [of "ml_Formatter l"]
    by (auto simp: logger_ok_def)
  finally show ?case by simp
qed simp

lemma FileWriter_Write_fails:
  assumes "snd (FileWriter_Write env w (to_map rfc3339 met)) \<noteq> None"
  shows "(\<exists>e. fw_formatter w = JSONFormatter \<and> oe_Marshal env (to_map rfc3339 met) = Inl e) \<or>
    (\<exists>str e. oe_WriteString env (fw_file w) str = Some e)"
proof (cases "Format env (fw_formatter w) (to_map rfc3339 met)")
  case (Inl e)
  have "\<exists>str. TableFormatter_Format (oe_rfc3339 env) (to_map rfc3339 met) = Inr str"
    "\<exists>str. HumanReadableFormatter_Format (oe_rfc3339 env) (to_map rfc3339 met) = Inr str"
    by (simp_all add: TableFormatter_Format_def HumanReadableFormatter_Format_def validate_to_map to_map_fields split: prod.splits)
  with Inl show ?thesis by (cases "fw_formatter w") auto
next
  case (Inr str)
  with assms show ?thesis by (auto simp: FileWriter_Write_def split: option.splits)
qed

section \<open>Properties\<close>

definition level_names :: "string list" where
  "level_names = [''panic'', ''fatal'', ''error'', ''warn'', ''warning'', ''info'', ''debug'', ''trace'']"

lemma configLog_total: "(\<exists>level. configLog l = Inr level) \<longleftrightarrow> map lower l \<in> set level_names"
  by (simp add: configLog_def ParseLevel_def Let_def level_names_def)

lemma configLog_error: "configLog l = Inl e \<Longrightarrow> e = LogLevelNotSupported ''panic'' l"
  by (auto simp: configLog_def ParseLevel_def Let_def level_String_def split: if_splits)

text \<open>
  C36: A simulator can be built exactly from a configuration with a known log level, an RFC 3339 start clock or
  none, a quantity for every resource of every node, and for every metrics logger a destination that can be
  created and one of the three formatters.
\<close>

theorem setup_succeeds_iff:
  "(\<exists>kw. NewKubeSim env conf podQueue endClock h failQueue cache = Inr kw) \<longleftrightarrow>
     map lower (co_LogLevel conf) \<in> set level_names \<and> clock_ok env (co_StartClock conf) \<and>
     list_all (quantities_ok env) (co_Cluster conf) \<and> list_all (logger_ok (ce_out env)) (co_MetricsLogger conf)"
proof (cases "configLog (co_LogLevel conf)")
  case (Inl e)
  then show ?thesis using configLog_total [of "co_LogLevel conf"] by (simp add: NewKubeSim_def)
next
  case (Inr level)
  then have "map lower (co_LogLevel conf) \<in> set level_names" using configLog_total by blast
  moreover have "(\<exists>kw. NewKubeSim env conf podQueue endClock h failQueue cache = Inr kw) \<longleftrightarrow>
      (\<exists>clk. buildClock env (co_StartClock conf) = Inr clk) \<and> (\<exists>nodes. buildCluster env conf = Inr nodes) \<and>
      (\<exists>ws. buildMetricsWriters env conf = Inr ws)"
    unfolding NewKubeSim_def Inr Let_def sum.case res_bind_Inr_iff by blast
  moreover have "(\<exists>clk. buildClock env (co_StartClock conf) = Inr clk) \<longleftrightarrow> clock_ok env (co_StartClock conf)"
    by (simp add: buildClock_def clock_ok_def)
  moreover note buildCluster_loop_total [of env "co_StartClock conf" 1 "[]" "co_Cluster conf"]
    BuildMetricsLogger_total [of "ce_out env" "co_MetricsLogger conf"]
  ultimately show ?thesis unfolding buildCluster_def buildMetricsWriters_def by blast
qed

lemma NewKubeSim_Inr:
  assumes "NewKubeSim env conf podQueue endClock h failQueue cache = Inr (k, ws)"
  obtains clk nodes where "buildClock env (co_StartClock conf) = Inr clk" "buildCluster env conf = Inr nodes"
    "buildMetricsWriters env conf = Inr ws"
    "k = \<lparr>k_tick = seconds (co_Tick conf), k_clock = clk, k_nodes = nodes, k_nodeNames = sort (map fst nodes),
      k_pendingPods = podQueue, k_boundPods = [], k_submitters = [],
      k_metricsTick = seconds (if co_MetricsTick conf \<noteq> 0 then co_MetricsTick conf else co_Tick conf),
      k_endClock = endClock, k_heap = h, k_failQueue = failQueue, k_cache = cache\<rparr>"
  using assms by (auto simp: NewKubeSim_def Let_def res_bind_Inr_iff split: sum.splits)

lemma list_nodes_map:
  "(\<And>name. name \<in> set names \<Longrightarrow> map_of nodes name = Some (NewNode (f name))) \<Longrightarrow> list_nodes nodes names = Inr (map f names)"
  by (induction names) (simp_all add: NewNode_def)

text \<open>The nodes that are built, each from the last configuration of its name.\<close>

lemma built_nodes:
  assumes built: "buildCluster env conf = Inr nodes" and name: "name \<in> fst ` set nodes"
  shows "map_of nodes name = Some (NewNode (configured_node env (the (node_config_of conf name))))"
    "node_Name (configured_node env (the (node_config_of conf name))) = name"
    "Some (configured_node env (the (node_config_of conf name))) = map_option (configured_node env) (node_config_of conf name)"
proof -
  note spec = buildCluster_spec [OF built]
  from name have "map_of nodes name \<noteq> None" by (simp add: map_of_eq_None_iff)
  then obtain c where "node_config_of conf name = Some c" using spec(3) [of name] by (cases "node_config_of conf name") auto
  then show "map_of nodes name = Some (NewNode (configured_node env (the (node_config_of conf name))))"
    "node_Name (configured_node env (the (node_config_of conf name))) = name"
    "Some (configured_node env (the (node_config_of conf name))) = map_option (configured_node env) (node_config_of conf name)"
    using spec(3) [of name] node_config_of_name by (simp_all add: configured_node_def)
qed

lemma NewKubeSim_new:
  assumes "NewKubeSim env conf podQueue endClock h NewFIFOQueue cache = Inr (k, ws)" "queue_reach (hp_pods h) podQueue"
  shows "kube_new k"
proof -
  obtain nodes where built: "buildCluster env conf = Inr nodes" and fields: "k_nodes k = nodes" "k_nodeNames k = sort (map fst nodes)"
    "k_pendingPods k = podQueue" "k_heap k = h" "k_failQueue k = NewFIFOQueue" "k_boundPods k = []"
    using assms(1) by (elim NewKubeSim_Inr) simp
  have "\<exists>v1. n = NewNode v1 \<and> node_Name v1 = name" if "(name, n) \<in> set nodes" for name n
  proof -
    have "map_of nodes name = Some n" using that buildCluster_spec(1) [OF built] by simp
    moreover have known: "name \<in> fst ` set nodes" using that by force
    moreover note built_nodes(1,2) [OF built known]
    ultimately show ?thesis by auto
  qed
  with buildCluster_spec(1) [OF built] assms(2) show ?thesis unfolding kube_new_def fields by auto
qed

text \<open>
  C9: The simulator that is built starts in the invariant of the main loop, and its cluster is the configured
  one: listing it gives, in the order of the names, one node for each name in the configuration, with the
  quantities that are parsed from the last node of that name.
\<close>

theorem simulator_as_configured:
  assumes "NewKubeSim env conf podQueue endClock h NewFIFOQueue cache = Inr (k, ws)" "queue_reach (hp_pods h) podQueue"
  shows "kube_reach sch k \<and> k_nodeNames k = sorted_list_of_set (nc_Name ` set (co_Cluster conf)) \<and>
    (\<exists>nodes. kube_List k = Inr nodes \<and> map node_Name nodes = k_nodeNames k \<and>
       map Some nodes = map (\<lambda>name. map_option (configured_node env) (node_config_of conf name)) (k_nodeNames k))"
proof -
  obtain clk nodes where built: "buildCluster env conf = Inr nodes" and k: "k = \<lparr>k_tick = seconds (co_Tick conf), k_clock = clk,
      k_nodes = nodes, k_nodeNames = sort (map fst nodes), k_pendingPods = podQueue, k_boundPods = [], k_submitters = [],
      k_metricsTick = seconds (if co_MetricsTick conf \<noteq> 0 then co_MetricsTick conf else co_Tick conf),
      k_endClock = endClock, k_heap = h, k_failQueue = NewFIFOQueue, k_cache = cache\<rparr>"
    using assms(1) by (rule NewKubeSim_Inr)
  note spec = buildCluster_spec [OF built]
  let ?node = "\<lambda>name. configured_node env (the (node_config_of conf name))"
  have fields: "k_nodes k = nodes" "k_nodeNames k = sort (map fst nodes)" "k_pendingPods k = podQueue" "k_heap k = h"
    "k_failQueue k = NewFIFOQueue" "k_boundPods k = []" by (simp_all add: k)
  have "kube_new k" by (rule NewKubeSim_new [OF assms])
  then have reach: "kube_reach sch k" by (rule kube_reach.new)
  have in_nodes: "name \<in> fst ` set nodes" if "name \<in> set (k_nodeNames k)" for name using that by (simp add: fields)
  have "kube_List k = Inr (map ?node (k_nodeNames k))"
    unfolding kube_List_def fields(1) by (rule list_nodes_map) (rule built_nodes(1) [OF built in_nodes])
  moreover have "k_nodeNames k = sorted_list_of_set (nc_Name ` set (co_Cluster conf))"
    unfolding fields using spec(1,2) by (simp add: sort_distinct)
  moreover have "map node_Name (map ?node (k_nodeNames k)) = k_nodeNames k"
    using built_nodes(2) [OF built in_nodes] by (simp add: map_idI)
  moreover have "map Some (map ?node (k_nodeNames k)) = map (\<lambda>name. map_option (configured_node env) (node_config_of conf name)) (k_nodeNames k)"
    using built_nodes(3) [OF built in_nodes] by simp
  ultimately show ?thesis using reach by metis
qed

text \<open>
  A configured simulation ends: if a simulator is built from a configuration whose tick is positive and, in
  nanoseconds, within an int64, then running it returns, whatever submitters are added to it, whatever its
  scheduler is configured with, and whatever the metrics writers do.
\<close>

theorem configured_simulation_ends:
  assumes "NewKubeSim env conf podQueue endClock h failQueue cache = Inr (k, ws)" "0 < co_Tick conf" "co_Tick conf \<le> 9223372036"
  shows "\<exists>r. Run ke (Schedule senv sched) es (fold (\<lambda>(name, subm) k. kube_AddSubmitter k name subm) subms k) = Some r"
proof (rule Run_returns)
  have "k_tick (fold (\<lambda>(name, subm) k. kube_AddSubmitter k name subm) subms k) = k_tick k" for k
    by (induction subms arbitrary: k) (auto simp: kube_AddSubmitter_def)
  moreover have "k_tick k = co_Tick conf * second"
    using assms by (elim NewKubeSim_Inr) (simp add: seconds_def second_def i64_id in64_def)
  ultimately show "0 < k_tick (fold (\<lambda>(name, subm) k. kube_AddSubmitter k name subm) subms k)"
    using assms(2) by (simp add: second_def)
qed

text \<open>
  The metrics writers of a configured simulator fail for reasons outside of the program only: a file that
  cannot be written, or JSON that cannot be marshalled; the metrics of the simulator are never refused.
\<close>

theorem writers_fail_outside:
  assumes "ke_writers ke = kube_writers env ws" "writeMetrics ke met"
  shows "\<exists>w \<in> set ws. (\<exists>e. fw_formatter w = JSONFormatter \<and> oe_Marshal (ce_out env) (to_map (oe_rfc3339 (ce_out env)) met) = Inl e) \<or>
    (\<exists>str e. oe_WriteString (ce_out env) (fw_file w) str = Some e)"
proof -
  obtain w where "w \<in> set ws" "snd (FileWriter_Write (ce_out env) w (to_map (oe_rfc3339 (ce_out env)) met)) \<noteq> None"
    using assms by (auto simp: writeMetrics_def kube_writers_def list_ex_iff)
  with FileWriter_Write_fails show ?thesis by blast
qed

section \<open>Witnesses\<close>

definition demo_out :: out_env where
  "demo_out = \<lparr>oe_rfc3339 = (\<lambda>_. ''1970-01-01T00:00:00Z''), oe_Marshal = (\<lambda>_. Inr ''{}''), oe_Create = (\<lambda>_. None),
     oe_WriteString = (\<lambda>f _. if f = Stdout then Some (ResultError ''broken pipe'') else None)\<rparr>"

definition demo_config_env :: config_env where
  "demo_config_env = \<lparr>ce_out = demo_out,
     ce_ParseQuantity = (\<lambda>s. if s = ''4'' then Some (NewQuantity 4 DecimalSI) else if s = ''8'' then Some (NewQuantity 8 DecimalSI) else None),
     ce_ParseTime = (\<lambda>_. Inr 0), ce_Now = (\<lambda>n. int n)\<rparr>"

definition demo_config :: config where
  "demo_config = default_config\<lparr>co_StartClock := ''1970-01-01T00:00:00Z'',
     co_MetricsLogger := [\<lparr>ml_Dest = ''kubesim.log'', ml_Formatter = ''table''\<rparr>, \<lparr>ml_Dest = ''StdOut'', ml_Formatter = ''JSON''\<rparr>],
     co_Cluster := [\<lparr>nc_Name = ''n1'', nc_Allocatable = [(cpu, ''4'')]\<rparr>, \<lparr>nc_Name = ''n0'', nc_Allocatable = []\<rparr>,
       \<lparr>nc_Name = ''n1'', nc_Allocatable = [(cpu, ''8'')]\<rparr>]\<rparr>"

definition demo_heap :: heap where
  "demo_heap = \<lparr>hp_pods = sim_store, hp_sims = (\<lambda>_. demo_sim_pod), hp_next = 0\<rparr>"

abbreviation demo_setup :: "(kubesim \<times> file_writer list) res" where
  "demo_setup \<equiv> NewKubeSim demo_config_env demo_config (Fifo NewFIFOQueue) (3600 * second) demo_heap NewFIFOQueue []"

lemma demo_setup_writers:
  "(case demo_setup of Inl e \<Rightarrow> [] | Inr (k, ws) \<Rightarrow> ws) =
     [\<lparr>fw_file = CreatedFile ''kubesim.log'', fw_formatter = TableFormatter\<rparr>, \<lparr>fw_file = Stdout, fw_formatter = JSONFormatter\<rparr>]"
  by code_simp

lemma demo_setup_Inr:
  obtains k where "demo_setup =
    Inr (k, [\<lparr>fw_file = CreatedFile ''kubesim.log'', fw_formatter = TableFormatter\<rparr>, \<lparr>fw_file = Stdout, fw_formatter = JSONFormatter\<rparr>])"
  using demo_setup_writers by (auto split: sum.splits prod.splits)

theorem simulator_as_configured_witness:
  "\<exists>k ws. demo_setup = Inr (k, ws) \<and>
     kube_List k = Inr [\<lparr>node_Name = ''n0'', node_Allocatable = []\<rparr>, \<lparr>node_Name = ''n1'', node_Allocatable = [(cpu, NewQuantity 8 DecimalSI)]\<rparr>]"
proof -
  obtain k ws where k: "demo_setup = Inr (k, ws)" by (rule demo_setup_Inr)
  have names: "sorted_list_of_set (nc_Name ` set (co_Cluster demo_config)) = [''n0'', ''n1'']"
    by (simp add: demo_config_def insert_commute)
  have confs: "map (\<lambda>name. map_option (configured_node demo_config_env) (node_config_of demo_config name)) [''n0'', ''n1''] =
      map Some [\<lparr>node_Name = ''n0'', node_Allocatable = []\<rparr>, \<lparr>node_Name = ''n1'', node_Allocatable = [(cpu, NewQuantity 8 DecimalSI)]\<rparr>]"
    by code_simp
  from simulator_as_configured [OF k queue_reach.new_fifo, unfolded names] confs
  obtain nodes where "kube_List k = Inr nodes" "map Some nodes =
      map Some [\<lparr>node_Name = ''n0'', node_Allocatable = []\<rparr>, \<lparr>node_Name = ''n1'', node_Allocatable = [(cpu, NewQuantity 8 DecimalSI)]\<rparr>]"
    by metis
  moreover have "inj Some" by simp
  ultimately have "kube_List k =
      Inr [\<lparr>node_Name = ''n0'', node_Allocatable = []\<rparr>, \<lparr>node_Name = ''n1'', node_Allocatable = [(cpu, NewQuantity 8 DecimalSI)]\<rparr>]"
    using inj_map_eq_map by metis
  with k show ?thesis by blast
qed

theorem configured_simulation_ends_witness:
  "\<exists>k ws r. demo_setup = Inr (k, ws) \<and>
     Run demo_kube_env (Schedule demo_sched_env (\<lambda>_. demo_scheduler)) demo_estimator (kube_AddSubmitter k ''trace'' failing_submitter) = Some r"
proof -
  obtain k ws where k: "demo_setup = Inr (k, ws)" by (rule demo_setup_Inr)
  have "0 < co_Tick demo_config" "co_Tick demo_config \<le> 9223372036" by (simp_all add: demo_config_def default_config_def)
  from configured_simulation_ends [OF k this, of demo_kube_env demo_sched_env "\<lambda>_. demo_scheduler" demo_estimator "[(''trace'', failing_submitter)]"] k
  show ?thesis by auto
qed

theorem writers_fail_outside_witness:
  "\<exists>k ws. demo_setup = Inr (k, ws) \<and> (\<exists>w \<in> set ws. \<exists>str e. oe_WriteString demo_out (fw_file w) str = Some e)"
proof -
  let ?ws = "[\<lparr>fw_file = CreatedFile ''kubesim.log'', fw_formatter = TableFormatter\<rparr>, \<lparr>fw_file = Stdout, fw_formatter = JSONFormatter\<rparr>]"
  obtain k where k: "demo_setup = Inr (k, ?ws)" by (rule demo_setup_Inr)
  let ?ke = "demo_kube_env\<lparr>ke_writers := kube_writers demo_config_env ?ws\<rparr>"
  have out: "ce_out demo_config_env = demo_out" by (simp add: demo_config_env_def)
  have "FileWriter_Write demo_out \<lparr>fw_file = Stdout, fw_formatter = JSONFormatter\<rparr> mets = ([], Some (ResultError ''broken pipe''))" for mets
    by (simp add: FileWriter_Write_def demo_out_def)
  then have "writeMetrics ?ke (two_metrics two_loads)"
    by (simp add: writeMetrics_def kube_writers_def out)
  moreover have "ke_writers ?ke = kube_writers demo_config_env ?ws" by simp
  ultimately have "\<exists>w \<in> set ?ws. (\<exists>e. fw_formatter w = JSONFormatter \<and> oe_Marshal demo_out (to_map (oe_rfc3339 demo_out) (two_metrics two_loads)) = Inl e) \<or>
      (\<exists>str e. oe_WriteString demo_out (fw_file w) str = Some e)"
    using writers_fail_outside [of ?ke demo_config_env ?ws "two_metrics two_loads"] by (simp only: out)
  moreover have "oe_Marshal demo_out mets \<noteq> Inl e" for mets e by (simp add: demo_out_def)
  ultimately show ?thesis using k by blast
qed

end
