(* ===== verification/ExperimentPlugins.thy ===== *)
theory ExperimentPlugins
  imports GenericScheduler ResourcePredicates Formatter
begin

text \<open>
  src/experiments/extender.go and main.go: the schedulers the experiments compare, with the extender that
  keeps the predicted usage of a node within its capacity, and the prioritizers they are configured with
  (vendor/k8s.io/kubernetes/pkg/scheduler/algorithm/priorities). The extender reads the package variable
  NodeMetricsCache, an argument here. Its workers each write a slot of their own, so that their order does
  not matter. GeneralPredicates and BalancedResourceAllocationMap, of the default scheduler, are parameters.
\<close>

section \<open>The extender\<close>

definition filterExtender :: "pods \<Rightarrow> extender_args \<Rightarrow> extender_filter_result res" where
  "filterExtender ps args =
     Inr \<lparr>efr_Nodes = Some [], efr_NodeNames = Some (ea_NodeNames args), efr_FailedNodes = [], efr_Error = []\<rparr>"

definition prioritizeExtender :: "pods \<Rightarrow> extender_args \<Rightarrow> host_priority list res" where
  "prioritizeExtender ps args = Inr (map (\<lambda>name. \<lparr>pri_Host = name, pri_Score = 1\<rparr>) (ea_NodeNames args))"

type_synonym metrics_cache = "(string \<times> cached_metrics) list"

definition MaxPriority :: int where
  "MaxPriority = 100"

text \<open>A capacity of 0 is an integer division by zero.\<close>

definition free_score :: "int \<Rightarrow> int \<Rightarrow> int res" where
  "free_score capacity usage =
     (if capacity = 0 then Inl (Panic ''integer divide by zero'')
      else Inr (i64 (i64 (MaxPriority * i64 (capacity - usage)) sdiv capacity)))"

definition low_usage_score :: "metrics_cache \<Rightarrow> string \<Rightarrow> host_priority res" where
  "low_usage_score cache name =
     (case map_of cache name of
        Some m \<Rightarrow>
          res_bind (free_score (r_MilliCPU (cm_Allocatable m)) (r_MilliCPU (cm_Usage m))) (\<lambda>cScore.
          res_bind (free_score (r_Memory (cm_Allocatable m)) (r_Memory (cm_Usage m))) (\<lambda>mScore.
            Inr \<lparr>pri_Host = name, pri_Score = (if cScore > mScore then mScore else cScore)\<rparr>))
      | None \<Rightarrow> Inr \<lparr>pri_Host = name, pri_Score = MaxPriority\<rparr>)"

fun map_res :: "('a \<Rightarrow> 'b res) \<Rightarrow> 'a list \<Rightarrow> 'b list res" where
  "map_res f [] = Inr []"
| "map_res f (x # xs) = res_bind (f x) (\<lambda>y. res_bind (map_res f xs) (\<lambda>ys. Inr (y # ys)))"

definition prioritizeLowUsageNode :: "metrics_cache \<Rightarrow> pods \<Rightarrow> extender_args \<Rightarrow> host_priority list res" where
  "prioritizeLowUsageNode cache ps args = map_res (low_usage_score cache) (ea_NodeNames args)"

definition usage_fits :: "metrics_cache \<Rightarrow> resource \<Rightarrow> string \<Rightarrow> bool" where
  "usage_fits cache request name =
     (case map_of cache name of
        Some m \<Rightarrow>
          \<not> (i64 (i64 (r_MilliCPU (cm_Allocatable m) - r_MilliCPU (cm_Usage m)) - r_MilliCPU request) < 0 \<or>
             i64 (i64 (r_Memory (cm_Allocatable m) - r_Memory (cm_Usage m)) - r_Memory request) < 0)
      | None \<Rightarrow> True)"

text \<open>A name that is refused is replaced by the empty string, which is also the key it is reported under.\<close>

definition filterFitResource :: "metrics_cache \<Rightarrow> pods \<Rightarrow> extender_args \<Rightarrow> extender_filter_result res" where
  "filterFitResource cache ps args =
     (let request = GetResourceRequest (ps (ea_Pod args));
          filtered = map (\<lambda>name. if usage_fits cache request name then name else '''') (ea_NodeNames args)
      in Inr \<lparr>efr_Nodes = Some [], efr_NodeNames = Some (filter (\<lambda>name. name \<noteq> '''') filtered),
             efr_FailedNodes =
               (if list_ex (\<lambda>name. name = '''') filtered then [('''', ''This node's usage is too high'')] else []),
             efr_Error = []\<rparr>)"

section \<open>Prioritizers\<close>

fun split_at :: "char \<Rightarrow> string \<Rightarrow> string list" where
  "split_at sep [] = [[]]"
| "split_at sep (c # cs) =
     (if c = sep then [] # split_at sep cs
      else case split_at sep cs of [] \<Rightarrow> [[c]] | w # ws \<Rightarrow> (c # w) # ws)"

definition jobName :: "v1_pod \<Rightarrow> string" where
  "jobName pod = (let strs = split_at CHR ''-'' (pod_Name pod) in if length strs < 2 then pod_Name pod else strs ! 1)"

definition leastTasksFromSameJobScorer :: "pods \<Rightarrow> pod_ptr \<Rightarrow> node_info \<Rightarrow> int" where
  "leastTasksFromSameJobScorer ps pod nodeInfo =
     MaxPriority - int (length (filter (\<lambda>p. jobName (ps p) = jobName (ps pod)) (ni_pods nodeInfo)))"

definition LeastTasksFromSameJobPriorityMap :: "pods \<Rightarrow> pod_ptr \<Rightarrow> node_info \<Rightarrow> host_priority res" where
  "LeastTasksFromSameJobPriorityMap ps pod nodeInfo =
     (case ni_node nodeInfo of
        None \<Rightarrow> Inl (Panic ''nil pointer dereference'')
      | Some node \<Rightarrow> Inr \<lparr>pri_Host = node_Name node, pri_Score = leastTasksFromSameJobScorer ps pod nodeInfo\<rparr>)"

fun getNonZeroRequests_loop :: "int \<times> int \<Rightarrow> container list \<Rightarrow> int \<times> int" where
  "getNonZeroRequests_loop r [] = r"
| "getNonZeroRequests_loop (c, m) (ct # cts) =
     (case GetNonzeroRequests (ct_Requests ct) of (cpu', mem') \<Rightarrow>
        getNonZeroRequests_loop (i64 (c + cpu'), i64 (m + mem')) cts)"

definition leastRequestedScore :: "int \<Rightarrow> int \<Rightarrow> int" where
  "leastRequestedScore req capacity =
     (if capacity = 0 then 0 else i64 (i64 (i64 (capacity - req) * MaxPriority) sdiv capacity))"

definition mostRequestedScore :: "int \<Rightarrow> int \<Rightarrow> int" where
  "mostRequestedScore req capacity =
     (if capacity = 0 then 0 else i64 (i64 (req * MaxPriority) sdiv capacity))"

definition allocation_priority :: "(int \<Rightarrow> int \<Rightarrow> int) \<Rightarrow> pods \<Rightarrow> pod_ptr \<Rightarrow> node_info \<Rightarrow> host_priority res" where
  "allocation_priority scorer ps pod nodeInfo =
     (case ni_node nodeInfo of
        None \<Rightarrow> Inl (ResultError ''node not found'')
      | Some node \<Rightarrow>
          let (c, m) = getNonZeroRequests_loop (0, 0) (pod_Containers (ps pod));
              allocatable = ni_allocatableResource nodeInfo;
              requestedCPU = i64 (c + r_MilliCPU (ni_nonzeroRequest nodeInfo));
              requestedMemory = i64 (m + r_Memory (ni_nonzeroRequest nodeInfo))
          in Inr \<lparr>pri_Host = node_Name node,
                  pri_Score = i64 (scorer requestedCPU (r_MilliCPU allocatable) +
                    scorer requestedMemory (r_Memory allocatable)) sdiv 2\<rparr>)"

definition LeastRequestedPriorityMap :: "pods \<Rightarrow> pod_ptr \<Rightarrow> node_info \<Rightarrow> host_priority res" where
  "LeastRequestedPriorityMap = allocation_priority leastRequestedScore"

definition MostRequestedPriorityMap :: "pods \<Rightarrow> pod_ptr \<Rightarrow> node_info \<Rightarrow> host_priority res" where
  "MostRequestedPriorityMap = allocation_priority mostRequestedScore"

section \<open>The schedulers\<close>

record vendored_plugins =
  ve_GeneralPredicates :: fit_predicate
  ve_BalancedResourceAllocationMap :: "pods \<Rightarrow> pod_ptr \<Rightarrow> node_info \<Rightarrow> host_priority res"

definition map_prioritizer :: "(pods \<Rightarrow> pod_ptr \<Rightarrow> node_info \<Rightarrow> host_priority res) \<Rightarrow> priority_config" where
  "map_prioritizer f = \<lparr>pcf_Map = Some f, pcf_Reduce = None, pcf_Function = None, pcf_Weight = 1\<rparr>"

definition my_extender :: extender where
  "my_extender = \<lparr>ext_Name = ''MyExtender'', ext_Filter = Some filterExtender, ext_Prioritize = Some prioritizeExtender,
     ext_Weight = 1, ext_NodeCacheCapable = True, ext_Ignorable = False\<rparr>"

definition low_usage_extender :: "metrics_cache \<Rightarrow> extender" where
  "low_usage_extender cache =
     \<lparr>ext_Name = ''filterFitResource & prioritizeLowUsageNode'', ext_Filter = Some (filterFitResource cache),
      ext_Prioritize = Some (prioritizeLowUsageNode cache), ext_Weight = 1, ext_NodeCacheCapable = True,
      ext_Ignorable = False\<rparr>"

definition buildScheduler :: "vendored_plugins \<Rightarrow> factors \<Rightarrow> bool \<Rightarrow> string \<Rightarrow> plugged_scheduler" where
  "buildScheduler plugins fs isDistributedTasks schedulerName cache =
     (let schedName = map lower schedulerName; sched = NewGenericScheduler False
      in if schedName = ''proposed'' then
           let sched = AddExtender sched (low_usage_extender cache)
           in if isDistributedTasks then AddPrioritizer sched (map_prioritizer LeastTasksFromSameJobPriorityMap) else sched
         else if schedName = ''oversub'' then
           AddPrioritizer (AddPredicate sched ''PodFitsResourcesOverSub'' (PodFitsResourcesOverSub fs))
             (map_prioritizer LeastRequestedPriorityMap)
         else if schedName = ''bestfit'' then
           AddPrioritizer (AddPredicate (AddExtender sched my_extender) ''PodFitsResources'' PodFitsResources)
             (map_prioritizer MostRequestedPriorityMap)
         else if schedName = ''worstfit'' then
           AddPrioritizer (AddPredicate sched ''PodFitsResources'' PodFitsResources)
             (map_prioritizer LeastRequestedPriorityMap)
         else
           AddPrioritizer (AddPrioritizer
             (AddPredicate (AddExtender sched my_extender) ''GeneralPredicates'' (ve_GeneralPredicates plugins))
             (map_prioritizer (ve_BalancedResourceAllocationMap plugins))) (map_prioritizer LeastRequestedPriorityMap))"

text \<open>The factor every node starts with: the flag for the over-subscribing scheduler, else 1, or the flag by default.\<close>

definition oversub_factor :: "gofloat \<Rightarrow> string \<Rightarrow> gofloat" where
  "oversub_factor flag schedulerName =
     (if map lower schedulerName \<in> {''proposed'', ''bestfit'', ''worstfit''} then fl_of_int float64 1 else flag)"

definition initial_factors :: "gofloat \<Rightarrow> v1_node list \<Rightarrow> factors" where
  "initial_factors factor nodes = fold (\<lambda>node. AList.update (node_Name node) factor) nodes []"

end
