(* ===== verification/ExperimentProperties.thy ===== *)
theory ExperimentProperties
  imports ExperimentPlugins CapacityProperties
begin

text \<open>
  What the schedulers of the experiments guarantee. The proposed scheduler places pods by the predicted
  usage of the nodes, and no pass makes the prediction exceed a node; worst fit keeps the requests within
  the nodes.
\<close>

section \<open>The host that is chosen\<close>

text \<open>Whatever plugins and extenders there are, the host is a node that filtering left.\<close>

lemma sched_prioritize_hosts_ext:
  assumes "infos_ok infos" "sched_prioritize env sched ps pod nodes infos = Inr prios"
  shows "length prios = length nodes \<and> (\<forall>i < length nodes. pri_Host (prios ! i) = node_Name (nodes ! i))"
proof (cases "gs_prioritizers sched = [] \<and> gs_extenders sched = []")
  case True
  with assms(2) have "equal_priorities infos nodes = Inr prios" by (simp add: sched_prioritize_def)
  then show ?thesis by (rule equal_priorities_hosts [OF assms(1)])
next
  case False
  with assms(2) obtain prioList where list: "prioritizeWithPlugins (se_order env (length nodes)) ps pod (gs_prioritizers sched) nodes infos = Inr prioList"
    "map pri_Host prios = map pri_Host prioList"
    unfolding sched_prioritize_def by (auto simp: res_bind_Inr_iff comp_def split: if_splits)
  have "length prios = length prioList" using list(2) by (metis length_map)
  moreover from this list(2) have "\<forall>i < length prioList. pri_Host (prios ! i) = pri_Host (prioList ! i)" by (metis nth_map)
  ultimately show ?thesis using prioritizeWithPlugins_hosts [OF list(1)] by auto
qed

lemma scheduleOne_filtered:
  assumes "infos_ok infos" "scheduleOne env sched ps pod lister infos q = Inr result"
  obtains nodes filtered failed where "lister = Inr nodes" "sched_filter env sched ps pod nodes infos q = Inr (filtered, failed)"
    "sr_SuggestedHost result \<in> node_Name ` set filtered"
proof -
  obtain nodes where nodes: "lister = Inr nodes" using assms(2) by (cases lister) (auto simp: scheduleOne_def)
  from assms(2) nodes obtain filtered failed where
    filter: "sched_filter env sched ps pod nodes infos q = Inr (filtered, failed)" and some: "filtered \<noteq> []"
    by (auto simp: scheduleOne_def res_bind_Inr_iff split: if_splits)
  show thesis
  proof (cases "length filtered = 1")
    case True
    with assms(2) nodes filter have "sr_SuggestedHost result = node_Name (filtered ! 0)"
      by (auto simp: scheduleOne_def split: if_splits)
    with that [OF nodes filter] some show thesis by (simp add: nth_mem)
  next
    case False
    with assms(2) nodes filter obtain prios host where "sched_prioritize env sched ps pod filtered infos = Inr prios"
      "selectHost prios = Inr host" "result = \<lparr>sr_SuggestedHost = host,
        sr_EvaluatedNodes = length filtered + length failed, sr_FeasibleNodes = length filtered\<rparr>"
      by (auto simp: scheduleOne_def res_bind_Inr_iff split: if_splits)
    then have prios: "sched_prioritize env sched ps pod filtered infos = Inr prios"
      "selectHost prios = Inr (sr_SuggestedHost result)" by simp_all
    have hosts: "length prios = length filtered" "\<forall>i < length filtered. pri_Host (prios ! i) = node_Name (filtered ! i)"
      using sched_prioritize_hosts_ext [OF assms(1) prios(1)] by auto
    then have "prios \<noteq> []" using some by auto
    from selectHost_spec [OF this] obtain i where "i < length prios" "selectHost prios = Inr (pri_Host (prios ! i))" by blast
    with prios(2) hosts have "sr_SuggestedHost result = node_Name (filtered ! i)" "i < length filtered" by simp_all
    with that [OF nodes filter] show thesis by (metis image_eqI nth_mem)
  qed
qed

lemma nodes_of_names_named:
  "infos_ok infos \<Longrightarrow> nodes_of_names infos names = Inr nodes \<Longrightarrow> map node_Name nodes = names"
proof (induction names arbitrary: nodes)
  case (Cons name names)
  then obtain n node rest where n: "map_of infos name = Some n" "ni_node n = Some node"
    "nodes_of_names infos names = Inr rest" "nodes = node # rest"
    by (auto simp: res_bind_Inr_iff split: option.splits)
  with Cons show ?case by (auto simp: infos_ok_def)
qed simp

section \<open>The proposed scheduler\<close>

lemma filterFitResource_names:
  assumes "filterFitResource cache ps args = Inr result" "efr_NodeNames result = Some names" "name \<in> set names"
  shows "usage_fits cache (GetResourceRequest (ps (ea_Pod args))) name"
  using assms by (auto simp: filterFitResource_def Let_def split: if_splits)

lemma low_usage_host:
  assumes "infos_ok infos" "gs_extenders sched = [low_usage_extender cache]"
    "scheduleOne env sched ps pod lister infos q = Inr result"
  shows "usage_fits cache (GetResourceRequest (ps pod)) (sr_SuggestedHost result)"
proof -
  obtain nodes filtered failed where filter: "sched_filter env sched ps pod nodes infos q = Inr (filtered, failed)"
    and host: "sr_SuggestedHost result \<in> node_Name ` set filtered"
    using assms(1,3) by (rule scheduleOne_filtered)
  then obtain kept failed0 failed1 where
    ext: "ext_filter (low_usage_extender cache) ps pod kept infos failed0 = Inr (filtered, failed1)"
    using assms(2) by (auto simp: sched_filter_def res_bind_Inr_iff split: if_splits)
  then obtain r where r: "filterFitResource cache ps (buildExtenderArgs pod kept True) = Inr r"
    "ext_result_nodes (low_usage_extender cache) infos r = Inr filtered"
    by (auto simp: ext_filter_def low_usage_extender_def res_bind_Inr_iff Let_def split: if_splits)
  then obtain names where names: "efr_NodeNames r = Some names" "nodes_of_names infos names = Inr filtered"
    by (auto simp: ext_result_nodes_def low_usage_extender_def split: option.splits)
  have "sr_SuggestedHost result \<in> set names"
    using host nodes_of_names_named [OF assms(1) names(2)] by (metis set_map)
  from filterFitResource_names [OF r(1) names(1) this] show ?thesis
    by (simp add: buildExtenderArgs_def split: prod.splits)
qed

text \<open>
  The predicted usage of a node, in the cache, within its capacity; and a pod whose request is not negative
  and small enough for the sums to fit an int64.
\<close>

definition usage_within :: "cached_metrics \<Rightarrow> bool" where
  "usage_within m \<longleftrightarrow>
     0 \<le> r_MilliCPU (cm_Usage m) \<and> r_MilliCPU (cm_Usage m) \<le> r_MilliCPU (cm_Allocatable m) \<and>
     r_MilliCPU (cm_Allocatable m) < 2 ^ 62 \<and>
     0 \<le> r_Memory (cm_Usage m) \<and> r_Memory (cm_Usage m) \<le> r_Memory (cm_Allocatable m) \<and>
     r_Memory (cm_Allocatable m) < 2 ^ 62"

definition small_request :: "resource \<Rightarrow> bool" where
  "small_request r \<longleftrightarrow> 0 \<le> r_MilliCPU r \<and> r_MilliCPU r < 2 ^ 62 \<and> 0 \<le> r_Memory r \<and> r_Memory r < 2 ^ 62"

text \<open>The prediction of \<open>m\<close> with the requests of \<open>xs\<close> on top.\<close>

definition raised :: "pods \<Rightarrow> cached_metrics \<Rightarrow> pod_ptr list \<Rightarrow> cached_metrics \<Rightarrow> bool" where
  "raised ps m xs m' \<longleftrightarrow>
     cm_Allocatable m' = cm_Allocatable m \<and>
     r_MilliCPU (cm_Usage m') = r_MilliCPU (cm_Usage m) + (\<Sum>p\<leftarrow>xs. r_MilliCPU (GetResourceRequest (ps p))) \<and>
     r_Memory (cm_Usage m') = r_Memory (cm_Usage m) + (\<Sum>p\<leftarrow>xs. r_Memory (GetResourceRequest (ps p)))"

definition placed_by_usage :: "sched_state \<Rightarrow> node_infos \<Rightarrow> metrics_cache \<Rightarrow> bool" where
  "placed_by_usage st infos cache \<longleftrightarrow>
     infos_good (\<lambda>_. True) infos \<and>
     (\<forall>h n. map_of infos h = Some n \<longrightarrow>
        (\<exists>n0 m0 m xs. map_of (ss_infos st) h = Some n0 \<and> map_of (ss_cache st) h = Some m0 \<and> map_of cache h = Some m \<and>
           ni_pods n = ni_pods n0 @ xs \<and> raised (ss_pods st) m0 xs m \<and> usage_within m))"

lemma cache_placement_raises:
  assumes "usage_fits cache (GetResourceRequest (ps p)) h" "map_of cache h = Some m" "usage_within m"
    "small_request (GetResourceRequest (ps p))" "GetResourceRequest (ps p) = GetResourceRequest (ps0 p)" "raised ps0 m0 xs m"
  obtains m' where "map_of (cache_placement ps p h infos cache) h = Some m'" "usage_within m'" "raised ps0 m0 (xs @ [p]) m'"
proof -
  let ?r = "GetResourceRequest (ps p)"
  let ?m = "m\<lparr>cm_Usage := (cm_Usage m)\<lparr>r_MilliCPU := i64 (r_MilliCPU (cm_Usage m) + r_MilliCPU ?r),
    r_Memory := i64 (r_Memory (cm_Usage m) + r_Memory ?r)\<rparr>\<rparr>"
  have sums: "i64 (r_MilliCPU (cm_Usage m) + r_MilliCPU ?r) = r_MilliCPU (cm_Usage m) + r_MilliCPU ?r"
    "i64 (r_Memory (cm_Usage m) + r_Memory ?r) = r_Memory (cm_Usage m) + r_Memory ?r"
    using assms(3,4) by (auto simp: usage_within_def small_request_def i64_id in64_def)
  have "i64 (i64 (r_MilliCPU (cm_Allocatable m) - r_MilliCPU (cm_Usage m)) - r_MilliCPU ?r) =
      r_MilliCPU (cm_Allocatable m) - r_MilliCPU (cm_Usage m) - r_MilliCPU ?r"
    "i64 (i64 (r_Memory (cm_Allocatable m) - r_Memory (cm_Usage m)) - r_Memory ?r) =
      r_Memory (cm_Allocatable m) - r_Memory (cm_Usage m) - r_Memory ?r"
    using assms(3,4) by (auto simp: usage_within_def small_request_def i64_id in64_def)
  with assms(1,2) have room: "r_MilliCPU (cm_Usage m) + r_MilliCPU ?r \<le> r_MilliCPU (cm_Allocatable m)"
    "r_Memory (cm_Usage m) + r_Memory ?r \<le> r_Memory (cm_Allocatable m)"
    by (simp_all add: usage_fits_def)
  have "map_of (cache_placement ps p h infos cache) h = Some ?m"
    using assms(2) by (simp add: cache_placement_def Let_def update_conv')
  moreover have "usage_within ?m"
    unfolding usage_within_def using sums room assms(3,4) by (simp add: usage_within_def small_request_def)
  moreover have "raised ps0 m0 (xs @ [p]) ?m"
    using assms(5,6) sums by (simp add: raised_def)
  ultimately show thesis using that by blast
qed

lemma cache_placement_other: "h' \<noteq> h \<Longrightarrow> map_of (cache_placement ps p h infos cache) h' = map_of cache h'"
  by (simp add: cache_placement_def Let_def update_conv split: option.splits)

lemma placed_by_usage_step:
  assumes ps: "same_static (ss_pods st) ps" and p: "small_request (GetResourceRequest (ss_pods st p))"
    and I: "placed_by_usage st infos cache" and ext: "gs_extenders sched = [low_usage_extender cache]"
    and one: "scheduleOne env sched ps p lister infos q = Inr result"
    and n: "map_of infos (sr_SuggestedHost result) = Some n"
  shows "placed_by_usage st (AList.update (sr_SuggestedHost result) (NodeInfo_AddPod ps' n p) infos)
    (cache_placement ps p (sr_SuggestedHost result) infos cache)"
proof -
  let ?h = "sr_SuggestedHost result"
  have good: "infos_good (\<lambda>_. True) infos" using I by (simp add: placed_by_usage_def)
  have fits: "usage_fits cache (GetResourceRequest (ps p)) ?h" by (rule low_usage_host [OF infos_good_ok [OF good] ext one])
  from I n obtain n0 m0 m xs where old: "map_of (ss_infos st) ?h = Some n0" "map_of (ss_cache st) ?h = Some m0"
    "map_of cache ?h = Some m" "ni_pods n = ni_pods n0 @ xs" "raised (ss_pods st) m0 xs m" "usage_within m"
    unfolding placed_by_usage_def by blast
  have same: "GetResourceRequest (ps p) = GetResourceRequest (ss_pods st p)"
    using GetResourceRequest_static [OF ps, of p] by simp
  obtain m' where m': "map_of (cache_placement ps p ?h infos cache) ?h = Some m'" "usage_within m'" "raised (ss_pods st) m0 (xs @ [p]) m'"
    using cache_placement_raises [where ps = ps and p = p and h = ?h and infos = infos and ?ps0.0 = "ss_pods st" and
        ?m0.0 = m0 and xs = xs, OF fits old(3,6) _ same old(5)] p same by metis
  have "\<exists>n0 m0 m xs. map_of (ss_infos st) h = Some n0 \<and> map_of (ss_cache st) h = Some m0 \<and>
      map_of (cache_placement ps p ?h infos cache) h = Some m \<and> ni_pods n1 = ni_pods n0 @ xs \<and>
      raised (ss_pods st) m0 xs m \<and> usage_within m"
    if n1: "map_of (AList.update ?h (NodeInfo_AddPod ps' n p) infos) h = Some n1" for h n1
  proof (cases "h = ?h")
    case True
    with n1 have "ni_pods n1 = ni_pods n0 @ xs @ [p]" using old(4) by (auto simp: update_conv')
    with True old(1,2) m' show ?thesis by blast
  next
    case False
    with n1 have "map_of infos h = Some n1" by (simp add: update_conv')
    with I False cache_placement_other [OF False, of ps p infos cache] show ?thesis unfolding placed_by_usage_def by metis
  qed
  then show ?thesis using infos_good_update [OF good n] unfolding placed_by_usage_def by blast
qed

lemma buildScheduler_proposed:
  "gs_extenders (buildScheduler plugins fs isDistributedTasks ''proposed'' cache) = [low_usage_extender cache]"
  by (simp add: buildScheduler_def lower_def Let_def AddExtender_def AddPrioritizer_def NewGenericScheduler_def)

section \<open>Properties\<close>

text \<open>
  C14: The proposed scheduler of the experiments never overloads a node as far as it can predict. If every node
  has a prediction that is within its CPU and memory, a pass ends with predictions that are, and each of
  them has grown by exactly the requests of the pods the pass bound to the node.
\<close>

theorem proposed_never_overloads:
  assumes "sched_ready st" "infos_good (\<lambda>_. True) (ss_infos st)"
    "\<And>h n. map_of (ss_infos st) h = Some n \<Longrightarrow> \<exists>m. map_of (ss_cache st) h = Some m \<and> usage_within m"
    "\<And>p. p \<in> all_pods st \<Longrightarrow> small_request (GetResourceRequest (ss_pods st p))"
    "se_KeepScheduling env \<or> events \<noteq> []"
    "Schedule env (buildScheduler plugins fs isDistributedTasks ''proposed'') clk lister st = Some (Inr (st', events))"
  shows "\<forall>h n. map_of (ss_infos st) h = Some n \<longrightarrow>
    (\<exists>m m'. map_of (ss_cache st) h = Some m \<and> map_of (ss_cache st') h = Some m' \<and>
       raised (ss_pods st) m (bound_to h events) m' \<and> usage_within m')"
proof (intro allI impI)
  fix h n
  assume n: "map_of (ss_infos st) h = Some n"
  have start: "placed_by_usage st (ss_infos st) (ss_cache st)"
    using assms(2,3) by (fastforce simp: placed_by_usage_def raised_def)
  have "placed_by_usage st (ss_infos st') (ss_cache st') \<and> entered (ss_infos st) st' events"
    by (rule pass_keeps [where I = "placed_by_usage st", OF _ assms(1) start assms(5,6)])
      (rule placed_by_usage_step [OF _ assms(4) _ buildScheduler_proposed])
  with n obtain n' where n': "map_of (ss_infos st') h = Some n'" "ni_pods n' = ni_pods n @ bound_to h events"
    "placed_by_usage st (ss_infos st') (ss_cache st')" by (auto simp: entered_def)
  then obtain m m' xs where "map_of (ss_cache st) h = Some m" "map_of (ss_cache st') h = Some m'" "ni_pods n' = ni_pods n @ xs"
    "raised (ss_pods st) m xs m'" "usage_within m'"
    using n unfolding placed_by_usage_def by (metis option.inject)
  with n'(2) show "\<exists>m m'. map_of (ss_cache st) h = Some m \<and> map_of (ss_cache st') h = Some m' \<and>
      raised (ss_pods st) m (bound_to h events) m' \<and> usage_within m'" by auto
qed

section \<open>Witness\<close>

text \<open>
  Two nodes of four cpus and one, with three and none of them used: of the three pods of two cpus none fits
  on the second node and none on the first, whose requests are not looked at; with one cpu used, one does.
\<close>

definition predicted :: "int \<Rightarrow> int \<Rightarrow> cached_metrics" where
  "predicted usage capacity =
     \<lparr>cm_Usage = empty_resource\<lparr>r_MilliCPU := usage\<rparr>, cm_Allocatable = empty_resource\<lparr>r_MilliCPU := capacity, r_Memory := 1024\<rparr>\<rparr>"

definition predicted_state :: sched_state where
  "predicted_state = capacity_state\<lparr>ss_cache := [(''n0'', predicted 1000 4000), (''n1'', predicted 0 1000)]\<rparr>"

definition no_plugins :: vendored_plugins where
  "no_plugins = \<lparr>ve_GeneralPredicates = PodFitsResources, ve_BalancedResourceAllocationMap = MostRequestedPriorityMap\<rparr>"

lemma predicted_pass:
  "pass_result (Schedule keep_env (buildScheduler no_plugins [] True ''proposed'') 7 (Inr two_nodes) predicted_state) =
     Some ([(''default/c'', 2), (''default/d'', 7)],
       [BindEvent 0 \<lparr>sr_SuggestedHost = ''n0'', sr_EvaluatedNodes = 2, sr_FeasibleNodes = 1\<rparr>])"
  by code_simp

lemma predicted_state_fields [simp]:
  "ss_pods predicted_state = ss_pods capacity_state" "ss_infos predicted_state = ss_infos capacity_state"
  "ss_cache predicted_state = [(''n0'', predicted 1000 4000), (''n1'', predicted 0 1000)]"
  by (simp_all add: predicted_state_def)

lemma predicted_ready: "sched_ready predicted_state"
  using capacity_ready by (simp add: sched_ready_def predicted_state_def)

theorem proposed_never_overloads_witness:
  "\<exists>st' events m'. Schedule keep_env (buildScheduler no_plugins [] True ''proposed'') 7 (Inr two_nodes) predicted_state = Some (Inr (st', events)) \<and>
     map_of (ss_cache st') ''n0'' = Some m' \<and> r_MilliCPU (cm_Usage m') = 3000"
proof -
  obtain st' where st': "Schedule keep_env (buildScheduler no_plugins [] True ''proposed'') 7 (Inr two_nodes) predicted_state =
      Some (Inr (st', [BindEvent 0 \<lparr>sr_SuggestedHost = ''n0'', sr_EvaluatedNodes = 2, sr_FeasibleNodes = 1\<rparr>]))"
    using pass_resultD [OF predicted_pass] by blast
  have keep: "se_KeepScheduling keep_env \<or> events \<noteq> []" for events :: "event list" by (simp add: keep_env_def)
  have small: "small_request (GetResourceRequest (ss_pods predicted_state p))" for p
    unfolding predicted_state_fields two_cpus_requests by (simp add: small_request_def empty_resource_def)
  have good: "infos_good (\<lambda>_. True) (ss_infos predicted_state)"
    by (auto simp: infos_good_def cpu_node_fields)
  have within': "\<exists>m. map_of (ss_cache predicted_state) h = Some m \<and> usage_within m"
    if "map_of (ss_infos predicted_state) h = Some n" for h n
    using that by (auto simp: usage_within_def predicted_def empty_resource_def split: if_splits)
  have n0: "map_of (ss_infos predicted_state) ''n0'' = Some (cpu_node ''n0'' 4)" by simp
  have bound: "bound_to ''n0'' [BindEvent 0 \<lparr>sr_SuggestedHost = ''n0'', sr_EvaluatedNodes = 2, sr_FeasibleNodes = 1\<rparr>] = [0]" by simp
  have m: "r_MilliCPU (cm_Usage m) = 1000" if "map_of (ss_cache predicted_state) ''n0'' = Some m" for m
    using that by (auto simp: predicted_def)
  obtain m m' where "map_of (ss_cache predicted_state) ''n0'' = Some m" "map_of (ss_cache st') ''n0'' = Some m'"
    "raised (ss_pods predicted_state) m [0] m'"
    using proposed_never_overloads [OF predicted_ready good _ small keep st'] within' n0 unfolding bound [symmetric] by blast
  with m [of m] st' show ?thesis
    by (auto simp: raised_def two_cpus_requests empty_resource_def simp del: capacity_state_fields)
qed

end
