(* ===== verification/Workload.thy ===== *)
theory Workload
  imports KubeSetup ExperimentPlugins
begin

text \<open>
  src/experiments/submitter.go and utils.go, and the main program's use of them: the submitter of the
  experiments, which generates pods at random or replays a folder of pod files; the folder itself, whose
  file names say when a pod arrives; and the conversion of a trace of measured usage into pods.

  Outside of the program are the numbers math/rand draws (the n-th is \<open>we_NormFloat64 n\<close>), files and their
  JSON, the rendering and parsing of clocks, strconv and encoding/csv. The index of a pod is also its address
  in the store. Writing the generated pods to files has no effect on the simulation and is not modelled; the
  name of the file is.
\<close>

section \<open>Numbers and names\<close>

text \<open>\<^verbatim>\<open>math.Max\<close>.\<close>

definition fl_max :: "gofloat \<Rightarrow> gofloat \<Rightarrow> gofloat" where
  "fl_max x y =
     (if x = Inf False \<or> y = Inf False then Inf False
      else if x = NaN \<or> y = NaN then NaN
      else if fl_lt y x then x else y)"

text \<open>The bounds, then the number drawn.\<close>

definition genNormFloat64 :: "gofloat \<Rightarrow> gofloat \<Rightarrow> gofloat \<Rightarrow> gofloat \<Rightarrow> gofloat \<Rightarrow> gofloat" where
  "genNormFloat64 std mean lo hi drawn =
     (let res = fl_add float64 (fl_mul float64 drawn std) mean; res = fl_min res hi in fl_max lo res)"

text \<open>Counting up a uint64.\<close>

definition u64_inc :: "nat \<Rightarrow> nat" where
  "u64_inc n = nat ((int n + 1) mod 2 ^ 64)"

definition micro_seconds :: int where
  "micro_seconds = 1000000"

definition last_part :: "char \<Rightarrow> string \<Rightarrow> string" where
  "last_part sep s = last (split_at sep s)"

text \<open>\<^verbatim>\<open>strings.Contains\<close>.\<close>

fun contains :: "string \<Rightarrow> string \<Rightarrow> bool" where
  "contains [] pat \<longleftrightarrow> pat = []"
| "contains (c # s) pat \<longleftrightarrow> take (length pat) (c # s) = pat \<or> contains s pat"

section \<open>Pods\<close>

datatype workload_file = NoFile | BadJson | PodJson v1_pod "(string \<times> string) list option"

record workload_env =
  we_io :: io_env
  we_rfc3339 :: "clock \<Rightarrow> string"
  we_ReadFile :: "string \<Rightarrow> workload_file"
  we_NormFloat64 :: "nat \<Rightarrow> gofloat"
  we_podMap :: "(string \<times> string list) list"
  we_isGenWorkload :: bool
  we_isConvertTrace :: bool
  we_targetNum :: int

definition phase_text :: "string \<Rightarrow> string \<Rightarrow> int \<Rightarrow> int \<Rightarrow> int \<Rightarrow> int \<Rightarrow> string" where
  "phase_text cpu_unit mem_unit sec cpu' mem' gpu' =
     newline @ ''- seconds: '' @ decimal sec @ newline @ ''  resourceUsage:'' @ newline @
     ''    cpu: '' @ decimal cpu' @ cpu_unit @ newline @ ''    memory: '' @ decimal mem' @ mem_unit @ newline @
     ''    nvidia.com/gpu: '' @ decimal gpu' @ newline"

definition MustParse :: "io_env \<Rightarrow> string \<Rightarrow> quantity res" where
  "MustParse io s =
     (case env_ParseQuantity io s of None \<Rightarrow> Inl (Panic (''cannot parse '' @ quoted s)) | Some q \<Rightarrow> Inr q)"

definition resources_of :: "io_env \<Rightarrow> string \<Rightarrow> string \<Rightarrow> string \<Rightarrow> resource_list res" where
  "resources_of io c m g =
     res_bind (MustParse io c) (\<lambda>c. res_bind (MustParse io m) (\<lambda>m. res_bind (MustParse io g) (\<lambda>g.
       Inr [(''cpu'', c), (''memory'', m), (''nvidia.com/gpu'', g)])))"

text \<open>What the three places that build a pod share: one container, in the namespace default.\<close>

definition workload_pod ::
  "io_env \<Rightarrow> string \<Rightarrow> (string \<times> string) list \<Rightarrow> int \<Rightarrow> string \<times> string \<times> string \<Rightarrow> string \<times> string \<times> string \<Rightarrow> v1_pod res" where
  "workload_pod io name annotations prio = (\<lambda>(c, m, g) (cl, ml, gl).
     res_bind (resources_of io c m g) (\<lambda>requests. res_bind (resources_of io cl ml gl) (\<lambda>limits.
       Inr (empty_pod\<lparr>pod_Name := name, pod_Namespace := ''default'', pod_Annotations := annotations,
         pod_Priority := Some prio, pod_Containers :=
           [\<lparr>ct_Name = ''container'', ct_Image = ''container'', ct_Requests = requests, ct_Limits = limits\<rparr>]\<rparr>))))"

definition pod_name :: "nat \<Rightarrow> string" where
  "pod_name idx = ''pod-'' @ digits idx"

text \<open>newPod is used by nobody. The slice of seconds is not compared with the number of phases.\<close>

fun new_pod_spec :: "nat list \<Rightarrow> nat list \<Rightarrow> nat list \<Rightarrow> nat list \<Rightarrow> string res" where
  "new_pod_spec secs [] mems gpus = Inr []"
| "new_pod_spec secs (c # cpus) mems gpus =
     (case (secs, mems, gpus) of
        (s # secs, m # mems, g # gpus) \<Rightarrow>
          res_bind (new_pod_spec secs cpus mems gpus) (\<lambda>rest.
            Inr (phase_text [] ''Gi'' (int s) (int c) (int m) (int g) @ rest))
      | _ \<Rightarrow> Inl (Panic ''index out of range''))"

definition newPod ::
  "io_env \<Rightarrow> nat \<Rightarrow> int \<Rightarrow> int \<Rightarrow> nat list \<Rightarrow> nat list \<Rightarrow> nat list \<Rightarrow> nat list \<Rightarrow>
     nat \<times> nat \<times> nat \<Rightarrow> nat \<times> nat \<times> nat \<Rightarrow> v1_pod res" where
  "newPod io idx prio phaseNum secs cpuUsages memUsages gpuUsages = (\<lambda>(c, m, g) (cl, ml, gl).
     if phaseNum \<noteq> int (length cpuUsages) \<or> phaseNum \<noteq> int (length memUsages) \<or> phaseNum \<noteq> int (length gpuUsages)
     then Inl (ResultError ''phaseNum mismatch'')
     else res_bind (new_pod_spec secs cpuUsages memUsages gpuUsages) (\<lambda>simSpec.
       workload_pod io (pod_name idx) [(''simSpec'', simSpec)] prio
         (digits c, digits m @ ''Gi'', digits g) (digits cl, digits ml @ ''Gi'', digits gl)))"

text \<open>An absent annotation map is nil, and writing to it panics.\<close>

definition load_pod :: "workload_env \<Rightarrow> string \<Rightarrow> v1_pod res" where
  "load_pod env filePath =
     (case we_ReadFile env filePath of
        NoFile \<Rightarrow> Inl (CannotFindFile filePath)
      | BadJson \<Rightarrow> Inl (CannotParseFile filePath)
      | PodJson pod None \<Rightarrow> Inl (Panic ''assignment to entry in nil map'')
      | PodJson pod (Some annotations) \<Rightarrow>
          Inr (pod\<lparr>pod_Annotations := AList.update ''simSpec'' [] (AList.update ''path'' filePath annotations)\<rparr>))"

section \<open>Pods at random\<close>

abbreviation f64 :: "int \<Rightarrow> gofloat" where
  "f64 \<equiv> fl_of_int float64"

definition tenth :: gofloat where
  "tenth = fl_const float64 1 10"

text \<open>The variables meanSec (2), meanCpu (4), cpuStd (3), phasNum (5), requestCpu (8) and requestMem (0.001).\<close>

definition random_seconds :: "gofloat \<Rightarrow> int" where
  "random_seconds drawn = fl_int64
     (genNormFloat64 (fl_div float64 (f64 2) (f64 2)) (f64 2)
        (fl_add float64 (fl_mul float64 (f64 2) tenth) (f64 1)) (fl_mul float64 (f64 2) (f64 10)) drawn)"

definition random_cpu :: "gofloat \<Rightarrow> int" where
  "random_cpu drawn = i64 (1 + fl_int64
     (genNormFloat64 (f64 3) (f64 4) (fl_mul float64 (f64 4) tenth) (fl_mul float64 (f64 4) (f64 10)) drawn))"

fun random_phases :: "(nat \<Rightarrow> gofloat) \<Rightarrow> nat \<Rightarrow> nat \<Rightarrow> (int \<times> int) list" where
  "random_phases source draws 0 = []"
| "random_phases source draws (Suc n) =
     (random_seconds (source draws), random_cpu (source (Suc draws))) # random_phases source (draws + 2) n"

definition phasNum :: nat where
  "phasNum = 5"

definition newRandomPod :: "workload_env \<Rightarrow> nat \<Rightarrow> nat \<Rightarrow> v1_pod res" where
  "newRandomPod env draws idx =
     (let simSpec = concat (map (\<lambda>(sec, c). phase_text [] ''Gi'' sec c c 0) (random_phases (we_NormFloat64 env) draws phasNum))
      in workload_pod (we_io env) (pod_name idx) [(''simSpec'', simSpec), (''path'', [])] 1
           (decimal (fl_int64 (f64 8)), decimal (fl_int64 (fl_mul float64 (fl_const float64 1 1000) (f64 1024))) @ ''Mi'', ''0'')
           (''999'', ''999Gi'', ''0''))"

section \<open>The submitter\<close>

text \<open>
  The fields that change: podIdx (a uint64), the draws taken from myrand, and the package variable
  submittedPodsNum. totalPodsNum and endClock stay.
\<close>

record my_submitter =
  my_podIdx :: nat
  my_totalPodsNum :: nat
  my_draws :: nat
  my_endClock :: clock
  my_submittedPodsNum :: nat

definition newMySubmitter :: "nat \<Rightarrow> clock \<Rightarrow> my_submitter" where
  "newMySubmitter totalPodsNum endClock =
     \<lparr>my_podIdx = 0, my_totalPodsNum = totalPodsNum, my_draws = 0, my_endClock = endClock, my_submittedPodsNum = 0\<rparr>"

fun generate_loop ::
  "workload_env \<Rightarrow> nat \<Rightarrow> my_submitter \<Rightarrow> pods \<Rightarrow> submit_event list \<Rightarrow>
     (my_submitter \<times> pods \<times> submit_event list) res" where
  "generate_loop env 0 s ps events = Inr (s, ps, events)"
| "generate_loop env (Suc n) s ps events =
     res_bind (newRandomPod env (my_draws s) (my_podIdx s)) (\<lambda>pod.
       let p = my_podIdx s; ps = ps(p := pod); events = events @ [SubmitEvent p];
           s = s\<lparr>my_podIdx := u64_inc (my_podIdx s), my_draws := my_draws s + 2 * phasNum\<rparr>
       in if my_podIdx s \<ge> my_totalPodsNum s then Inr (s, ps, events @ [TerminateSubmitterEvent])
          else generate_loop env n s ps events)"

definition submission_num :: "workload_env \<Rightarrow> metrics \<Rightarrow> int" where
  "submission_num env met =
     (let runningPodsNum = fold (\<lambda>(_, m) n. i64 (n + nm_RunningPodsNum m)) (m_Nodes met) 0
      in i64 (i64 (we_targetNum env - int (qm_PendingPodsNum (m_Queue met))) - runningPodsNum))"

text \<open>The capacity of the slice of events is one more than the number of pods to submit.\<close>

definition generateWorkloads ::
  "workload_env \<Rightarrow> my_submitter \<Rightarrow> metrics \<Rightarrow> pods \<Rightarrow> (my_submitter \<times> pods \<times> submit_event list) res" where
  "generateWorkloads env s met ps =
     (if i64 (submission_num env met + 1) < 0 then Inl (Panic ''makeslice: cap out of range'')
      else generate_loop env (nat (submission_num env met)) s ps [])"

fun load_loop ::
  "workload_env \<Rightarrow> string list \<Rightarrow> my_submitter \<Rightarrow> pods \<Rightarrow> submit_event list \<Rightarrow>
     (my_submitter \<times> pods \<times> submit_event list) res" where
  "load_loop env [] s ps events = Inr (s, ps, events)"
| "load_loop env (path # paths) s ps events =
     (case load_pod env path of
        Inl e \<Rightarrow> Inl (if is_panic e then e else CannotLoadPod path)
      | Inr pod \<Rightarrow>
          let p = my_submittedPodsNum s; ps = ps(p := pod); events = events @ [SubmitEvent p];
              s = s\<lparr>my_submittedPodsNum := u64_inc (my_submittedPodsNum s)\<rparr>
          in if my_submittedPodsNum s \<ge> my_totalPodsNum s then Inr (s, ps, events @ [TerminateSubmitterEvent])
             else load_loop env paths s ps events)"

definition paths_at :: "workload_env \<Rightarrow> clock \<Rightarrow> string list" where
  "paths_at env clk = (case map_of (we_podMap env) (we_rfc3339 env clk) of None \<Rightarrow> [] | Some paths \<Rightarrow> paths)"

definition loadWorkload ::
  "workload_env \<Rightarrow> my_submitter \<Rightarrow> clock \<Rightarrow> pods \<Rightarrow> (my_submitter \<times> pods \<times> submit_event list) res" where
  "loadWorkload env s clk ps = load_loop env (paths_at env clk) s ps []"

definition mySubmitter_Submit ::
  "workload_env \<Rightarrow> my_submitter \<Rightarrow> clock \<Rightarrow> metrics \<Rightarrow> pods \<Rightarrow> (my_submitter \<times> pods \<times> submit_event list) res" where
  "mySubmitter_Submit env s clk met ps =
     (if clock_Before (my_endClock s) clk then Inr (s, ps, [TerminateSubmitterEvent])
      else if we_isGenWorkload env \<and> \<not> we_isConvertTrace env then generateWorkloads env s met ps
      else loadWorkload env s clk ps)"

primcorec mySubmitter :: "workload_env \<Rightarrow> my_submitter \<Rightarrow> submitter" where
  "mySubmitter env s = Submitter (\<lambda>clk nodes met ps.
     map_sum id (map_prod (mySubmitter env) id) (mySubmitter_Submit env s clk met ps))"

section \<open>The folder of pod files\<close>

text \<open>The name of the file a pod that is submitted at a clock is written to.\<close>

definition workload_file_name :: "workload_env \<Rightarrow> string \<Rightarrow> clock \<Rightarrow> v1_pod \<Rightarrow> string" where
  "workload_file_name env path clk pod = path @ ''/'' @ we_rfc3339 env clk @ ''@'' @ pod_Name pod @ ''.json''"

text \<open>The map from clocks to paths and the number of files, from the paths that are visited, in that order.\<close>

definition clock_of_path :: "string \<Rightarrow> string" where
  "clock_of_path path = hd (split_at CHR ''@'' (last_part CHR ''/'' path))"

fun walk_workload :: "string list \<Rightarrow> (string \<times> string list) list \<Rightarrow> nat \<Rightarrow> (string \<times> string list) list \<times> nat" where
  "walk_workload [] podMap n = (podMap, n)"
| "walk_workload (path # paths) podMap n =
     (if contains path ''json'' then
        let clockStr = clock_of_path path
        in walk_workload paths
             (AList.update clockStr ((case map_of podMap clockStr of None \<Rightarrow> [] | Some ps \<Rightarrow> ps) @ [path]) podMap)
             (u64_inc n)
      else walk_workload paths podMap n)"

end
