(* ===== verification/Trace.thy ===== *)
theory Trace
  imports Workload
begin

text \<open>
  The conversion of a trace into pods: utils.go and convertTrace2Workload of main.go under src/experiments.
  A file of the trace lists measurements of one task; consecutive measurements with the same usage become
  one phase of a pod, and a task that is too long is cut off.

  \<open>te_Atoi\<close> and \<open>te_ParseFloat\<close> are the numbers strconv returns, the error being ignored; \<open>te_csv\<close> is what
  encoding/csv reads of a file: the first record, if it can be read, and those after it up to the end of
  the file, an unreadable one as []. \<open>te_sort\<close> sorts by TaskInChronologicalOrder and decides the order of
  tasks that it does not tell apart. The workers each write files of their own.
\<close>

record trace_env =
  te_Atoi :: "string \<Rightarrow> int"
  te_ParseFloat :: "string \<Rightarrow> gofloat"
  te_csv :: "string \<Rightarrow> (string list option \<times> string list list) option"
  te_sort :: "string list \<Rightarrow> string list"
  te_ParseTime :: "string \<Rightarrow> clock res"
  te_Now :: clock

section \<open>Phases\<close>

type_synonym trace_phase = "int \<times> int \<times> int"

definition add_phase :: "trace_phase \<Rightarrow> trace_phase list \<Rightarrow> trace_phase list" where
  "add_phase = (\<lambda>(len, c, m) phases.
     if phases \<noteq> [] \<and> snd (last phases) = (c, m)
     then butlast phases @ [(i64 (fst (last phases) + len), c, m)]
     else phases @ [(len, c, m)])"

text \<open>The columns of a record come in one of two orders: start, end, CPU and memory.\<close>

definition read_record :: "trace_env \<Rightarrow> string list \<Rightarrow> int \<times> int \<times> gofloat \<times> gofloat" where
  "read_record te line =
     (if te_Atoi te (line ! 1) > 1
      then (te_Atoi te (line ! 0), te_Atoi te (line ! 1), te_ParseFloat te (line ! 2), te_ParseFloat te (line ! 3))
      else (te_Atoi te (line ! 4), te_Atoi te (line ! 2), te_ParseFloat te (line ! 0), te_ParseFloat te (line ! 3)))"

text \<open>A usage above 1 is not believed: the last one stays, and is scaled again.\<close>

definition scaled_usage :: "gofloat \<Rightarrow> gofloat \<Rightarrow> gofloat \<Rightarrow> gofloat" where
  "scaled_usage ratio seen last_usage = fl_mul float64 (if fl_le seen (f64 1) then seen else last_usage) ratio"

definition usage_amount :: "gofloat \<Rightarrow> int \<Rightarrow> int" where
  "usage_amount usage factor = fl_int64 (fl_mul float64 usage (f64 factor))"

record trace_state =
  ts_cpu :: gofloat
  ts_mem :: gofloat
  ts_taskLast :: int
  ts_phases :: "trace_phase list"

record trace_limits =
  tl_cpuFactor :: int
  tl_memFactor :: int
  tl_maxTaskLengthSeconds :: int
  tl_demandToRequestRatio :: gofloat

fun trace_loop :: "trace_env \<Rightarrow> trace_limits \<Rightarrow> string list list \<Rightarrow> trace_state \<Rightarrow> trace_phase list res" where
  "trace_loop te limits [] st = Inr (ts_phases st)"
| "trace_loop te limits (line # lines) st =
     (if length line < 5 then Inl (ResultError ''Cannot read file'')
      else
        let (start, end', c, m) = read_record te line;
            cpu' = scaled_usage (tl_demandToRequestRatio limits) c (ts_cpu st);
            mem' = scaled_usage (tl_demandToRequestRatio limits) m (ts_mem st);
            phaseLen = i64 (end' - start) sdiv micro_seconds;
            taskLast = i64 (ts_taskLast st + phaseLen);
            isStop = taskLast > tl_maxTaskLengthSeconds limits;
            phaseLen = (if isStop then i64 (phaseLen - i64 (taskLast - tl_maxTaskLengthSeconds limits)) else phaseLen);
            phases = add_phase (phaseLen, usage_amount cpu' (tl_cpuFactor limits), usage_amount mem' (tl_memFactor limits)) (ts_phases st)
        in if isStop then Inr phases
           else trace_loop te limits lines \<lparr>ts_cpu = cpu', ts_mem = mem', ts_taskLast = taskLast, ts_phases = phases\<rparr>)"

section \<open>Pods from traces\<close>

text \<open>The index of the job is taken from the whole path, up to its second underscore.\<close>

definition ConvertTraceToPod :: "io_env \<Rightarrow> trace_env \<Rightarrow> trace_limits \<Rightarrow> string \<Rightarrow> v1_pod res" where
  "ConvertTraceToPod io te limits csvFile =
     (case te_csv te csvFile of
        None \<Rightarrow> Inl (ResultError ''cannot open file'')
      | Some (firstLine, rest) \<Rightarrow>
          res_bind
            (case firstLine of
               None \<Rightarrow> Inr (0, 0)
             | Some cells \<Rightarrow>
                 if length cells < 3 then Inl (Panic ''index out of range'')
                 else Inr (usage_amount (te_ParseFloat te (cells ! 1)) (tl_cpuFactor limits),
                           usage_amount (te_ParseFloat te (cells ! 2)) (tl_memFactor limits))) (\<lambda>(requestCpu, requestMem).
          res_bind (trace_loop te limits rest \<lparr>ts_cpu = f64 0, ts_mem = f64 0, ts_taskLast = 0, ts_phases = []\<rparr>) (\<lambda>phases.
            let strs = split_at CHR ''_'' csvFile
            in if length strs < 2 then Inl (Panic ''index out of range'')
               else
                 let jobIdx = hd (split_at CHR ''.'' (strs ! 1));
                     simSpec = concat (map (\<lambda>(sec, c, m). phase_text ''m'' ''Mi'' sec c m 0) phases)
                 in workload_pod io (''pod-'' @ jobIdx) [(''simSpec'', simSpec)] 1
                      (decimal requestCpu @ ''m'', decimal requestMem @ ''Mi'', ''0'') (''999'', ''999Gi'', ''0''))))"

section \<open>Clocks and the order of tasks\<close>

definition BuildClock :: "trace_env \<Rightarrow> string \<Rightarrow> int \<Rightarrow> clock \<times> go_error option" where
  "BuildClock te startClock shift =
     (case if startClock = [] then Inr (te_Now te) else te_ParseTime te startClock of
        Inl err \<Rightarrow> (te_Now te, Some err)
      | Inr c \<Rightarrow> (clock_Add c (i64 (shift * second)), None))"

definition ArrivalTimeInSeconds :: "trace_env \<Rightarrow> string \<Rightarrow> int" where
  "ArrivalTimeInSeconds te filePath = te_Atoi te (hd (split_at CHR ''_'' (last_part CHR ''/'' filePath))) sdiv micro_seconds"

definition TaskInChronologicalOrder :: "trace_env \<Rightarrow> string \<Rightarrow> string \<Rightarrow> bool res" where
  "TaskInChronologicalOrder te path1 path2 =
     (let strArr1 = split_at CHR ''_'' (last_part CHR ''/'' path1); strArr2 = split_at CHR ''_'' (last_part CHR ''/'' path2);
          a1 = te_Atoi te (hd strArr1); a2 = te_Atoi te (hd strArr2)
      in if a1 = a2 then
           if length strArr1 < 2 \<or> length strArr2 < 2 then Inl (Panic ''index out of range'')
           else Inr (te_Atoi te (strArr1 ! 1) < te_Atoi te (strArr2 ! 1))
         else Inr (a1 < a2))"

section \<open>Traces\<close>

record trace_flags =
  tf_startClockStr :: string
  tf_endClockStr :: string
  tf_startTimestampTrace :: string
  tf_totalPodsNum :: nat
  tf_workloadSubsetFactor :: int
  tf_workloadSubfolderCap :: int
  tf_tick :: int
  tf_isMultipleResource :: bool
  tf_ratio :: gofloat

definition start_timestamp :: "trace_env \<Rightarrow> trace_flags \<Rightarrow> int" where
  "start_timestamp te fl = te_Atoi te (tf_startTimestampTrace fl) sdiv micro_seconds"

definition end_clock :: "trace_env \<Rightarrow> trace_flags \<Rightarrow> clock" where
  "end_clock te fl = fst (BuildClock te (tf_endClockStr fl) 0)"

definition arrival_clock :: "trace_env \<Rightarrow> trace_flags \<Rightarrow> int \<Rightarrow> clock" where
  "arrival_clock te fl timestamp = fst (BuildClock te (tf_startClockStr fl) (i64 (timestamp - start_timestamp te fl)))"

text \<open>The files of the trace whose task arrives while the simulation runs.\<close>

definition trace_paths :: "trace_env \<Rightarrow> trace_flags \<Rightarrow> string list \<Rightarrow> string list" where
  "trace_paths te fl visited = filter (\<lambda>path. contains path ''csv'' \<and>
     (let clk = arrival_clock te fl (ArrivalTimeInSeconds te path)
      in \<not> clock_Before (end_clock te fl) clk \<and> \<not> clock_Before clk (fst (BuildClock te (tf_startClockStr fl) 0)))) visited"

text \<open>The file that a worker writes: its folder, its clock and its pod.\<close>

definition trace_job :: "io_env \<Rightarrow> trace_env \<Rightarrow> trace_flags \<Rightarrow> string \<Rightarrow> int \<Rightarrow> string \<Rightarrow> (string \<times> clock \<times> v1_pod) option res" where
  "trace_job io te fl workloadPath i filePath =
     (if tf_tick fl = 0 then Inl (Panic ''integer divide by zero'')
      else
        let timestamp = i64 (ArrivalTimeInSeconds te filePath sdiv tf_tick fl * tf_tick fl);
            startClock = arrival_clock te fl timestamp;
            maxLength = clock_Sub (end_clock te fl) startClock sdiv second;
            limits = \<lparr>tl_cpuFactor = 64000, tl_memFactor = (if tf_isMultipleResource fl then 131072 else 0),
                  tl_maxTaskLengthSeconds = maxLength, tl_demandToRequestRatio = tf_ratio fl\<rparr>
        in (case ConvertTraceToPod io te limits filePath of
              Inl e \<Rightarrow> if is_panic e then Inl e else Inr None
            | Inr pod \<Rightarrow>
                if maxLength > 0 then
                  if tf_workloadSubfolderCap fl = 0 then Inl (Panic ''integer divide by zero'')
                  else Inr (Some (workloadPath @ ''/'' @ decimal (i sdiv tf_workloadSubfolderCap fl), startClock, pod))
                else Inr None))"

definition convertTrace2Workload ::
  "io_env \<Rightarrow> trace_env \<Rightarrow> trace_flags \<Rightarrow> string \<Rightarrow> string list \<Rightarrow> (string \<times> clock \<times> v1_pod) option list res" where
  "convertTrace2Workload io te fl workloadPath visited =
     (let sorted = te_sort te (trace_paths te fl visited); fileNum = int (length sorted);
          fileNum = (if fileNum > i64 (int (tf_totalPodsNum fl)) then i64 (int (tf_totalPodsNum fl)) else fileNum)
      in if fileNum < 0 then Inl (Panic ''makechan: size out of range'')
         else map_res (\<lambda>i.
           let j = i64 (int i * tf_workloadSubsetFactor fl)
           in if j \<ge> fileNum then Inr None
              else if j < 0 then Inl (Panic ''index out of range'')
              else trace_job io te fl workloadPath (int i) (sorted ! nat j)) [0..<nat fileNum])"

end
