(* ===== verification/TraceProperties.thy ===== *)
theory TraceProperties
  imports Trace
begin

text \<open>
  What converting a trace means: the phases of the pod, laid out second by second, are the measurements of
  the task laid out second by second and cut off at the longest time a task may take. Merging measurements
  of the same usage is not seen, and leaves no two phases of the same usage next to each other.
\<close>

definition timeline :: "trace_phase list \<Rightarrow> (int \<times> int) list" where
  "timeline phases = concat (map (\<lambda>(len, usage). replicate (nat len) usage) phases)"

definition lengths :: "trace_phase list \<Rightarrow> int list" where
  "lengths = map fst"

text \<open>The measurements of a task: length, CPU and memory of each record, nothing merged or cut off.\<close>

fun measured :: "trace_env \<Rightarrow> trace_limits \<Rightarrow> string list list \<Rightarrow> gofloat \<Rightarrow> gofloat \<Rightarrow> trace_phase list" where
  "measured te limits [] cpu' mem' = []"
| "measured te limits (line # lines) cpu' mem' =
     (let (start, end', c, m) = read_record te line;
          cpu' = scaled_usage (tl_demandToRequestRatio limits) c cpu';
          mem' = scaled_usage (tl_demandToRequestRatio limits) m mem'
      in (i64 (end' - start) sdiv micro_seconds, usage_amount cpu' (tl_cpuFactor limits), usage_amount mem' (tl_memFactor limits)) #
         measured te limits lines cpu' mem')"

definition phases_fit :: "trace_phase list \<Rightarrow> bool" where
  "phases_fit phases \<longleftrightarrow> (\<forall>len \<in> set (lengths phases). 0 \<le> len) \<and> sum_list (lengths phases) < 2 ^ 62"

lemma timeline_simps [simp]:
  "timeline [] = []" "timeline (phase # phases) = replicate (nat (fst phase)) (snd phase) @ timeline phases"
  "timeline (phases @ phases') = timeline phases @ timeline phases'"
  by (simp_all add: timeline_def case_prod_unfold)

lemma lengths_simps [simp]:
  "lengths [] = []" "lengths (phase # phases) = fst phase # lengths phases" "lengths (phases @ phases') = lengths phases @ lengths phases'"
  by (simp_all add: lengths_def)

lemma length_timeline: "\<forall>len \<in> set (lengths phases). 0 \<le> len \<Longrightarrow> int (length (timeline phases)) = sum_list (lengths phases)"
  by (induction phases) auto

lemma lengths_nonneg: "\<forall>len \<in> set (lengths phases). 0 \<le> len \<Longrightarrow> 0 \<le> sum_list (lengths phases)"
  by (induction phases) auto

text \<open>Adding a phase.\<close>

lemma add_phase_spec:
  assumes "phases_fit phases" "0 \<le> len" "sum_list (lengths phases) + len < 2 ^ 62" "distinct_adj (map snd phases)"
  shows "timeline (add_phase (len, usage) phases) = timeline phases @ replicate (nat len) usage \<and>
    phases_fit (add_phase (len, usage) phases) \<and> distinct_adj (map snd (add_phase (len, usage) phases)) \<and>
    sum_list (lengths (add_phase (len, usage) phases)) = sum_list (lengths phases) + len"
proof (cases "phases \<noteq> [] \<and> snd (last phases) = usage")
  case True
  then obtain old l where phases: "phases = old @ [(l, usage)]" by (metis append_butlast_last_id prod.collapse)
  have l: "0 \<le> l" "0 \<le> sum_list (lengths old)" using assms(1) lengths_nonneg [of old] by (auto simp: phases phases_fit_def)
  with assms(2,3) have i: "i64 (l + len) = l + len" by (auto simp: phases i64_id in64_def)
  have add: "add_phase (len, usage) phases = old @ [(l + len, usage)]"
    by (simp add: add_phase_def phases i case_prod_unfold)
  show ?thesis
    unfolding add using assms l by (auto simp: phases phases_fit_def nat_add_distrib replicate_add)
next
  case False
  then have add: "add_phase (len, usage) phases = phases @ [(len, usage)]" by (auto simp: add_phase_def case_prod_unfold)
  have "distinct_adj (map snd phases @ [usage])"
    using assms(4) False by (auto simp: distinct_adj_append_iff last_map)
  with assms(1-3) show ?thesis unfolding add by (auto simp: phases_fit_def)
qed

lemma trace_loop_timeline:
  assumes "\<forall>line \<in> set lines. 5 \<le> length line"
    and "phases_fit (ts_phases st)" "sum_list (lengths (ts_phases st)) = ts_taskLast st" "distinct_adj (map snd (ts_phases st))"
    and "ts_taskLast st \<le> tl_maxTaskLengthSeconds limits" "tl_maxTaskLengthSeconds limits < 2 ^ 62"
    and "phases_fit (ts_phases st @ measured te limits lines (ts_cpu st) (ts_mem st))"
  shows "\<exists>phases. trace_loop te limits lines st = Inr phases \<and> distinct_adj (map snd phases) \<and>
    timeline phases = take (nat (tl_maxTaskLengthSeconds limits)) (timeline (ts_phases st @ measured te limits lines (ts_cpu st) (ts_mem st)))"
  using assms
proof (induction te limits lines st rule: trace_loop.induct)
  case (1 te limits st)
  have "int (length (timeline (ts_phases st))) = ts_taskLast st"
    using length_timeline [of "ts_phases st"] "1.prems" by (simp add: phases_fit_def)
  with "1.prems" show ?case by simp
next
  case (2 te limits line lines st)
  obtain start end' c m where r: "read_record te line = (start, end', c, m)" by (metis surj_pair)
  let ?max = "tl_maxTaskLengthSeconds limits"
  let ?cpu = "scaled_usage (tl_demandToRequestRatio limits) c (ts_cpu st)"
  let ?mem = "scaled_usage (tl_demandToRequestRatio limits) m (ts_mem st)"
  let ?len = "i64 (end' - start) sdiv micro_seconds"
  let ?usage = "(usage_amount ?cpu (tl_cpuFactor limits), usage_amount ?mem (tl_memFactor limits))"
  let ?rest = "measured te limits lines ?cpu ?mem"
  have m: "measured te limits (line # lines) (ts_cpu st) (ts_mem st) = (?len, ?usage) # ?rest"
    by (simp add: r Let_def)
  have fit: "0 \<le> ?len" "0 \<le> sum_list (lengths ?rest)" "0 \<le> ts_taskLast st"
    "ts_taskLast st + ?len + sum_list (lengths ?rest) < 2 ^ 62"
    using "2.prems"(2,3,7) lengths_nonneg [of ?rest] lengths_nonneg [of "ts_phases st"]
    unfolding m by (auto simp: phases_fit_def)
  then have sum: "i64 (ts_taskLast st + ?len) = ts_taskLast st + ?len" by (auto simp: i64_id in64_def)
  have len: "int (length (timeline (ts_phases st))) = ts_taskLast st"
    using length_timeline [of "ts_phases st"] "2.prems" by (simp add: phases_fit_def)
  have cols: "\<not> length line < 5" using "2.prems"(1) by simp
  show ?case
  proof (cases "ts_taskLast st + ?len > ?max")
    case True
    let ?cut = "?max - ts_taskLast st"
    have cut: "i64 (?len - i64 (ts_taskLast st + ?len - ?max)) = ?cut"
      using True fit "2.prems"(5,6) by (auto simp: i64_id in64_def)
    note a = add_phase_spec [OF "2.prems"(2) _ _ "2.prems"(4), of ?cut ?usage]
    have run: "trace_loop te limits (line # lines) st = Inr (add_phase (?cut, ?usage) (ts_phases st))"
      using True cols by (simp add: r sum cut Let_def)
    have "timeline (ts_phases st) @ replicate (nat ?cut) ?usage =
        take (nat ?max) (timeline (ts_phases st @ (?len, ?usage) # ?rest))"
    proof -
      have "nat ?max = length (timeline (ts_phases st)) + nat ?cut" "nat ?cut \<le> nat ?len"
        using len "2.prems"(5) fit True by linarith+
      then show ?thesis by simp
    qed
    then show ?thesis
      using a "2.prems"(3,5,6) unfolding run m by simp
  next
    case False
    let ?st = "\<lparr>ts_cpu = ?cpu, ts_mem = ?mem, ts_taskLast = ts_taskLast st + ?len, ts_phases = add_phase (?len, ?usage) (ts_phases st)\<rparr>"
    note a = add_phase_spec [OF "2.prems"(2) fit(1) _ "2.prems"(4), of ?usage]
    have small: "sum_list (lengths (ts_phases st)) + ?len < 2 ^ 62" using fit "2.prems"(3) by linarith
    note a = a [OF small]
    have run: "trace_loop te limits (line # lines) st = trace_loop te limits lines ?st"
      using False cols by (simp add: r sum Let_def)
    have same: "timeline (ts_phases ?st @ ?rest) = timeline (ts_phases st @ (?len, ?usage) # ?rest)" using a by simp
    have "phases_fit (ts_phases ?st @ ?rest)"
      using a "2.prems"(7) fit "2.prems"(3) unfolding m by (auto simp: phases_fit_def)
    then have "\<exists>phases. trace_loop te limits lines ?st = Inr phases \<and> distinct_adj (map snd phases) \<and>
        timeline phases = take (nat ?max) (timeline (ts_phases ?st @ ?rest))"
      using "2.IH" [OF cols r [symmetric] refl refl refl refl refl refl refl refl] a False "2.prems" by (simp add: r sum Let_def)
    then show ?thesis unfolding run m same .
  qed
qed

text \<open>
  C23: The phases of a converted task are its timeline. If every record has its columns, no measurement has a
  negative length and the lengths fit an int64, then converting does not fail; the phases laid out second by
  second are the measurements laid out second by second, cut off at the longest time a task may take; and no
  two phases next to each other have the same usage.
\<close>

theorem trace_is_cut_timeline:
  assumes "\<forall>line \<in> set lines. 5 \<le> length line" "phases_fit (measured te limits lines (f64 0) (f64 0))"
    "0 \<le> tl_maxTaskLengthSeconds limits" "tl_maxTaskLengthSeconds limits < 2 ^ 62"
  shows "\<exists>phases. trace_loop te limits lines \<lparr>ts_cpu = f64 0, ts_mem = f64 0, ts_taskLast = 0, ts_phases = []\<rparr> = Inr phases \<and>
    timeline phases = take (nat (tl_maxTaskLengthSeconds limits)) (timeline (measured te limits lines (f64 0) (f64 0))) \<and>
    distinct_adj (map snd phases)"
  using trace_loop_timeline [OF assms(1), of "\<lparr>ts_cpu = f64 0, ts_mem = f64 0, ts_taskLast = 0, ts_phases = []\<rparr>" limits te] assms(2-4)
  by (auto simp: phases_fit_def)

section \<open>Witness\<close>

text \<open>Two measurements of 2 and 3 seconds and the same usage, of a task that may take 4.\<close>

definition tally_env :: trace_env where
  "tally_env = \<lparr>te_Atoi = (\<lambda>s. int (length s) * 1000000), te_ParseFloat = (\<lambda>_. f64 1), te_csv = (\<lambda>_. None),
     te_sort = (\<lambda>paths. paths), te_ParseTime = (\<lambda>_. Inr 0), te_Now = 0\<rparr>"

definition tally_limits :: trace_limits where
  "tally_limits = \<lparr>tl_cpuFactor = 64000, tl_memFactor = 131072, tl_maxTaskLengthSeconds = 4, tl_demandToRequestRatio = f64 1\<rparr>"

definition tallies :: "string list list" where
  "tallies = [[''x'', ''xxx'', [], [], []], [''xxx'', ''xxxxxx'', [], [], []]]"

theorem trace_is_cut_timeline_witness:
  "\<exists>phases. trace_loop tally_env tally_limits tallies \<lparr>ts_cpu = f64 0, ts_mem = f64 0, ts_taskLast = 0, ts_phases = []\<rparr> = Inr phases \<and>
     timeline phases = replicate 4 (64000, 131072)"
proof -
  have measured: "measured tally_env tally_limits tallies (f64 0) (f64 0) = [(2, 64000, 131072), (3, 64000, 131072)]" by code_simp
  have "\<forall>line \<in> set tallies. 5 \<le> length line" "phases_fit (measured tally_env tally_limits tallies (f64 0) (f64 0))"
    "0 \<le> tl_maxTaskLengthSeconds tally_limits" "tl_maxTaskLengthSeconds tally_limits < 2 ^ 62"
    unfolding measured by (simp_all add: tallies_def phases_fit_def tally_limits_def)
  from trace_is_cut_timeline [OF this] show ?thesis
    unfolding measured by (auto simp: tally_limits_def numeral_eq_Suc)
qed

end
