(* ===== verification/SubmitterContract.thy ===== *)
theory SubmitterContract
  imports KubeProperties
begin

text \<open>
  What the simulator relies on when it calls a submitter, and the run of the main loop under it. A submitter
  fulfils \<open>submitter_contract\<close> if the pods it submits are new, in the store and by name, and all it has submitted
  so far are a set that is allowed. With such a submitter alone, and a scheduler that fulfils its own contract, Run keeps the invariant of the simulator in every
  iteration, and a pod that was submitted is waiting or has been bound for ever after.
\<close>

section \<open>The contract\<close>

fun submitted :: "submit_event list \<Rightarrow> pod_ptr list" where
  "submitted [] = []"
| "submitted (SubmitEvent p # es) = p # submitted es"
| "submitted (e # es) = submitted es"

definition only_submits :: "submit_event list \<Rightarrow> bool" where
  "only_submits events \<longleftrightarrow> (\<forall>e \<in> set events. case e of SubmitEvent _ \<Rightarrow> True | TerminateSubmitterEvent \<Rightarrow> True | _ \<Rightarrow> False)"

lemma submitted_append [simp]: "submitted (es @ es') = submitted es @ submitted es'"
  by (induction es rule: submitted.induct) simp_all

lemma only_submits_simps [simp]:
  "only_submits []" "only_submits (es @ es') \<longleftrightarrow> only_submits es \<and> only_submits es'"
  "only_submits (SubmitEvent p # es) \<longleftrightarrow> only_submits es" "only_submits (TerminateSubmitterEvent # es) \<longleftrightarrow> only_submits es"
  "\<not> only_submits (SubmitDeleteEvent n ns # es)" "\<not> only_submits (UpdateEvent n ns p # es)"
  by (auto simp: only_submits_def)

locale submitter_contract =
  fixes allowed :: "pod_ptr set \<Rightarrow> bool" and fresh :: "pod_ptr set \<Rightarrow> pods \<Rightarrow> submitter \<Rightarrow> bool"
  assumes submits: "fresh used ps s \<Longrightarrow> Submit s clk nodes met ps = Inr (s', ps', events) \<Longrightarrow>
      only_submits events \<and> distinct (submitted events) \<and> set (submitted events) \<inter> used = {} \<and>
      (\<forall>p \<in> used. ps' p = ps p) \<and> inj_on (\<lambda>p. PodKey (ps' p)) (used \<union> set (submitted events)) \<and>
      allowed (used \<union> set (submitted events)) \<and>
      (TerminateSubmitterEvent \<in> set events \<or> fresh (used \<union> set (submitted events)) ps' s')"
    and static: "fresh used ps s \<Longrightarrow> same_static ps ps' \<Longrightarrow> fresh used ps' s"

section \<open>Submitting\<close>

lemma submit_pod_spec:
  assumes ok: "kube_ok k" and e: "event_ok k (SubmitEvent p)" and run: "submit_one name (SubmitEvent p) k = Inr k'"
  shows "kube_ok k' \<and> in_use k' = insert p (in_use k) \<and> same_static (hp_pods (k_heap k)) (hp_pods (k_heap k')) \<and>
    k_submitters k' = k_submitters k"
proof -
  let ?h = "(k_heap k)\<lparr>hp_pods := (hp_pods (k_heap k))(p := submitted_pod (k_clock k) (hp_pods (k_heap k) p))\<rparr>"
  note grows = submitted_grows [of "k_heap k" p "k_clock k"]
  obtain q' where push: "Queue_Push (hp_pods ?h) (k_pendingPods k) p = Inr q'"
    and k': "k' = k\<lparr>k_heap := ?h, k_pendingPods := q'\<rparr>"
    using run by (auto simp: submit_one_def Let_def res_bind_Inr_iff)
  have inv: "queue_inv (hp_pods ?h) (k_pendingPods k)"
    using kube_ok_grows [OF ok grows] by (simp add: kube_ok_def queues_ok_def)
  obtain key where key: "PodKey (hp_pods ?h p) = Inr key"
    using q.push_bad_key [of "hp_pods ?h" p] push by (cases "PodKey (hp_pods ?h p)") auto
  then have "PodKey (hp_pods (k_heap k) p) = Inr key" using PodKey_static [OF heap_grows_static [OF grows]] by metis
  with e have free: "queue_live (k_pendingPods k) key = None" by (simp add: event_ok_def)
  have live: "queue_live q' = (queue_live (k_pendingPods k))(key \<mapsto> p)"
    by (rule q.push_then_live(2) [OF inv key free push])
  have "pending q' = insert p (pending (k_pendingPods k))" using free by (simp add: pending_def live ran_map_upd)
  then have "in_use k' = insert p (in_use k)"
    using heap_grows_sim_pods [OF grows] by (simp add: in_use_def unplaced_def k')
  with submit_one_ok [OF ok e run] heap_grows_static [OF grows] show ?thesis by (simp add: k')
qed

lemma fresh_event_ok:
  assumes ok: "kube_ok k" and p: "p \<notin> in_use k" "inj_on (\<lambda>p. PodKey (hp_pods (k_heap k) p)) (insert p (in_use k))"
  shows "event_ok k (SubmitEvent p)"
proof -
  have i: "queue_inv (hp_pods (k_heap k)) (k_pendingPods k)" "fifo_inv (hp_pods (k_heap k)) (k_failQueue k)"
    using ok by (simp_all add: kube_ok_def queues_ok_def)
  have other: "PodKey (hp_pods (k_heap k) p') \<noteq> PodKey (hp_pods (k_heap k) p)" if "p' \<in> in_use k" for p'
    using p that by (metis inj_onD insertCI)
  have "queue_live (k_pendingPods k) key = None \<and> fifo_live (k_failQueue k) key = None"
    if key: "PodKey (hp_pods (k_heap k) p) = Inr key" for key
  proof (rule ccontr)
    assume "\<not> ?thesis"
    then obtain p' where "queue_live (k_pendingPods k) key = Some p' \<or> fifo_live (k_failQueue k) key = Some p'" by auto
    then have "p' \<in> in_use k" "PodKey (hp_pods (k_heap k) p') = Inr key"
      using q.live_key [OF i(1)] fq.live_key [OF i(2)] by (auto simp: in_use_def unplaced_def pending_def waiting_def intro: ranI)
    with other key show False by simp
  qed
  then show ?thesis by (simp add: event_ok_def)
qed

lemma submit_events_spec:
  "fold_res (submit_one name) events k = Inr k' \<Longrightarrow> kube_ok k \<Longrightarrow> only_submits events \<Longrightarrow> distinct (submitted events) \<Longrightarrow>
     set (submitted events) \<inter> in_use k = {} \<Longrightarrow>
     inj_on (\<lambda>p. PodKey (hp_pods (k_heap k) p)) (in_use k \<union> set (submitted events)) \<Longrightarrow>
     kube_ok k' \<and> in_use k' = in_use k \<union> set (submitted events) \<and> same_static (hp_pods (k_heap k)) (hp_pods (k_heap k')) \<and>
     k_submitters k' = (if TerminateSubmitterEvent \<in> set events then AList.delete name (k_submitters k) else k_submitters k)"
proof (induction events arbitrary: k)
  case (Cons e events)
  from Cons.prems(1) obtain k1 where e: "submit_one name e k = Inr k1" and rest: "fold_res (submit_one name) events k1 = Inr k'"
    by (auto simp: res_bind_Inr_iff)
  show ?case
  proof (cases e)
    case (SubmitEvent p)
    have inj: "inj_on (\<lambda>p. PodKey (hp_pods (k_heap k) p)) (insert p (in_use k))"
      by (rule inj_on_subset [OF Cons.prems(6)]) (use SubmitEvent in auto)
    have "event_ok k (SubmitEvent p)"
      by (rule fresh_event_ok [OF Cons.prems(2) _ inj]) (use Cons.prems(5) SubmitEvent in auto)
    note s = submit_pod_spec [OF Cons.prems(2) this e [unfolded SubmitEvent]]
    have all: "in_use k1 \<union> set (submitted events) = in_use k \<union> set (submitted (e # events))" using s SubmitEvent by auto
    have "inj_on (\<lambda>p. PodKey (hp_pods (k_heap k1) p)) (in_use k1 \<union> set (submitted events))"
      unfolding all using inj_PodKey_static Cons.prems(6) s by blast
    moreover have "only_submits events" "distinct (submitted events)" "set (submitted events) \<inter> in_use k1 = {}"
      using Cons.prems(3-5) SubmitEvent s by auto
    ultimately have "kube_ok k' \<and> in_use k' = in_use k1 \<union> set (submitted events) \<and>
        same_static (hp_pods (k_heap k1)) (hp_pods (k_heap k')) \<and>
        k_submitters k' = (if TerminateSubmitterEvent \<in> set events then AList.delete name (k_submitters k1) else k_submitters k1)"
      using Cons.IH [OF rest] s by simp
    with s all SubmitEvent same_static_trans [of "hp_pods (k_heap k)" "hp_pods (k_heap k1)"] show ?thesis by simp
  next
    case TerminateSubmitterEvent
    then have k1: "k1 = k\<lparr>k_submitters := AList.delete name (k_submitters k)\<rparr>" using e by (simp add: submit_one_def)
    have "in_use k1 = in_use k" by (simp add: k1 in_use_def unplaced_def)
    then show ?thesis
      using Cons.IH [OF rest] Cons.prems TerminateSubmitterEvent by (simp add: k1 delete_idem)
  qed (use Cons.prems(3) in simp_all)
qed simp

section \<open>The run\<close>

text \<open>The simulator is sound, holds pods that are allowed, and has at most one submitter, whose pods will be new.\<close>

definition driven ::
  "(pod_ptr set \<Rightarrow> bool) \<Rightarrow> (pod_ptr set \<Rightarrow> pods \<Rightarrow> submitter \<Rightarrow> bool) \<Rightarrow> kubesim \<Rightarrow> bool" where
  "driven allowed fresh k \<longleftrightarrow> kube_ok k \<and> allowed (in_use k) \<and>
     (k_submitters k = [] \<or> (\<exists>name s. k_submitters k = [(name, s)] \<and> fresh (in_use k) (hp_pods (k_heap k)) s))"

definition next_state :: "kube_env \<Rightarrow> scheduler \<Rightarrow> run_state \<Rightarrow> run_state \<Rightarrow> bool" where
  "next_state ke sch rs rs' \<longleftrightarrow> Run_step ke sch rs = Some (Inr rs')"

lemma toTerminate_frame:
  "kube_toTerminate ever k = Inr (k', finished) \<Longrightarrow> k_heap k' = k_heap k \<and> k_submitters k' = k_submitters k"
  by (auto simp: kube_toTerminate_def Let_def res_bind_Inr_iff split: prod.splits if_splits)

lemma in_use_frame [simp]:
  "in_use (k\<lparr>k_clock := clk\<rparr>) = in_use k" "in_use (k\<lparr>k_cache := cache\<rparr>) = in_use k"
  "in_use (k\<lparr>k_nodes := nodes\<rparr>) = in_use k" "in_use (k\<lparr>k_submitters := subs\<rparr>) = in_use k"
  by (simp_all add: in_use_def unplaced_def)

lemma driven_timing [simp]:
  "driven allowed fresh (k\<lparr>k_clock := clk\<rparr>) = driven allowed fresh k" "driven allowed fresh (k\<lparr>k_cache := cache\<rparr>) = driven allowed fresh k"
  by (simp_all add: driven_def)

lemma Run_tail_Inr:
  assumes "Run_tail ke rs k = Inr rs'" "kube_metrics ke (rs_estimator rs) k = Inr (k1, met)"
  obtains k2 cache clk where "k2 = k1\<lparr>k_cache := cache\<rparr> \<or> gcTerminatedPodsInNodes (k1\<lparr>k_cache := cache\<rparr>) = Inr k2"
    "rs_kube rs' = k2\<lparr>k_clock := clk\<rparr>"
proof -
  obtain es cache where "Estimate met (k_nodeNames k1) (rs_estimator rs) = (es, cache)" by force
  with assms that show thesis unfolding Run_tail_def Let_def by (fastforce split: if_splits sum.splits)
qed

context submitter_contract
begin

lemma driven_frame:
  assumes "driven allowed fresh k" "kube_ok k'" "in_use k' = in_use k" "same_static (hp_pods (k_heap k)) (hp_pods (k_heap k'))"
    "k_submitters k' = k_submitters k"
  shows "driven allowed fresh k'"
  using assms static unfolding driven_def by metis

lemma kube_submit_driven:
  assumes d: "driven allowed fresh k" and run: "kube_submit met k = Inr k'"
  shows "driven allowed fresh k' \<and> in_use k \<subseteq> in_use k'"
proof (cases "k_submitters k = []")
  case True
  with run d show ?thesis by (simp add: kube_submit_def)
next
  case False
  with d obtain name s where s: "k_submitters k = [(name, s)]" "fresh (in_use k) (hp_pods (k_heap k)) s" "kube_ok k"
    by (auto simp: driven_def)
  from run obtain nodes s' ps events where
    sub: "Submit s (k_clock k) nodes met (hp_pods (k_heap k)) = Inr (s', ps, events)"
    and events: "fold_res (submit_one name) events
      (k\<lparr>k_submitters := AList.update name s' (k_submitters k), k_heap := (k_heap k)\<lparr>hp_pods := ps\<rparr>\<rparr>) = Inr k'"
    by (auto simp: kube_submit_def s(1) submit_piece_def res_bind_Inr_iff)
  let ?k1 = "k\<lparr>k_submitters := [(name, s')], k_heap := (k_heap k)\<lparr>hp_pods := ps\<rparr>\<rparr>"
  note c = submits [OF s(2) sub]
  have "kube_ok (k\<lparr>k_heap := (k_heap k)\<lparr>hp_pods := ps\<rparr>\<rparr>)" by (rule kube_ok_written [OF s(3)]) (use c in blast)
  then have ok1: "kube_ok ?k1" by (simp add: kube_ok_def)
  have use1: "in_use ?k1 = in_use k" by (simp add: in_use_def unplaced_def sim_pods_def)
  have "kube_ok k' \<and> in_use k' = in_use k \<union> set (submitted events) \<and> same_static ps (hp_pods (k_heap k')) \<and>
      k_submitters k' = (if TerminateSubmitterEvent \<in> set events then [] else [(name, s')])"
    using submit_events_spec [of name events ?k1 k'] events ok1 c use1 by (simp add: s(1))
  with c static show ?thesis by (auto simp: driven_def)
qed

end

locale driven_simulator = submitter_contract allowed fresh + scheduler_contract sch
  for allowed :: "pod_ptr set \<Rightarrow> bool" and fresh :: "pod_ptr set \<Rightarrow> pods \<Rightarrow> submitter \<Rightarrow> bool" and sch :: scheduler
begin

lemma schedule_driven:
  assumes "driven allowed fresh k" "kube_schedule io sch k = Some (Inr k')"
  shows "driven allowed fresh k' \<and> in_use k' = in_use k"
  using kube_schedule_spec [OF _ assms(2)] driven_frame [OF assms(1)] assms(1) by (simp add: driven_def)

lemma metrics_driven:
  assumes "driven allowed fresh k" "kube_metrics ke es k = Inr (k', met)"
  shows "driven allowed fresh k' \<and> in_use k' = in_use k"
proof -
  obtain h where k': "k' = k\<lparr>k_heap := h\<rparr>" "phases_only (k_heap k) h"
    using assms(2) BuildMetrics_phases by (fastforce simp: kube_metrics_def res_bind_Inr_iff)
  note grows = phases_only_grows [OF k'(2)]
  have "in_use k' = in_use k" using heap_grows_sim_pods [OF grows] by (simp add: k' in_use_def unplaced_def)
  moreover have "driven allowed fresh k'"
    by (rule driven_frame [OF assms(1) _ calculation])
      (use kube_metrics_ok [OF _ assms(2)] heap_grows_static [OF grows] assms(1) in \<open>simp_all add: k' driven_def\<close>)
  ultimately show ?thesis by blast
qed

lemma tail_driven:
  assumes d: "driven allowed fresh k" and run: "Run_tail ke rs k = Inr rs'"
  shows "driven allowed fresh (rs_kube rs') \<and> in_use (rs_kube rs') = in_use k"
proof -
  obtain k1 met where m: "kube_metrics ke (rs_estimator rs) k = Inr (k1, met)"
    using run by (auto simp: Run_tail_def split: sum.splits)
  note d1 = metrics_driven [OF d m]
  have collected: "driven allowed fresh k2 \<and> in_use k2 = in_use k"
    if "gcTerminatedPodsInNodes (k1\<lparr>k_cache := cache\<rparr>) = Inr k2" for cache k2
  proof -
    have "kube_ok (k1\<lparr>k_cache := cache\<rparr>)" using d1 by (simp add: driven_def)
    from gc_ok [OF this] that obtain nodes where "k2 = k1\<lparr>k_cache := cache, k_nodes := nodes\<rparr>" "kube_ok k2" by auto
    moreover have "driven allowed fresh (k1\<lparr>k_cache := cache, k_nodes := nodes\<rparr>)"
      by (rule driven_frame [of "k1\<lparr>k_cache := cache\<rparr>"]) (use d1 calculation in simp_all)
    ultimately show ?thesis using d1 by simp
  qed
  obtain k2 cache clk where "k2 = k1\<lparr>k_cache := cache\<rparr> \<or> gcTerminatedPodsInNodes (k1\<lparr>k_cache := cache\<rparr>) = Inr k2"
    and rs': "rs_kube rs' = k2\<lparr>k_clock := clk\<rparr>" by (rule Run_tail_Inr [OF run m])
  with d1 collected have "driven allowed fresh k2 \<and> in_use k2 = in_use k" by auto
  then show ?thesis by (simp add: rs')
qed

lemma step_driven:
  assumes d: "driven allowed fresh (rs_kube rs)" and run: "next_state ke sch rs rs'"
  shows "driven allowed fresh (rs_kube rs') \<and> in_use (rs_kube rs) \<subseteq> in_use (rs_kube rs')"
proof -
  have ok: "kube_ok (rs_kube rs)" using d by (simp add: driven_def)
  obtain k1 finished where t: "kube_toTerminate (rs_submitterAddedEver rs) (rs_kube rs) = Inr (k1, finished)"
    "kube_ok k1" "unplaced k1 = unplaced (rs_kube rs)" using toTerminate_ok [OF ok] by blast
  have d1: "driven allowed fresh k1" "in_use k1 = in_use (rs_kube rs)"
    using t toTerminate_frame [OF t(1)] d by (simp_all add: driven_def in_use_def)
  obtain k2 k3 rs1 where "kube_submit (rs_met rs) k1 = Inr k2" "kube_schedule (ke_io ke) sch k2 = Some (Inr k3)"
    "Run_tail ke rs1 k3 = Inr rs'"
    using run unfolding next_state_def Run_step_def t(1)
    by (auto simp: Let_def split: option.splits sum.splits if_splits)
  with kube_submit_driven [OF d1(1)] schedule_driven tail_driven d1(2) show ?thesis by metis
qed

lemma run_driven:
  assumes "(next_state ke sch)\<^sup>*\<^sup>* rs rs'" "driven allowed fresh (rs_kube rs)"
  shows "driven allowed fresh (rs_kube rs') \<and> in_use (rs_kube rs) \<subseteq> in_use (rs_kube rs')"
  using assms(1)
proof (induction rule: rtranclp_induct)
  case (step rs1 rs2)
  then show ?case using step_driven [of rs1 ke rs2] by auto
qed (use assms(2) in simp)

end

end
