(* ===== verification/WorkloadProperties.thy ===== *)
theory WorkloadProperties
  imports Workload SubmitterContract FormatterProperties
begin

text \<open>
  The workload of the experiments: the generating submitter fulfils the contract of submitters, keeps the
  number of pods at its target, and draws usages within bounds; a folder of generated pods replays them at
  the clocks they were submitted at.
\<close>

section \<open>Names\<close>

lemma pod_name_inj [simp]: "pod_name i = pod_name j \<longleftrightarrow> i = j"
  using read_digits_digits by (metis append_same_eq pod_name_def same_append_eq)

definition generated_key :: "nat \<Rightarrow> string" where
  "generated_key i = PodKeyFromNames ''default'' (pod_name i)"

lemma generated_key_inj [simp]: "generated_key i = generated_key j \<longleftrightarrow> i = j"
  by (simp add: generated_key_def PodKeyFromNames_def)

lemma newRandomPod_key: "newRandomPod env draws i = Inr pod \<Longrightarrow> PodKey pod = Inr (generated_key i)"
  by (auto simp: newRandomPod_def workload_pod_def Let_def res_bind_Inr_iff PodKey_def generated_key_def pod_name_def)

section \<open>Generating\<close>

lemma u64_inc_small: "n + 1 < 2 ^ 64 \<Longrightarrow> u64_inc n = n + 1"
  by (simp add: u64_inc_def)

lemma submitted_map [simp]: "submitted (map SubmitEvent ps) = ps"
  by (induction ps) simp_all

lemma only_submits_map [simp]: "only_submits (map SubmitEvent ps)"
  by (induction ps) simp_all

text \<open>The pods a call submits: the next ones, up to the limit or the last pod.\<close>

definition batch :: "my_submitter \<Rightarrow> nat \<Rightarrow> nat" where
  "batch s n = min n (max 1 (my_totalPodsNum s) - my_podIdx s)"

definition batch_events :: "my_submitter \<Rightarrow> nat \<Rightarrow> submit_event list" where
  "batch_events s n = map SubmitEvent [my_podIdx s..<my_podIdx s + batch s n] @
     (if my_podIdx s + batch s n \<ge> max 1 (my_totalPodsNum s) then [TerminateSubmitterEvent] else [])"

definition my_ready :: "my_submitter \<Rightarrow> bool" where
  "my_ready s \<longleftrightarrow> my_podIdx s < max 1 (my_totalPodsNum s) \<and> my_totalPodsNum s < 2 ^ 64"

lemma generate_loop_spec:
  assumes "generate_loop env n s ps events = Inr (s', ps', events')" "my_ready s"
  shows "events' = events @ batch_events s n \<and> my_podIdx s' = my_podIdx s + batch s n \<and>
    my_totalPodsNum s' = my_totalPodsNum s \<and> my_endClock s' = my_endClock s \<and>
    (\<forall>p. p \<notin> {my_podIdx s..<my_podIdx s + batch s n} \<longrightarrow> ps' p = ps p) \<and>
    (\<forall>p \<in> {my_podIdx s..<my_podIdx s + batch s n}. PodKey (ps' p) = Inr (generated_key p))"
  using assms
proof (induction env n s ps events rule: generate_loop.induct)
  case (1 env s ps events)
  then show ?case by (auto simp: batch_def batch_events_def my_ready_def)
next
  case (2 env n s ps events)
  from "2.prems"(1) obtain pod where pod: "newRandomPod env (my_draws s) (my_podIdx s) = Inr pod"
    by (auto simp: res_bind_Inr_iff)
  have idx: "u64_inc (my_podIdx s) = my_podIdx s + 1" using "2.prems"(2) by (auto simp: my_ready_def u64_inc_small)
  let ?s = "s\<lparr>my_podIdx := my_podIdx s + 1, my_draws := my_draws s + 2 * phasNum\<rparr>"
  let ?ps = "ps(my_podIdx s := pod)"
  note key = newRandomPod_key [OF pod]
  show ?case
  proof (cases "my_podIdx ?s \<ge> my_totalPodsNum ?s")
    case True
    with "2.prems"(2) have "batch s (Suc n) = 1" by (auto simp: batch_def my_ready_def max_def split: if_splits)
    with "2.prems"(1,2) pod idx True key show ?thesis by (auto simp: Let_def batch_events_def my_ready_def)
  next
    case False
    with "2.prems" have ready: "my_ready ?s" and b: "batch s (Suc n) = Suc (batch ?s n)" by (auto simp: my_ready_def batch_def)
    have "generate_loop env n ?s ?ps (events @ [SubmitEvent (my_podIdx s)]) = Inr (s', ps', events')"
      using "2.prems"(1) pod idx False by (simp add: Let_def)
    note IH = "2.IH" [OF refl refl refl refl, unfolded idx, OF False this ready]
    have "[my_podIdx s..<my_podIdx s + batch s (Suc n)] = my_podIdx s # [my_podIdx s + 1..<my_podIdx s + 1 + batch ?s n]"
      using b by (simp add: upt_rec)
    with IH False b key show ?thesis by (auto simp: Suc_le_eq batch_events_def)
  qed
qed

text \<open>The contract of a submitter. What is used are the pods submitted so far, which have their generated names.\<close>

definition generating :: "workload_env \<Rightarrow> bool" where
  "generating env \<longleftrightarrow> we_isGenWorkload env \<and> \<not> we_isConvertTrace env"

definition first_pods :: "nat \<Rightarrow> pod_ptr set \<Rightarrow> bool" where
  "first_pods podsNum used \<longleftrightarrow> (\<exists>n \<le> max 1 podsNum. used = {..<n})"

definition generated :: "workload_env \<Rightarrow> nat \<Rightarrow> pod_ptr set \<Rightarrow> pods \<Rightarrow> submitter \<Rightarrow> bool" where
  "generated env podsNum used ps subm \<longleftrightarrow> generating env \<and>
     (\<exists>s. subm = mySubmitter env s \<and> my_ready s \<and> my_totalPodsNum s = podsNum \<and> used = {..<my_podIdx s} \<and>
        (\<forall>p < my_podIdx s. PodKey (ps p) = Inr (generated_key p)))"

lemma Submit_mySubmitter:
  "Submit (mySubmitter env s) clk nodes met ps = Inr (subm', ps', events) \<longleftrightarrow>
     (\<exists>s'. subm' = mySubmitter env s' \<and> mySubmitter_Submit env s clk met ps = Inr (s', ps', events))"
  by (cases "mySubmitter_Submit env s clk met ps") auto

lemma generating_Submit:
  assumes "generating env" "my_ready s" "mySubmitter_Submit env s clk met ps = Inr (s', ps', events)"
  obtains "events = [TerminateSubmitterEvent]" "ps' = ps"
  | n where "generate_loop env n s ps [] = Inr (s', ps', events)"
  using assms by (auto simp: mySubmitter_Submit_def generating_def generateWorkloads_def split: if_splits)

interpretation generated: submitter_contract "first_pods podsNum" "generated env podsNum" for env podsNum
proof
  fix used ps s clk nodes met s' ps' events
  assume g: "generated env podsNum used ps s" and run: "Submit s clk nodes met ps = Inr (s', ps', events)"
  from g obtain m where m: "generating env" "s = mySubmitter env m" "my_ready m" "used = {..<my_podIdx m}"
    "\<forall>p < my_podIdx m. PodKey (ps p) = Inr (generated_key p)"
    "my_totalPodsNum m = podsNum" by (auto simp: generated_def)
  from run m(2) obtain m' where m': "s' = mySubmitter env m'" "mySubmitter_Submit env m clk met ps = Inr (m', ps', events)"
    unfolding m(2) Submit_mySubmitter by blast
  have inj: "inj_on (\<lambda>p. PodKey (ps'' p)) {..<k}" if "\<forall>p < k. PodKey (ps'' p) = Inr (generated_key p)" for ps'' k
    using that by (auto simp: inj_on_def)
  show "only_submits events \<and> distinct (submitted events) \<and> set (submitted events) \<inter> used = {} \<and>
      (\<forall>p \<in> used. ps' p = ps p) \<and> inj_on (\<lambda>p. PodKey (ps' p)) (used \<union> set (submitted events)) \<and>
      first_pods podsNum (used \<union> set (submitted events)) \<and>
      (TerminateSubmitterEvent \<in> set events \<or> generated env podsNum (used \<union> set (submitted events)) ps' s')"
  proof (rule generating_Submit [OF m(1,3) m'(2)])
    assume "events = [TerminateSubmitterEvent]" "ps' = ps"
    moreover have "first_pods podsNum used" unfolding first_pods_def using m(3,4,6) by (auto simp: my_ready_def intro!: exI [of _ "my_podIdx m"])
    ultimately show ?thesis using inj [OF m(5)] m(4) by simp
  next
    fix n
    assume "generate_loop env n m ps [] = Inr (m', ps', events)"
    note l = generate_loop_spec [OF this m(3)]
    have events: "events = batch_events m n" using l by simp
    have keys: "\<forall>p < my_podIdx m'. PodKey (ps' p) = Inr (generated_key p)"
      using l m(5) by (metis atLeastLessThan_iff leI)
    have all: "used \<union> set (submitted events) = {..<my_podIdx m'}" using l m(4) by (auto simp: events batch_events_def)
    have "TerminateSubmitterEvent \<in> set events \<or> my_ready m'"
      using l m(3) by (auto simp: events batch_events_def my_ready_def)
    moreover have "first_pods podsNum {..<my_podIdx m'}"
      unfolding first_pods_def using l m(3,6) by (auto simp: batch_def my_ready_def intro!: exI [of _ "my_podIdx m'"])
    ultimately show ?thesis
      using l m(1,6) m'(1) keys inj [OF keys] unfolding all by (auto simp: m(4) generated_def events batch_events_def)
  qed
next
  fix used ps s ps'
  assume "generated env podsNum used ps s" "same_static ps ps'"
  then show "generated env podsNum used ps' s" using PodKey_static [of ps ps'] by (auto simp: generated_def)
qed

section \<open>Reaching the target\<close>

definition parses :: "io_env \<Rightarrow> bool" where
  "parses io \<longleftrightarrow> list_all (\<lambda>s. env_ParseQuantity io s \<noteq> None) [''8'', ''1Mi'', ''0'', ''999'', ''999Gi'']"

lemma request_texts:
  "decimal (fl_int64 (f64 8)) = ''8''"
  "decimal (fl_int64 (fl_mul float64 (fl_const float64 1 1000) (f64 1024))) @ ''Mi'' = ''1Mi''"
  by code_simp+

lemma newRandomPod_total: "parses (we_io env) \<Longrightarrow> \<exists>pod. newRandomPod env draws i = Inr pod"
  unfolding newRandomPod_def request_texts
  by (auto simp: parses_def workload_pod_def resources_of_def MustParse_def Let_def)

lemma generate_loop_total: "parses (we_io env) \<Longrightarrow> \<exists>r. generate_loop env n s ps events = Inr r"
proof (induction env n s ps events rule: generate_loop.induct)
  case (2 env n s ps events)
  obtain pod where "newRandomPod env (my_draws s) (my_podIdx s) = Inr pod" using newRandomPod_total "2.prems" by blast
  with "2.IH" [OF refl refl refl refl _ "2.prems"] show ?case by (auto simp: Let_def fun_upd_def)
qed simp

definition running_pods :: "metrics \<Rightarrow> int" where
  "running_pods met = (\<Sum>(_, m) \<leftarrow> m_Nodes met. nm_RunningPodsNum m)"

lemma fold_sum_exact:
  assumes "\<forall>x \<in> set xs. 0 \<le> f x" "0 \<le> n" "n + (\<Sum>x \<leftarrow> xs. f x) < 2 ^ 62"
  shows "fold (\<lambda>x n. i64 (n + f x)) xs n = n + (\<Sum>x \<leftarrow> xs. f x)"
  using assms
proof (induction xs arbitrary: n)
  case (Cons x xs)
  have "0 \<le> (\<Sum>x \<leftarrow> xs. f x)" using Cons.prems(1) by (intro sum_list_nonneg) auto
  with Cons.prems have "i64 (n + f x) = n + f x" by (auto simp: i64_id in64_def)
  with Cons show ?case by simp
qed simp

definition missing_pods :: "workload_env \<Rightarrow> metrics \<Rightarrow> int" where
  "missing_pods env met = we_targetNum env - int (qm_PendingPodsNum (m_Queue met)) - running_pods met"

definition counts_fit :: "workload_env \<Rightarrow> metrics \<Rightarrow> bool" where
  "counts_fit env met \<longleftrightarrow> (\<forall>(_, m) \<in> set (m_Nodes met). 0 \<le> nm_RunningPodsNum m) \<and> running_pods met < 2 ^ 60 \<and>
     int (qm_PendingPodsNum (m_Queue met)) < 2 ^ 60 \<and> \<bar>we_targetNum env\<bar> < 2 ^ 60"

lemma submission_num_exact:
  assumes "counts_fit env met"
  shows "submission_num env met = missing_pods env met" "i64 (submission_num env met + 1) = submission_num env met + 1"
proof -
  note assms = assms [unfolded counts_fit_def]
  have s: "fold (\<lambda>(_, m) n. i64 (n + nm_RunningPodsNum m)) (m_Nodes met) 0 = running_pods met"
    using fold_sum_exact [of "m_Nodes met" "\<lambda>(_, m). nm_RunningPodsNum m" 0] assms
    by (auto simp: running_pods_def case_prod_unfold)
  have "0 \<le> running_pods met" unfolding running_pods_def by (rule sum_list_nonneg) (use assms in auto)
  with assms show "submission_num env met = missing_pods env met" "i64 (submission_num env met + 1) = submission_num env met + 1"
    unfolding submission_num_def missing_pods_def s Let_def by (simp_all add: i64_id in64_def abs_if split: if_splits)
qed

text \<open>
  C22: The generating submitter keeps the cluster at its target. Up to its end clock, a call submits as many
  pods as are missing from the target number of pending and running pods, but no more than are left of the
  total; they are the next pods in order, and the submitter ends with the last of them. If the cluster holds
  more than one pod above the target the call panics, because a slice is made with a negative capacity.
\<close>

theorem generates_up_to_target:
  assumes "generating env" "parses (we_io env)" "my_ready s" "\<not> clock_Before (my_endClock s) clk" "counts_fit env met"
  shows "if missing_pods env met < -1 then Submit (mySubmitter env s) clk nodes met ps = Inl (Panic ''makeslice: cap out of range'')
    else \<exists>s' ps'. my_podIdx s' = my_podIdx s + batch s (nat (missing_pods env met)) \<and>
      Submit (mySubmitter env s) clk nodes met ps = Inr (mySubmitter env s', ps', batch_events s (nat (missing_pods env met)))"
proof -
  have run: "mySubmitter_Submit env s clk met ps =
      (if missing_pods env met < -1 then Inl (Panic ''makeslice: cap out of range'')
       else generate_loop env (nat (missing_pods env met)) s ps [])"
    using assms(1,4) submission_num_exact [OF assms(5)] by (auto simp: mySubmitter_Submit_def generating_def generateWorkloads_def)
  obtain s' ps' events where g: "generate_loop env (nat (missing_pods env met)) s ps [] = Inr (s', ps', events)"
    using generate_loop_total [OF assms(2)] by (metis surj_pair)
  from generate_loop_spec [OF g assms(3)] g run show ?thesis by (auto intro!: exI [of _ s'])
qed

section \<open>Random usages\<close>

lemma fl_minmax_bounds:
  assumes fin: "is_fin lo" "is_fin hi" and le: "fval lo \<le> fval hi" and x: "x \<noteq> NaN"
  shows "is_fin (fl_max lo (fl_min x hi)) \<and> fval lo \<le> fval (fl_max lo (fl_min x hi)) \<and> fval (fl_max lo (fl_min x hi)) \<le> fval hi"
proof (cases x)
  case (Fin a e)
  then have "is_fin x" "x \<noteq> Inf b" "hi \<noteq> Inf b" "lo \<noteq> Inf b" "hi \<noteq> NaN" "lo \<noteq> NaN" for b using fin by (auto simp: is_fin_def)
  with fin le x show ?thesis by (auto simp: fl_min_def fl_max_def fl_lt_value)
next
  case (Inf b)
  with fin le show ?thesis by (cases b; cases lo; cases hi) (auto simp: fl_min_def fl_max_def fl_lt_value is_fin_def fl_lt_def)
qed (use x in simp)

lemma fl_int64_bounds:
  assumes "is_fin x" "of_int i \<le> fval x" "fval x \<le> of_int j" "0 \<le> i" "j < 2 ^ 62"
  shows "i \<le> fl_int64 x \<and> fl_int64 x \<le> j"
proof -
  obtain a e where x: "x = Fin a e" using assms(1) by (auto elim: is_fin_E)
  let ?t = "if e \<ge> 0 then a * 2 ^ nat e else a sdiv (2 ^ nat (- e))"
  have t: "?t = \<lfloor>fval x\<rfloor>"
  proof (cases "e \<ge> 0")
    case True
    then have "fval x = of_int (a * 2 ^ nat e)" by (simp add: x fval_def powr_int)
    then show ?thesis using True by (simp only: floor_of_int if_True)
  next
    case False
    have "0 \<le> fval x" using assms(2,4) by simp
    then have "0 \<le> a" by (simp add: x fval_def zero_le_mult_iff)
    moreover have "fval x = of_int a / of_int (2 ^ nat (- e))"
      using False by (simp add: x fval_def powr_int divide_simps)
    ultimately show ?thesis using False floor_divide_of_int_eq [where 'a = real, of a "2 ^ nat (- e)"] by (simp add: sdiv_pos)
  qed
  have "i \<le> ?t" "?t \<le> j" unfolding t using assms(2,3) by (simp_all add: le_floor_iff floor_le_iff)
  moreover from this assms(4,5) have "in64 ?t" by (auto simp: in64_def)
  ultimately show ?thesis by (simp add: fl_int64_def x Let_def)
qed

lemma round_not_NaN: "round_dyadic ff m e \<noteq> NaN"
  by (simp add: round_dyadic_def round_quot_def Let_def)

lemma normal_not_NaN:
  assumes "drawn \<noteq> NaN" "a \<noteq> 0" "is_fin mean"
  shows "fl_add float64 (fl_mul float64 drawn (Fin a e)) mean \<noteq> NaN"
proof -
  obtain b f where mean: "mean = Fin b f" using assms(3) by (rule is_fin_E)
  have "fl_mul float64 drawn (Fin a e) \<noteq> NaN" using assms(1,2) round_not_NaN by (cases drawn) (simp_all add: fl_mul_def)
  then show ?thesis using round_not_NaN by (cases "fl_mul float64 drawn (Fin a e)") (simp_all add: fl_add_def mean Let_def)
qed

lemma genNormFloat64_bounds:
  assumes std: "is_fin std" "fval std \<noteq> 0" and mean: "is_fin mean" and drawn: "drawn \<noteq> NaN"
    and fin: "is_fin lo" "is_fin hi" and le: "of_int i \<le> fval lo" "fval lo \<le> fval hi" "fval hi \<le> of_int j" "0 \<le> i" "j < 2 ^ 62"
  shows "i \<le> fl_int64 (genNormFloat64 std mean lo hi drawn) \<and> fl_int64 (genNormFloat64 std mean lo hi drawn) \<le> j"
proof -
  obtain a e where s: "std = Fin a e" using std(1) by (rule is_fin_E)
  with std(2) have "a \<noteq> 0" by (auto simp: fval_def)
  from normal_not_NaN [OF drawn this mean, of e] have "fl_add float64 (fl_mul float64 drawn std) mean \<noteq> NaN"
    by (simp add: s)
  note b = fl_minmax_bounds [OF fin le(2) this]
  show ?thesis
    unfolding genNormFloat64_def Let_def
    by (rule fl_int64_bounds) (use b le in auto)
qed

lemma random_constants:
  "is_fin (fl_add float64 (fl_mul float64 (f64 2) tenth) (f64 1))" "is_fin (fl_mul float64 (f64 2) (f64 10))"
  "is_fin (fl_mul float64 (f64 4) tenth)" "is_fin (fl_mul float64 (f64 4) (f64 10))"
  "fl_le (Fin 1 0) (fl_add float64 (fl_mul float64 (f64 2) tenth) (f64 1))"
  "fl_le (fl_add float64 (fl_mul float64 (f64 2) tenth) (f64 1)) (fl_mul float64 (f64 2) (f64 10))"
  "fl_le (fl_mul float64 (f64 2) (f64 10)) (Fin 20 0)"
  "fl_le (Fin 0 0) (fl_mul float64 (f64 4) tenth)"
  "fl_le (fl_mul float64 (f64 4) tenth) (fl_mul float64 (f64 4) (f64 10))"
  "fl_le (fl_mul float64 (f64 4) (f64 10)) (Fin 40 0)"
  by code_simp+

lemma fval_int [simp]: "fval (Fin i 0) = of_int i"
  by (simp add: fval_def)

lemma random_std:
  "is_fin (fl_div float64 (f64 2) (f64 2)) \<and> fval (fl_div float64 (f64 2) (f64 2)) \<noteq> 0" "is_fin (f64 2)"
  "is_fin (f64 3) \<and> fval (f64 3) \<noteq> 0" "is_fin (f64 4)"
proof -
  have fin: "is_fin (fl_div float64 (f64 2) (f64 2))" "is_fin (f64 2)" "is_fin (f64 3)" "is_fin (f64 4)" by code_simp+
  moreover have "fl_lt (Fin 0 0) (fl_div float64 (f64 2) (f64 2))" "fl_lt (Fin 0 0) (f64 3)" by code_simp+
  ultimately show "is_fin (fl_div float64 (f64 2) (f64 2)) \<and> fval (fl_div float64 (f64 2) (f64 2)) \<noteq> 0" "is_fin (f64 2)"
    "is_fin (f64 3) \<and> fval (f64 3) \<noteq> 0" "is_fin (f64 4)"
    by (simp_all add: fl_lt_value)
qed

text \<open>
  Whatever number is drawn, a phase of a generated pod lasts between 1 and 20 seconds and uses between 1
  and 41 CPUs and as many GiB.
\<close>

theorem random_usage_bounded:
  assumes "drawn \<noteq> NaN"
  shows "1 \<le> random_seconds drawn \<and> random_seconds drawn \<le> 20 \<and> 1 \<le> random_cpu drawn \<and> random_cpu drawn \<le> 41"
proof -
  note fin = random_constants(1-4)
  have le: "1 \<le> fval (fl_add float64 (fl_mul float64 (f64 2) tenth) (f64 1))"
    "fval (fl_add float64 (fl_mul float64 (f64 2) tenth) (f64 1)) \<le> fval (fl_mul float64 (f64 2) (f64 10))"
    "fval (fl_mul float64 (f64 2) (f64 10)) \<le> 20" "0 \<le> fval (fl_mul float64 (f64 4) tenth)"
    "fval (fl_mul float64 (f64 4) tenth) \<le> fval (fl_mul float64 (f64 4) (f64 10))"
    "fval (fl_mul float64 (f64 4) (f64 10)) \<le> 40"
    using random_constants(5-10) fin by (simp_all only: fl_le_value is_fin_simps fval_int of_int_numeral of_int_1 of_int_0)
  have "1 \<le> random_seconds drawn \<and> random_seconds drawn \<le> 20"
    unfolding random_seconds_def
    by (rule genNormFloat64_bounds [OF _ _ random_std(2) assms fin(1,2)]) (use le random_std(1) in simp_all)
  moreover have "0 \<le> fl_int64 (genNormFloat64 (f64 3) (f64 4) (fl_mul float64 (f64 4) tenth) (fl_mul float64 (f64 4) (f64 10)) drawn) \<and>
      fl_int64 (genNormFloat64 (f64 3) (f64 4) (fl_mul float64 (f64 4) tenth) (fl_mul float64 (f64 4) (f64 10)) drawn) \<le> 40"
    by (rule genNormFloat64_bounds [OF _ _ random_std(4) assms fin(3,4)]) (use le random_std(3) in simp_all)
  ultimately show ?thesis by (simp add: random_cpu_def i64_id in64_def)
qed

section \<open>Replaying\<close>

lemma split_at_free: "sep \<notin> set s \<Longrightarrow> split_at sep s = [s]"
  by (induction s) auto

lemma split_at_nonempty [simp]: "split_at sep s \<noteq> []"
  by (induction s) (auto split: list.splits)

lemma split_at_sep: "sep \<notin> set a \<Longrightarrow> split_at sep (a @ sep # b) = a # split_at sep b"
  by (induction a) auto

lemma length_split_at: "length (split_at sep s) = Suc (length (filter (\<lambda>c. c = sep) s))"
  by (induction s) (auto split: list.splits)

lemma last_split_at: "last (split_at sep (a @ sep # b)) = last (split_at sep b)"
proof (induction a)
  case (Cons c a)
  have "length (split_at sep (a @ sep # b)) > 1" by (simp add: length_split_at)
  with Cons show ?case by (auto split: list.splits)
qed simp

lemma contains_append: "contains (a @ s) pat" if "contains s pat"
  using that by (induction a) auto

lemma clock_of_file_name:
  assumes "CHR ''/'' \<notin> set (we_rfc3339 env clk)" "CHR ''@'' \<notin> set (we_rfc3339 env clk)" "CHR ''/'' \<notin> set (pod_Name pod)"
  shows "clock_of_path (workload_file_name env path clk pod) = we_rfc3339 env clk" "contains (workload_file_name env path clk pod) ''json''"
proof -
  let ?file = "we_rfc3339 env clk @ CHR ''@'' # pod_Name pod @ ''.json''"
  have "last_part CHR ''/'' (workload_file_name env path clk pod) = ?file"
    using assms last_split_at [of "CHR ''/''" path ?file] by (simp add: last_part_def workload_file_name_def split_at_free)
  then show "clock_of_path (workload_file_name env path clk pod) = we_rfc3339 env clk"
    using assms by (simp add: clock_of_path_def split_at_sep)
  have "contains ''.json'' ''json''" by simp
  from contains_append [OF this, of "path @ ''/'' @ we_rfc3339 env clk @ ''@'' @ pod_Name pod"]
  show "contains (workload_file_name env path clk pod) ''json''" by (simp add: workload_file_name_def)
qed

lemma walk_workload_spec:
  "map_of (fst (walk_workload paths podMap n)) c =
     (case filter (\<lambda>p. contains p ''json'' \<and> clock_of_path p = c) paths of
        [] \<Rightarrow> map_of podMap c
      | ps \<Rightarrow> Some ((case map_of podMap c of None \<Rightarrow> [] | Some old \<Rightarrow> old) @ ps))"
proof (induction paths podMap n rule: walk_workload.induct)
  case (2 path paths podMap n)
  then show ?case by (auto simp: Let_def update_conv' split: list.splits option.splits)
qed simp

lemma walk_workload_count:
  "length paths + n < 2 ^ 64 \<Longrightarrow> snd (walk_workload paths podMap n) = n + length (filter (\<lambda>p. contains p ''json'') paths)"
proof (induction paths podMap n rule: walk_workload.induct)
  case (2 path paths podMap n)
  then have "u64_inc n = n + 1" by (intro u64_inc_small) simp
  with 2 show ?case by (simp add: Let_def)
qed simp

definition workload_files :: "workload_env \<Rightarrow> string \<Rightarrow> (clock \<times> v1_pod) list \<Rightarrow> string list" where
  "workload_files env path = map (\<lambda>(clk, pod). workload_file_name env path clk pod)"


section \<open>Witnesses\<close>

definition demo_io :: io_env where
  "demo_io = \<lparr>env_ReadPod = (\<lambda>_. FileMissing), env_Yaml = (\<lambda>_. Some [(20, Some [])]),
     env_ParseQuantity = (\<lambda>s. Some (NewQuantity (if s = ''0'' then 0 else 1) DecimalSI)), env_LOAD_PHASE_CACHE = 10\<rparr>"

definition demo_workload :: workload_env where
  "demo_workload = \<lparr>we_io = demo_io, we_rfc3339 = (\<lambda>_. ''now''), we_ReadFile = (\<lambda>_. NoFile), we_NormFloat64 = (\<lambda>n. f64 (int n)),
     we_podMap = [], we_isGenWorkload = True, we_isConvertTrace = False, we_targetNum = 1\<rparr>"

definition no_load :: metrics where
  "no_load = \<lparr>m_Clock = 0, m_Nodes = [], m_Pods = [], m_Queue = \<lparr>qm_PendingPodsNum = 1, qm_QualityOfService = f64 0,
     qm_PredictionPenalty = f64 0, qm_NumSatifisedPods = f64 0, qm_NumPods = f64 0\<rparr>\<rparr>"

theorem generates_up_to_target_witness:
  "\<exists>s' ps'. Submit (mySubmitter (demo_workload\<lparr>we_targetNum := 5\<rparr>) (newMySubmitter 3 7)) 7 [] no_load (\<lambda>_. empty_pod) =
     Inr (mySubmitter (demo_workload\<lparr>we_targetNum := 5\<rparr>) s', ps',
       [SubmitEvent 0, SubmitEvent 1, SubmitEvent 2, TerminateSubmitterEvent])"
proof -
  let ?env = "demo_workload\<lparr>we_targetNum := 5\<rparr>"
  let ?s = "newMySubmitter 3 7"
  have "generating ?env" "parses (we_io ?env)" "my_ready ?s" "\<not> clock_Before (my_endClock ?s) 7" "counts_fit ?env no_load"
    by (simp_all add: generating_def demo_workload_def parses_def demo_io_def my_ready_def newMySubmitter_def clock_Before_def
        counts_fit_def no_load_def running_pods_def)
  note here = generates_up_to_target [OF this, of "[]" "\<lambda>_. empty_pod"]
  have "missing_pods ?env no_load = 4" by (simp add: missing_pods_def no_load_def running_pods_def)
  moreover have "batch_events ?s 4 = [SubmitEvent 0, SubmitEvent 1, SubmitEvent 2, TerminateSubmitterEvent]" by code_simp
  ultimately show ?thesis using here by auto
qed


end
