(* ===== verification/Experiment.thy ===== *)
theory Experiment
  imports Trace
begin

text \<open>
  The main program of the experiments (rootCmd and buildScheduler of src/experiments/main.go): from the
  flags to the simulator, its queue, its scheduler and its submitter, and the run of it. With both -isgen and
  -istrace the trace is converted and nothing is simulated. log.L.Fatal ends the process. The factors of the
  over-subscription are set after the simulator is built, from the nodes it lists, and the scheduler reads
  them afterwards. Interrupting the process is the argument ke_Done of the simulator.
\<close>

record experiment_flags =
  xf_scheduler :: string
  xf_isDistributedTasks :: bool
  xf_globalOverSubFactor :: gofloat
  xf_queueClass :: int
  xf_priorityType :: int
  xf_endClockStr :: string
  xf_configPath :: string
  xf_totalPodsNum :: nat

datatype experiment_end = Converted | Fatal | Ran run_end

text \<open>Any other class leaves the interface nil.\<close>

definition queue_of_class :: "pods \<Rightarrow> int \<Rightarrow> int \<Rightarrow> pod_queue option res" where
  "queue_of_class ps queueClass priorityType =
     (if queueClass = 0 then Inr (Some (Fifo NewFIFOQueue))
      else if queueClass = 1 then res_bind (NewPriorityQueue ps priorityType) (\<lambda>q. Inr (Some (Prio q)))
      else Inr None)"

text \<open>How many pods the submitter submits: the flag, or without -isgen the number of files.\<close>

definition total_pods :: "workload_env \<Rightarrow> experiment_flags \<Rightarrow> string list \<Rightarrow> nat" where
  "total_pods env xf visited =
     (if we_isGenWorkload env then xf_totalPodsNum xf else snd (walk_workload visited [] 0))"

definition with_workload :: "workload_env \<Rightarrow> string list \<Rightarrow> workload_env" where
  "with_workload env visited = env\<lparr>we_podMap := fst (walk_workload visited [] 0)\<rparr>"

definition experiment_scheduler :: "sched_env \<Rightarrow> vendored_plugins \<Rightarrow> experiment_flags \<Rightarrow> kubesim \<Rightarrow> scheduler" where
  "experiment_scheduler senv plugins xf k =
     (let nodes = (case kube_List k of Inr nodes \<Rightarrow> nodes | Inl _ \<Rightarrow> []);
          fs = initial_factors (oversub_factor (xf_globalOverSubFactor xf) (xf_scheduler xf)) nodes
      in Schedule senv (buildScheduler plugins fs (xf_isDistributedTasks xf) (xf_scheduler xf)))"

text \<open>The simulator with its submitter, its scheduler and its metrics writers, unless the program ends before.\<close>

definition setup_experiment ::
  "viper \<Rightarrow> config_env \<Rightarrow> trace_env \<Rightarrow> workload_env \<Rightarrow> sched_env \<Rightarrow> vendored_plugins \<Rightarrow>
     experiment_flags \<Rightarrow> string list \<Rightarrow> heap \<Rightarrow> experiment_end + kubesim \<times> scheduler \<times> file_writer list" where
  "setup_experiment vip cenv te env senv plugins xf visited h =
     (if we_isGenWorkload env \<and> we_isConvertTrace env then Inl Converted
      else case queue_of_class (hp_pods h) (xf_queueClass xf) (xf_priorityType xf) of
        Inl e \<Rightarrow> Inl (Ran (Panicked e))
      | Inr q \<Rightarrow>
          (case BuildClock te (xf_endClockStr xf) 0 of (endClock, err) \<Rightarrow>
            (let podQueue = (case q of None \<Rightarrow> Fifo NewFIFOQueue | Some q \<Rightarrow> q)
             in case NewKubeSimFromConfigPathOrDie vip cenv (xf_configPath xf) podQueue endClock h NewFIFOQueue [] of
                  None \<Rightarrow> Inl Fatal
                | Some (k, ws) \<Rightarrow>
                    if err \<noteq> None then Inl Fatal
                    else if q = None then Inl (Ran (Panicked (Panic ''nil pointer dereference'')))
                    else
                      let submitter = mySubmitter (with_workload env visited) (newMySubmitter (total_pods env xf visited) endClock)
                      in Inr (kube_AddSubmitter k ''MySubmitter'' submitter, experiment_scheduler senv plugins xf k, ws))))"

definition run_experiment ::
  "viper \<Rightarrow> config_env \<Rightarrow> kube_env \<Rightarrow> trace_env \<Rightarrow> workload_env \<Rightarrow> sched_env \<Rightarrow> vendored_plugins \<Rightarrow> estimator \<Rightarrow>
     experiment_flags \<Rightarrow> string list \<Rightarrow> heap \<Rightarrow> experiment_end option" where
  "run_experiment vip cenv ke te env senv plugins es xf visited h =
     (case setup_experiment vip cenv te env senv plugins xf visited h of
        Inl finished \<Rightarrow> Some finished
      | Inr (k, sched, ws) \<Rightarrow> map_option Ran (Run (ke\<lparr>ke_writers := kube_writers cenv ws\<rparr>) sched es k))"

end
