(* ===== verification/ExperimentRuns.thy ===== *)
theory ExperimentRuns
  imports Experiment WorkloadProperties SetupProperties
begin

text \<open>
  The experiments as a whole: an experiment ends, whatever its flags, and one that generates its pods keeps
  the invariant of the simulator and every pod it submitted, in each iteration of the main loop.
\<close>

interpretation runs: driven_simulator "first_pods podsNum" "generated env podsNum" "Schedule (keeping senv) sched"
  for podsNum env senv sched
  by (rule driven_simulator.intro) (rule generated.submitter_contract_axioms, rule keep.scheduler_contract_axioms)

lemma queue_of_class_reach:
  assumes "queue_of_class ps queueClass priorityType = Inr (Some q)"
  shows "queue_reach ps q" "pending q = {}"
proof -
  from assms consider "q = Fifo NewFIFOQueue" | c p where "q = Prio p" "NewPriorityQueueWithComparator ps c = Inr p"
    by (auto simp: queue_of_class_def NewPriorityQueue_def res_bind_Inr_iff split: if_splits)
  then have "queue_reach ps q \<and> queue_live q = Map.empty"
  proof cases
    case 1
    then show ?thesis using queue_reach.new_fifo by (simp add: queue_live_def fifo_live_NewFIFOQueue)
  next
    case 2
    then show ?thesis using queue_reach.new_prio new_prio_inv(2) by (simp add: queue_live_def)
  qed
  then show "queue_reach ps q" "pending q = {}" by (simp_all add: pending_def)
qed

lemma from_path_Some:
  assumes "NewKubeSimFromConfigPathOrDie vip cenv path q endClock h failQueue cache = Some (k, ws)"
  obtains conf where "readConfig vip path = Inr conf" "NewKubeSim cenv conf q endClock h failQueue cache = Inr (k, ws)"
  using assms by (auto simp: NewKubeSimFromConfigPathOrDie_def NewKubeSimFromConfigPath_def split: sum.splits)

lemma setup_experiment_Inr:
  assumes "setup_experiment vip cenv te env senv plugins xf visited h = Inr (k, sched, ws)"
  obtains q conf k0 endClock where "queue_of_class (hp_pods h) (xf_queueClass xf) (xf_priorityType xf) = Inr (Some q)"
    "readConfig vip (xf_configPath xf) = Inr conf" "NewKubeSim cenv conf q endClock h NewFIFOQueue [] = Inr (k0, ws)"
    "k = kube_AddSubmitter k0 ''MySubmitter''
       (mySubmitter (with_workload env visited) (newMySubmitter (total_pods env xf visited) endClock))"
    "sched = experiment_scheduler senv plugins xf k0"
  using assms unfolding setup_experiment_def Let_def
  by (auto split: if_splits sum.splits prod.splits option.splits elim: from_path_Some)

lemma new_experiment_driven:
  assumes start: "setup_experiment vip cenv te env senv plugins xf visited h = Inr (k, sched, ws)"
    and gen: "generating env" and small: "xf_totalPodsNum xf < 2 ^ 64" and empty: "hp_next h = 0"
  shows "driven (first_pods (xf_totalPodsNum xf)) (generated (with_workload env visited) (xf_totalPodsNum xf)) k"
  using start
proof (rule setup_experiment_Inr)
  fix q conf k0 endClock
  assume q: "queue_of_class (hp_pods h) (xf_queueClass xf) (xf_priorityType xf) = Inr (Some q)"
    and new: "NewKubeSim cenv conf q endClock h NewFIFOQueue [] = Inr (k0, ws)"
    and k: "k = kube_AddSubmitter k0 ''MySubmitter''
       (mySubmitter (with_workload env visited) (newMySubmitter (total_pods env xf visited) endClock))"
  let ?s = "newMySubmitter (xf_totalPodsNum xf) endClock"
  note r = queue_of_class_reach [OF q]
  from new obtain nodes clk tick mtick where k0: "k0 = \<lparr>k_tick = tick, k_clock = clk, k_nodes = nodes, k_nodeNames = sort (map fst nodes),
      k_pendingPods = q, k_boundPods = [], k_submitters = [], k_metricsTick = mtick,
      k_endClock = endClock, k_heap = h, k_failQueue = NewFIFOQueue, k_cache = []\<rparr>"
    by (rule NewKubeSim_Inr) blast
  have ok: "kube_ok k" using kube_new_ok [OF NewKubeSim_new [OF new r(1)]] by (simp add: k kube_AddSubmitter_def)
  have none: "in_use k = {}"
    using r(2) empty by (simp add: k k0 kube_AddSubmitter_def in_use_def unplaced_def sim_pods_def waiting_def fifo_live_NewFIFOQueue)
  have sub: "k_submitters k = [(''MySubmitter'', mySubmitter (with_workload env visited) ?s)]"
    using gen by (simp add: k k0 kube_AddSubmitter_def total_pods_def generating_def)
  have "generated (with_workload env visited) (xf_totalPodsNum xf) {} ps (mySubmitter (with_workload env visited) ?s)" for ps
    using gen small by (auto simp: generated_def generating_def with_workload_def my_ready_def newMySubmitter_def intro!: exI [of _ ?s])
  with ok none sub show ?thesis by (auto simp: driven_def first_pods_def)
qed

text \<open>
  C2: An experiment loses no pod. In an experiment that generates its pods, with KeepScheduling on, whatever its
  other flags, scheduler and queue are and whatever numbers are drawn: in every state the main loop comes to, the
  invariant of the simulator holds; the pods that are waiting for a node or have been bound to one are exactly
  the first ones the submitter generates, at most as many as it may; and those of an earlier state are among them.
\<close>

theorem experiment_loses_no_pod:
  assumes "setup_experiment vip cenv te env (keeping senv) plugins xf visited h = Inr (k, sched, ws)"
    "generating env" "xf_totalPodsNum xf < 2 ^ 64" "hp_next h = 0"
    "Run_start ke es k = Inr rs" "(next_state ke sched)\<^sup>*\<^sup>* rs rs1" "(next_state ke sched)\<^sup>*\<^sup>* rs1 rs2"
  shows "kube_ok (rs_kube rs2) \<and> (\<exists>n \<le> max 1 (xf_totalPodsNum xf). unplaced (rs_kube rs2) \<union> sim_pods (k_heap (rs_kube rs2)) = {..<n}) \<and>
    in_use (rs_kube rs1) \<subseteq> in_use (rs_kube rs2)"
proof -
  obtain plugged where sched: "sched = Schedule (keeping senv) plugged"
    using assms(1) by (rule setup_experiment_Inr) (simp add: experiment_scheduler_def Let_def)
  obtain k' met where start: "kube_metrics ke es k = Inr (k', met)" "rs_kube rs = k'"
    using assms(5) by (auto simp: Run_start_def split: sum.splits)
  have d: "driven (first_pods (xf_totalPodsNum xf)) (generated (with_workload env visited) (xf_totalPodsNum xf)) (rs_kube rs)"
    using runs.metrics_driven [OF new_experiment_driven [OF assms(1-4)] start(1)] start(2) by simp
  note run = runs.run_driven [OF assms(6) [unfolded sched] d]
  note run2 = runs.run_driven [OF assms(7) [unfolded sched] conjunct1 [OF run]]
  then show ?thesis by (auto simp: driven_def first_pods_def in_use_def)
qed

text \<open>
  C11: An experiment ends: if the configuration it reads, if it can be read, has a positive tick that in nanoseconds
  fits an int64, the main program comes to an end, whatever its flags, files and random numbers are.
\<close>

theorem experiment_ends:
  assumes "\<And>conf. readConfig vip (xf_configPath xf) = Inr conf \<Longrightarrow> 0 < co_Tick conf \<and> co_Tick conf \<le> 9223372036"
  shows "\<exists>finished. run_experiment vip cenv ke te env senv plugins es xf visited h = Some finished"
proof (cases "setup_experiment vip cenv te env senv plugins xf visited h")
  case (Inl finished)
  then show ?thesis by (simp add: run_experiment_def)
next
  case (Inr r)
  obtain k sched ws where r: "r = (k, sched, ws)" by (metis prod.collapse)
  from Inr [unfolded r] show ?thesis
  proof (rule setup_experiment_Inr)
    fix q conf k0 endClock
    assume conf: "readConfig vip (xf_configPath xf) = Inr conf" and new: "NewKubeSim cenv conf q endClock h NewFIFOQueue [] = Inr (k0, ws)"
      and k: "k = kube_AddSubmitter k0 ''MySubmitter''
        (mySubmitter (with_workload env visited) (newMySubmitter (total_pods env xf visited) endClock))"
      and sched: "sched = experiment_scheduler senv plugins xf k0"
    have "k_tick k = co_Tick conf * second"
      using new assms [OF conf] by (elim NewKubeSim_Inr) (simp add: k kube_AddSubmitter_def seconds_def second_def i64_id in64_def)
    then have "0 < k_tick k" using assms [OF conf] by (simp add: second_def)
    from Run_returns [OF this] obtain e where "Run (ke\<lparr>ke_writers := kube_writers cenv ws\<rparr>) sched es k = Some e"
      unfolding sched experiment_scheduler_def Let_def by blast
    with Inr show ?thesis by (simp add: run_experiment_def r)
  qed
qed

section \<open>Witnesses\<close>

text \<open>One node, and a submitter that keeps one pod in the cluster and stops after the third.\<close>

definition demo_flags :: experiment_flags where
  "demo_flags = \<lparr>xf_scheduler = ''BestFit'', xf_isDistributedTasks = True, xf_globalOverSubFactor = f64 1, xf_queueClass = 0,
     xf_priorityType = 0, xf_endClockStr = ''2019-01-01T01:00:00Z'', xf_configPath = ''cluster'', xf_totalPodsNum = 3\<rparr>"

definition demo_viper :: viper where
  "demo_viper = \<lparr>vi_ReadInConfig = (\<lambda>path. if path = ''cluster'' then Inr ''nodes'' else Inl (ResultError ''no such file'')),
     vi_Unmarshal = (\<lambda>_ conf. Inr (conf\<lparr>co_Cluster := [\<lparr>nc_Name = ''n0'', nc_Allocatable = [(cpu, ''8''), (memory, ''8''), (pods_name, ''4'')]\<rparr>]\<rparr>))\<rparr>"

definition demo_trace :: trace_env where
  "demo_trace = \<lparr>te_Atoi = (\<lambda>_. 0), te_ParseFloat = (\<lambda>_. f64 0), te_csv = (\<lambda>_. None), te_sort = (\<lambda>paths. paths),
     te_ParseTime = (\<lambda>_. Inr (3600 * second)), te_Now = 0\<rparr>"

definition empty_heap :: heap where
  "empty_heap = \<lparr>hp_pods = (\<lambda>_. empty_pod), hp_sims = (\<lambda>_. demo_sim_pod), hp_next = 0\<rparr>"

definition demo_plugins :: vendored_plugins where
  "demo_plugins = \<lparr>ve_GeneralPredicates = PodFitsResources, ve_BalancedResourceAllocationMap = MostRequestedPriorityMap\<rparr>"

abbreviation demo_experiment :: "experiment_end + kubesim \<times> scheduler \<times> file_writer list" where
  "demo_experiment \<equiv> setup_experiment demo_viper demo_config_env demo_trace demo_workload (keeping demo_sched_env)
     demo_plugins demo_flags [] empty_heap"

definition scripted :: "workload_env \<Rightarrow> (my_submitter \<Rightarrow> submitter) \<Rightarrow> my_submitter \<Rightarrow> submitter" where
  "scripted env f s = Submitter (\<lambda>clk nodes met ps. map_sum id (map_prod f id) (mySubmitter_Submit env s clk met ps))"

definition first_tick :: "(my_submitter \<Rightarrow> submitter) \<Rightarrow> (string list \<times> nat) option" where
  "first_tick f =
     (case NewKubeSimFromConfigPathOrDie demo_viper demo_config_env ''cluster'' (Fifo NewFIFOQueue) (3600 * second) empty_heap NewFIFOQueue [] of
        None \<Rightarrow> None
      | Some (k, ws) \<Rightarrow>
          (case Run_start (demo_kube_env\<lparr>ke_io := demo_io\<rparr>) demo_estimator
              (kube_AddSubmitter k ''MySubmitter'' (scripted demo_workload f (newMySubmitter 3 (3600 * second)))) of
             Inl _ \<Rightarrow> None
           | Inr rs \<Rightarrow>
               (case Run_step (demo_kube_env\<lparr>ke_io := demo_io\<rparr>) (experiment_scheduler (keeping demo_sched_env) demo_plugins demo_flags k) rs of
                  Some (Inr rs1) \<Rightarrow> Some (map fst (k_boundPods (rs_kube rs1)), length (k_submitters (rs_kube rs1)))
                | _ \<Rightarrow> None)))"

lemma first_tick: "first_tick f = Some ([''default/pod-0''], 1)"
  by code_simp

lemma mySubmitter_scripted: "mySubmitter env s = scripted env (mySubmitter env) s"
  by (subst mySubmitter.code) (simp add: scripted_def)

lemma demo_run:
  obtains k sched ws rs rs1 where "demo_experiment = Inr (k, sched, ws)"
    "Run_start (demo_kube_env\<lparr>ke_io := demo_io\<rparr>) demo_estimator k = Inr rs"
    "next_state (demo_kube_env\<lparr>ke_io := demo_io\<rparr>) sched rs rs1" "map fst (k_boundPods (rs_kube rs1)) = [''default/pod-0'']"
proof -
  let ?s = "newMySubmitter 3 (3600 * second)"
  obtain k ws rs rs1 where run:
    "NewKubeSimFromConfigPathOrDie demo_viper demo_config_env ''cluster'' (Fifo NewFIFOQueue) (3600 * second) empty_heap NewFIFOQueue [] = Some (k, ws)"
    "Run_start (demo_kube_env\<lparr>ke_io := demo_io\<rparr>) demo_estimator
       (kube_AddSubmitter k ''MySubmitter'' (scripted demo_workload (mySubmitter demo_workload) ?s)) = Inr rs"
    "Run_step (demo_kube_env\<lparr>ke_io := demo_io\<rparr>) (experiment_scheduler (keeping demo_sched_env) demo_plugins demo_flags k) rs = Some (Inr rs1)"
    "map fst (k_boundPods (rs_kube rs1)) = [''default/pod-0'']"
    using first_tick [of "mySubmitter demo_workload"] unfolding first_tick_def
    by (auto split: option.splits sum.splits prod.splits)
  have env: "with_workload demo_workload [] = demo_workload" by (simp add: with_workload_def demo_workload_def)
  have "demo_experiment = Inr (kube_AddSubmitter k ''MySubmitter'' (mySubmitter demo_workload ?s),
      experiment_scheduler (keeping demo_sched_env) demo_plugins demo_flags k, ws)"
    using run(1) env
    by (simp add: setup_experiment_def demo_flags_def demo_workload_def queue_of_class_def BuildClock_def demo_trace_def
        clock_Add_def i64_def total_pods_def)
  with run(2-4) that show thesis unfolding next_state_def by (metis mySubmitter_scripted)
qed

theorem experiment_loses_no_pod_witness:
  "\<exists>k sched ws rs rs1. demo_experiment = Inr (k, sched, ws) \<and>
     Run_start (demo_kube_env\<lparr>ke_io := demo_io\<rparr>) demo_estimator k = Inr rs \<and>
     next_state (demo_kube_env\<lparr>ke_io := demo_io\<rparr>) sched rs rs1 \<and> map fst (k_boundPods (rs_kube rs1)) = [''default/pod-0''] \<and>
     kube_ok (rs_kube rs1) \<and> in_use (rs_kube rs) \<subseteq> in_use (rs_kube rs1)"
proof -
  obtain k sched ws rs rs1 where run: "demo_experiment = Inr (k, sched, ws)"
    "Run_start (demo_kube_env\<lparr>ke_io := demo_io\<rparr>) demo_estimator k = Inr rs"
    "next_state (demo_kube_env\<lparr>ke_io := demo_io\<rparr>) sched rs rs1" "map fst (k_boundPods (rs_kube rs1)) = [''default/pod-0'']"
    by (rule demo_run)
  have "generating demo_workload" "xf_totalPodsNum demo_flags < 2 ^ 64" "hp_next empty_heap = 0"
    by (simp_all add: generating_def demo_workload_def demo_flags_def empty_heap_def)
  note start = this
  have "(next_state (demo_kube_env\<lparr>ke_io := demo_io\<rparr>) sched)\<^sup>*\<^sup>* rs rs1" by (rule r_into_rtranclp) (rule run(3))
  note kept = experiment_loses_no_pod [OF run(1) start run(2) rtranclp.rtrancl_refl this]
  show ?thesis
    by (intro exI conjI) (rule run(1), rule run(2), rule run(3), rule run(4), rule conjunct1 [OF kept], rule conjunct2 [OF conjunct2 [OF kept]])
qed

theorem experiment_ends_witness:
  "\<exists>finished. run_experiment demo_viper demo_config_env demo_kube_env demo_trace demo_workload demo_sched_env demo_plugins
     demo_estimator demo_flags [] empty_heap = Some finished"
proof (rule experiment_ends)
  fix conf
  assume "readConfig demo_viper (xf_configPath demo_flags) = Inr conf"
  then have "co_Tick conf = 10" by (auto simp: readConfig_def demo_viper_def demo_flags_def default_config_def)
  then show "0 < co_Tick conf \<and> co_Tick conf \<le> 9223372036" by simp
qed

end
