(* ===== verification/Example.thy ===== *)
theory Example
  imports Workload
begin

text \<open>
  src/example: the program that shows how to use the library. Its submitter keeps a number of pods pending
  and deletes the last pod of the call before; its scheduler is the default one of the experiments with
  preemption. The numbers math/rand draws are an argument: the n-th draw, reduced to the range it is drawn
  from. Its main function calls NewKubeSimFromConfigPathOrDie without an end clock, which does not compile, so
  that it has no model.
\<close>

section \<open>The submitter\<close>

record example_submitter =
  ex_podIdx :: nat
  ex_targetPodsNum :: int
  ex_draws :: nat

definition newExampleSubmitter :: "int \<Rightarrow> example_submitter" where
  "newExampleSubmitter targetPodsNum = \<lparr>ex_podIdx = 0, ex_targetPodsNum = targetPodsNum, ex_draws = 0\<rparr>"

definition Intn :: "(nat \<Rightarrow> nat) \<Rightarrow> nat \<Rightarrow> nat \<Rightarrow> nat" where
  "Intn source draw n = source draw mod n"

text \<open>The number of phases is drawn anew before each of them.\<close>

function example_phases :: "(nat \<Rightarrow> nat) \<Rightarrow> nat \<Rightarrow> nat \<Rightarrow> string \<times> nat" where
  "example_phases source draw i =
     (if i < Intn source draw 4 + 1 then
        let sec = 60 * Intn source (draw + 1) 60; c = 1 + Intn source (draw + 2) 4;
            m = 1 + Intn source (draw + 3) 4; g = Intn source (draw + 4) 2;
            (rest, draws) = example_phases source (draw + 5) (i + 1)
        in (phase_text [] ''Gi'' (int sec) (int c) (int m) (int g) @ rest, draws)
      else ([], draw + 1))"
  by pat_completeness auto

termination
proof (relation "measure (\<lambda>(source, draw, i). 4 - i)")
  fix source draw i
  assume "i < Intn source draw 4 + 1"
  moreover have "Intn source draw 4 < 4" by (simp add: Intn_def)
  ultimately show "((source, draw + 5, i + 1), source, draw, i) \<in> measure (\<lambda>(source, draw, i). 4 - i)" by simp
qed simp

declare example_phases.simps [simp del]

definition example_newPod :: "io_env \<Rightarrow> (nat \<Rightarrow> nat) \<Rightarrow> nat \<Rightarrow> nat \<Rightarrow> (v1_pod \<times> nat) res" where
  "example_newPod io source draw idx =
     (let (simSpec, draw) = example_phases source draw 0; prio = int (Intn source draw 3 div 2)
      in res_bind (workload_pod io (pod_name idx) [(''simSpec'', simSpec)] prio (''4'', ''4Gi'', ''1'') (''6'', ''6Gi'', ''1''))
           (\<lambda>pod. Inr (pod, draw + 1)))"

fun example_loop ::
  "io_env \<Rightarrow> (nat \<Rightarrow> nat) \<Rightarrow> nat \<Rightarrow> example_submitter \<Rightarrow> pods \<Rightarrow> submit_event list \<Rightarrow>
     (example_submitter \<times> pods \<times> submit_event list) res" where
  "example_loop io source 0 s ps events = Inr (s, ps, events)"
| "example_loop io source (Suc n) s ps events =
     res_bind (example_newPod io source (ex_draws s) (ex_podIdx s)) (\<lambda>(pod, draw).
       example_loop io source n (s\<lparr>ex_podIdx := u64_inc (ex_podIdx s), ex_draws := draw\<rparr>)
         (ps(ex_podIdx s := pod)) (events @ [SubmitEvent (ex_podIdx s)]))"

text \<open>The slice of events has a capacity of one more than the pods, which overflows for the greatest int64 only.\<close>

definition example_Submit ::
  "io_env \<Rightarrow> (nat \<Rightarrow> nat) \<Rightarrow> example_submitter \<Rightarrow> metrics \<Rightarrow> pods \<Rightarrow> (example_submitter \<times> pods \<times> submit_event list) res" where
  "example_Submit io source s met ps =
     (let submissionNum = i64 (ex_targetPodsNum s - int (qm_PendingPodsNum (m_Queue met)))
      in if submissionNum \<le> 0 then Inr (s, ps, [])
         else if i64 (submissionNum + 1) < 0 then Inl (Panic ''makeslice: cap out of range'')
         else
           let events = (if ex_podIdx s > 0 then [SubmitDeleteEvent (pod_name (ex_podIdx s - 1)) ''default''] else [])
           in res_bind (example_loop io source (nat submissionNum) s ps events) (\<lambda>(s, ps, events).
                Inr (s, ps, events @ (if ex_podIdx s > 1024 then [TerminateSubmitterEvent] else []))))"

primcorec exampleSubmitter :: "io_env \<Rightarrow> (nat \<Rightarrow> nat) \<Rightarrow> example_submitter \<Rightarrow> submitter" where
  "exampleSubmitter io source s = Submitter (\<lambda>clk nodes met ps.
     map_sum id (map_prod (exampleSubmitter io source) id) (example_Submit io source s met ps))"

section \<open>The scheduler\<close>

definition example_scheduler :: "vendored_plugins \<Rightarrow> plugged_scheduler" where
  "example_scheduler plugins cache =
     AddPrioritizer (AddPrioritizer
       (AddPredicate (AddExtender (NewGenericScheduler True) my_extender) ''GeneralPredicates'' (ve_GeneralPredicates plugins))
       (map_prioritizer (ve_BalancedResourceAllocationMap plugins))) (map_prioritizer LeastRequestedPriorityMap)"

section \<open>What it submits\<close>

definition example_parses :: "io_env \<Rightarrow> bool" where
  "example_parses io \<longleftrightarrow> list_all (\<lambda>s. env_ParseQuantity io s \<noteq> None) [''4'', ''4Gi'', ''1'', ''6'', ''6Gi'']"

lemma example_loop_spec:
  "example_parses io \<Longrightarrow> ex_podIdx s + n < 2 ^ 64 \<Longrightarrow>
     \<exists>s' ps'. example_loop io source n s ps events = Inr (s', ps', events @ map SubmitEvent [ex_podIdx s..<ex_podIdx s + n]) \<and>
       ex_podIdx s' = ex_podIdx s + n"
proof (induction io source n s ps events rule: example_loop.induct)
  case (2 io source n s ps events)
  obtain simSpec d where "example_phases source (ex_draws s) 0 = (simSpec, d)" by force
  then obtain pod draw where pod: "example_newPod io source (ex_draws s) (ex_podIdx s) = Inr (pod, draw)"
    using "2.prems"(1)
    by (auto simp: example_newPod_def workload_pod_def resources_of_def MustParse_def example_parses_def Let_def)
  have idx: "u64_inc (ex_podIdx s) = ex_podIdx s + 1" using "2.prems"(2) by (simp add: u64_inc_def)
  have pods: "[ex_podIdx s..<ex_podIdx s + Suc n] = ex_podIdx s # [ex_podIdx s + 1..<ex_podIdx s + 1 + n]" by (simp add: upt_rec)
  obtain s' ps' where rest: "example_loop io source n (s\<lparr>ex_podIdx := ex_podIdx s + 1, ex_draws := draw\<rparr>)
        (ps(ex_podIdx s := pod)) (events @ [SubmitEvent (ex_podIdx s)]) =
      Inr (s', ps', (events @ [SubmitEvent (ex_podIdx s)]) @ map SubmitEvent [ex_podIdx s + 1..<ex_podIdx s + 1 + n])"
    "ex_podIdx s' = ex_podIdx s + 1 + n"
    using "2.IH" [OF "2.prems"(1), of draw pod] "2.prems"(2) unfolding idx by (auto simp: fun_upd_def)
  show ?case
    unfolding pods using rest by (simp add: pod idx)
qed simp

text \<open>
  The submitter of the example keeps its number of pods pending: it submits exactly the missing ones, the next in
  order, after deleting the last pod it has submitted, and ends once it has submitted more than 1024.
\<close>

theorem example_keeps_pending:
  assumes "example_parses io" "0 < missing" "missing = ex_targetPodsNum s - int (qm_PendingPodsNum (m_Queue met))"
    "missing < 2 ^ 62" "int (ex_podIdx s) + missing < 2 ^ 64"
  shows "\<exists>s' ps'. example_Submit io source s met ps = Inr (s', ps',
      (if ex_podIdx s > 0 then [SubmitDeleteEvent (pod_name (ex_podIdx s - 1)) ''default''] else []) @
      map SubmitEvent [ex_podIdx s..<ex_podIdx s + nat missing] @
      (if ex_podIdx s + nat missing > 1024 then [TerminateSubmitterEvent] else [])) \<and>
    ex_podIdx s' = ex_podIdx s + nat missing"
proof -
  have "i64 missing = missing" "\<not> i64 (missing + 1) < 0" using assms(2,4) by (auto simp: i64_id in64_def)
  moreover have "int (ex_podIdx s + nat missing) < int (2 ^ 64)" using assms(2,5) by simp
  then have "ex_podIdx s + nat missing < 2 ^ 64" by (simp only: of_nat_less_iff)
  from example_loop_spec [OF assms(1) this] obtain s' ps' where
    "example_loop io source (nat missing) s ps
        (if ex_podIdx s > 0 then [SubmitDeleteEvent (pod_name (ex_podIdx s - 1)) ''default''] else []) =
      Inr (s', ps', (if ex_podIdx s > 0 then [SubmitDeleteEvent (pod_name (ex_podIdx s - 1)) ''default''] else []) @
        map SubmitEvent [ex_podIdx s..<ex_podIdx s + nat missing])" "ex_podIdx s' = ex_podIdx s + nat missing"
    by blast
  ultimately show ?thesis using assms(2) by (simp add: example_Submit_def Let_def flip: assms(3))
qed

end
