(* ===== verification/Spec2Isabelle.thy ===== *)
theory Spec2Isabelle
  imports QueueProperties ResourceProperties PodProperties NodeProperties FilterProperties SchedulerProperties
    PreemptionProperties PlacementProperties KubeProperties MetricsProperties
    CapacityProperties ProposedProperties FormatterProperties SetupProperties ExperimentProperties
    TraceProperties WorkloadProperties ExperimentRuns Example
begin

text \<open>
  A verified model of the Kubernetes cluster simulator: the Go library under src/pkg, the experiments under
  src/experiments that run it, the example under src/example, and the parts of src/vendor they compute with.

  \<^bold>\<open>The program and its parts.\<close> A simulator (kubesim.go) is built from a configuration (pkg/config). It owns a
  cluster of simulated nodes (pkg/node), a queue of pending pods (pkg/queue), the pods bound to nodes
  (pkg/pod), and a clock (pkg/clock). At every tick
    \<^item> the submitters (pkg/submitter) send events that add, delete and update pods;
    \<^item> the scheduler (pkg/scheduler) takes pods from the front of the queue, filters the nodes with
      predicate plugins and extenders, scores them with prioritizer plugins and extenders, and answers with
      events that bind pods to nodes or delete pods that are preempted;
    \<^item> the simulator carries these events out, advances the clock, rebuilds the metrics (pkg/metrics) with
      one goroutine per node, and on every metrics tick writes them out and collects the pods that are over.
  The loop ends when the context is done, the end clock is reached, or there is nothing left to do.

  \<^bold>\<open>How Go is modelled.\<close> Prelude has the conventions. Functions are total functions on explicit states; an
  \<open>error\<close> is the value \<open>Inl e\<close> and a run-time panic is the error \<open>Panic\<close>, so every early return, nil pointer
  and failed type assertion is a branch. Integers of a fixed width are \<open>int\<close>s with the wrap-around written
  out (\<open>i32\<close>, \<open>i64\<close>), float32 and float64 are IEEE numbers rounded to nearest even (GoFloat), a map is an
  association list in the order a range loop visits it, and pods are shared by pointers into the stores \<open>pods\<close>
  and \<open>heap\<close>. Goroutines commute up to the order in which they commit, which is an argument (\<open>se_order\<close>,
  \<open>ke_order\<close>); every statement about them holds for all orders. What is not under src/, or is given by the
  user, is an argument: plugins, extender callbacks, submitters, files, parsing of YAML, JSON, quantities and
  clocks.

  \<^bold>\<open>The theories.\<close>
    \<^item> Prelude, Clock: errors, results, fixed width integers, association lists; pkg/clock.
    \<^item> Quantity, Api, Util, UtilFloat, Resource: vendored resource quantities on both of their
      representations, the fields of pods and nodes, pkg/util, the \<open>Resource\<close> totals of the vendored scheduler.
      ResourceProperties: quantities compute exactly; resource lists, keys and conditions do what they say.
    \<^item> QueueContract, FifoQueue, ContainerHeap, PriorityQueue, PodQueue: pkg/queue. The locales
      \<open>pod_queue_contract\<close> states what the clients of the interface rely on; both queues
      are interpreted in it, and the heap in \<open>heap_interface\<close> and \<open>heap_order\<close>. FifoQueue has an abstraction to the list of pending pods, PriorityQueue the
      representation invariant \<open>raw_wf\<close>. QueueProperties: the queue as a state
      machine (\<open>queue_reach\<close>), the order in which pods leave, nominations.
    \<^item> SimPod (spec.go, pod.go), NodeInfo, SimNode: a pod is a list of phases read against the clock, a node
      a map of pods; PodProperties and NodeProperties: their invariants, states and totals.
    \<^item> Plugin, Extender, Preemption, GenericScheduler: pkg/scheduler; the state of a pass is \<open>sched_state\<close>,
      one iteration of its loop is \<open>Schedule_step\<close> with the outcomes Continue, Break, Return and Fail.
      FilterProperties, SchedulerProperties, PreemptionProperties: one pod. ScheduleProperties,
      PlacementProperties: a whole pass. ResourcePredicates and CapacityProperties: the resource predicates
      of the vendored scheduler, and what they make of a pass.
    \<^item> ProposedScheduler, ProposedProperties: proposed_scheduler.go, which over-subscribes nodes by a factor
      it adapts to the metrics, and its equivalence with the generic scheduler.
    \<^item> GoFloat, Metrics, Estimate, MetricsProperties: floating point, pkg/metrics/metrics.go (sharing of CPU and
      memory, quality of service), and the prediction of scheduler.go with its six rules.
    \<^item> KubeSim, SchedulerContract, KubeProperties: the main loop, over any scheduler. The locales
      \<open>scheduler_returns\<close> and \<open>scheduler_contract\<close> are what it relies on, interpreted for both schedulers; the
      invariant \<open>kube_ok\<close> holds in every state of \<open>kube_reach\<close>.
    \<^item> Config, KubeSetup, SetupProperties: pkg/config and the constructors of kubesim.go.
    \<^item> Formatter, FormatterProperties: the text formatters and the file writer of pkg/metrics.
    \<^item> ExperimentPlugins, ExperimentProperties: the schedulers of src/experiments/main.go, whose extender
      callbacks read what a pass has kept in package variables, and what they add up to.
    \<^item> SubmitterContract: the locale \<open>submitter_contract\<close> says which pods a submitter may still send, and
      \<open>driven_simulator\<close> carries \<open>kube_ok\<close> through a whole run of any submitter and scheduler that keep their
      contracts.
    \<^item> Workload, WorkloadProperties: src/experiments/submitter.go, which generates pods up to a target and
      replays a folder of pod files; its submitter is interpreted in \<open>submitter_contract\<close>.
    \<^item> Trace, TraceProperties: src/experiments/utils.go, which cuts the measurements of a trace into phases.
    \<^item> Experiment, ExperimentRuns: main of src/experiments from its flags to the end of the run, and what holds
      of such a run.
    \<^item> Example: the submitter and the scheduler of src/example.

  \<^bold>\<open>What is shown.\<close> Safety of the composition: a tick loses no pod (nor does an experiment, from start to end), a pass places none twice, the invariant of
  the simulator survives every operation, and none of its internal operations panics. Capacity: what the
  predicates guarantee of one placement holds of all of a pass together, so with PodFitsResources no node is
  over-committed, and with the over-subscription predicate none more than twice. Liveness: every pass returns,
  and a simulation with a positive tick ends. Functional behaviour on every branch: filtering, scoring,
  selection and preemption choose what their documentation says; queues implement a list and a sorted order;
  usage is what the phases of a pod say however it is loaded; the scheduler sees exactly the pods that use a
  node. Numbers: quantities are exact, the CPU handed out never exceeds the node, the quality of service is a
  fraction, the memory guarantee overflows. Text: tables do not depend on the order of maps and can be read
  back. Errors that the code hides or that its comments do not mention are stated as they are.

  \<^bold>\<open>Bounds and fuel.\<close> No definition takes fuel. Loops over lists are structural. The sift loops of
  container/heap end by a measure on the index. The loops of Schedule and Run are \<open>partial_function\<close>s, whose
  value None means that they do not return; \<open>Schedule_loop_total\<close> (the queue shrinks, because each iteration
  that continues pops a pod) and \<open>Run_returns\<close> (the clock approaches its end by a positive tick) show that
  they do. Where amounts must be small enough for int64 or exact in float64, the bound is a hypothesis, and a
  witness shows that it can be met.

  \<^bold>\<open>Not modelled.\<close> Logging, measurements of the time a pass takes, signals and runtime.GC have no effect on the
  simulation. Formatting and parsing of clocks, numbers, command line flags, JSON, YAML, CSV, quantities and
  configuration files is library code, taken as functions; the random numbers of a workload are a stream of
  draws; writing the pods of a trace to disk is the list of the files written. A predicate, prioritizer or
  extender callback given by a user is a function of its arguments (and of the state of the pass, where the
  program's own callbacks read package variables). The main function of src/example does not compile against
  the library as it is (it calls constructors with other arguments), so only its submitter and its choice of
  plugins are modelled. Of vendored code only what the simulator computes with is modelled: of the predicates
  PodFitsResources and PodFitsResourcesOverSub, of NodeInfo the pods and the totals.
\<close>

end
